(* ===== verification/Prelude.thy ===== *)
theory Prelude
  imports Main "HOL-Library.Word"
begin

text \<open>
  Shared vocabulary of the development: the C integer types, results with an error branch,
  the \<open>traverse\<close> loop that stops at the first error, C strings as character lists, and the
  codec interface that the parse/print pairs of the adapters implement.
\<close>

unbundle bit_operations_syntax

section \<open>Machine types\<close>

type_synonym u8 = "8 word"
type_synonym u16 = "16 word"
type_synonym u32 = "32 word"
type_synonym u64 = "64 word"

text \<open>
  A C call either returns or has undefined behaviour (a null dereference, a read past a
  buffer, a signed overflow, a division by zero). Definitions that can reach such a call
  return an \<open>outcome\<close>, so that its absence is something to prove.
\<close>

datatype 'a outcome = Returns 'a | Undefined

fun bind_outcome :: "'a outcome \<Rightarrow> ('a \<Rightarrow> 'b outcome) \<Rightarrow> 'b outcome" where
  "bind_outcome (Returns x) f = f x"
| "bind_outcome Undefined f = Undefined"

lemma bind_outcome_cong [fundef_cong]:
  "m = m' \<Longrightarrow> (\<And>x. m' = Returns x \<Longrightarrow> f x = f' x) \<Longrightarrow> bind_outcome m f = bind_outcome m' f'"
  by (cases m') auto

lemma bind_outcome_Returns [simp]:
  "bind_outcome m f = Returns y \<longleftrightarrow> (\<exists>x. m = Returns x \<and> f x = Returns y)"
  by (cases m) auto

section \<open>Words\<close>

text \<open>\<open>a << k | b\<close> is \<open>a * 2 ^ k + b\<close> when \<open>b\<close> has at most \<open>k\<close> bits and nothing is shifted out.\<close>

lemma unat_less_take_bit: "unat b < 2 ^ k \<Longrightarrow> take_bit k b = (b :: 'a::len word)"
  by (simp add: word_unat_eq_iff unsigned_take_bit_eq take_bit_nat_eq_self)

lemma push_bit_or_add:
  assumes "unat b < 2 ^ k"
  shows "push_bit k a OR b = push_bit k a + (b :: 'a::len word)"
proof (rule disjunctive_add [symmetric])
  fix n
  have "take_bit k b = b" using assms by (rule unat_less_take_bit)
  then have "bit b n \<Longrightarrow> n < k" by (metis bit_take_bit_iff)
  then show "\<not> bit (push_bit k a) n \<or> \<not> bit b n" by (auto simp: bit_push_bit_iff)
qed

lemma unat_push_bit:
  "unat a * 2 ^ k < 2 ^ LENGTH('a) \<Longrightarrow> unat (push_bit k (a :: 'a::len word)) = unat a * 2 ^ k"
  unfolding unsigned_push_bit_eq by (simp add: push_bit_eq_mult take_bit_nat_eq_self)

lemma unat_push_bit_or:
  assumes "unat b < 2 ^ k" "unat a * 2 ^ k + unat b < 2 ^ LENGTH('a)"
  shows "unat (push_bit k a OR (b :: 'a::len word)) = unat a * 2 ^ k + unat b"
proof -
  have "unat (push_bit k a) = unat a * 2 ^ k" using assms(2) by (intro unat_push_bit) simp
  with assms show ?thesis by (simp add: push_bit_or_add unat_word_ariths(1))
qed

section \<open>Lists processed until the first error\<close>

fun traverse :: "('a \<Rightarrow> 'e + 'b) \<Rightarrow> 'a list \<Rightarrow> 'e + 'b list" where
  "traverse f [] = Inr []"
| "traverse f (x # xs) =
     (case f x of Inl e \<Rightarrow> Inl e
      | Inr y \<Rightarrow> (case traverse f xs of Inl e \<Rightarrow> Inl e | Inr ys \<Rightarrow> Inr (y # ys)))"

lemma traverse_cong [fundef_cong]:
  "xs = ys \<Longrightarrow> (\<And>x. x \<in> set ys \<Longrightarrow> f x = g x) \<Longrightarrow> traverse f xs = traverse g ys"
proof (induction ys arbitrary: xs)
  case Nil
  then show ?case by simp
next
  case (Cons y ys)
  have eq: "traverse f ys = traverse g ys"
    using Cons.IH [OF refl] Cons.prems(2) by simp
  from Cons.prems have "xs = y # ys" and "f y = g y" by simp_all
  then show ?case by (simp add: eq split: sum.split)
qed

lemma traverse_map_Inr:
  "(\<And>x. x \<in> set xs \<Longrightarrow> f (g x) = Inr x) \<Longrightarrow> traverse f (map g xs) = Inr xs"
  by (induction xs) auto

lemma traverse_Inr_iff:
  "traverse f xs = Inr ys \<longleftrightarrow> list_all2 (\<lambda>x y. f x = Inr y) xs ys"
proof (induction xs arbitrary: ys)
  case Nil
  then show ?case by auto
next
  case (Cons x xs)
  show ?case
  proof (cases "f x")
    case (Inl e)
    then show ?thesis by (auto simp: list_all2_Cons1)
  next
    case (Inr y)
    show ?thesis
    proof (cases "traverse f xs")
      case (Inl e)
      with Cons.IH have "\<And>zs. \<not> list_all2 (\<lambda>x y. f x = Inr y) xs zs" by (metis sum.distinct(1))
      with Inl \<open>f x = Inr y\<close> show ?thesis by (auto simp: list_all2_Cons1)
    next
      case (Inr zs)
      with Cons.IH have "\<And>ws. list_all2 (\<lambda>x y. f x = Inr y) xs ws \<longleftrightarrow> ws = zs" by (metis sum.inject(2))
      with Inr \<open>f x = Inr y\<close> show ?thesis by (auto simp: list_all2_Cons1)
    qed
  qed
qed

lemma traverse_Inl_iff:
  "(\<exists>e. traverse f xs = Inl e) \<longleftrightarrow> (\<exists>x \<in> set xs. \<exists>e. f x = Inl e)"
  by (induction xs) (auto split: sum.splits)

section \<open>Codecs\<close>

text \<open>
  A printer and a parser that reads back what the printer wrote, on the values the printer is
  used for. The MAC, APPID, octet-string, bit-string, quality and time texts of the adapters
  are instances.
\<close>

locale codec =
  fixes enc :: "'a \<Rightarrow> 'b"
    and dec :: "'b \<Rightarrow> 'a option"
    and valid :: "'a \<Rightarrow> bool"
  assumes dec_enc: "valid x \<Longrightarrow> dec (enc x) = Some x"
begin

lemma enc_inject: "valid x \<Longrightarrow> valid y \<Longrightarrow> enc x = enc y \<longleftrightarrow> x = y"
  by (metis dec_enc option.inject)

lemma inj_on_enc: "inj_on enc {x. valid x}"
  by (auto intro: inj_onI simp: enc_inject)

lemma dec_enc_idem: "valid x \<Longrightarrow> map_option enc (dec (enc x)) = Some (enc x)"
  by (simp add: dec_enc)

end

end
