(* ===== verification/CText.thy ===== *)
theory CText
  imports Prelude
begin

text \<open>
  The part of the C standard library that the adapters use on text: NUL-terminated strings,
  the integer conversions of \<open>printf\<close> (\<open>%u\<close>, \<open>%d\<close>, \<open>%0<w>u\<close>, \<open>%0<w>x\<close>), of \<open>strtoul\<close>,
  \<open>strtol\<close> and \<open>atoi\<close>, and the \<open>%2x\<close> and \<open>%c\<close> conversions of \<open>sscanf\<close>. A \<open>char\<close> is an
  octet and a \<open>string\<close> the characters before the terminating NUL. The functions follow
  the C standard in the C locale, and glibc where the standard leaves the case open.
\<close>

section \<open>Characters and C strings\<close>

abbreviation code :: "char \<Rightarrow> nat" where
  "code c \<equiv> of_char c"

definition nul :: char where
  "nul = CHR 0x00"

definition c_str :: "string \<Rightarrow> string" where
  "c_str s = takeWhile (\<lambda>c. c \<noteq> nul) s"

definition is_c_string :: "string \<Rightarrow> bool" where
  "is_c_string s \<longleftrightarrow> nul \<notin> set s"

lemma c_str_ident [simp]: "is_c_string s \<Longrightarrow> c_str s = s"
  by (auto simp: c_str_def is_c_string_def takeWhile_eq_all_conv)

lemma is_c_string_c_str [simp]: "is_c_string (c_str s)"
  by (auto simp: c_str_def is_c_string_def dest: set_takeWhileD)

lemma is_c_string_simps [simp]:
  "is_c_string []"
  "is_c_string (c # s) \<longleftrightarrow> c \<noteq> nul \<and> is_c_string s"
  "is_c_string (s @ t) \<longleftrightarrow> is_c_string s \<and> is_c_string t"
  by (auto simp: is_c_string_def)

text \<open>\<open>snprintf(buf, n, "%s", s)\<close> keeps at most \<open>n - 1\<close> characters.\<close>

definition snprintf_s :: "nat \<Rightarrow> string \<Rightarrow> string" where
  "snprintf_s n s = take (n - 1) s"

lemma snprintf_s_fits [simp]: "length s < n \<Longrightarrow> snprintf_s n s = s"
  by (simp add: snprintf_s_def)

lemma length_snprintf_s: "0 < n \<Longrightarrow> length (snprintf_s n s) < n"
  by (simp add: snprintf_s_def)

definition isspace :: "char \<Rightarrow> bool" where
  "isspace c \<longleftrightarrow> code c = 32 \<or> (9 \<le> code c \<and> code c \<le> 13)"

section \<open>Digits\<close>

text \<open>The value of a digit character in any base up to 36.\<close>

definition digit_val :: "char \<Rightarrow> nat option" where
  "digit_val c =
     (if 48 \<le> code c \<and> code c \<le> 57 then Some (code c - 48)
      else if 97 \<le> code c \<and> code c \<le> 122 then Some (code c - 87)
      else if 65 \<le> code c \<and> code c \<le> 90 then Some (code c - 55)
      else None)"

definition is_digit :: "nat \<Rightarrow> char \<Rightarrow> bool" where
  "is_digit b c = (case digit_val c of None \<Rightarrow> False | Some v \<Rightarrow> v < b)"

definition digit_char :: "nat \<Rightarrow> char" where
  "digit_char d = (if d < 10 then char_of (48 + d) else char_of (87 + d))"

lemma code_digit_char:
  "d < 36 \<Longrightarrow> code (digit_char d) = (if d < 10 then 48 + d else 87 + d)"
  by (simp add: digit_char_def)

lemma digit_val_digit_char [simp]: "d < 36 \<Longrightarrow> digit_val (digit_char d) = Some d"
  by (simp add: digit_val_def code_digit_char)

lemma is_digit_digit_char [simp]: "d < b \<Longrightarrow> b \<le> 36 \<Longrightarrow> is_digit b (digit_char d)"
  by (simp add: is_digit_def)

lemma digit_char_inject [simp]: "d < 36 \<Longrightarrow> e < 36 \<Longrightarrow> digit_char d = digit_char e \<longleftrightarrow> d = e"
  by (metis digit_val_digit_char option.inject)

lemma isspace_digit_char [simp]: "d < 36 \<Longrightarrow> \<not> isspace (digit_char d)"
  by (simp add: isspace_def code_digit_char)

lemma digit_char_neq_code: "d < 36 \<Longrightarrow> code c < 48 \<Longrightarrow> digit_char d \<noteq> c"
  by (auto simp: code_digit_char split: if_splits)

lemma digit_char_not_nul [simp]: "d < 36 \<Longrightarrow> digit_char d \<noteq> nul"
  by (rule digit_char_neq_code) (simp_all add: nul_def)

lemma digit_char_not_sign [simp]:
  "d < 36 \<Longrightarrow> digit_char d \<noteq> CHR ''-''" "d < 36 \<Longrightarrow> digit_char d \<noteq> CHR ''+''"
  "d < 36 \<Longrightarrow> digit_char d \<noteq> CHR ''.''"
  by (rule digit_char_neq_code, simp, simp)+

lemma digit_char_eq: "d < 36 \<Longrightarrow> code c = (if d < 10 then 48 + d else 87 + d) \<Longrightarrow> digit_char d = c"
  using code_digit_char [of d] by (simp only: of_char_eq_iff [symmetric, where 'a = nat])

text \<open>The hexadecimal digits, for evaluation.\<close>

lemma hex_digit_chars:
  "digit_char 0 = CHR ''0''" "digit_char (Suc 0) = CHR ''1''" "digit_char 1 = CHR ''1''" "digit_char 2 = CHR ''2''"
  "digit_char 3 = CHR ''3''" "digit_char 4 = CHR ''4''" "digit_char 5 = CHR ''5''"
  "digit_char 6 = CHR ''6''" "digit_char 7 = CHR ''7''" "digit_char 8 = CHR ''8''"
  "digit_char 9 = CHR ''9''" "digit_char 10 = CHR ''a''" "digit_char 11 = CHR ''b''"
  "digit_char 12 = CHR ''c''" "digit_char 13 = CHR ''d''" "digit_char 14 = CHR ''e''"
  "digit_char 15 = CHR ''f''"
  by (rule digit_char_eq, simp, simp)+

section \<open>Numbers in a base\<close>

text \<open>The digits of a number, most significant first; zero has one digit.\<close>

fun to_digits :: "nat \<Rightarrow> nat \<Rightarrow> nat list" where
  "to_digits b n = (if b < 2 \<or> n < b then [n] else to_digits b (n div b) @ [n mod b])"

declare to_digits.simps [simp del]

definition of_digits :: "nat \<Rightarrow> nat list \<Rightarrow> nat" where
  "of_digits b ds = foldl (\<lambda>acc d. acc * b + d) 0 ds"

lemma of_digits_Nil [simp]: "of_digits b [] = 0"
  and of_digits_snoc [simp]: "of_digits b (ds @ [d]) = of_digits b ds * b + d"
  by (simp_all add: of_digits_def)

lemma foldl_digits: "foldl (\<lambda>acc d. acc * b + d) a ds = a * b ^ length ds + of_digits b ds"
proof (induction ds rule: rev_induct)
  case Nil
  then show ?case by simp
next
  case (snoc d ds)
  then show ?case by (simp add: algebra_simps)
qed

lemma of_digits_append: "of_digits b (xs @ ys) = of_digits b xs * b ^ length ys + of_digits b ys"
  using foldl_digits [of b "of_digits b xs" ys] by (simp add: of_digits_def)

lemma of_digits_Cons: "of_digits b (d # ds) = d * b ^ length ds + of_digits b ds"
  using of_digits_append [of b "[d]" ds] by (simp add: of_digits_def)

lemma of_to_digits [simp]: "2 \<le> b \<Longrightarrow> of_digits b (to_digits b n) = n"
proof (induction b n rule: to_digits.induct)
  case (1 b n)
  show ?case
  proof (cases "n < b")
    case True
    then show ?thesis by (simp add: to_digits.simps [of b n] of_digits_def)
  next
    case False
    with 1 show ?thesis by (simp add: to_digits.simps [of b n])
  qed
qed

lemma to_digits_less: "2 \<le> b \<Longrightarrow> d \<in> set (to_digits b n) \<Longrightarrow> d < b"
proof (induction b n rule: to_digits.induct)
  case (1 b n)
  show ?case
  proof (cases "n < b")
    case True
    with 1 show ?thesis by (simp add: to_digits.simps [of b n])
  next
    case False
    with 1 show ?thesis by (auto simp: to_digits.simps [of b n])
  qed
qed

lemma to_digits_not_Nil [simp]: "to_digits b n \<noteq> []"
  by (subst to_digits.simps) simp

lemma hd_to_digits: "2 \<le> b \<Longrightarrow> n \<noteq> 0 \<Longrightarrow> hd (to_digits b n) \<noteq> 0"
proof (induction b n rule: to_digits.induct)
  case (1 b n)
  show ?case
  proof (cases "n < b")
    case True
    with 1 show ?thesis by (simp add: to_digits.simps [of b n])
  next
    case False
    with 1 show ?thesis by (simp add: to_digits.simps [of b n] div_eq_0_iff)
  qed
qed

lemma length_to_digits: "2 \<le> b \<Longrightarrow> n < b ^ k \<Longrightarrow> 0 < k \<Longrightarrow> length (to_digits b n) \<le> k"
proof (induction b n arbitrary: k rule: to_digits.induct)
  case (1 b n)
  show ?case
  proof (cases "n < b")
    case True
    with 1 show ?thesis by (simp add: to_digits.simps [of b n])
  next
    case False
    with "1.prems" obtain j where k: "k = Suc j" and "0 < j"
      by (cases k) (simp, metis gr0I power_0 power_one_right power_Suc mult.right_neutral)
    with "1.prems" have "n div b < b ^ j"
      by (simp add: less_mult_imp_div_less mult.commute)
    with False 1 \<open>0 < j\<close> k show ?thesis by (simp add: to_digits.simps [of b n])
  qed
qed

section \<open>printf of integers\<close>

definition dec :: "nat \<Rightarrow> string" where
  "dec n = map digit_char (to_digits 10 n)"

definition dec_int :: "int \<Rightarrow> string" where
  "dec_int i = (if i < 0 then CHR ''-'' # dec (nat (- i)) else dec (nat i))"

definition pad0 :: "nat \<Rightarrow> string \<Rightarrow> string" where
  "pad0 w s = replicate (w - length s) (CHR ''0'') @ s"

definition dec_pad :: "nat \<Rightarrow> nat \<Rightarrow> string" where
  "dec_pad w n = pad0 w (dec n)"

definition hex_pad :: "nat \<Rightarrow> nat \<Rightarrow> string" where
  "hex_pad w n = pad0 w (map digit_char (to_digits 16 n))"

lemma digit_char_0: "CHR ''0'' = digit_char 0"
proof -
  have "code (CHR ''0'') = code (digit_char 0)" by (simp add: code_digit_char)
  then show ?thesis by (simp only: of_char_eq_iff)
qed

lemma pad0_digits:
  "pad0 w (map digit_char ds) = map digit_char (replicate (w - length ds) 0 @ ds)"
  by (simp add: pad0_def digit_char_0)

definition read_base :: "nat \<Rightarrow> string \<Rightarrow> nat" where
  "read_base b s = of_digits b (map (\<lambda>c. case digit_val c of None \<Rightarrow> 0 | Some v \<Rightarrow> v) s)"

lemma read_base_digits [simp]:
  "list_all (\<lambda>d. d < 36) ds \<Longrightarrow> read_base b (map digit_char ds) = of_digits b ds"
  by (simp add: read_base_def list_all_iff cong: map_cong)

lemma of_digits_zeros [simp]: "of_digits b (replicate k 0 @ ds) = of_digits b ds"
  by (induction k) (simp_all add: of_digits_Cons)

lemma dec_digits: "\<exists>ds. dec n = map digit_char ds \<and> ds \<noteq> [] \<and> list_all (\<lambda>d. d < 10) ds"
  unfolding dec_def list_all_iff
  by (intro exI [of _ "to_digits 10 n"]) (auto dest: to_digits_less [rotated])

lemma read_base_dec [simp]: "read_base 10 (dec n) = n"
proof -
  have "list_all (\<lambda>d. d < 36) (to_digits 10 n)"
    using to_digits_less [of 10] by (fastforce simp: list_all_iff)
  then show ?thesis by (simp add: dec_def)
qed

lemma pad_to_digits_less:
  "2 \<le> b \<Longrightarrow> b \<le> 36 \<Longrightarrow> d \<in> set (replicate k 0 @ to_digits b n) \<Longrightarrow> d < b"
  using to_digits_less [of b d n] by (auto simp: set_replicate_conv_if split: if_splits)

lemma read_base_dec_pad [simp]: "read_base 10 (dec_pad w n) = n"
proof -
  have "list_all (\<lambda>d. d < 36) (replicate (w - length (to_digits 10 n)) 0 @ to_digits 10 n)"
    using to_digits_less [of 10 _ n] by (force simp: list_all_iff set_replicate_conv_if)
  then show ?thesis
    unfolding dec_pad_def dec_def pad0_digits by (simp only: read_base_digits) simp
qed

lemma length_dec_pad: "n < 10 ^ w \<Longrightarrow> 0 < w \<Longrightarrow> length (dec_pad w n) = w"
  using length_to_digits [of 10 n w] by (simp add: dec_pad_def dec_def pad0_def)

lemma length_hex_pad: "n < 16 ^ w \<Longrightarrow> 0 < w \<Longrightarrow> length (hex_pad w n) = w"
  using length_to_digits [of 16 n w] by (simp add: hex_pad_def pad0_def)

lemma hex_pad_digits:
  "\<exists>ds. hex_pad w n = map digit_char ds \<and> ds \<noteq> [] \<and> list_all (\<lambda>d. d < 16) ds \<and> of_digits 16 ds = n"
proof (intro exI conjI)
  let ?ds = "replicate (w - length (to_digits 16 n)) 0 @ to_digits 16 n"
  show "hex_pad w n = map digit_char ?ds" by (simp add: hex_pad_def pad0_digits)
  show "?ds \<noteq> []" by simp
  show "list_all (\<lambda>d. d < 16) ?ds"
    using to_digits_less [of 16 _ n] by (force simp: list_all_iff set_replicate_conv_if)
  show "of_digits 16 ?ds = n" by simp
qed

section \<open>strtoul, strtol and atoi\<close>

text \<open>
  The subject sequence of the conversion: white space, a sign, the prefix that base 0
  recognises (\<open>0x\<close> only before a hexadecimal digit, \<open>0\<close> for octal), then the digits.
\<close>

definition strip_sign :: "string \<Rightarrow> bool \<times> string" where
  "strip_sign t =
     (case t of [] \<Rightarrow> (False, [])
      | c # r \<Rightarrow> if c = CHR ''-'' then (True, r) else if c = CHR ''+'' then (False, r) else (False, t))"

definition strip_base :: "nat \<Rightarrow> string \<Rightarrow> nat \<times> string" where
  "strip_base base u =
     (if base \<noteq> 0 then (base, u)
      else (case u of
          z # x # d # r \<Rightarrow>
            if z = CHR ''0'' then
              (if (x = CHR ''x'' \<or> x = CHR ''X'') \<and> is_digit 16 d then (16, d # r) else (8, u))
            else (10, u)
        | z # r \<Rightarrow> if z = CHR ''0'' then (8, u) else (10, u)
        | [] \<Rightarrow> (10, u)))"

definition num_subject :: "nat \<Rightarrow> string \<Rightarrow> bool \<times> nat \<times> string \<times> string" where
  "num_subject base s =
     (let (neg, u) = strip_sign (dropWhile isspace s); (b, v) = strip_base base u
      in (neg, b, takeWhile (is_digit b) v, dropWhile (is_digit b) v))"

definition ULONG_MAX :: nat where
  "ULONG_MAX = 2 ^ 64 - 1"

text \<open>The value as \<open>unsigned long\<close> and the text \<open>endptr\<close> points at.\<close>

definition strtoul :: "nat \<Rightarrow> string \<Rightarrow> nat \<times> string" where
  "strtoul base s =
     (case num_subject base s of (neg, b, ds, rest) \<Rightarrow>
        if ds = [] then (0, s)
        else let v = read_base b ds
             in (if ULONG_MAX < v then ULONG_MAX
                 else if neg then (2 ^ 64 - v) mod 2 ^ 64 else v, rest))"

definition strtol :: "nat \<Rightarrow> string \<Rightarrow> int \<times> string" where
  "strtol base s =
     (case num_subject base s of (neg, b, ds, rest) \<Rightarrow>
        if ds = [] then (0, s)
        else let v = (if neg then - int (read_base b ds) else int (read_base b ds))
             in (max (- (2 ^ 63)) (min (2 ^ 63 - 1) v), rest))"

definition atoi :: "string \<Rightarrow> int" where
  "atoi s = sint (word_of_int (fst (strtol 10 s)) :: 32 word)"

lemma strtoul_le: "fst (strtoul base s) \<le> ULONG_MAX"
proof -
  have "(2 ^ 64 - v) mod (2 ^ 64 :: nat) \<le> ULONG_MAX" for v :: nat
    using mod_less_divisor [of "2 ^ 64" "2 ^ 64 - v"] by (simp add: ULONG_MAX_def)
  then show ?thesis
    by (auto simp: strtoul_def Let_def linorder_not_less split: prod.split)
qed

lemma takeWhile_digits [simp]:
  "list_all (\<lambda>d. d < b) ds \<Longrightarrow> b \<le> 36 \<Longrightarrow>
   takeWhile (is_digit b) (map digit_char ds) = map digit_char ds"
  "list_all (\<lambda>d. d < b) ds \<Longrightarrow> b \<le> 36 \<Longrightarrow> dropWhile (is_digit b) (map digit_char ds) = []"
  by (induction ds) auto

lemma strip_sign_digits [simp]:
  "ds \<noteq> [] \<Longrightarrow> list_all (\<lambda>d. d < 36) ds \<Longrightarrow>
   strip_sign (dropWhile isspace (map digit_char ds)) = (False, map digit_char ds)"
  by (cases ds) (simp_all add: strip_sign_def)

lemma list_all_less_mono: "list_all (\<lambda>d. d < b) ds \<Longrightarrow> b \<le> (c::nat) \<Longrightarrow> list_all (\<lambda>d. d < c) ds"
  by (auto simp: list_all_iff)

lemma strtoul_hex:
  assumes "n \<le> ULONG_MAX"
  shows "strtoul 0 (''0x'' @ hex_pad w n) = (n, [])"
proof -
  obtain ds where ds: "hex_pad w n = map digit_char ds" "ds \<noteq> []" "list_all (\<lambda>d. d < 16) ds"
    "of_digits 16 ds = n"
    using hex_pad_digits by blast
  then obtain e es where es: "ds = e # es" "e < 16" by (cases ds) auto
  have "num_subject 0 (''0x'' @ hex_pad w n) = (False, 16, map digit_char ds, [])"
    using ds es takeWhile_digits [of 16 ds]
    by (simp add: num_subject_def strip_sign_def strip_base_def isspace_def)
  moreover have "read_base 16 (map digit_char ds) = n"
    using ds(3,4) by (simp add: list_all_less_mono)
  ultimately show ?thesis using assms ds(2) by (simp add: strtoul_def)
qed

lemma strip_base_dec: "strip_base 0 (dec n) = (if n = 0 then 8 else 10, dec n)"
proof (cases "n = 0")
  case True
  then show ?thesis by (simp add: dec_def to_digits.simps [of 10 0] strip_base_def digit_char_0)
next
  case False
  then obtain d ds where ds: "to_digits 10 n = d # ds" by (cases "to_digits 10 n") auto
  have "d \<noteq> 0" using hd_to_digits [of 10 n] False ds by simp
  moreover have "d < 10" using to_digits_less [of 10 d n] ds by simp
  ultimately have "digit_char d \<noteq> CHR ''0''" by (simp add: digit_char_0)
  with ds False show ?thesis by (simp add: dec_def strip_base_def split: list.split)
qed

lemma strtoul_dec:
  assumes "n \<le> ULONG_MAX"
  shows "strtoul 0 (dec n) = (n, [])"
proof -
  obtain ds where ds: "dec n = map digit_char ds" "ds \<noteq> []" "list_all (\<lambda>d. d < 10) ds"
    using dec_digits by blast
  have lt: "list_all (\<lambda>d. d < 36) ds" using ds(3) by (rule list_all_less_mono) simp
  show ?thesis
  proof (cases "n = 0")
    case True
    then have "num_subject 0 (dec n) = (False, 8, [digit_char 0], [])"
      using strip_base_dec [of n]
      by (simp add: num_subject_def dec_def to_digits.simps [of 10 0] strip_sign_def)
    with True show ?thesis by (simp add: strtoul_def read_base_def of_digits_def)
  next
    case False
    then have "num_subject 0 (dec n) = (False, 10, map digit_char ds, [])"
      using strip_base_dec [of n] ds lt by (simp add: num_subject_def)
    moreover have "read_base 10 (map digit_char ds) = n"
      using read_base_dec [of n] ds(1) by simp
    ultimately show ?thesis using assms ds(2) by (simp add: strtoul_def)
  qed
qed

section \<open>sscanf conversions\<close>

definition hexv :: "char \<Rightarrow> nat" where
  "hexv c = (case digit_val c of None \<Rightarrow> 0 | Some v \<Rightarrow> v)"

text \<open>
  \<open>%2x\<close>: white space is skipped, then at most two characters are converted. A sign counts
  as one of them, and glibc reads \<open>0x\<close> as the value 0.
\<close>

definition scan_x2 :: "string \<Rightarrow> (u32 \<times> string) option" where
  "scan_x2 s =
     (case dropWhile isspace s of
        [] \<Rightarrow> None
      | c # t \<Rightarrow>
          if c = CHR ''-'' \<or> c = CHR ''+'' then
            (case t of [] \<Rightarrow> None
             | d # r \<Rightarrow> if is_digit 16 d
                 then Some (if c = CHR ''-'' then - of_nat (hexv d) else of_nat (hexv d), r)
                 else None)
          else if \<not> is_digit 16 c then None
          else (case t of [] \<Rightarrow> Some (of_nat (hexv c), [])
                | d # r \<Rightarrow>
                    if is_digit 16 d then Some (of_nat (16 * hexv c + hexv d), r)
                    else if c = CHR ''0'' \<and> (d = CHR ''x'' \<or> d = CHR ''X'') then Some (0, r)
                    else Some (of_nat (hexv c), t)))"

lemma hexv_digit_char [simp]: "d < 36 \<Longrightarrow> hexv (digit_char d) = d"
  by (simp add: hexv_def)

lemma hex_pad_2: "n < 256 \<Longrightarrow> hex_pad 2 n = [digit_char (n div 16), digit_char (n mod 16)]"
  by (cases "n < 16")
    (simp_all add: hex_pad_def pad0_def digit_char_0 to_digits.simps [of 16 n]
      to_digits.simps [of 16 "n div 16"])

lemma scan_x2_hex_pad [simp]: "n < 256 \<Longrightarrow> scan_x2 (hex_pad 2 n @ r) = Some (of_nat n, r)"
  by (simp add: hex_pad_2 scan_x2_def)

end
