(* ===== verification/CTime.thy ===== *)
theory CTime
  imports CText
begin

text \<open>
  The calendar functions of the C library that the adapters call: \<open>timegm\<close>, \<open>gmtime_r\<close>,
  and \<open>strftime\<close> and \<open>strptime\<close> with the one format the sources use,
  \<open>%Y-%m-%dT%H:%M:%S\<close>. Times are seconds of the proleptic Gregorian calendar in UTC.
\<close>

section \<open>The calendar\<close>

definition is_leap :: "int \<Rightarrow> bool" where
  "is_leap y \<longleftrightarrow> (4 dvd y \<and> \<not> 100 dvd y) \<or> 400 dvd y"

definition year_len :: "int \<Rightarrow> nat" where
  "year_len y = (if is_leap y then 366 else 365)"

text \<open>Leap years up to and including \<open>y\<close>, and the days from 1970-01-01 to January 1 of \<open>y\<close>.\<close>

definition leaps :: "int \<Rightarrow> int" where
  "leaps y = y div 4 - y div 100 + y div 400"

definition year_start :: "int \<Rightarrow> int" where
  "year_start y = 365 * (y - 1970) + leaps (y - 1) - leaps 1969"

lemma leaps_step: "leaps y = leaps (y - 1) + (if is_leap y then 1 else 0)"
proof -
  have step: "y div k = (y - 1) div k + (if k dvd y then 1 else 0)" if "1 < k" for k :: int
  proof (cases "k dvd y")
    case True
    then have "(y - 1) div k = y div k - 1"
      using that by (intro int_div_pos_eq [where r = "k - 1"]) (auto simp: algebra_simps)
    with True show ?thesis by simp
  next
    case False
    then have "1 \<le> y mod k" using that pos_mod_sign [of k y] unfolding dvd_eq_mod_eq_0 by linarith
    moreover have "y mod k < k" using that by simp
    moreover have "y = k * (y div k) + y mod k" by simp
    ultimately have "(y - 1) div k = y div k"
      using that by (intro int_div_pos_eq [where r = "y mod k - 1"]) linarith+
    with False show ?thesis by simp
  qed
  show ?thesis
    using step [of 4] step [of 100] step [of 400]
    by (auto simp: leaps_def is_leap_def)
qed

lemma year_start_step: "year_start (y + 1) = year_start y + int (year_len y)"
  using leaps_step [of y] by (simp add: year_start_def year_len_def)

lemma year_start_1970 [simp]: "year_start 1970 = 0"
  by (simp add: year_start_def)

definition month_len :: "bool \<Rightarrow> nat \<Rightarrow> nat" where
  "month_len leap m = (if m = 1 then (if leap then 29 else 28)
     else if m = 3 \<or> m = 5 \<or> m = 8 \<or> m = 10 then 30 else 31)"

definition month_start :: "bool \<Rightarrow> nat \<Rightarrow> nat" where
  "month_start leap m = sum_list (map (month_len leap) [0..<m])"

lemma month_start_Suc [simp]: "month_start leap (Suc m) = month_start leap m + month_len leap m"
  by (simp add: month_start_def)

lemma month_start_0 [simp]: "month_start leap 0 = 0"
  by (simp add: month_start_def)

lemma month_start_12: "month_start (is_leap y) 12 = year_len y"
  by (simp add: eval_nat_numeral month_len_def year_len_def)

section \<open>Broken-down time\<close>

text \<open>As in C: years since 1900, months from 0, days of the month from 1.\<close>

record tm =
  tm_year :: int
  tm_mon :: int
  tm_mday :: int
  tm_hour :: int
  tm_min :: int
  tm_sec :: int

text \<open>\<open>timegm\<close> accepts fields out of their ranges and normalises them.\<close>

definition timegm :: "tm \<Rightarrow> int" where
  "timegm t =
     (let y = tm_year t + 1900 + tm_mon t div 12; m = nat (tm_mon t mod 12);
          days = year_start y + int (month_start (is_leap y) m) + tm_mday t - 1
      in days * 86400 + tm_hour t * 3600 + tm_min t * 60 + tm_sec t)"

function year_from :: "int \<Rightarrow> nat \<Rightarrow> int \<times> nat" where
  "year_from y d = (if d < year_len y then (y, d) else year_from (y + 1) (d - year_len y))"
  by pat_completeness auto
termination
  by (relation "measure snd") (auto simp: year_len_def)

declare year_from.simps [simp del]

function month_from :: "bool \<Rightarrow> nat \<Rightarrow> nat \<Rightarrow> nat \<times> nat" where
  "month_from leap m d =
     (if d < month_len leap m \<or> 11 \<le> m then (m, d)
      else month_from leap (Suc m) (d - month_len leap m))"
  by pat_completeness auto
termination
  by (relation "measure (\<lambda>(leap, m, d). 11 - m)") auto

declare month_from.simps [simp del]

definition gmtime :: "nat \<Rightarrow> tm" where
  "gmtime t =
     (let (y, yd) = year_from 1970 (t div 86400); (m, d) = month_from (is_leap y) 0 yd;
          s = t mod 86400
      in \<lparr>tm_year = y - 1900, tm_mon = int m, tm_mday = int d + 1,
          tm_hour = int (s div 3600), tm_min = int (s mod 3600 div 60), tm_sec = int (s mod 60)\<rparr>)"

lemma year_from_spec:
  "year_from y d = (y', d') \<Longrightarrow>
   year_start y' + int d' = year_start y + int d \<and> d' < year_len y' \<and> y \<le> y'"
proof (induction y d rule: year_from.induct)
  case (1 y d)
  show ?case
  proof (cases "d < year_len y")
    case True
    with "1.prems" show ?thesis by (simp add: year_from.simps [of y d])
  next
    case False
    with "1.prems" have "year_from (y + 1) (d - year_len y) = (y', d')"
      by (simp add: year_from.simps [of y d])
    from "1.IH" [OF False this] False show ?thesis by (simp add: year_start_step)
  qed
qed

lemma month_from_spec:
  "month_from leap m d = (m', d') \<Longrightarrow> m \<le> 11 \<Longrightarrow> month_start leap m + d < month_start leap 12 \<Longrightarrow>
   month_start leap m' + d' = month_start leap m + d \<and> d' < month_len leap m' \<and> m' \<le> 11"
proof (induction leap m d rule: month_from.induct)
  case (1 leap m d)
  show ?case
  proof (cases "d < month_len leap m")
    case True
    with "1.prems" show ?thesis by (simp add: month_from.simps [of leap m d])
  next
    case F: False
    have "m \<noteq> 11"
    proof
      assume "m = 11"
      then have "month_start leap 12 = month_start leap m + month_len leap m"
        using month_start_Suc [of leap 11] by (simp add: eval_nat_numeral)
      with F "1.prems"(3) show False by simp
    qed
    with "1.prems" F have "month_from leap (Suc m) (d - month_len leap m) = (m', d')"
      by (simp add: month_from.simps [of leap m d])
    with "1.IH" F \<open>m \<noteq> 11\<close> "1.prems" show ?thesis by simp
  qed
qed

text \<open>The fields \<open>gmtime_r\<close> returns are in their ranges.\<close>

definition tm_ok :: "tm \<Rightarrow> bool" where
  "tm_ok t \<longleftrightarrow> 0 \<le> tm_mon t \<and> tm_mon t \<le> 11 \<and> 1 \<le> tm_mday t \<and> tm_mday t \<le> 31 \<and>
     0 \<le> tm_hour t \<and> tm_hour t \<le> 23 \<and> 0 \<le> tm_min t \<and> tm_min t \<le> 59 \<and>
     0 \<le> tm_sec t \<and> tm_sec t \<le> 59 \<and> 70 \<le> tm_year t"

lemma gmtime_cases:
  obtains y d m md where
    "gmtime t = \<lparr>tm_year = y - 1900, tm_mon = int m, tm_mday = int md + 1,
       tm_hour = int (t mod 86400 div 3600), tm_min = int (t mod 86400 mod 3600 div 60),
       tm_sec = int (t mod 86400 mod 60)\<rparr>"
    "year_start y + int d = int (t div 86400)" "1970 \<le> y" "d < year_len y"
    "month_start (is_leap y) m + md = d" "md < month_len (is_leap y) m" "m \<le> 11"
proof -
  obtain y d where y: "year_from 1970 (t div 86400) = (y, d)" by force
  obtain m md where m: "month_from (is_leap y) 0 d = (m, md)" by force
  note ys = year_from_spec [OF y]
  note ms = month_from_spec [OF m]
  show ?thesis
    by (rule that [of y m md d]) (use y m ys ms in \<open>auto simp: gmtime_def Let_def month_start_12\<close>)
qed

lemma gmtime_ok: "tm_ok (gmtime t)"
proof -
  have ml: "month_len l m \<le> 31" for l m by (simp add: month_len_def)
  obtain y d m md where g: "gmtime t = \<lparr>tm_year = y - 1900, tm_mon = int m, tm_mday = int md + 1,
       tm_hour = int (t mod 86400 div 3600), tm_min = int (t mod 86400 mod 3600 div 60),
       tm_sec = int (t mod 86400 mod 60)\<rparr>" and b: "1970 \<le> y" "md < month_len (is_leap y) m" "m \<le> 11"
    by (rule gmtime_cases [of t]) auto
  have "t mod 86400 < 86400" "t mod 86400 mod 3600 < 3600" "t mod 86400 mod 60 < 60" by simp_all
  then have "t mod 86400 div 3600 \<le> 23" "t mod 86400 mod 3600 div 60 \<le> 59" "t mod 86400 mod 60 \<le> 59"
    by linarith+
  with b ml [of "is_leap y" m] show ?thesis unfolding tm_ok_def g by simp
qed

lemma day_secs: "s div 3600 * 3600 + s mod 3600 div 60 * 60 + s mod 60 = (s :: nat)"
proof -
  have "s mod 3600 mod 60 = s mod 60" by (rule mod_mod_cancel) simp
  then have "s mod 3600 div 60 * 60 + s mod 60 = s mod 3600"
    by (metis div_mult_mod_eq)
  then show ?thesis by (metis add.assoc div_mult_mod_eq)
qed

theorem timegm_gmtime: "timegm (gmtime t) = int t"
proof -
  obtain y d m md where g: "gmtime t = \<lparr>tm_year = y - 1900, tm_mon = int m, tm_mday = int md + 1,
       tm_hour = int (t mod 86400 div 3600), tm_min = int (t mod 86400 mod 3600 div 60),
       tm_sec = int (t mod 86400 mod 60)\<rparr>"
    and b: "year_start y + int d = int (t div 86400)" "month_start (is_leap y) m + md = d" "m \<le> 11"
    by (rule gmtime_cases [of t]) auto
  have mm: "int m div 12 = 0" "nat (int m mod 12) = m" using b(3) by simp_all
  have "timegm (gmtime t) = (year_start y + int (month_start (is_leap y) m) + int md) * 86400 +
      int (t mod 86400 div 3600) * 3600 + int (t mod 86400 mod 3600 div 60) * 60 + int (t mod 86400 mod 60)"
    unfolding g timegm_def Let_def by (simp add: mm)
  also have "year_start y + int (month_start (is_leap y) m) + int md = int (t div 86400)"
    using b by simp
  also have "int (t div 86400) * 86400 + int (t mod 86400 div 3600) * 3600 +
      int (t mod 86400 mod 3600 div 60) * 60 + int (t mod 86400 mod 60) = int t"
  proof -
    have "int (t div 86400) * 86400 + int (t mod 86400) = int t"
      using arg_cong [OF div_mult_mod_eq [of t 86400], of int] by (simp only: of_nat_add of_nat_mult of_nat_numeral)
    moreover have "int (t mod 86400 div 3600) * 3600 + int (t mod 86400 mod 3600 div 60) * 60 +
        int (t mod 86400 mod 60) = int (t mod 86400)"
      using arg_cong [OF day_secs [of "t mod 86400"], of int] by (simp only: of_nat_add of_nat_mult of_nat_numeral)
    ultimately show ?thesis by linarith
  qed
  finally show ?thesis .
qed

lemma gmtime_year_bound:
  assumes "int t < year_start (Y + 1) * 86400"
  shows "tm_year (gmtime t) + 1900 \<le> Y"
proof (rule ccontr)
  assume n: "\<not> ?thesis"
  obtain y d m md where g: "gmtime t = \<lparr>tm_year = y - 1900, tm_mon = int m, tm_mday = int md + 1,
       tm_hour = int (t mod 86400 div 3600), tm_min = int (t mod 86400 mod 3600 div 60),
       tm_sec = int (t mod 86400 mod 60)\<rparr>"
    and b: "year_start y + int d = int (t div 86400)"
    by (rule gmtime_cases [of t]) auto
  from n g have "Y + 1 \<le> y" by simp
  moreover have "a \<le> b \<Longrightarrow> year_start a \<le> year_start b" for a b
  proof (induction b rule: int_ge_induct)
    case base
    then show ?case by simp
  next
    case (step i)
    then show ?case by (simp add: year_start_step)
  qed
  ultimately have "year_start (Y + 1) \<le> int (t div 86400)" using b by fastforce
  moreover have "int (t div 86400) * 86400 \<le> int t" by simp
  ultimately have "year_start (Y + 1) * 86400 \<le> int t" by linarith
  with assms show False by simp
qed

section \<open>strftime and strptime\<close>

text \<open>\<open>strftime(buf, n, "%Y-%m-%dT%H:%M:%S", tm)\<close>, the buffer being large enough.\<close>

definition strftime_iso :: "tm \<Rightarrow> string" where
  "strftime_iso t =
     dec_int (tm_year t + 1900) @ ''-'' @ dec_pad 2 (nat (tm_mon t + 1)) @ ''-'' @
     dec_pad 2 (nat (tm_mday t)) @ ''T'' @ dec_pad 2 (nat (tm_hour t)) @ '':'' @
     dec_pad 2 (nat (tm_min t)) @ '':'' @ dec_pad 2 (nat (tm_sec t))"

text \<open>
  glibc's \<open>get_number(from, to, n)\<close>: white space, at least one digit, at most \<open>n\<close>, and no
  digit after the value can no longer stay within \<open>to\<close>.
\<close>

fun more_digits :: "nat \<Rightarrow> nat \<Rightarrow> nat \<Rightarrow> string \<Rightarrow> nat \<times> string" where
  "more_digits to 0 val s = (val, s)"
| "more_digits to (Suc n) val [] = (val, [])"
| "more_digits to (Suc n) val (c # r) =
     (if val * 10 \<le> to \<and> is_digit 10 c then more_digits to n (val * 10 + hexv c) r
      else (val, c # r))"

definition get_number :: "nat \<Rightarrow> nat \<Rightarrow> nat \<Rightarrow> string \<Rightarrow> (nat \<times> string) option" where
  "get_number from to n s =
     (case dropWhile isspace s of
        [] \<Rightarrow> None
      | c # r \<Rightarrow>
          if \<not> is_digit 10 c then None
          else let (val, rest) = more_digits to (n - 1) (hexv c) r
               in if val < from \<or> to < val then None else Some (val, rest))"

definition expect :: "char \<Rightarrow> string \<Rightarrow> string option" where
  "expect c s = (case s of [] \<Rightarrow> None | d # r \<Rightarrow> if d = c then Some r else None)"

definition strptime_iso :: "string \<Rightarrow> (tm \<times> string) option" where
  "strptime_iso s =
     Option.bind (get_number 0 9999 4 s) (\<lambda>(y, s).
     Option.bind (expect (CHR ''-'') s) (\<lambda>s.
     Option.bind (get_number 1 12 2 s) (\<lambda>(mo, s).
     Option.bind (expect (CHR ''-'') s) (\<lambda>s.
     Option.bind (get_number 1 31 2 s) (\<lambda>(d, s).
     Option.bind (expect (CHR ''T'') s) (\<lambda>s.
     Option.bind (get_number 0 23 2 s) (\<lambda>(h, s).
     Option.bind (expect (CHR '':'') s) (\<lambda>s.
     Option.bind (get_number 0 59 2 s) (\<lambda>(mi, s).
     Option.bind (expect (CHR '':'') s) (\<lambda>s.
     Option.bind (get_number 0 61 2 s) (\<lambda>(sec, s).
       Some (\<lparr>tm_year = int y - 1900, tm_mon = int mo - 1, tm_mday = int d, tm_hour = int h,
              tm_min = int mi, tm_sec = int sec\<rparr>, s))))))))))))"

lemma dec_pad_2: "n < 100 \<Longrightarrow> dec_pad 2 n = [digit_char (n div 10), digit_char (n mod 10)]"
  by (cases "n < 10")
    (simp_all add: dec_pad_def dec_def pad0_def digit_char_0 to_digits.simps [of 10 n]
      to_digits.simps [of 10 "n div 10"])

lemma get_number_dec_pad_2 [simp]:
  "n < 100 \<Longrightarrow> from \<le> n \<Longrightarrow> n \<le> to \<Longrightarrow> get_number from to 2 (dec_pad 2 n @ r) = Some (n, r)"
proof -
  assume n: "n < 100" "from \<le> n" "n \<le> to"
  have "n div 10 * 10 \<le> to" using n(3) by (meson div_times_less_eq_dividend le_trans)
  moreover have "n div 10 < 10" using n by simp
  ultimately show ?thesis
    using n by (simp add: dec_pad_2 get_number_def)
qed

lemma dec_4: "1000 \<le> n \<Longrightarrow> n < 10000 \<Longrightarrow>
  dec n = [digit_char (n div 1000), digit_char (n div 100 mod 10), digit_char (n div 10 mod 10),
    digit_char (n mod 10)]"
proof -
  assume "1000 \<le> n" "n < 10000"
  then have "\<not> n < 10" "\<not> n div 10 < 10" "\<not> n div 100 < 10" "n div 1000 < 10" by linarith+
  then show ?thesis
    by (simp add: dec_def to_digits.simps [of 10 n] to_digits.simps [of 10 "n div 10"]
      to_digits.simps [of 10 "n div 100"] to_digits.simps [of 10 "n div 1000"] div_mult2_eq [symmetric])
qed

lemma digits_4: "(n :: nat) div 1000 * 1000 + n div 100 mod 10 * 100 + n div 10 mod 10 * 10 + n mod 10 = n"
proof -
  have "n div 1000 * 10 + n div 100 mod 10 = n div 100"
    using div_mult_mod_eq [of "n div 100" 10] by (simp add: div_mult2_eq [symmetric])
  moreover have "n div 100 * 10 + n div 10 mod 10 = n div 10"
    using div_mult_mod_eq [of "n div 10" 10] by (simp add: div_mult2_eq [symmetric])
  moreover have "n div 10 * 10 + n mod 10 = n" by simp
  ultimately show ?thesis by linarith
qed

lemma get_number_year:
  assumes "1000 \<le> n" "n < 10000" "r = [] \<or> \<not> is_digit 10 (hd r)"
  shows "get_number 0 9999 4 (dec n @ r) = Some (n, r)"
proof -
  define a b c d where abcd: "a = n div 1000" "b = n div 100 mod 10" "c = n div 10 mod 10" "d = n mod 10"
  have lt: "a < 10" "b < 10" "c < 10" "d < 10" using assms by (simp_all add: abcd)
  have n: "a * 1000 + b * 100 + c * 10 + d = n" unfolding abcd by (rule digits_4)
  have "dec n = [digit_char a, digit_char b, digit_char c, digit_char d]"
    using assms by (simp add: dec_4 abcd)
  then have "get_number 0 9999 4 (dec n @ r) = Some (((a * 10 + b) * 10 + c) * 10 + d, r)"
    using lt n assms(2) by (simp add: get_number_def numeral_3_eq_3)
  with n show ?thesis by simp
qed

text \<open>What \<open>strftime\<close> writes for a time of a four-digit year, \<open>strptime\<close> reads back.\<close>

lemma strptime_strftime:
  assumes ok: "tm_ok t" and y: "tm_year t + 1900 \<le> 9999"
  shows "strptime_iso (strftime_iso t @ r) = Some (t, r)"
proof -
  have yr: "dec_int (tm_year t + 1900) = dec (nat (tm_year t + 1900))"
    using ok by (simp add: dec_int_def tm_ok_def)
  have g: "get_number 0 9999 4 (dec (nat (tm_year t + 1900)) @ CHR ''-'' # x) =
      Some (nat (tm_year t + 1900), CHR ''-'' # x)" for x
    using ok y by (intro get_number_year) (auto simp: tm_ok_def is_digit_def digit_val_def)
  have num: "get_number 1 12 2 (dec_pad 2 (nat (tm_mon t + 1)) @ x) = Some (nat (tm_mon t + 1), x)"
    "get_number 1 31 2 (dec_pad 2 (nat (tm_mday t)) @ x) = Some (nat (tm_mday t), x)"
    "get_number 0 23 2 (dec_pad 2 (nat (tm_hour t)) @ x) = Some (nat (tm_hour t), x)"
    "get_number 0 59 2 (dec_pad 2 (nat (tm_min t)) @ x) = Some (nat (tm_min t), x)"
    "get_number 0 61 2 (dec_pad 2 (nat (tm_sec t)) @ x) = Some (nat (tm_sec t), x)" for x
    using ok by (intro get_number_dec_pad_2; simp add: tm_ok_def; linarith)+
  from ok show ?thesis
    by (simp add: strftime_iso_def strptime_iso_def yr g num [unfolded One_nat_def] expect_def tm_ok_def)
qed

end
