(* ===== verification/Values.thy ===== *)
theory Values
  imports CText
begin

text \<open>
  The two value types the adapters pass around. \<open>json\<close> is a JSON value as json-c holds it
  (RFC 8259): an object's members have distinct keys, an integer is what fits \<open>int64_t\<close> or
  \<open>uint64_t\<close>, a double its IEEE 754 bits, with the text to print when the code supplies one.
  \<open>mms_value\<close> is the tagged union behind libiec61850's \<open>MmsValue\<close>: its constructors carry
  what the \<open>MmsValue_new...\<close> functions store and the accessors read. Everything these
  libraries, and floating point, compute beyond storing and reading back is a field of
  \<open>value_lib\<close>, a parameter of the definitions that use it.
\<close>

section \<open>JSON\<close>

datatype json =
    JNull
  | JBool bool
  | JInt int
  | JDouble u64 "string option"
  | JString string
  | JArray "json list"
  | JObject "(string \<times> json) list"

text \<open>\<open>json_object_object_get_ex\<close>: the member of an object; a member may be null.\<close>

definition json_get_ex :: "json \<Rightarrow> string \<Rightarrow> json option" where
  "json_get_ex j k = (case j of JObject ms \<Rightarrow> map_of ms k | _ \<Rightarrow> None)"

lemma size_map_of: "map_of ms k = Some v \<Longrightarrow> size v < Suc (size_list (size_prod (\<lambda>x. 0) size) ms)"
  by (induction ms) (auto split: if_splits)

lemma size_json_get_ex [termination_simp]: "json_get_ex j k = Some v \<Longrightarrow> size v < size j"
  by (auto simp: json_get_ex_def dest: size_map_of split: json.splits)

text \<open>\<open>json_object_get_int64\<close> of an integer clamps to the range of \<open>int64_t\<close>.\<close>

definition json_int64 :: "int \<Rightarrow> int" where
  "json_int64 i = max (- (2 ^ 63)) (min (2 ^ 63 - 1) i)"

text \<open>\<open>json_object_get_int\<close> clamps to the range of \<open>int32_t\<close>; a null is 0.\<close>

definition json_int32 :: "int \<Rightarrow> int" where
  "json_int32 i = max (- (2 ^ 31)) (min (2 ^ 31 - 1) i)"

section \<open>MMS values\<close>

datatype mms_type =
    MMS_BOOLEAN | MMS_INTEGER | MMS_UNSIGNED | MMS_FLOAT | MMS_VISIBLE_STRING | MMS_STRING
  | MMS_OCTET_STRING | MMS_BIT_STRING | MMS_UTC_TIME | MMS_BINARY_TIME | MMS_ARRAY
  | MMS_STRUCTURE | MMS_DATA_ACCESS_ERROR | MMS_OTHER

text \<open>
  The elements of an array or structure are pointers that may be NULL. A float has format
  width 32 or 64; a time is the octets of its encoding.
\<close>

datatype mms_value =
    MBoolean bool
  | MInteger u64
  | MUnsigned u32
  | MFloat32 u32
  | MFloat64 u64
  | MVisibleString string
  | MMmsString string
  | MOctetString "u8 list"
  | MBitString "bool list"
  | MUtcTime "u8 list"
  | MBinaryTime "u8 list"
  | MArray "mms_value option list"
  | MStructure "mms_value option list"
  | MDataAccessError int
  | MOther

fun MmsValue_getType :: "mms_value \<Rightarrow> mms_type" where
  "MmsValue_getType (MBoolean _) = MMS_BOOLEAN"
| "MmsValue_getType (MInteger _) = MMS_INTEGER"
| "MmsValue_getType (MUnsigned _) = MMS_UNSIGNED"
| "MmsValue_getType (MFloat32 _) = MMS_FLOAT"
| "MmsValue_getType (MFloat64 _) = MMS_FLOAT"
| "MmsValue_getType (MVisibleString _) = MMS_VISIBLE_STRING"
| "MmsValue_getType (MMmsString _) = MMS_STRING"
| "MmsValue_getType (MOctetString _) = MMS_OCTET_STRING"
| "MmsValue_getType (MBitString _) = MMS_BIT_STRING"
| "MmsValue_getType (MUtcTime _) = MMS_UTC_TIME"
| "MmsValue_getType (MBinaryTime _) = MMS_BINARY_TIME"
| "MmsValue_getType (MArray _) = MMS_ARRAY"
| "MmsValue_getType (MStructure _) = MMS_STRUCTURE"
| "MmsValue_getType (MDataAccessError _) = MMS_DATA_ACCESS_ERROR"
| "MmsValue_getType MOther = MMS_OTHER"

section \<open>What the libraries compute\<close>

text \<open>
  \<open>json_parse\<close>: \<open>json_tokener_parse\<close>, None for a text it rejects.
  \<open>json_text\<close>: \<open>json_object_get_string\<close> of a value that is not a string (its JSON text).
  \<open>json_to_double\<close>: \<open>json_object_get_double\<close> of a value that is not a double.
  \<open>json_to_int\<close>, \<open>json_to_int64\<close>: \<open>json_object_get_int\<close> and \<open>json_object_get_int64\<close> of a value that
  is neither an integer nor null. \<open>json_to_bool\<close>: \<open>json_object_get_boolean\<close> of a value that is neither
  a boolean nor null.
  \<open>f32_of_f64\<close>, \<open>f64_of_f32\<close>, \<open>f32_eq\<close>: the C casts between \<open>float\<close> and \<open>double\<close> and \<open>==\<close>
  on \<open>float\<close>. \<open>print_g\<close>: \<open>printf("%.*g")\<close>. \<open>strtof\<close>: \<open>(float) strtod(s, NULL)\<close>.
  \<open>utc_of_ms\<close>: the eight octets of \<open>MmsValue_newUtcTimeByMsTime\<close>. \<open>bintime_of_ms\<close>,
  \<open>bintime_ms\<close>: \<open>MmsValue_setBinaryTime\<close> and \<open>MmsValue_getBinaryTimeAsUtcMs\<close>.
\<close>

record value_lib =
  json_parse :: "string \<Rightarrow> json option"
  json_text :: "json \<Rightarrow> string"
  json_to_double :: "json \<Rightarrow> u64"
  json_to_int :: "json \<Rightarrow> int"
  json_to_int64 :: "json \<Rightarrow> int"
  json_to_bool :: "json \<Rightarrow> bool"
  f32_of_f64 :: "u64 \<Rightarrow> u32"
  f64_of_f32 :: "u32 \<Rightarrow> u64"
  f32_eq :: "u32 \<Rightarrow> u32 \<Rightarrow> bool"
  print_g :: "nat \<Rightarrow> u64 \<Rightarrow> string"
  strtof :: "string \<Rightarrow> u32"
  utc_of_ms :: "u64 \<Rightarrow> u8 list"
  bintime_of_ms :: "u64 \<Rightarrow> u8 list"
  bintime_ms :: "u8 list \<Rightarrow> u64"

text \<open>\<open>json_object_get_string\<close>: NULL for a null, and a C string otherwise.\<close>

definition json_get_string :: "value_lib \<Rightarrow> json \<Rightarrow> string option" where
  "json_get_string L j =
     (case j of JNull \<Rightarrow> None | JString s \<Rightarrow> Some (c_str s) | _ \<Rightarrow> Some (c_str (json_text L j)))"

definition json_get_int :: "value_lib \<Rightarrow> json \<Rightarrow> int" where
  "json_get_int L j = (case j of JInt i \<Rightarrow> json_int32 i | JNull \<Rightarrow> 0 | _ \<Rightarrow> json_to_int L j)"

definition json_get_int64 :: "value_lib \<Rightarrow> json \<Rightarrow> int" where
  "json_get_int64 L j = (case j of JInt i \<Rightarrow> json_int64 i | JNull \<Rightarrow> 0 | _ \<Rightarrow> json_to_int64 L j)"

definition json_get_boolean :: "value_lib \<Rightarrow> json \<Rightarrow> bool" where
  "json_get_boolean L j = (case j of JBool b \<Rightarrow> b | JNull \<Rightarrow> False | _ \<Rightarrow> json_to_bool L j)"

text \<open>\<open>json_tokener_parse\<close> answers NULL for a rejected text and for the text \<open>null\<close>.\<close>

definition json_tokener_parse :: "value_lib \<Rightarrow> string \<Rightarrow> json option" where
  "json_tokener_parse L s = (case json_parse L s of Some JNull \<Rightarrow> None | r \<Rightarrow> r)"

definition json_get_double :: "value_lib \<Rightarrow> json \<Rightarrow> u64" where
  "json_get_double L j = (case j of JDouble d _ \<Rightarrow> d | _ \<Rightarrow> json_to_double L j)"

text \<open>
  What the adapters rely on of these libraries. A widened float that is not a NaN narrows
  back to itself. A
  UtcTime is the seconds since the epoch, big-endian in four octets, then the fraction of
  the second as a 24-bit binary fraction, truncated (IEC 61850-8-1), then a quality octet.
  A binary time holds any millisecond of 1984 to 2104 and reads it back.
\<close>

definition f32_is_nan :: "u32 \<Rightarrow> bool" where
  "f32_is_nan w \<longleftrightarrow> 0x7f800000 < w AND 0x7fffffff"

definition float_casts_ok :: "value_lib \<Rightarrow> bool" where
  "float_casts_ok L \<longleftrightarrow> (\<forall>w. \<not> f32_is_nan w \<longrightarrow> f32_of_f64 L (f64_of_f32 L w) = w)"

definition be_nat :: "u8 list \<Rightarrow> nat" where
  "be_nat bs = foldl (\<lambda>acc b. acc * 256 + unat b) 0 bs"

definition utc_encoding_ok :: "value_lib \<Rightarrow> bool" where
  "utc_encoding_ok L \<longleftrightarrow>
     (\<forall>ms. unat ms < 1000 * 2 ^ 32 \<longrightarrow>
        length (utc_of_ms L ms) = 8 \<and>
        be_nat (take 4 (utc_of_ms L ms)) = unat ms div 1000 \<and>
        be_nat (take 3 (drop 4 (utc_of_ms L ms))) = unat ms mod 1000 * 2 ^ 24 div 1000)"

definition bintime_epoch :: nat where
  "bintime_epoch = 441763200000"

definition bintime_ok :: "value_lib \<Rightarrow> bool" where
  "bintime_ok L \<longleftrightarrow>
     (\<forall>ms. bintime_epoch \<le> unat ms \<and> unat ms < bintime_epoch + 65536 * 86400000 \<longrightarrow>
        bintime_ms L (bintime_of_ms L ms) = ms)"

definition value_lib_ok :: "value_lib \<Rightarrow> bool" where
  "value_lib_ok L \<longleftrightarrow> float_casts_ok L \<and> utc_encoding_ok L \<and> bintime_ok L"

section \<open>A library that meets the requirements\<close>

text \<open>
  The octet encodings are those of IEC 61850-8-1; the float functions stand in for the
  compiler's, with a widening that keeps all bits.
\<close>

lemma be_nat_snoc: "be_nat (bs @ [b]) = be_nat bs * 256 + unat b"
  by (simp add: be_nat_def)

fun be_octets :: "nat \<Rightarrow> nat \<Rightarrow> u8 list" where
  "be_octets 0 v = []"
| "be_octets (Suc k) v = be_octets k (v div 256) @ [of_nat (v mod 256)]"

lemma length_be_octets [simp]: "length (be_octets k v) = k"
  by (induction k arbitrary: v) simp_all

lemma be_nat_be_octets: "v < 256 ^ k \<Longrightarrow> be_nat (be_octets k v) = v"
proof (induction k arbitrary: v)
  case 0
  then show ?case by (simp add: be_nat_def)
next
  case (Suc k)
  then have "v div 256 < 256 ^ k" by (simp add: less_mult_imp_div_less mult.commute)
  with Suc.IH show ?case by (simp add: be_nat_snoc unsigned_of_nat take_bit_nat_def)
qed

definition sample_lib :: value_lib where
  "sample_lib = \<lparr>
     json_parse = (\<lambda>s. None),
     json_text = (\<lambda>j. ''true''),
     json_to_double = (\<lambda>j. case j of JInt i \<Rightarrow> word_of_int i | _ \<Rightarrow> 0),
     json_to_int = (\<lambda>j. 0),
     json_to_int64 = (\<lambda>j. 0),
     json_to_bool = (\<lambda>j. j \<noteq> JString [] \<and> j \<noteq> JInt 0),
     f32_of_f64 = ucast,
     f64_of_f32 = ucast,
     f32_eq = (=),
     print_g = (\<lambda>n d. dec (unat d)),
     strtof = (\<lambda>s. of_nat (read_base 10 s)),
     utc_of_ms = (\<lambda>ms. be_octets 4 (unat ms div 1000) @
       be_octets 3 (unat ms mod 1000 * 2 ^ 24 div 1000) @ [0]),
     bintime_of_ms = (\<lambda>ms. be_octets 4 ((unat ms - bintime_epoch) mod 86400000) @
       be_octets 2 ((unat ms - bintime_epoch) div 86400000)),
     bintime_ms = (\<lambda>bs. of_nat (bintime_epoch + be_nat (drop 4 bs) * 86400000 + be_nat (take 4 bs)))\<rparr>"

lemma ucast_u32_u64: "ucast (ucast (w :: u32) :: u64) = w"
proof -
  have "unat w < 2 ^ LENGTH(32)" by (rule unsigned_less)
  then have "take_bit 64 w = w" by (intro unat_less_take_bit) simp
  then show ?thesis using \<open>unat w < _\<close> by (simp add: word_unat_eq_iff unsigned_ucast_eq take_bit_nat_eq_self)
qed

lemma sample_lib_ok: "value_lib_ok sample_lib"
proof -
  have "utc_encoding_ok sample_lib"
    unfolding utc_encoding_ok_def
  proof (intro allI impI)
    fix ms :: u64
    assume "unat ms < 1000 * 2 ^ 32"
    then have s: "unat ms div 1000 < 256 ^ 4" by (simp add: less_mult_imp_div_less)
    have "unat ms mod 1000 * 16777216 < 16777216 * 1000" by simp
    then have f: "unat ms mod 1000 * 2 ^ 24 div 1000 < 256 ^ 3"
      using less_mult_imp_div_less [of "unat ms mod 1000 * 16777216" 16777216 1000] by simp
    show "length (utc_of_ms sample_lib ms) = 8 \<and>
        be_nat (take 4 (utc_of_ms sample_lib ms)) = unat ms div 1000 \<and>
        be_nat (take 3 (drop 4 (utc_of_ms sample_lib ms))) = unat ms mod 1000 * 2 ^ 24 div 1000"
      using be_nat_be_octets [OF s] be_nat_be_octets [OF f] by (simp add: sample_lib_def)
  qed
  moreover have "bintime_ok sample_lib"
    unfolding bintime_ok_def
  proof (intro allI impI)
    fix ms :: u64
    assume ms: "bintime_epoch \<le> unat ms \<and> unat ms < bintime_epoch + 65536 * 86400000"
    define d where "d = unat ms - bintime_epoch"
    have "d < 65536 * 86400000" using ms unfolding d_def by linarith
    then have "d div 86400000 < 256 ^ 2" by (simp add: less_mult_imp_div_less)
    moreover have "d mod 86400000 < 256 ^ 4" by (rule less_trans [of _ 86400000]) simp_all
    ultimately have eq: "bintime_epoch + be_nat (be_octets 2 (d div 86400000)) * 86400000 +
        be_nat (be_octets 4 (d mod 86400000)) = bintime_epoch + d"
      by (simp only: be_nat_be_octets add.assoc div_mult_mod_eq)
    have "bintime_ms sample_lib (bintime_of_ms sample_lib ms) =
      of_nat (bintime_epoch + be_nat (be_octets 2 (d div 86400000)) * 86400000 +
        be_nat (be_octets 4 (d mod 86400000)))"
      by (simp add: sample_lib_def d_def)
    moreover have "of_nat (bintime_epoch + d) = ms" using ms unfolding d_def by simp
    ultimately show "bintime_ms sample_lib (bintime_of_ms sample_lib ms) = ms"
      unfolding eq by (rule trans)
  qed
  moreover have "float_casts_ok sample_lib" by (simp add: float_casts_ok_def sample_lib_def ucast_u32_u64)
  ultimately show ?thesis by (simp add: value_lib_ok_def)
qed

end
