(* ===== verification/GooseCommon.thy ===== *)
theory GooseCommon
  imports CTime Values
begin

text \<open>
  \<open>goose_common.c\<close>: the typed JSON form \<open>{"type":..,"value":..}\<close> of the value contract and
  its two conversions, the time texts, the APPID and MAC texts of the command line, and the
  two events every GOOSE command emits. An event is the JSON object handed to \<open>goose_emit\<close>,
  which prints it on one line. Converting a value fails either with the message the code
  stores in \<open>*err\<close> or by passing a null pointer to \<open>strcmp\<close>.
\<close>

section \<open>Hexadecimal digits and times\<close>

definition hexval :: "char \<Rightarrow> int" where
  "hexval c =
     (if 48 \<le> code c \<and> code c \<le> 57 then int (code c) - 48
      else if 97 \<le> code c \<and> code c \<le> 102 then int (code c) - 97 + 10
      else if 65 \<le> code c \<and> code c \<le> 70 then int (code c) - 65 + 10
      else - 1)"

text \<open>The loop over the fraction: \<open>k\<close> digits kept so far, with value \<open>ns\<close>.\<close>

fun fraction_loop :: "nat \<Rightarrow> nat \<Rightarrow> string \<Rightarrow> nat \<times> nat \<times> string" where
  "fraction_loop k ns [] = (k, ns, [])"
| "fraction_loop k ns (c # r) =
     (if is_digit 10 c
      then if k < 9 then fraction_loop (Suc k) (ns * 10 + hexv c) r else fraction_loop k ns r
      else (k, ns, c # r))"

definition parse_time_ms :: "string \<Rightarrow> u64 option" where
  "parse_time_ms s =
     (case strptime_iso s of
        None \<Rightarrow> None
      | Some (t, p) \<Rightarrow>
          let (ms, p) =
            (case p of
               c # r \<Rightarrow>
                 if c = CHR ''.'' then
                   (let (k, ns, p) = fraction_loop 0 0 r
                    in ((ns * 10 ^ (9 - k) + 500000) div 1000000, p))
                 else (0, p)
             | [] \<Rightarrow> (0, p))
          in if p \<noteq> ''Z'' then None else Some (word_of_int (timegm t) * 1000 + of_nat ms))"

definition format_time_ms :: "u64 \<Rightarrow> string" where
  "format_time_ms ms =
     strftime_iso (gmtime (unat (ms div 1000))) @ ''.'' @ dec_pad 3 (unat (ms mod 1000)) @ ''Z''"

text \<open>The seconds, big-endian in four octets, and the 24-bit fraction as nanoseconds.\<close>

definition utc_secs :: "u8 list \<Rightarrow> u32" where
  "utc_secs raw =
     push_bit 24 (ucast (raw ! 0)) OR push_bit 16 (ucast (raw ! 1)) OR
     push_bit 8 (ucast (raw ! 2)) OR ucast (raw ! 3)"

definition utc_frac :: "u8 list \<Rightarrow> u64" where
  "utc_frac raw =
     push_bit 16 (ucast (raw ! 4)) OR push_bit 8 (ucast (raw ! 5)) OR ucast (raw ! 6)"

definition utc_ns :: "u8 list \<Rightarrow> u64" where
  "utc_ns raw = drop_bit 24 (utc_frac raw * 1000000000)"

text \<open>The loop that cuts the zeros after index 0 of the nine digits.\<close>

fun trim_zeros :: "nat \<Rightarrow> string \<Rightarrow> string" where
  "trim_zeros 0 s = s"
| "trim_zeros (Suc i) s = (if s ! Suc i = CHR ''0'' then trim_zeros i (take (Suc i) s) else s)"

definition goose_format_utc_ns :: "u8 list \<Rightarrow> string" where
  "goose_format_utc_ns raw =
     (let base = strftime_iso (gmtime (unat (utc_secs raw))); ns = utc_ns raw
      in if ns = 0 then base @ ''Z''
         else base @ ''.'' @ trim_zeros 8 (dec_pad 9 (unat ns)) @ ''Z'')"

definition utc_ms_rounded :: "u8 list \<Rightarrow> u64" where
  "utc_ms_rounded raw = ucast (utc_secs raw) * 1000 + (utc_ns raw + 500000) div 1000000"

section \<open>Typed JSON to values\<close>

datatype value_error = Rejected string | NullDeref

text \<open>Octet strings: pairs of hexadecimal digits.\<close>

fun hex_octets :: "string \<Rightarrow> u8 list option" where
  "hex_octets [] = Some []"
| "hex_octets [c] = None"
| "hex_octets (c # d # r) =
     (if hexval c < 0 \<or> hexval d < 0 then None
      else map_option (Cons (word_of_int (hexval c * 16 + hexval d))) (hex_octets r))"

definition hex_text :: "u8 list \<Rightarrow> string" where
  "hex_text bs = concat (map (\<lambda>b. hex_pad 2 (unat b)) bs)"

definition bits_of_text :: "string \<Rightarrow> bool list option" where
  "bits_of_text s =
     (if list_all (\<lambda>c. c = CHR ''0'' \<or> c = CHR ''1'') s
      then Some (map (\<lambda>c. c = CHR ''1'') s) else None)"

definition bits_text :: "bool list \<Rightarrow> string" where
  "bits_text bs = map (\<lambda>b. if b then CHR ''1'' else CHR ''0'') bs"

function goose_value_from_json :: "value_lib \<Rightarrow> json \<Rightarrow> value_error + mms_value" where
  "goose_value_from_json L j =
     (case (json_get_ex j ''type'', json_get_ex j ''value'') of
        (Some jt, Some jv) \<Rightarrow>
          (case json_get_string L jt of
             None \<Rightarrow> Inl NullDeref
           | Some t \<Rightarrow>
               if t = ''boolean'' then
                 (case jv of JBool b \<Rightarrow> Inr (MBoolean b)
                  | _ \<Rightarrow> Inl (Rejected ''boolean: not a JSON boolean''))
               else if t = ''integer'' then
                 (case jv of JInt i \<Rightarrow> Inr (MInteger (word_of_int (json_int64 i)))
                  | _ \<Rightarrow> Inl (Rejected ''integer: not a JSON integer''))
               else if t = ''unsigned'' then
                 (case jv of
                    JInt i \<Rightarrow>
                      if json_int64 i < 0 \<or> json_int64 i > 0xffffffff
                      then Inl (Rejected ''unsigned: not a 32-bit unsigned integer'')
                      else Inr (MUnsigned (word_of_int (json_int64 i)))
                  | _ \<Rightarrow> Inl (Rejected ''unsigned: not a 32-bit unsigned integer''))
               else if t = ''float32'' \<or> t = ''float64'' then
                 (if (case jv of JDouble _ _ \<Rightarrow> True | JInt _ \<Rightarrow> True | _ \<Rightarrow> False)
                  then let d = json_get_double L jv
                       in if t ! 5 = CHR ''3'' then Inr (MFloat32 (f32_of_f64 L d)) else Inr (MFloat64 d)
                  else Inl (Rejected ''float: not a JSON number''))
               else if t = ''visible-string'' \<or> t = ''mms-string'' then
                 (case jv of
                    JString s \<Rightarrow>
                      if t ! 0 = CHR ''v'' then Inr (MVisibleString (c_str s))
                      else Inr (MMmsString (c_str s))
                  | _ \<Rightarrow> Inl (Rejected ''string: not a JSON string''))
               else if t = ''octet-string'' then
                 (case jv of
                    JString s \<Rightarrow>
                      (case hex_octets (c_str s) of
                         Some bs \<Rightarrow> Inr (MOctetString bs)
                       | None \<Rightarrow> Inl (Rejected ''octet-string: not hex''))
                  | _ \<Rightarrow> Inl (Rejected ''octet-string: not hex''))
               else if t = ''bit-string'' then
                 (case jv of
                    JString s \<Rightarrow>
                      (case bits_of_text (c_str s) of
                         Some bs \<Rightarrow> Inr (MBitString bs)
                       | None \<Rightarrow> Inl (Rejected ''bit-string: not binary digits''))
                  | _ \<Rightarrow> Inl (Rejected ''bit-string: not a string''))
               else if t = ''utc-time'' \<or> t = ''binary-time'' then
                 (case (case jv of JString s \<Rightarrow> parse_time_ms (c_str s) | _ \<Rightarrow> None) of
                    Some ms \<Rightarrow>
                      if t ! 0 = CHR ''u'' then Inr (MUtcTime (utc_of_ms L ms))
                      else Inr (MBinaryTime (bintime_of_ms L ms))
                  | None \<Rightarrow> Inl (Rejected ''time: not YYYY-MM-DDThh:mm:ss[.fff]Z''))
               else if t = ''array'' \<or> t = ''structure'' then
                 (case jv of
                    JArray js \<Rightarrow>
                      (case traverse (goose_value_from_json L) js of
                         Inl e \<Rightarrow> Inl e
                       | Inr vs \<Rightarrow>
                           if t ! 0 = CHR ''a'' then Inr (MArray (map Some vs))
                           else Inr (MStructure (map Some vs)))
                  | _ \<Rightarrow> Inl (Rejected ''array/structure: not a JSON array''))
               else Inl (Rejected ''unsupported type''))
      | _ \<Rightarrow> Inl (Rejected ''value is not {\"type\":..,\"value\":..}''))"
  by pat_completeness auto
termination
proof (relation "measure (\<lambda>(L, j). size j)")
  fix L j x y jt jv js e and t :: string
  assume "(x, y) = (json_get_ex j ''type'', json_get_ex j ''value'')" "y = Some jv"
    and js: "jv = JArray js" "e \<in> set js"
  then have "size jv < size j" by (intro size_json_get_ex [of j "''value''"]) simp
  moreover have "size e < size jv" using js by (simp add: less_Suc_eq_le size_list_estimation')
  ultimately show "((L, e), (L, j)) \<in> measure (\<lambda>(L, j). size j)" by simp
qed simp

declare goose_value_from_json.simps [simp del]

definition goose_values_from_json :: "value_lib \<Rightarrow> json option \<Rightarrow> value_error + mms_value list" where
  "goose_values_from_json L j =
     (case j of
        Some (JArray js) \<Rightarrow> traverse (goose_value_from_json L) js
      | _ \<Rightarrow> Inl (Rejected ''values is not a JSON array''))"

section \<open>Values to typed JSON\<close>

definition typed :: "string \<Rightarrow> json \<Rightarrow> json" where
  "typed t v = JObject [(''type'', JString t), (''value'', v)]"

text \<open>The shortest of the texts with 1 to 9 digits that reads back as the same float.\<close>

function shortest_float :: "value_lib \<Rightarrow> u32 \<Rightarrow> nat \<Rightarrow> string" where
  "shortest_float L w prec =
     (let buf = print_g L prec (f64_of_f32 L w)
      in if f32_eq L (strtof L buf) w \<or> 9 \<le> prec then buf else shortest_float L w (Suc prec))"
  by pat_completeness auto
termination
  by (relation "measure (\<lambda>(L, w, prec). 9 - prec)") auto

declare shortest_float.simps [simp del]

fun goose_value_to_json :: "value_lib \<Rightarrow> mms_value option \<Rightarrow> json" where
  "goose_value_to_json L None = typed ''none'' JNull"
| "goose_value_to_json L (Some (MBoolean b)) = typed ''boolean'' (JBool b)"
| "goose_value_to_json L (Some (MInteger w)) = typed ''integer'' (JInt (sint w))"
| "goose_value_to_json L (Some (MUnsigned w)) = typed ''unsigned'' (JInt (uint w))"
| "goose_value_to_json L (Some (MFloat64 d)) = typed ''float64'' (JDouble d None)"
| "goose_value_to_json L (Some (MFloat32 w)) =
     typed ''float32'' (JDouble (f64_of_f32 L w) (Some (shortest_float L w 1)))"
| "goose_value_to_json L (Some (MVisibleString s)) = typed ''visible-string'' (JString (c_str s))"
| "goose_value_to_json L (Some (MMmsString s)) = typed ''mms-string'' (JString (c_str s))"
| "goose_value_to_json L (Some (MOctetString bs)) = typed ''octet-string'' (JString (hex_text bs))"
| "goose_value_to_json L (Some (MBitString bs)) = typed ''bit-string'' (JString (bits_text bs))"
| "goose_value_to_json L (Some (MUtcTime raw)) =
     typed ''utc-time'' (JString (format_time_ms (utc_ms_rounded raw)))"
| "goose_value_to_json L (Some (MBinaryTime raw)) =
     typed ''binary-time'' (JString (format_time_ms (bintime_ms L raw)))"
| "goose_value_to_json L (Some (MArray vs)) =
     typed ''array'' (JArray (map (goose_value_to_json L) vs))"
| "goose_value_to_json L (Some (MStructure vs)) =
     typed ''structure'' (JArray (map (goose_value_to_json L) vs))"
| "goose_value_to_json L (Some (MDataAccessError e)) = typed ''data-access-error'' (JInt e)"
| "goose_value_to_json L (Some MOther) = typed ''unknown'' JNull"

section \<open>APPID and MAC addresses\<close>

definition goose_parse_appid :: "string \<Rightarrow> u16 option" where
  "goose_parse_appid s =
     (let (n, rest) = strtoul 0 s
      in if s = [] \<or> rest \<noteq> [] \<or> 0xffff < n then None else Some (of_nat n))"

text \<open>
  \<open>sscanf\<close> with six \<open>%2x\<close> separated by \<open>%c\<close> and a twelfth conversion \<open>%c\<close> that must fail:
  it stops at the first conversion that does, and exactly eleven must succeed.
\<close>

fun scan_octets :: "nat \<Rightarrow> string \<Rightarrow> u32 list \<Rightarrow> u32 list \<times> nat" where
  "scan_octets 0 s acc = (acc, 0)"
| "scan_octets (Suc k) s acc =
     (case scan_x2 s of
        None \<Rightarrow> (acc, 0)
      | Some (b, []) \<Rightarrow> (acc @ [b], 1)
      | Some (b, c # r) \<Rightarrow> (let (bs, n) = scan_octets k r (acc @ [b]) in (bs, n + 2)))"

definition goose_parse_mac :: "string \<Rightarrow> u8 list option" where
  "goose_parse_mac s =
     (let (b, n) = scan_octets 6 s [] in if n \<noteq> 11 then None else Some (map ucast b))"

definition goose_format_mac :: "u8 list \<Rightarrow> string" where
  "goose_format_mac mac =
     hex_pad 2 (unat (mac ! 0)) @ '':'' @ hex_pad 2 (unat (mac ! 1)) @ '':'' @
     hex_pad 2 (unat (mac ! 2)) @ '':'' @ hex_pad 2 (unat (mac ! 3)) @ '':'' @
     hex_pad 2 (unat (mac ! 4)) @ '':'' @ hex_pad 2 (unat (mac ! 5))"

text \<open>libiec61850's \<open>CommParameters\<close>.\<close>

record comm_params =
  vlanId :: u16
  vlanPriority :: u8
  appId :: u16
  dstAddress :: "u8 list"

section \<open>Events\<close>

definition goose_ready :: "string \<Rightarrow> string \<Rightarrow> string \<Rightarrow> u8 list \<Rightarrow> string option \<Rightarrow> json" where
  "goose_ready version role iface src gocb_ref =
     JObject ([(''event'', JString ''ready''), (''address'', JString iface),
       (''fixture'', JString ''goose-v1''), (''adapter'', JString ''libiec61850''),
       (''version'', JString version), (''role'', JString role), (''iface'', JString iface),
       (''src'', JString (goose_format_mac src))] @
       (case gocb_ref of
          Some r \<Rightarrow> if r \<noteq> [] then [(''gocbRef'', JString r)] else []
        | None \<Rightarrow> []))"

definition goose_error :: "string \<Rightarrow> json" where
  "goose_error msg = JObject [(''event'', JString ''error''), (''error'', JString msg)]"

section \<open>Octet and bit strings\<close>

lemma hexval_digit_char [simp]: "d < 16 \<Longrightarrow> hexval (digit_char d) = int d"
  by (simp add: hexval_def code_digit_char)

lemma hex_octets_hex_text: "hex_octets (hex_text bs) = Some bs"
proof (induction bs)
  case Nil
  then show ?case by (simp add: hex_text_def)
next
  case (Cons b bs)
  have b: "unat b < 256" using unsigned_less [of b] by simp
  have "int (unat b div 16) * 16 + int (unat b mod 16) = int (unat b)"
    by (metis div_mult_mod_eq of_nat_add of_nat_mult of_nat_numeral)
  then have "word_of_int (int (unat b div 16) * 16 + int (unat b mod 16)) = b"
    by simp
  with b Cons show ?case by (simp add: hex_text_def hex_pad_2 less_mult_imp_div_less)
qed

lemma is_c_string_digits [simp]: "list_all (\<lambda>d. d < 36) ds \<Longrightarrow> is_c_string (map digit_char ds)"
  by (induction ds) auto

lemma is_c_string_hex_pad [simp]: "is_c_string (hex_pad w n)"
proof -
  obtain ds where ds: "hex_pad w n = map digit_char ds" "list_all (\<lambda>d. d < 16) ds"
    using hex_pad_digits by blast
  from ds(2) have "list_all (\<lambda>d. d < 36) ds" by (rule list_all_less_mono) simp
  with ds(1) show ?thesis by simp
qed

lemma is_c_string_hex_text [simp]: "is_c_string (hex_text bs)"
  by (induction bs) (simp_all add: hex_text_def)

lemma bits_of_text_bits_text: "bits_of_text (bits_text bs) = Some bs"
proof -
  have "list_all (\<lambda>c. c = CHR ''0'' \<or> c = CHR ''1'') (bits_text bs) \<and>
    map (\<lambda>c. c = CHR ''1'') (bits_text bs) = bs"
    by (induction bs) (simp_all add: bits_text_def)
  then show ?thesis by (simp add: bits_of_text_def)
qed

lemma is_c_string_bits_text [simp]: "is_c_string (bits_text bs)"
  by (induction bs) (simp_all add: bits_text_def nul_def)

interpretation octets: codec hex_text hex_octets "\<lambda>_. True"
  by unfold_locales (rule hex_octets_hex_text)

interpretation bits: codec bits_text bits_of_text "\<lambda>_. True"
  by unfold_locales (rule bits_of_text_bits_text)

section \<open>UtcTime\<close>

lemma octet_less: "unat (b :: u8) < 256"
  using unsigned_less [of b] by simp

lemma unat_octet [simp]:
  "unat (ucast (b :: u8) :: u32) = unat b" "unat (ucast b :: u64) = unat b"
  using octet_less [of b] by (simp_all add: unsigned_ucast_eq take_bit_nat_eq_self)

lemma unat_utc_secs:
  "unat (utc_secs raw) = ((unat (raw ! 0) * 256 + unat (raw ! 1)) * 256 + unat (raw ! 2)) * 256 + unat (raw ! 3)"
proof -
  note l = octet_less [of "raw ! 0"] octet_less [of "raw ! 1"] octet_less [of "raw ! 2"] octet_less [of "raw ! 3"]
  have a: "unat (push_bit 8 (ucast (raw ! 2)) OR (ucast (raw ! 3) :: u32)) = unat (raw ! 2) * 256 + unat (raw ! 3)"
    using l by (subst unat_push_bit_or) simp_all
  have b: "unat (push_bit 16 (ucast (raw ! 1)) OR (push_bit 8 (ucast (raw ! 2)) OR (ucast (raw ! 3) :: u32))) =
    unat (raw ! 1) * 65536 + (unat (raw ! 2) * 256 + unat (raw ! 3))"
    using l by (subst unat_push_bit_or) (simp_all add: a)
  show ?thesis unfolding utc_secs_def
    using l by (subst unat_push_bit_or) (simp_all add: b del: One_nat_def)
qed

lemma unat_utc_frac:
  "unat (utc_frac raw) = (unat (raw ! 4) * 256 + unat (raw ! 5)) * 256 + unat (raw ! 6)"
proof -
  note l = octet_less [of "raw ! 4"] octet_less [of "raw ! 5"] octet_less [of "raw ! 6"]
  have a: "unat (push_bit 8 (ucast (raw ! 5)) OR (ucast (raw ! 6) :: u64)) = unat (raw ! 5) * 256 + unat (raw ! 6)"
    using l by (subst unat_push_bit_or) simp_all
  show ?thesis unfolding utc_frac_def
    using l by (subst unat_push_bit_or) (simp_all add: a)
qed

lemma list_8_cases:
  assumes "length raw = 8"
  obtains a b c d e f g h where "raw = [a, b, c, d, e, f, g, h]"
  using assms by (auto simp: eval_nat_numeral length_Suc_conv)

lemma utc_secs_be: "length raw = 8 \<Longrightarrow> unat (utc_secs raw) = be_nat (take 4 raw)"
  by (erule list_8_cases) (simp add: unat_utc_secs be_nat_def)

lemma utc_frac_be: "length raw = 8 \<Longrightarrow> unat (utc_frac raw) = be_nat (take 3 (drop 4 raw))"
  by (erule list_8_cases) (simp add: unat_utc_frac be_nat_def)

lemma unat_drop_bit_mult:
  assumes "unat a * n < 2 ^ 64"
  shows "unat (drop_bit k ((a :: u64) * of_nat n)) = unat a * n div 2 ^ k"
proof -
  have "unat (a * of_nat n) = unat a * n"
    using assms by (simp add: unat_word_ariths(2) unsigned_of_nat take_bit_nat_def mod_mult_right_eq)
  moreover have "unat (drop_bit k w) = unat w div 2 ^ k" for w :: u64
    by (metis drop_bit_eq_div unat_drop_bit_eq)
  ultimately show ?thesis by simp
qed

lemma utc_ns_frac: "unat (utc_ns raw) = unat (utc_frac raw) * 1000000000 div 2 ^ 24"
  and utc_ns_less: "unat (utc_ns raw) < 1000000000"
proof -
  have f: "unat (utc_frac raw) < 2 ^ 24"
    using octet_less [of "raw ! 4"] octet_less [of "raw ! 5"] octet_less [of "raw ! 6"]
    by (simp add: unat_utc_frac)
  then show *: "unat (utc_ns raw) = unat (utc_frac raw) * 1000000000 div 2 ^ 24"
    using unat_drop_bit_mult [of "utc_frac raw" 1000000000 24] by (simp add: utc_ns_def)
  from f show "unat (utc_ns raw) < 1000000000" unfolding * by (simp add: less_mult_imp_div_less)
qed

lemma ms_of_frac:
  fixes m :: nat
  assumes "m < 1000"
  shows "(m * 16777216 div 1000 * 1000000000 div 16777216 + 500000) div 1000000 = m"
proof -
  define f where "f = m * 16777216 div 1000"
  have f: "f * 1000 \<le> m * 16777216" "m * 16777216 < f * 1000 + 1000" unfolding f_def by linarith+
  define n where "n = f * 1000000000 div 16777216"
  have n: "n * 16777216 \<le> f * 1000000000" "f * 1000000000 < n * 16777216 + 16777216" unfolding n_def by linarith+
  have "n \<le> m * 1000000" "m * 1000000 < n + 500000" using f n by linarith+
  then have "(n + 500000) div 1000000 = m" by linarith
  then show ?thesis by (simp add: f_def n_def)
qed

lemma utc_ms_rounded_spec:
  "unat (utc_ms_rounded raw) = unat (utc_secs raw) * 1000 + (unat (utc_ns raw) + 500000) div 1000000"
proof -
  have s: "unat (utc_secs raw) < 2 ^ 32" using unsigned_less [of "utc_secs raw"] by simp
  then have u: "unat (ucast (utc_secs raw) :: u64) = unat (utc_secs raw)"
    by (simp add: unsigned_ucast_eq take_bit_nat_eq_self)
  have m: "unat ((utc_ns raw + 500000) div 1000000) = (unat (utc_ns raw) + 500000) div 1000000"
    using utc_ns_less [of raw] by (simp add: unat_div unat_word_ariths(1))
  have "(unat (utc_ns raw) + 500000) div 1000000 \<le> 1000" using utc_ns_less [of raw] by linarith
  with s show ?thesis unfolding utc_ms_rounded_def by (simp add: unat_word_ariths(1,2) u m)
qed

lemma utc_ms_rounded_utc_of_ms:
  assumes L: "utc_encoding_ok L" and ms: "unat ms < 1000 * 2 ^ 32"
  shows "utc_ms_rounded (utc_of_ms L ms) = ms"
proof -
  let ?raw = "utc_of_ms L ms"
  from L ms have len: "length ?raw = 8"
    and secs: "unat (utc_secs ?raw) = unat ms div 1000"
    and frac: "unat (utc_frac ?raw) = unat ms mod 1000 * 2 ^ 24 div 1000"
    by (simp_all add: utc_encoding_ok_def utc_secs_be utc_frac_be)
  have "(unat (utc_ns ?raw) + 500000) div 1000000 = unat ms mod 1000"
    using ms_of_frac [of "unat ms mod 1000"] by (simp add: utc_ns_frac frac)
  then have "unat (utc_ms_rounded ?raw) = unat ms" by (simp add: utc_ms_rounded_spec secs)
  then show ?thesis by (simp add: word_unat_eq_iff)
qed

lemma unat_u32_less: "unat (w :: u32) < 4294967296"
proof -
  have "unat w < 2 ^ LENGTH(32)" by (rule unsigned_less)
  then show ?thesis by simp
qed

section \<open>Time texts\<close>

lemma dec_pad_digits:
  assumes "n < 10 ^ w" "0 < w"
  obtains ds where "dec_pad w n = map digit_char ds" "length ds = w" "list_all (\<lambda>d. d < 10) ds"
    "of_digits 10 ds = n"
proof
  let ?ds = "replicate (w - length (to_digits 10 n)) 0 @ to_digits 10 n"
  show eq: "dec_pad w n = map digit_char ?ds" by (simp add: dec_pad_def dec_def pad0_digits)
  show "length ?ds = w" using length_dec_pad [OF assms] unfolding eq by simp
  show "list_all (\<lambda>d. d < 10) ?ds"
    using to_digits_less [of 10 _ n] by (force simp: list_all_iff set_replicate_conv_if)
  show "of_digits 10 ?ds = n" by simp
qed

lemma fraction_loop_digits:
  "list_all (\<lambda>d. d < 10) ds \<Longrightarrow> k + length ds \<le> 9 \<Longrightarrow>
   fraction_loop k ns (map digit_char ds @ ''Z'') = (k + length ds, ns * 10 ^ length ds + of_digits 10 ds, ''Z'')"
proof (induction ds arbitrary: k ns)
  case Nil
  then show ?case by (simp add: is_digit_def digit_val_def)
next
  case (Cons d ds)
  then show ?case by (simp add: of_digits_Cons algebra_simps)
qed

lemma strptime_gmtime:
  assumes "t < 253402300800"
  shows "strptime_iso (strftime_iso (gmtime t) @ r) = Some (gmtime t, r)"
proof (rule strptime_strftime [OF gmtime_ok])
  have "int t < year_start (9999 + 1) * 86400" using assms by (simp add: year_start_def leaps_def)
  then show "tm_year (gmtime t) + 1900 \<le> 9999" by (rule gmtime_year_bound)
qed

text \<open>A time with a fraction of up to nine digits parses to its rounded milliseconds.\<close>

lemma parse_time_ms_fraction:
  assumes "t < 253402300800" "list_all (\<lambda>d. d < 10) ds" "length ds \<le> 9"
  shows "parse_time_ms (strftime_iso (gmtime t) @ ''.'' @ map digit_char ds @ ''Z'') =
    Some (of_nat t * 1000 + of_nat ((of_digits 10 ds * 10 ^ (9 - length ds) + 500000) div 1000000))"
  using assms fraction_loop_digits [of ds 0 0]
  by (simp add: parse_time_ms_def strptime_gmtime timegm_gmtime)

lemma parse_time_ms_whole:
  assumes "t < 253402300800"
  shows "parse_time_ms (strftime_iso (gmtime t) @ ''Z'') = Some (of_nat t * 1000)"
  using assms by (simp add: parse_time_ms_def strptime_gmtime timegm_gmtime)

definition year_10000_ms :: nat where
  "year_10000_ms = 253402300800000"

lemma parse_format_time_ms:
  assumes "unat ms < year_10000_ms"
  shows "parse_time_ms (format_time_ms ms) = Some ms"
proof -
  have sec: "unat (ms div 1000) = unat ms div 1000" and frac: "unat (ms mod 1000) = unat ms mod 1000"
    by (simp_all add: unat_div unat_mod)
  have m: "unat ms mod 1000 < 10 ^ 3" by simp
  obtain ds where ds: "dec_pad 3 (unat ms mod 1000) = map digit_char ds" "length ds = 3"
    "list_all (\<lambda>d. d < 10) ds" "of_digits 10 ds = unat ms mod 1000"
    using dec_pad_digits [OF m, of thesis] by auto
  have t: "unat ms div 1000 < 253402300800" using assms by (simp add: year_10000_ms_def less_mult_imp_div_less)
  have "(of_nat (unat ms div 1000) * 1000 + of_nat (unat ms mod 1000) :: u64) =
      of_nat (unat ms div 1000 * 1000 + unat ms mod 1000)"
    by (simp only: of_nat_add of_nat_mult of_nat_numeral)
  also have "\<dots> = ms" by (simp only: div_mult_mod_eq) simp
  finally have eq: "(of_nat (unat ms div 1000) * 1000 + of_nat (unat ms mod 1000) :: u64) = ms" .
  have "parse_time_ms (format_time_ms ms) =
      Some (of_nat (unat ms div 1000) * 1000 + of_nat ((unat ms mod 1000 * 10 ^ 6 + 500000) div 1000000))"
    unfolding format_time_ms_def sec frac ds(1)
    using parse_time_ms_fraction [OF t ds(3)] ds(2,4) by simp
  also have "(unat ms mod 1000 * 10 ^ 6 + 500000) div 1000000 = unat ms mod 1000" by simp
  finally show ?thesis unfolding eq .
qed

lemma trim_zeros_digits:
  "length ds = Suc i \<Longrightarrow> list_all (\<lambda>d. d < 10) ds \<Longrightarrow>
   \<exists>es k. trim_zeros i (map digit_char ds) = map digit_char es \<and> ds = es @ replicate k 0 \<and>
     (length es = 1 \<or> es \<noteq> [] \<and> last es \<noteq> 0)"
proof (induction i arbitrary: ds)
  case 0
  then show ?case by (intro exI [of _ ds] exI [of _ 0]) simp
next
  case (Suc i)
  from Suc.prems(1) obtain d cs where ds: "ds = cs @ [d]" "length cs = Suc i"
    by (cases ds rule: rev_cases) auto
  show ?case
  proof (cases "d = 0")
    case True
    from Suc.IH [of cs] ds Suc.prems(2) obtain es k where
      "trim_zeros i (map digit_char cs) = map digit_char es" "cs = es @ replicate k 0"
      "length es = 1 \<or> es \<noteq> [] \<and> last es \<noteq> 0" by auto
    moreover have "trim_zeros (Suc i) (map digit_char ds) = trim_zeros i (map digit_char cs)"
      using True ds by (simp add: nth_append digit_char_0)
    moreover have "ds = es @ replicate (Suc k) 0"
      using ds(1) True \<open>cs = es @ replicate k 0\<close> by (simp add: replicate_append_same)
    ultimately show ?thesis by (intro exI [of _ es] exI [of _ "Suc k"]) simp
  next
    case False
    with ds Suc.prems show ?thesis
      by (intro exI [of _ ds] exI [of _ 0]) (simp add: nth_append digit_char_0)
  qed
qed

lemma goose_format_utc_ns_digits:
  assumes "utc_ns raw \<noteq> 0"
  obtains es k where
    "goose_format_utc_ns raw =
      strftime_iso (gmtime (unat (utc_secs raw))) @ ''.'' @ map digit_char es @ ''Z''"
    "length es + k = 9" "list_all (\<lambda>d. d < 10) es" "of_digits 10 es * 10 ^ k = unat (utc_ns raw)"
    "es \<noteq> []" "last es \<noteq> 0"
proof -
  have n: "unat (utc_ns raw) < 10 ^ 9" using utc_ns_less [of raw] by simp
  obtain ds where ds: "dec_pad 9 (unat (utc_ns raw)) = map digit_char ds" "length ds = 9"
    "list_all (\<lambda>d. d < 10) ds" "of_digits 10 ds = unat (utc_ns raw)"
    using dec_pad_digits [OF n, of thesis] by auto
  then obtain es k where es: "trim_zeros 8 (map digit_char ds) = map digit_char es"
    "ds = es @ replicate k 0" "length es = 1 \<or> es \<noteq> [] \<and> last es \<noteq> 0"
    using trim_zeros_digits [of ds 8] by auto
  have val: "of_digits 10 es * 10 ^ k = unat (utc_ns raw)"
    using ds(4) es(2) of_digits_append [of 10 es "replicate k 0"] of_digits_zeros [of 10 k "[]"] by simp
  have "last es \<noteq> 0"
  proof
    assume l: "last es = 0"
    with es(3) obtain e where "es = [e]" by (auto simp: length_Suc_conv)
    with l val have "unat (utc_ns raw) = 0" by (simp add: of_digits_def)
    with assms show False by (simp add: word_unat_eq_iff)
  qed
  moreover have "goose_format_utc_ns raw =
      strftime_iso (gmtime (unat (utc_secs raw))) @ ''.'' @ map digit_char es @ ''Z''"
    using assms by (simp add: goose_format_utc_ns_def ds(1) es(1))
  moreover have "length es + k = 9" "list_all (\<lambda>d. d < 10) es" using ds es by auto
  moreover have "es \<noteq> []" using es(3) by auto
  ultimately show ?thesis using that val by blast
qed

lemma parse_goose_format_utc_ns: "parse_time_ms (goose_format_utc_ns raw) = Some (utc_ms_rounded raw)"
proof -
  have t: "unat (utc_secs raw) < 253402300800" by (rule less_trans [OF unat_u32_less]) simp
  have ms: "utc_ms_rounded raw = of_nat (unat (utc_secs raw)) * 1000 + of_nat ((unat (utc_ns raw) + 500000) div 1000000)"
    using arg_cong [OF utc_ms_rounded_spec [of raw], of "of_nat :: nat \<Rightarrow> u64"]
    by (simp only: of_nat_unat ucast_id of_nat_add of_nat_mult of_nat_numeral)
  show ?thesis
  proof (cases "utc_ns raw = 0")
    case True
    then show ?thesis by (simp add: goose_format_utc_ns_def parse_time_ms_whole [OF t] ms)
  next
    case False
    then obtain es k where es: "goose_format_utc_ns raw =
        strftime_iso (gmtime (unat (utc_secs raw))) @ ''.'' @ map digit_char es @ ''Z''"
      "length es + k = 9" "list_all (\<lambda>d. d < 10) es" "of_digits 10 es * 10 ^ k = unat (utc_ns raw)"
      by (rule goose_format_utc_ns_digits) auto
    from es(2) have "length es \<le> 9" "9 - length es = k" by simp_all
    with parse_time_ms_fraction [OF t es(3)] es(4) show ?thesis unfolding es(1) ms by simp
  qed
qed

section \<open>Values and typed JSON\<close>

text \<open>
  The values that JSON can carry: text without NUL, floats that are numbers, UTC times on a
  millisecond of 1970 to 2106, binary times of 1984 to 2163.
\<close>

fun value_ok :: "value_lib \<Rightarrow> mms_value option \<Rightarrow> bool" where
  "value_ok L None = False"
| "value_ok L (Some (MFloat32 w)) = (\<not> f32_is_nan w)"
| "value_ok L (Some (MVisibleString s)) = is_c_string s"
| "value_ok L (Some (MMmsString s)) = is_c_string s"
| "value_ok L (Some (MUtcTime raw)) =
     (unat (utc_ms_rounded raw) < 1000 * 2 ^ 32 \<and> raw = utc_of_ms L (utc_ms_rounded raw))"
| "value_ok L (Some (MBinaryTime raw)) =
     (unat (bintime_ms L raw) < year_10000_ms \<and> raw = bintime_of_ms L (bintime_ms L raw))"
| "value_ok L (Some (MArray vs)) = list_all (value_ok L) vs"
| "value_ok L (Some (MStructure vs)) = list_all (value_ok L) vs"
| "value_ok L (Some (MDataAccessError e)) = False"
| "value_ok L (Some MOther) = False"
| "value_ok L (Some v) = True"

lemma json_get_ex_typed [simp]:
  "json_get_ex (typed t v) ''type'' = Some (JString t)"
  "json_get_ex (typed t v) ''value'' = Some v"
  by (simp_all add: json_get_ex_def typed_def)

lemma json_int64_ident [simp]: "- (2 ^ 63) \<le> i \<Longrightarrow> i < 2 ^ 63 \<Longrightarrow> json_int64 i = i"
  by (simp add: json_int64_def)

lemma sint_int64 [simp]: "json_int64 (sint (w :: u64)) = sint w"
  using sint_ge [of w] sint_lt [of w] by (intro json_int64_ident) simp_all

lemma is_c_string_dec_pad [simp]: "is_c_string (dec_pad w n)"
proof -
  obtain ds where "dec n = map digit_char ds" "list_all (\<lambda>d. d < 10) ds" using dec_digits by blast
  then have "is_c_string (dec n)" using list_all_less_mono [of 10 ds 36] by simp
  then show ?thesis by (simp add: dec_pad_def pad0_def is_c_string_def nul_def)
qed

lemma is_c_string_dec [simp]: "is_c_string (dec n)"
  using is_c_string_dec_pad [of 0 n] by (simp add: dec_pad_def pad0_def)

lemma is_c_string_format_time_ms [simp]: "is_c_string (format_time_ms ms)"
  by (simp add: format_time_ms_def strftime_iso_def dec_int_def nul_def)

lemma from_json_elements:
  "(\<And>v. v \<in> set vs \<Longrightarrow> value_ok L v \<Longrightarrow> goose_value_from_json L (goose_value_to_json L v) = Inr (the v)) \<Longrightarrow>
   list_all (value_ok L) vs \<Longrightarrow>
   traverse (goose_value_from_json L) (map (goose_value_to_json L) vs) = Inr (map the vs) \<and>
   map Some (map the vs) = vs"
proof (induction vs)
  case Nil
  then show ?case by simp
next
  case (Cons v vs)
  then obtain w where "v = Some w" by (cases v) auto
  with Cons show ?case by simp
qed

lemma uint_int64 [simp]: "json_int64 (uint (w :: u32)) = uint w"
proof -
  have "uint w < 2 ^ LENGTH(32)" by (rule uint_lt2p)
  then have "uint w < 2 ^ 63" by simp
  moreover have "- (2 ^ 63) \<le> uint w" by (rule order_trans [OF _ uint_ge_0]) simp
  ultimately show ?thesis by (rule json_int64_ident [rotated])
qed

lemma uint_u32_le [simp]: "\<not> 4294967295 < uint (w :: u32)"
proof -
  have "uint w < 2 ^ LENGTH(32)" by (rule uint_lt2p)
  then show ?thesis by simp
qed

lemma value_lib_okD:
  assumes "value_lib_ok L"
  shows "\<not> f32_is_nan w \<Longrightarrow> f32_of_f64 L (f64_of_f32 L w) = w"
    and "utc_encoding_ok L" and "bintime_ok L"
  using assms by (simp_all add: value_lib_ok_def float_casts_ok_def)

lemma goose_value_from_to_json:
  "value_lib_ok L \<Longrightarrow> value_ok L v \<Longrightarrow> goose_value_from_json L (goose_value_to_json L v) = Inr (the v)"
proof (induction L v rule: goose_value_to_json.induct)
  case (6 L w)
  then show ?case by (simp add: goose_value_from_json.simps json_get_string_def nul_def
    json_get_double_def value_lib_okD)
next
  case (9 L bs)
  show ?case by (simp add: goose_value_from_json.simps json_get_string_def nul_def hex_octets_hex_text)
next
  case (10 L bs)
  show ?case by (simp add: goose_value_from_json.simps json_get_string_def nul_def bits_of_text_bits_text)
next
  case (11 L raw)
  then have "unat (utc_ms_rounded raw) < year_10000_ms" by (simp add: year_10000_ms_def)
  with 11 show ?case
    by (simp add: goose_value_from_json.simps json_get_string_def nul_def parse_format_time_ms)
next
  case (12 L raw)
  then show ?case
    by (simp add: goose_value_from_json.simps json_get_string_def nul_def parse_format_time_ms)
next
  case (13 L vs)
  then show ?case using from_json_elements [of vs L]
    by (simp add: goose_value_from_json.simps json_get_string_def nul_def)
next
  case (14 L vs)
  then show ?case using from_json_elements [of vs L]
    by (simp add: goose_value_from_json.simps json_get_string_def nul_def)
qed (simp_all add: goose_value_from_json.simps json_get_string_def nul_def json_get_double_def)

text \<open>Every JSON value occurring in a JSON value.\<close>

fun subvalues :: "json \<Rightarrow> json list" where
  "subvalues (JArray js) = JArray js # concat (map subvalues js)"
| "subvalues (JObject ms) = JObject ms # concat (map (\<lambda>(k, v). subvalues v) ms)"
| "subvalues j = [j]"

definition has_null_type :: "json \<Rightarrow> bool" where
  "has_null_type j \<longleftrightarrow> (\<exists>s \<in> set (subvalues j). json_get_ex s ''type'' = Some JNull)"

lemma self_subvalue: "j \<in> set (subvalues j)"
  by (cases j) simp_all

lemma subvalues_member:
  assumes "json_get_ex j k = Some v"
  shows "set (subvalues v) \<subseteq> set (subvalues j)"
proof (cases j)
  case (JObject ms)
  with assms have "(k, v) \<in> set ms" by (simp add: json_get_ex_def map_of_SomeD)
  with JObject show ?thesis by (auto intro!: bexI [of _ "(k, v)"])
qed (use assms in \<open>simp_all add: json_get_ex_def\<close>)

lemma subvalues_element: "x \<in> set js \<Longrightarrow> set (subvalues x) \<subseteq> set (subvalues (JArray js))"
  by auto

lemma traverse_Inl: "traverse f xs = Inl e \<Longrightarrow> \<exists>x \<in> set xs. f x = Inl e"
  by (induction xs) (auto split: sum.splits)

lemma scan_octets_count:
  "scan_octets k s acc = (bs, n) \<Longrightarrow> length bs = length acc + (n + 1) div 2"
proof (induction k s acc arbitrary: bs n rule: scan_octets.induct)
  case (2 k s acc)
  then show ?case by (auto split: option.splits list.splits prod.splits)
qed simp

lemma goose_parse_mac_length: "goose_parse_mac s = Some m \<Longrightarrow> length m = 6"
  using scan_octets_count [of 6 s "[]"]
  by (auto simp: goose_parse_mac_def split: prod.splits if_splits)

definition mac_text :: "char list \<Rightarrow> u8 list \<Rightarrow> string" where
  "mac_text seps mac = concat (map2 (\<lambda>b s. hex_pad 2 (unat b) @ s) mac (map (\<lambda>c. [c]) seps @ [[]]))"

lemma ucast_octet [simp]: "ucast (ucast (b :: u8) :: u32) = b"
proof -
  have "take_bit 32 b = b" using octet_less [of b] by (intro unat_less_take_bit) simp
  then show ?thesis using octet_less [of b] by (simp add: word_unat_eq_iff unsigned_ucast_eq take_bit_nat_eq_self)
qed

lemma goose_parse_mac_text:
  assumes "length mac = 6" "length seps = 5"
  shows "goose_parse_mac (mac_text seps mac) = Some mac"
proof -
  from assms obtain a b c d e f s1 s2 s3 s4 s5 where
    m: "mac = [a, b, c, d, e, f]" "seps = [s1, s2, s3, s4, s5]"
    by (auto simp: eval_nat_numeral length_Suc_conv)
  have six: "(6 :: nat) = Suc (Suc (Suc (Suc (Suc (Suc 0)))))" by simp
  show ?thesis
    unfolding m goose_parse_mac_def six using scan_x2_hex_pad [of "unat f" "[]"]
    by (simp add: mac_text_def octet_less)
qed

lemma goose_format_mac_text: "length mac = 6 \<Longrightarrow> goose_format_mac mac = mac_text (replicate 5 (CHR '':'')) mac"
  by (auto simp: eval_nat_numeral length_Suc_conv goose_format_mac_def mac_text_def)

lemma goose_parse_format_mac: "length mac = 6 \<Longrightarrow> goose_parse_mac (goose_format_mac mac) = Some mac"
  by (simp add: goose_format_mac_text goose_parse_mac_text)

interpretation mac: codec goose_format_mac goose_parse_mac "\<lambda>m. length m = 6"
  by unfold_locales (rule goose_parse_format_mac)

lemma goose_parse_appid_hex: "goose_parse_appid (''0x'' @ hex_pad 4 (unat a)) = Some a"
proof -
  have "unat a < 2 ^ LENGTH(16)" by (rule unsigned_less)
  then show ?thesis
    using strtoul_hex [of "unat a" 4] by (simp add: goose_parse_appid_def ULONG_MAX_def)
qed

lemma goose_parse_appid_dec: "goose_parse_appid (dec (unat a)) = Some a"
proof -
  have "unat a < 2 ^ LENGTH(16)" by (rule unsigned_less)
  then show ?thesis
    using strtoul_dec [of "unat a"] by (simp add: goose_parse_appid_def ULONG_MAX_def dec_def)
qed

interpretation appid: codec "\<lambda>a. ''0x'' @ hex_pad 4 (unat a)" goose_parse_appid "\<lambda>_. True"
  by unfold_locales (rule goose_parse_appid_hex)

lemma null_deref_has_null_type:
  "goose_value_from_json L j = Inl NullDeref \<Longrightarrow> has_null_type j"
proof (induction L j rule: goose_value_from_json.induct)
  case (1 L j)
  show ?case
  proof (cases "json_get_ex j ''type'' = Some JNull")
    case True
    then show ?thesis using self_subvalue [of j] unfolding has_null_type_def by blast
  next
    case ty: False
    from "1.prems" obtain jt jv where g: "json_get_ex j ''type'' = Some jt" "json_get_ex j ''value'' = Some jv"
      by (auto simp: goose_value_from_json.simps [of L j] split: option.splits)
    with ty obtain t where t: "json_get_string L jt = Some t"
      by (cases jt) (auto simp: json_get_string_def)
    show ?thesis
    proof (cases "\<exists>js. jv = JArray js \<and> (t = ''array'' \<or> t = ''structure'')")
      case True
      then obtain js where js: "jv = JArray js" "t = ''array'' \<or> t = ''structure''" by blast
      with "1.prems" g t have "traverse (goose_value_from_json L) js = Inl NullDeref"
        by (auto simp: goose_value_from_json.simps [of L j] split: sum.splits)
      then obtain x where x: "x \<in> set js" "goose_value_from_json L x = Inl NullDeref"
        by (auto dest: traverse_Inl)
      have "has_null_type x" using "1.IH" g t js x by auto
      moreover have "set (subvalues x) \<subseteq> set (subvalues j)"
        using subvalues_element [OF x(1)] subvalues_member [OF g(2)] unfolding js(1) by (rule subset_trans)
      ultimately show ?thesis unfolding has_null_type_def by blast
    next
      case False
      then have "goose_value_from_json L j \<noteq> Inl NullDeref"
        by (cases jv) (simp_all add: goose_value_from_json.simps [of L j] g t Let_def split: option.split)
      with "1.prems" show ?thesis by simp
    qed
  qed
qed

lemma null_type_crashes:
  "goose_value_from_json L (JObject [(''type'', JNull), (''value'', v)]) = Inl NullDeref"
  by (simp add: goose_value_from_json.simps json_get_ex_def json_get_string_def)

lemma goose_values_from_json_no_crash:
  "\<not> has_null_type j \<Longrightarrow> goose_values_from_json L (Some j) \<noteq> Inl NullDeref"
proof
  assume n: "\<not> has_null_type j" and "goose_values_from_json L (Some j) = Inl NullDeref"
  then obtain js where js: "j = JArray js" "traverse (goose_value_from_json L) js = Inl NullDeref"
    by (auto simp: goose_values_from_json_def split: json.splits)
  then obtain x where x: "x \<in> set js" "goose_value_from_json L x = Inl NullDeref"
    by (auto dest: traverse_Inl)
  then have "has_null_type x" by (auto dest: null_deref_has_null_type)
  with subvalues_element [OF x(1)] n js(1) show False unfolding has_null_type_def by blast
qed

section \<open>What the codecs promise\<close>

text \<open>C10: Typed JSON is a faithful carrier of MMS values: a list of booleans, integers, unsigned
  integers, floats, strings, octet and bit strings, times, and arrays and structures of these to any
  depth, written by \<open>goose_value_to_json\<close>, is read back by \<open>goose_values_from_json\<close> as the same
  values. Left out are data access errors, values of other MMS types and absent elements of arrays
  and structures, which the reader has no type for; texts with a NUL; floats that are NaN; a UtcTime
  from 2106 on or that is not the library's encoding of a whole millisecond (its quality and
  fraction below a millisecond are not kept), and a binary time from the year 10000 on or that is
  not the library's encoding of its milliseconds.\<close>

theorem goose_values_roundtrip:
  assumes "value_lib_ok L" "list_all (\<lambda>v. value_ok L (Some v)) vs"
  shows "goose_values_from_json L (Some (JArray (map (\<lambda>v. goose_value_to_json L (Some v)) vs))) = Inr vs"
  using assms(2)
  by (induction vs) (simp_all add: goose_values_from_json_def goose_value_from_to_json [OF assms(1)] split: sum.splits)

theorem goose_values_roundtrip_witness:
  "goose_values_from_json sample_lib (Some (JArray (map (\<lambda>v. goose_value_to_json sample_lib (Some v))
     [MInteger (-5), MStructure [Some (MBoolean True), Some (MVisibleString ''a b''), Some (MArray [Some (MBitString [True, False])])],
      MOctetString [0xde, 0xad]]))) =
   Inr [MInteger (-5), MStructure [Some (MBoolean True), Some (MVisibleString ''a b''), Some (MArray [Some (MBitString [True, False])])],
      MOctetString [0xde, 0xad]]"
  by (rule goose_values_roundtrip [OF sample_lib_ok]) (simp add: is_c_string_def nul_def)

text \<open>C20: Times keep their millisecond: what \<open>format_time_ms\<close> writes for any time before the year
  10000 is read back exactly, and the nanosecond text of any eight octets of a UtcTime is read as
  its time rounded to the nearest millisecond.\<close>

theorem goose_time_roundtrip:
  assumes "unat ms < year_10000_ms"
  shows "parse_time_ms (format_time_ms ms) = Some ms \<and>
    parse_time_ms (goose_format_utc_ns raw) = Some (utc_ms_rounded raw) \<and>
    unat (utc_ms_rounded raw) = unat (utc_secs raw) * 1000 + (unat (utc_ns raw) + 500000) div 1000000"
  using assms by (simp add: parse_format_time_ms parse_goose_format_utc_ns utc_ms_rounded_spec)

theorem goose_time_roundtrip_witness:
  "parse_time_ms (format_time_ms 1704067200123) = Some 1704067200123 \<and>
   parse_time_ms (goose_format_utc_ns [0x65, 0x92, 0, 0x80, 0x1f, 0x7c, 0xee, 0]) =
     Some (utc_ms_rounded [0x65, 0x92, 0, 0x80, 0x1f, 0x7c, 0xee, 0])"
  using goose_time_roundtrip [of 1704067200123 "[0x65, 0x92, 0, 0x80, 0x1f, 0x7c, 0xee, 0]"]
  by (simp add: year_10000_ms_def)

text \<open>MAC addresses: \<open>goose_format_mac\<close> writes six octets with colons, and
  \<open>goose_parse_mac\<close> reads that back; it takes six pairs of digits between any separators at all,
  colons or not.\<close>

theorem goose_mac_separators:
  assumes "length mac = 6" "length seps = 5"
  shows "goose_format_mac mac = mac_text '':::::'' mac \<and> goose_parse_mac (goose_format_mac mac) = Some mac \<and>
    goose_parse_mac (mac_text seps mac) = Some mac"
  using goose_format_mac_text [OF assms(1)] goose_parse_mac_text [OF assms] goose_parse_format_mac [OF assms(1)]
  by (simp add: numeral_eq_Suc)

theorem goose_mac_separators_witness:
  "goose_parse_mac (mac_text ''x- .7'' [1, 0x0c, 0xcd, 4, 0, 1]) = Some [1, 0x0c, 0xcd, 4, 0, 1] \<and>
   mac_text ''x- .7'' [1, 0x0c, 0xcd, 4, 0, 1] = ''01x0c-cd 04.00701''"
proof
  show "goose_parse_mac (mac_text ''x- .7'' [1, 0x0c, 0xcd, 4, 0, 1]) = Some [1, 0x0c, 0xcd, 4, 0, 1]"
    using goose_mac_separators [of "[1, 0x0c, 0xcd, 4, 0, 1]" "''x- .7''"] by simp
  show "mac_text ''x- .7'' [1, 0x0c, 0xcd, 4, 0, 1] = ''01x0c-cd 04.00701''"
    by (simp add: mac_text_def hex_pad_2 hex_digit_chars)
qed

text \<open>Every APPID is read back from the hexadecimal text the events show and from its decimal
  text.\<close>

theorem goose_appid_roundtrip:
  "goose_parse_appid (''0x'' @ hex_pad 4 (unat a)) = Some a \<and> goose_parse_appid (dec (unat a)) = Some a"
  by (intro conjI goose_parse_appid_hex goose_parse_appid_dec)

text \<open>A typed value makes the reader dereference NULL only when some value within it has a null
  type.\<close>

theorem goose_null_type:
  assumes "goose_value_from_json L j = Inl NullDeref"
  shows "has_null_type j"
  using assms by (rule null_deref_has_null_type)

theorem goose_null_type_witness:
  "has_null_type (JObject [(''type'', JString ''array''), (''value'', JArray [JObject [(''type'', JNull), (''value'', JInt 1)]])])"
  by (rule goose_null_type [of sample_lib])
    (simp add: goose_value_from_json.simps json_get_ex_def json_get_string_def nul_def)

end
