(* ===== verification/Fixture.thy ===== *)
theory Fixture
  imports GooseCommon
begin

text \<open>
  \<open>fixture.c\<close> and \<open>fixture.h\<close>: the JSON fixture that the MMS server serves, read into typed
  variables, journals, files and reports. A loader answers \<open>Undefined\<close> where the code passes a
  null pointer of json-c on to \<open>strcmp\<close>, \<open>strdup\<close>, \<open>strlen\<close> or \<open>sscanf\<close> or iterates over a value
  that is no object, None where it reports an error, and otherwise what it built. Memory is not
  modelled: every allocation succeeds.
\<close>

section \<open>Hexadecimal octets and times\<close>

definition hex_char :: "char \<Rightarrow> int" where
  "hex_char c =
     (if 48 \<le> code c \<and> code c \<le> 57 then int (code c) - 48
      else if 97 \<le> code c \<and> code c \<le> 102 then int (code c) - 97 + 10
      else if 65 \<le> code c \<and> code c \<le> 70 then int (code c) - 65 + 10
      else - 1)"

fun hex_loop :: "string \<Rightarrow> nat \<Rightarrow> nat \<Rightarrow> u8 list \<Rightarrow> u8 list option" where
  "hex_loop s i 0 buf = Some buf"
| "hex_loop s i (Suc k) buf =
     (let hi = hex_char (s ! (2 * i)); lo = hex_char (s ! (2 * i + 1))
      in if hi < 0 \<or> lo < 0 then None
         else hex_loop s (Suc i) k (buf @ [word_of_int (hi * 16 + lo)]))"

definition hex_decode :: "string \<Rightarrow> u8 list option" where
  "hex_decode s = (if length s mod 2 \<noteq> 0 then None else hex_loop s 0 (length s div 2) [])"

text \<open>
  The conversion \<open>%<w>d\<close> (and \<open>%<w>u\<close>, which reads the same characters): white space is skipped,
  then at most \<open>w\<close> characters are taken, a sign among them, with at least one digit.
\<close>

definition take_digits :: "nat \<Rightarrow> string \<Rightarrow> string" where
  "take_digits w s = takeWhile (is_digit 10) (take w s)"

definition scan_d :: "nat \<Rightarrow> string \<Rightarrow> (int \<times> string) option" where
  "scan_d w s =
     (let t = dropWhile isspace s; signed = (t \<noteq> [] \<and> (hd t = CHR ''-'' \<or> hd t = CHR ''+''));
          u = (if signed then tl t else t); ds = take_digits (if signed then w - 1 else w) u
      in if ds = [] then None
         else Some ((if signed \<and> hd t = CHR ''-'' then - int (read_base 10 ds) else int (read_base 10 ds)),
                    drop (length ds) u))"

text \<open>
  The six conversions both \<open>sscanf\<close> calls begin with; None when fewer than six succeed. The
  second call is reached only then, scans the same text with the same six conversions and so
  fails as well.
\<close>

definition scan_fields :: "string \<Rightarrow> (tm \<times> string) option" where
  "scan_fields s =
     Option.bind (scan_d 4 s) (\<lambda>(y, s).
     Option.bind (expect (CHR ''-'') s) (\<lambda>s.
     Option.bind (scan_d 2 s) (\<lambda>(mo, s).
     Option.bind (expect (CHR ''-'') s) (\<lambda>s.
     Option.bind (scan_d 2 s) (\<lambda>(d, s).
     Option.bind (expect (CHR ''T'') s) (\<lambda>s.
     Option.bind (scan_d 2 s) (\<lambda>(h, s).
     Option.bind (expect (CHR '':'') s) (\<lambda>s.
     Option.bind (scan_d 2 s) (\<lambda>(mi, s).
     Option.bind (expect (CHR '':'') s) (\<lambda>s.
     Option.bind (scan_d 2 s) (\<lambda>(sec, s).
       Some (\<lparr>tm_year = y, tm_mon = mo, tm_mday = d, tm_hour = h, tm_min = mi, tm_sec = sec\<rparr>, s))))))))))))"

definition parse_utc_ms :: "string \<Rightarrow> u64" where
  "parse_utc_ms s =
     (case scan_fields s of
        None \<Rightarrow> 0
      | Some (t, r) \<Rightarrow>
          let ms = (case Option.bind (expect (CHR ''.'') r) (scan_d 3) of
                      None \<Rightarrow> 0 | Some (n, _) \<Rightarrow> (word_of_int n :: u32));
              t = t\<lparr>tm_year := tm_year t - 1900, tm_mon := tm_mon t - 1\<rparr>
          in word_of_int (timegm t) * 1000 + ucast ms)"

section \<open>Specifications and values\<close>

text \<open>
  \<open>MmsVariableSpecification\<close>: the name, which may be missing, and the type with its parameters.
  An array made by \<open>make_spec\<close> has no element type yet.
\<close>

datatype mms_spec = Spec (spec_name: "string option") (spec_type: spec_type)
  and spec_type =
    TBoolean | TInteger int | TUnsigned int | TFloat int int | TVisibleString int
  | TOctetString int | TBitString int | TUtcTime
  | TArray "mms_spec option" int | TStructure "mms_spec list"

definition sized :: "int \<Rightarrow> int \<Rightarrow> int" where
  "sized sz fallback = (if sz > 0 then sz else fallback)"

definition make_spec :: "string \<Rightarrow> int \<Rightarrow> mms_spec option" where
  "make_spec type sz =
     map_option (Spec None)
       (if type = ''boolean'' then Some TBoolean
        else if type = ''integer'' then Some (TInteger (sized sz 32))
        else if type = ''unsigned'' then Some (TUnsigned (sized sz 32))
        else if type = ''float32'' then Some (TFloat 8 32)
        else if type = ''visible-string'' then Some (TVisibleString (sized sz (- 1)))
        else if type = ''octet-string'' then Some (TOctetString (sized sz (- 1)))
        else if type = ''bit-string'' then Some (TBitString (sized sz (- 1)))
        else if type = ''utc-time'' then Some TUtcTime
        else if type = ''array'' then Some (TArray None 0)
        else if type = ''structure'' then Some (TStructure [])
        else None)"

text \<open>\<open>str ? str : ""\<close>.\<close>

definition or_empty :: "string option \<Rightarrow> string" where
  "or_empty s = (case s of None \<Rightarrow> '''' | Some t \<Rightarrow> t)"

definition make_value :: "value_lib \<Rightarrow> string \<Rightarrow> json \<Rightarrow> mms_value option" where
  "make_value L type jval =
     (if type = ''boolean'' then Some (MBoolean (json_get_boolean L jval))
      else if type = ''integer'' then Some (MInteger (scast (word_of_int (json_get_int64 L jval) :: u32)))
      else if type = ''unsigned'' then Some (MUnsigned (word_of_int (json_get_int64 L jval)))
      else if type = ''float32'' then Some (MFloat32 (f32_of_f64 L (json_get_double L jval)))
      else if type = ''visible-string'' then Some (MVisibleString (or_empty (json_get_string L jval)))
      else if type = ''octet-string'' then
        Some (MOctetString (case hex_decode (or_empty (json_get_string L jval)) of None \<Rightarrow> [] | Some bs \<Rightarrow> bs))
      else if type = ''bit-string'' then
        Some (MBitString (map (\<lambda>c. c = CHR ''1'') (or_empty (json_get_string L jval))))
      else if type = ''utc-time'' then
        Some (MUtcTime (utc_of_ms L (parse_utc_ms (or_empty (json_get_string L jval)))))
      else None)"

definition build_array_spec :: "string \<Rightarrow> string \<Rightarrow> int \<Rightarrow> int \<Rightarrow> mms_spec option" where
  "build_array_spec name elem_type count elem_size =
     map_option (\<lambda>e. Spec (Some name) (TArray (Some e) count)) (make_spec elem_type elem_size)"

text \<open>A loop that stops at the first missing value.\<close>

fun collect :: "('a \<Rightarrow> 'b option) \<Rightarrow> 'a list \<Rightarrow> 'b list option" where
  "collect f [] = Some []"
| "collect f (x # xs) =
     (case f x of None \<Rightarrow> None | Some y \<Rightarrow> map_option (Cons y) (collect f xs))"

definition build_array_value :: "value_lib \<Rightarrow> string \<Rightarrow> json \<Rightarrow> mms_value option" where
  "build_array_value L elem_type jarr =
     (case jarr of
        JArray js \<Rightarrow> map_option (\<lambda>vs. MArray (map Some vs)) (collect (make_value L elem_type) js)
      | _ \<Rightarrow> None)"

fun component_specs :: "value_lib \<Rightarrow> nat \<Rightarrow> json list \<Rightarrow> mms_spec list option outcome" where
  "component_specs L i [] = Returns (Some [])"
| "component_specs L i (jc # js) =
     (case json_get_ex jc ''type'' of
        None \<Rightarrow> Returns None
      | Some jt \<Rightarrow>
          (case json_get_string L jt of
             None \<Rightarrow> Undefined
           | Some ct \<Rightarrow>
               let csz = (case json_get_ex jc ''size'' of None \<Rightarrow> 0 | Some jsz \<Rightarrow> json_get_int L jsz)
               in (case make_spec ct csz of
                     None \<Rightarrow> Returns None
                   | Some (Spec _ t) \<Rightarrow>
                       bind_outcome
                         (case json_get_ex jc ''name'' of
                            None \<Rightarrow> Returns (''comp'' @ dec i)
                          | Some jn \<Rightarrow> (case json_get_string L jn of None \<Rightarrow> Undefined | Some n \<Rightarrow> Returns n))
                         (\<lambda>name. bind_outcome (component_specs L (Suc i) js) (\<lambda>rest.
                            Returns (map_option (Cons (Spec (Some name) t)) rest))))))"

definition build_structure_spec :: "value_lib \<Rightarrow> string \<Rightarrow> json \<Rightarrow> mms_spec option outcome" where
  "build_structure_spec L name jcomps =
     (case jcomps of
        JArray js \<Rightarrow>
          bind_outcome (component_specs L 0 js) (\<lambda>comps.
            Returns (map_option (\<lambda>cs. Spec (Some name) (TStructure cs)) comps))
      | _ \<Rightarrow> Returns None)"

fun component_values :: "value_lib \<Rightarrow> json list \<Rightarrow> mms_value list option outcome" where
  "component_values L [] = Returns (Some [])"
| "component_values L (jc # js) =
     (case (json_get_ex jc ''type'', json_get_ex jc ''value'') of
        (Some jt, Some jv) \<Rightarrow>
          (case json_get_string L jt of
             None \<Rightarrow> Undefined
           | Some ct \<Rightarrow>
               (case make_value L ct jv of
                  None \<Rightarrow> Returns None
                | Some v \<Rightarrow> bind_outcome (component_values L js) (\<lambda>vs. Returns (map_option (Cons v) vs))))
      | _ \<Rightarrow> Returns None)"

definition build_structure_value :: "value_lib \<Rightarrow> json \<Rightarrow> mms_value option outcome" where
  "build_structure_value L jcomps =
     (case jcomps of
        JArray js \<Rightarrow>
          bind_outcome (component_values L js) (\<lambda>vs. Returns (map_option (\<lambda>vs. MStructure (map Some vs)) vs))
      | _ \<Rightarrow> Returns None)"

section \<open>Variables\<close>

record var_def =
  vd_name :: string
  vd_spec :: mms_spec
  vd_value :: mms_value
  vd_writable :: bool

text \<open>The specification and value of a variable; None where the code continues with the next one.\<close>

definition variable_parts ::
  "value_lib \<Rightarrow> string \<Rightarrow> string \<Rightarrow> int \<Rightarrow> json \<Rightarrow> json \<Rightarrow> (mms_spec \<times> mms_value) option outcome" where
  "variable_parts L name type_str sz jval obj =
     (if type_str = ''array'' then
        (case json_get_ex obj ''elementType'' of
           None \<Rightarrow> Returns None
         | Some jet \<Rightarrow>
             (case json_get_string L jet of
                None \<Rightarrow> Undefined
              | Some elem_type \<Rightarrow>
                  let given = (case json_get_ex obj ''count'' of None \<Rightarrow> 0 | Some jcount \<Rightarrow> json_get_int L jcount);
                      count = (if given \<le> 0 then (case jval of JArray js \<Rightarrow> int (length js) | _ \<Rightarrow> given) else given)
                  in Returns (case (build_array_spec name elem_type count 0, build_array_value L elem_type jval) of
                       (Some spec, Some mv) \<Rightarrow> Some (spec, mv)
                     | _ \<Rightarrow> None)))
      else if type_str = ''structure'' then
        bind_outcome (build_structure_spec L name jval) (\<lambda>s. case s of
            None \<Rightarrow> Returns None
          | Some spec \<Rightarrow> bind_outcome (build_structure_value L jval) (\<lambda>v.
              Returns (map_option (\<lambda>mv. (spec, mv)) v)))
      else Returns (case (make_spec type_str sz, make_value L type_str jval) of
          (Some spec, Some mv) \<Rightarrow> Some (Spec (Some name) (spec_type spec), mv)
        | _ \<Rightarrow> None))"

definition load_variable :: "value_lib \<Rightarrow> string \<Rightarrow> json \<Rightarrow> var_def option outcome" where
  "load_variable L name obj =
     (case (json_get_ex obj ''type'', json_get_ex obj ''value'') of
        (Some jtype, Some jval) \<Rightarrow>
          (case json_get_string L jtype of
             None \<Rightarrow> Undefined
           | Some type_str \<Rightarrow>
               let sz = (case json_get_ex obj ''size'' of None \<Rightarrow> 0 | Some jsize \<Rightarrow> json_get_int L jsize)
               in bind_outcome (variable_parts L name type_str sz jval obj) (\<lambda>parts.
                    Returns (map_option (\<lambda>(spec, mv).
                      \<lparr>vd_name = name, vd_spec = spec, vd_value = mv,
                       vd_writable = (case json_get_ex obj ''writable'' of
                          None \<Rightarrow> False | Some jw \<Rightarrow> json_get_boolean L jw)\<rparr>) parts)))
      | _ \<Rightarrow> Returns None)"

fun load_variables :: "value_lib \<Rightarrow> (string \<times> json) list \<Rightarrow> var_def list outcome" where
  "load_variables L [] = Returns []"
| "load_variables L ((name, obj) # ms) =
     bind_outcome (load_variable L name obj) (\<lambda>v.
     bind_outcome (load_variables L ms) (\<lambda>vs.
       Returns (case v of None \<Rightarrow> vs | Some d \<Rightarrow> d # vs)))"

section \<open>Journals, files and reports\<close>

record journal_entry =
  entry_id :: u64
  time_ms :: u64
  je_tag :: string
  je_value :: mms_value
  reason_code :: u8

record journal_def =
  jn_name :: string
  jn_entries :: "journal_entry list"

definition load_entry :: "value_lib \<Rightarrow> json \<Rightarrow> journal_entry option outcome" where
  "load_entry L je =
     (case (json_get_ex je ''entryId'', json_get_ex je ''occurrenceTime'', json_get_ex je ''tag'',
            json_get_ex je ''type'', json_get_ex je ''value'') of
        (Some jid, Some jt, Some jtag, Some jtype, Some jv) \<Rightarrow>
          (case (json_get_string L jt, json_get_string L jtag, json_get_string L jtype) of
             (Some t, Some tag, Some type) \<Rightarrow>
               Returns (map_option (\<lambda>v.
                 \<lparr>entry_id = word_of_int (json_get_int64 L jid), time_ms = parse_utc_ms t,
                  je_tag = tag, je_value = v,
                  reason_code = (case json_get_ex je ''reasonCode'' of
                     None \<Rightarrow> 0 | Some jrc \<Rightarrow> word_of_int (json_get_int L jrc))\<rparr>)
                 (make_value L type jv))
           | _ \<Rightarrow> Undefined)
      | _ \<Rightarrow> Returns None)"

text \<open>A loop that ends with the first part that cannot be loaded.\<close>

fun load_all :: "('a \<Rightarrow> 'b option outcome) \<Rightarrow> 'a list \<Rightarrow> 'b list option outcome" where
  "load_all f [] = Returns (Some [])"
| "load_all f (x # xs) =
     bind_outcome (f x) (\<lambda>y. case y of
         None \<Rightarrow> Returns None
       | Some y \<Rightarrow> bind_outcome (load_all f xs) (\<lambda>ys. Returns (map_option (Cons y) ys)))"

definition load_journal :: "value_lib \<Rightarrow> string \<Rightarrow> json \<Rightarrow> journal_def option outcome" where
  "load_journal L name jobj =
     (case json_get_ex jobj ''entries'' of
        Some (JArray js) \<Rightarrow>
          bind_outcome (load_all (load_entry L) js) (\<lambda>es.
            Returns (map_option (\<lambda>es. \<lparr>jn_name = name, jn_entries = es\<rparr>) es))
      | _ \<Rightarrow> Returns None)"

record file_def =
  fd_name :: string
  fd_data :: "u8 list"
  fd_size :: int
  last_modified_ms :: u64

text \<open>The octets and the size; a negative size has no octets.\<close>

definition file_content :: "value_lib \<Rightarrow> json \<Rightarrow> (u8 list \<times> int) option outcome" where
  "file_content L jobj =
     (case json_get_ex jobj ''content'' of
        Some jc \<Rightarrow>
          (case json_get_string L jc of
             None \<Rightarrow> Undefined
           | Some s \<Rightarrow> Returns (Some (map of_char s, int (length s))))
      | None \<Rightarrow>
          (case json_get_ex jobj ''hex'' of
             Some jhex \<Rightarrow>
               (case json_get_string L jhex of
                  None \<Rightarrow> Undefined
                | Some h \<Rightarrow> Returns (map_option (\<lambda>d. (d, int (length d))) (hex_decode h)))
           | None \<Rightarrow>
               (case json_get_ex jobj ''size'' of
                  Some jsize \<Rightarrow>
                    let sz = json_get_int L jsize
                    in Returns (Some (map (\<lambda>i. of_nat (i mod 251)) [0..<nat sz], sz))
                | None \<Rightarrow> Returns None)))"

definition load_file :: "value_lib \<Rightarrow> string \<Rightarrow> json \<Rightarrow> file_def option outcome" where
  "load_file L name jobj =
     bind_outcome (file_content L jobj) (\<lambda>c. case c of
         None \<Rightarrow> Returns None
       | Some (d, sz) \<Rightarrow>
           bind_outcome
             (case json_get_ex jobj ''lastModified'' of
                None \<Rightarrow> Returns 0
              | Some jlm \<Rightarrow> (case json_get_string L jlm of None \<Rightarrow> Undefined | Some t \<Rightarrow> Returns (parse_utc_ms t)))
             (\<lambda>lm. Returns (Some \<lparr>fd_name = name, fd_data = d, fd_size = sz, last_modified_ms = lm\<rparr>)))"

record report_def =
  rp_vmd_list :: "string option"
  rp_variables :: "string list"

fun strings :: "value_lib \<Rightarrow> json list \<Rightarrow> string list outcome" where
  "strings L [] = Returns []"
| "strings L (j # js) =
     (case json_get_string L j of
        None \<Rightarrow> Undefined
      | Some s \<Rightarrow> bind_outcome (strings L js) (\<lambda>ss. Returns (s # ss)))"

definition load_report :: "value_lib \<Rightarrow> json \<Rightarrow> report_def option outcome" where
  "load_report L jobj =
     bind_outcome
       (case json_get_ex jobj ''vmdList'' of
          None \<Rightarrow> Returns None
        | Some jl \<Rightarrow> (case json_get_string L jl of None \<Rightarrow> Undefined | Some s \<Rightarrow> Returns (Some s)))
       (\<lambda>vmd_list. case json_get_ex jobj ''variables'' of
            Some (JArray js) \<Rightarrow>
              bind_outcome (strings L js) (\<lambda>vs. Returns (Some \<lparr>rp_vmd_list = vmd_list, rp_variables = vs\<rparr>))
          | _ \<Rightarrow> Returns None)"

section \<open>The fixture\<close>

record domain_def =
  dm_name :: string
  dm_vars :: "var_def list"
  dm_journals :: "journal_def list"

record fixture_def =
  fixture_revision :: string
  fx_vendor :: string
  fx_model :: string
  fx_revision :: string
  status_logical :: int
  status_physical :: int
  fx_domains :: "domain_def list"
  fx_files :: "file_def list"
  fx_reports :: "report_def list"

text \<open>A member that is read as a string, with the text used when it is missing.\<close>

definition string_member :: "value_lib \<Rightarrow> json \<Rightarrow> string \<Rightarrow> string \<Rightarrow> string outcome" where
  "string_member L j k fallback =
     (case json_get_ex j k of
        None \<Rightarrow> Returns fallback
      | Some v \<Rightarrow> (case json_get_string L v of None \<Rightarrow> Undefined | Some s \<Rightarrow> Returns s))"

definition int_member :: "value_lib \<Rightarrow> json \<Rightarrow> string \<Rightarrow> int" where
  "int_member L j k = (case json_get_ex j k of None \<Rightarrow> 0 | Some v \<Rightarrow> json_get_int L v)"

text \<open>What an object has under a key, loaded member by member; iterating over anything else crashes.\<close>

definition load_members ::
  "(string \<Rightarrow> json \<Rightarrow> 'b option outcome) \<Rightarrow> json \<Rightarrow> string \<Rightarrow> 'b list option outcome" where
  "load_members f j k =
     (case json_get_ex j k of
        None \<Rightarrow> Returns (Some [])
      | Some (JObject ms) \<Rightarrow> load_all (\<lambda>(n, v). f n v) ms
      | Some _ \<Rightarrow> Undefined)"

definition load_domain :: "value_lib \<Rightarrow> string \<Rightarrow> json \<Rightarrow> domain_def option outcome" where
  "load_domain L name obj =
     bind_outcome (load_members (load_journal L) obj ''journals'') (\<lambda>js. case js of
         None \<Rightarrow> Returns None
       | Some js \<Rightarrow>
           bind_outcome
             (case json_get_ex obj ''variables'' of
                None \<Rightarrow> Returns []
              | Some (JObject ms) \<Rightarrow> load_variables L ms
              | Some _ \<Rightarrow> Undefined)
             (\<lambda>vs. Returns (Some \<lparr>dm_name = name, dm_vars = vs, dm_journals = js\<rparr>)))"

definition load_reports :: "value_lib \<Rightarrow> json \<Rightarrow> report_def list option outcome" where
  "load_reports L r =
     (case json_get_ex r ''informationReports'' of
        Some (JArray js) \<Rightarrow> load_all (load_report L) js
      | _ \<Rightarrow> Returns (Some []))"

text \<open>\<open>root\<close> is what \<open>json_object_from_file\<close> returns; an \<open>identity\<close> that is no object has no members.\<close>

definition fixture_load :: "value_lib \<Rightarrow> json option \<Rightarrow> fixture_def option outcome" where
  "fixture_load L root =
     (case root of
        None \<Rightarrow> Returns None
      | Some r \<Rightarrow>
          let jid = (case json_get_ex r ''identity'' of None \<Rightarrow> JNull | Some j \<Rightarrow> j);
              jstatus = (case json_get_ex r ''status'' of None \<Rightarrow> JNull | Some j \<Rightarrow> j)
          in bind_outcome (string_member L jid ''vendor'' ''OTFabric'') (\<lambda>vendor.
             bind_outcome (string_member L jid ''model'' ''iec61850-interop'') (\<lambda>model.
             bind_outcome (string_member L jid ''revision'' ''1.0'') (\<lambda>revision.
             bind_outcome (string_member L r ''revision'' ''mms-v1'') (\<lambda>fixture_rev.
             bind_outcome (load_members (load_file L) r ''files'') (\<lambda>files. case files of
                 None \<Rightarrow> Returns None
               | Some files \<Rightarrow>
                   bind_outcome (load_reports L r) (\<lambda>reports. case reports of
                       None \<Rightarrow> Returns None
                     | Some reports \<Rightarrow>
                         if json_get_ex r ''domains'' = None then Returns None
                         else bind_outcome (load_members (load_domain L) r ''domains'') (\<lambda>doms.
                           Returns (map_option (\<lambda>doms.
                             \<lparr>fixture_revision = fixture_rev, fx_vendor = vendor, fx_model = model,
                              fx_revision = revision, status_logical = int_member L jstatus ''logical'',
                              status_physical = int_member L jstatus ''physical'',
                              fx_domains = doms, fx_files = files, fx_reports = reports\<rparr>) doms)))))))))"

section \<open>What was loaded is well-typed\<close>

text \<open>The types of IEC 61850-8-1 data and the values they describe.\<close>

definition scalar_ok :: "spec_type \<Rightarrow> mms_value \<Rightarrow> bool" where
  "scalar_ok t v =
     (case t of
        TBoolean \<Rightarrow> MmsValue_getType v = MMS_BOOLEAN
      | TInteger _ \<Rightarrow> MmsValue_getType v = MMS_INTEGER
      | TUnsigned _ \<Rightarrow> MmsValue_getType v = MMS_UNSIGNED
      | TFloat e n \<Rightarrow> (case v of MFloat32 _ \<Rightarrow> e = 8 \<and> n = 32 | _ \<Rightarrow> False)
      | TVisibleString _ \<Rightarrow> MmsValue_getType v = MMS_VISIBLE_STRING
      | TOctetString _ \<Rightarrow> MmsValue_getType v = MMS_OCTET_STRING
      | TBitString _ \<Rightarrow> MmsValue_getType v = MMS_BIT_STRING
      | TUtcTime \<Rightarrow> MmsValue_getType v = MMS_UTC_TIME
      | _ \<Rightarrow> False)"

definition conforms :: "spec_type \<Rightarrow> mms_value \<Rightarrow> bool" where
  "conforms t v =
     (case t of
        TArray e n \<Rightarrow>
          (case v of
             MArray vs \<Rightarrow> e \<noteq> None \<and> list_all (\<lambda>v. v \<noteq> None \<and> scalar_ok (spec_type (the e)) (the v)) vs
           | _ \<Rightarrow> False)
      | TStructure cs \<Rightarrow>
          (case v of
             MStructure vs \<Rightarrow>
               list_all2 (\<lambda>c v. spec_name c \<noteq> None \<and> v \<noteq> None \<and> scalar_ok (spec_type c) (the v)) cs vs
           | _ \<Rightarrow> False)
      | _ \<Rightarrow> scalar_ok t v)"

lemma make_spec_value:
  "make_spec type sz = Some spec \<Longrightarrow> make_value L type j = Some v \<Longrightarrow> scalar_ok (spec_type spec) v"
  by (auto simp: make_spec_def make_value_def scalar_ok_def split: if_splits)

lemma scalar_conforms: "scalar_ok t v \<Longrightarrow> conforms t v"
  by (cases t) (auto simp: scalar_ok_def conforms_def)

lemma collect_spec: "collect f xs = Some ys \<Longrightarrow> list_all2 (\<lambda>x y. f x = Some y) xs ys"
  by (induction xs arbitrary: ys) (auto split: option.splits)

lemma component_specs_values:
  "component_specs L i js = Returns (Some cs) \<Longrightarrow> component_values L js = Returns (Some vs) \<Longrightarrow>
   list_all2 (\<lambda>c v. spec_name c \<noteq> None \<and> scalar_ok (spec_type c) v) cs vs"
proof (induction L i js arbitrary: cs vs rule: component_specs.induct)
  case (2 L i jc js)
  from 2(2) obtain jt ct sp where jt: "json_get_ex jc ''type'' = Some jt" "json_get_string L jt = Some ct"
    "make_spec ct (case json_get_ex jc ''size'' of None \<Rightarrow> 0 | Some jsz \<Rightarrow> json_get_int L jsz) = Some sp"
    by (auto simp: Let_def split: option.splits mms_spec.splits)
  obtain n t where sp: "sp = Spec n t" by (cases sp)
  from 2(2) jt sp obtain name cs' where cs: "cs = Spec (Some name) t # cs'"
    "component_specs L (Suc i) js = Returns (Some cs')"
    and name: "(case json_get_ex jc ''name'' of None \<Rightarrow> Returns (''comp'' @ dec i)
      | Some jn \<Rightarrow> (case json_get_string L jn of None \<Rightarrow> Undefined | Some n \<Rightarrow> Returns n)) = Returns name"
    by auto
  from 2(3) jt obtain jv v vs' where vs: "json_get_ex jc ''value'' = Some jv" "make_value L ct jv = Some v"
    "vs = v # vs'" "component_values L js = Returns (Some vs')"
    by (auto split: option.splits)
  have "list_all2 (\<lambda>c v. spec_name c \<noteq> None \<and> scalar_ok (spec_type c) v) cs' vs'"
    using "2.IH" [OF jt(1,2) refl jt(3) sp name cs(2) vs(4)] .
  moreover have "scalar_ok t v" using make_spec_value [OF jt(3) vs(2)] sp by simp
  ultimately show ?case using cs vs by simp
qed simp

lemma variable_parts_conform:
  assumes "variable_parts L name type_str sz jval obj = Returns (Some (spec, mv))"
  shows "conforms (spec_type spec) mv \<and> spec_name spec = Some name"
proof (cases "type_str = ''array''")
  case True
  with assms obtain et e n vs ws where "make_spec et 0 = Some e" "spec = Spec (Some name) (TArray (Some e) n)"
    "collect (make_value L et) vs = Some ws" "mv = MArray (map Some ws)"
    by (auto simp: variable_parts_def build_array_spec_def build_array_value_def Let_def
        split: option.splits json.splits)
  then show ?thesis
    by (auto simp: conforms_def list_all_length list_all2_conv_all_nth dest!: collect_spec) (blast intro: make_spec_value)
next
  case na: False
  show ?thesis
  proof (cases "type_str = ''structure''")
    case True
    with na assms obtain js cs vs where "component_specs L 0 js = Returns (Some cs)"
      "component_values L js = Returns (Some vs)" "spec = Spec (Some name) (TStructure cs)"
      "mv = MStructure (map Some vs)"
      by (auto simp: variable_parts_def build_structure_spec_def build_structure_value_def
          split: option.splits json.splits)
    with component_specs_values show ?thesis
      by (fastforce simp: conforms_def list_all2_map2)
  next
    case False
    with na assms obtain sp where "make_spec type_str sz = Some sp" "make_value L type_str jval = Some mv"
      "spec = Spec (Some name) (spec_type sp)"
      by (auto simp: variable_parts_def split: option.splits)
    then show ?thesis by (auto intro: scalar_conforms make_spec_value)
  qed
qed

lemma load_variable_conform:
  "load_variable L name obj = Returns (Some v) \<Longrightarrow>
   conforms (spec_type (vd_spec v)) (vd_value v) \<and> spec_name (vd_spec v) = Some (vd_name v)"
  by (auto simp: load_variable_def Let_def split: option.splits dest!: variable_parts_conform)

lemma load_variables_set:
  "load_variables L ms = Returns vs \<Longrightarrow> v \<in> set vs \<Longrightarrow> \<exists>name obj. load_variable L name obj = Returns (Some v)"
proof (induction ms arbitrary: vs)
  case (Cons m ms)
  obtain name obj where m: "m = (name, obj)" by force
  with Cons.prems obtain w vs' where "load_variable L name obj = Returns w" "load_variables L ms = Returns vs'"
    "vs = (case w of None \<Rightarrow> vs' | Some d \<Rightarrow> d # vs')" by auto
  then show ?case using Cons.IH [of vs'] Cons.prems(2) by (cases w) auto
qed simp

lemma load_all_set: "load_all f xs = Returns (Some ys) \<Longrightarrow> y \<in> set ys \<Longrightarrow> \<exists>x \<in> set xs. f x = Returns (Some y)"
  by (induction xs arbitrary: ys) (auto split: option.splits)

text \<open>A variable of a loaded fixture is one \<open>load_variable\<close> has made.\<close>

lemma loaded_variable:
  assumes "fixture_load L root = Returns (Some f)" "d \<in> set (fx_domains f)" "v \<in> set (dm_vars d)"
  obtains name obj where "load_variable L name obj = Returns (Some v)"
proof -
  from assms(1) obtain r where "root = Some r" by (cases root) (simp_all add: fixture_load_def)
  with assms(1) obtain ds where "load_members (load_domain L) r ''domains'' = Returns (Some ds)" "fx_domains f = ds"
    by (auto simp: fixture_load_def Let_def split: option.splits if_splits)
  with assms(2) obtain n obj where "load_domain L n obj = Returns (Some d)"
    by (auto simp: load_members_def split: option.splits json.splits dest!: load_all_set)
  then have "dm_vars d = [] \<or> (\<exists>ms. load_variables L ms = Returns (dm_vars d))"
    by (auto simp: load_domain_def split: option.splits json.splits)
  with assms(3) load_variables_set that show ?thesis by fastforce
qed

lemma loaded_conforms:
  assumes "fixture_load L root = Returns (Some f)" "d \<in> set (fx_domains f)" "v \<in> set (dm_vars d)"
  shows "conforms (spec_type (vd_spec v)) (vd_value v) \<and> spec_name (vd_spec v) = Some (vd_name v)"
  using loaded_variable [OF assms] load_variable_conform by metis

text \<open>C38: Every variable of a loaded fixture is well-typed: it has its own name in its
  specification, the value has the type specified, every element of an array the element type,
  and a structure one named component per value, each of its type. No value is nested deeper.\<close>

theorem fixture_well_typed:
  assumes "fixture_load L root = Returns (Some f)" "d \<in> set (fx_domains f)" "v \<in> set (dm_vars d)"
  shows "conforms (spec_type (vd_spec v)) (vd_value v) \<and> spec_name (vd_spec v) = Some (vd_name v)"
  using assms by (rule loaded_conforms)

definition sample_fixture :: json where
  "sample_fixture = JObject [(''domains'', JObject [(''interop'', JObject [(''variables'', JObject [
     (''n'', JObject [(''type'', JString ''integer''), (''value'', JInt 7), (''writable'', JBool True)]),
     (''a'', JObject [(''type'', JString ''array''), (''elementType'', JString ''boolean''),
        (''value'', JArray [JBool True, JBool False])]),
     (''s'', JObject [(''type'', JString ''structure''), (''value'', JArray [
        JObject [(''type'', JString ''visible-string''), (''value'', JString ''x'')],
        JObject [(''type'', JString ''bit-string''), (''name'', JString ''b''), (''value'', JString ''01'')]])]),
     (''bad'', JObject [(''type'', JString ''array''), (''elementType'', JString ''array''), (''value'', JArray [JArray []])])])])])]"

lemma sample_fixture_loaded:
  "fixture_load sample_lib (Some sample_fixture) = Returns (Some
     \<lparr>fixture_revision = ''mms-v1'', fx_vendor = ''OTFabric'', fx_model = ''iec61850-interop'', fx_revision = ''1.0'',
      status_logical = 0, status_physical = 0,
      fx_domains = [\<lparr>dm_name = ''interop'', dm_vars =
        [\<lparr>vd_name = ''n'', vd_spec = Spec (Some ''n'') (TInteger 32), vd_value = MInteger 7, vd_writable = True\<rparr>,
         \<lparr>vd_name = ''a'', vd_spec = Spec (Some ''a'') (TArray (Some (Spec None TBoolean)) 2),
          vd_value = MArray [Some (MBoolean True), Some (MBoolean False)], vd_writable = False\<rparr>,
         \<lparr>vd_name = ''s'', vd_spec = Spec (Some ''s'') (TStructure [Spec (Some (''comp'' @ dec 0)) (TVisibleString (- 1)),
            Spec (Some ''b'') (TBitString (- 1))]),
          vd_value = MStructure [Some (MVisibleString ''x''), Some (MBitString [False, True])], vd_writable = False\<rparr>],
        dm_journals = []\<rparr>],
      fx_files = [], fx_reports = []\<rparr>)"
  by (simp add: fixture_load_def sample_fixture_def json_get_ex_def string_member_def load_members_def
    load_reports_def load_domain_def load_variable_def json_get_string_def nul_def variable_parts_def
    build_array_spec_def make_spec_def build_array_value_def make_value_def sized_def build_structure_spec_def
    build_structure_value_def json_get_int64_def json_get_boolean_def int_member_def or_empty_def Let_def)

theorem fixture_well_typed_witness:
  "conforms (TStructure [Spec (Some (''comp'' @ dec 0)) (TVisibleString (- 1)), Spec (Some ''b'') (TBitString (- 1))])
     (MStructure [Some (MVisibleString ''x''), Some (MBitString [False, True])])"
  using fixture_well_typed [OF sample_fixture_loaded, of _
    "\<lparr>vd_name = ''s'', vd_spec = Spec (Some ''s'') (TStructure [Spec (Some (''comp'' @ dec 0)) (TVisibleString (- 1)),
        Spec (Some ''b'') (TBitString (- 1))]),
      vd_value = MStructure [Some (MVisibleString ''x''), Some (MBitString [False, True])], vd_writable = False\<rparr>"]
  by simp

section \<open>Two readers of typed JSON agree\<close>

lemma hex_char_hexval: "hex_char c = hexval c"
  by (simp add: hex_char_def hexval_def)

lemma hex_loop_octets:
  "2 * (i + k) \<le> length s \<Longrightarrow>
   hex_loop s i k buf = map_option (\<lambda>r. buf @ r) (hex_octets (take (2 * k) (drop (2 * i) s)))"
proof (induction k arbitrary: i buf)
  case (Suc k)
  then have "drop (2 * i) s = s ! (2 * i) # s ! (2 * i + 1) # drop (2 * Suc i) s"
    by (simp add: Cons_nth_drop_Suc)
  then have "take (2 * Suc k) (drop (2 * i) s) = s ! (2 * i) # s ! (2 * i + 1) # take (2 * k) (drop (2 * Suc i) s)"
    by simp
  then show ?case using Suc.IH [of "Suc i"] Suc.prems
    by (cases "hex_octets (take (2 * k) (drop (2 * Suc i) s))") (simp_all add: hex_char_hexval Let_def)
qed simp

lemma odd_hex_octets: "odd (length s) \<Longrightarrow> hex_octets s = None"
  by (induction s rule: hex_octets.induct) auto

lemma hex_decode_octets: "hex_decode s = hex_octets s"
proof (cases "odd (length s)")
  case True
  then show ?thesis by (simp add: hex_decode_def odd_hex_octets odd_iff_mod_2_eq_one)
next
  case False
  then have "2 * (length s div 2) = length s" by simp
  then show ?thesis using hex_loop_octets [of 0 "length s div 2" s "[]"] False
    by (simp add: hex_decode_def option.map_ident odd_iff_mod_2_eq_one)
qed

text \<open>What \<open>strptime\<close> accepts as a number, followed by no digit, is what \<open>%d\<close> reads there.\<close>

definition no_digit :: "string \<Rightarrow> bool" where
  "no_digit r \<longleftrightarrow> r = [] \<or> \<not> is_digit 10 (hd r)"

lemma more_digits_take:
  "more_digits to k v s = (u, r) \<Longrightarrow> no_digit r \<Longrightarrow>
   u = v * 10 ^ length (take_digits k s) + read_base 10 (take_digits k s) \<and> r = drop (length (take_digits k s)) s"
proof (induction to k v s rule: more_digits.induct)
  case (3 to n v c s)
  show ?case
  proof (cases "is_digit 10 c")
    case True
    then have "v * 10 \<le> to" using 3(2,3) by (auto simp: no_digit_def split: if_splits)
    with True 3 have ih: "u = (v * 10 + hexv c) * 10 ^ length (take_digits n s) + read_base 10 (take_digits n s)"
      "r = drop (length (take_digits n s)) s" by auto
    have "take_digits (Suc n) (c # s) = c # take_digits n s" using True by (simp add: take_digits_def)
    moreover have "read_base 10 (c # t) = hexv c * 10 ^ length t + read_base 10 t" for t
      by (simp add: read_base_def of_digits_Cons hexv_def)
    ultimately show ?thesis using ih by (simp add: algebra_simps)
  next
    case False
    then show ?thesis using 3(2,3) by (auto simp: take_digits_def read_base_def)
  qed
qed (simp_all add: take_digits_def read_base_def)

lemma digit_not_sign: "is_digit 10 c \<Longrightarrow> c \<noteq> CHR ''-'' \<and> c \<noteq> CHR ''+''"
  by (auto simp: is_digit_def digit_val_def)

lemma scan_d_number:
  assumes "get_number from to n s = Some (v, r)" "no_digit r" "0 < n"
  shows "scan_d n s = Some (int v, r)"
proof -
  from assms(1) obtain c t where c: "dropWhile isspace s = c # t" "is_digit 10 c"
    "more_digits to (n - 1) (hexv c) t = (v, r)"
    by (auto simp: get_number_def split: list.splits if_splits prod.splits)
  obtain k where n: "n = Suc k" using assms(3) by (cases n) simp_all
  have td: "take_digits n (c # t) = c # take_digits k t" using c(2) n by (simp add: take_digits_def)
  have "v = hexv c * 10 ^ length (take_digits k t) + read_base 10 (take_digits k t)"
    "r = drop (length (take_digits k t)) t"
    using more_digits_take [OF c(3) assms(2)] n by simp_all
  moreover have "read_base 10 (c # u) = hexv c * 10 ^ length u + read_base 10 u" for u
    by (simp add: read_base_def of_digits_Cons hexv_def)
  ultimately show ?thesis using c td digit_not_sign [OF c(2)] by (simp add: scan_d_def Let_def)
qed

lemma expect_no_digit: "expect c s = Some r \<Longrightarrow> \<not> is_digit 10 c \<Longrightarrow> no_digit s"
  by (auto simp: expect_def no_digit_def split: list.splits if_splits)

lemma separators_no_digit [simp]:
  "\<not> is_digit 10 (CHR ''-'')" "\<not> is_digit 10 (CHR ''T'')" "\<not> is_digit 10 (CHR '':'')" "\<not> is_digit 10 (CHR ''.'')"
  "\<not> is_digit 10 (CHR ''Z'')"
  by (simp_all add: is_digit_def digit_val_def)

lemma scan_bind:
  assumes "Option.bind (get_number from to n s) (\<lambda>(v, s). Option.bind (expect c s) (F v)) = Some x"
    "\<not> is_digit 10 c" "0 < n" "\<And>v s'. F v s' = Some x \<Longrightarrow> G (int v) s' = Some y"
  shows "Option.bind (scan_d n s) (\<lambda>(v, s). Option.bind (expect c s) (G v)) = Some y"
proof -
  from assms(1) obtain v s1 s' where v: "get_number from to n s = Some (v, s1)" "expect c s1 = Some s'" "F v s' = Some x"
    by (auto simp: bind_eq_Some_conv)
  have "scan_d n s = Some (int v, s1)"
    by (rule scan_d_number [OF v(1) expect_no_digit [OF v(2) assms(2)] assms(3)])
  with v assms(4) show ?thesis by simp
qed

lemma scan_fields_strptime:
  assumes "strptime_iso s = Some (t, r)" "no_digit r"
  shows "scan_fields s = Some (t\<lparr>tm_year := tm_year t + 1900, tm_mon := tm_mon t + 1\<rparr>, r)"
  using assms(1) unfolding strptime_iso_def scan_fields_def
  by - ((erule scan_bind, simp, simp)+,
    auto simp: bind_eq_Some_conv intro!: scan_d_number [OF _ assms(2)])

text \<open>The texts in which both readers see the same fraction: none, or exactly three digits.\<close>

definition plain_fraction :: "string \<Rightarrow> bool" where
  "plain_fraction s \<longleftrightarrow>
     (case strptime_iso s of
        None \<Rightarrow> False
      | Some (t, r) \<Rightarrow> r = ''Z'' \<or> (length r = 5 \<and> list_all (is_digit 10) (take 3 (tl r))))"

lemma is_digit_10: "is_digit 10 c \<Longrightarrow> hexv c < 10 \<and> \<not> isspace c \<and> c \<noteq> CHR ''-'' \<and> c \<noteq> CHR ''+''"
  by (auto simp: is_digit_def hexv_def digit_val_def isspace_def split: option.splits)

lemma ucast_small_u64: "n < 1000 \<Longrightarrow> ucast (of_nat n :: u32) = (of_nat n :: u64)"
  by (simp add: unsigned_of_nat take_bit_nat_eq_self)

lemma parse_utc_ms_parse_time:
  assumes "parse_time_ms s = Some ms" "plain_fraction s"
  shows "parse_utc_ms s = ms"
proof -
  from assms(2) obtain t r where r: "strptime_iso s = Some (t, r)" by (auto simp: plain_fraction_def split: option.splits)
  from assms r consider "r = ''Z''" "ms = word_of_int (timegm t) * 1000"
    | a b c where "r = [CHR ''.'', a, b, c, CHR ''Z'']" "is_digit 10 a" "is_digit 10 b" "is_digit 10 c"
  proof (cases "r = ''Z''")
    case True
    with assms(1) r that show thesis by (simp add: parse_time_ms_def)
  next
    case False
    with assms(2) r obtain p a b c z where p: "r = [p, a, b, c, z]" "is_digit 10 a" "is_digit 10 b" "is_digit 10 c"
      by (auto simp: plain_fraction_def eval_nat_numeral length_Suc_conv)
    with assms(1) r have "p = CHR ''.''" by (auto simp: parse_time_ms_def Let_def split: if_splits)
    moreover from this assms(1) r p have "z = CHR ''Z''"
      by (auto simp: parse_time_ms_def Let_def split: if_splits prod.splits)
    ultimately show thesis using that p by blast
  qed
  then show ?thesis
  proof cases
    case 1
    then have "scan_fields s = Some (t\<lparr>tm_year := tm_year t + 1900, tm_mon := tm_mon t + 1\<rparr>, r)"
      using scan_fields_strptime [OF r] by (simp add: no_digit_def)
    with 1 show ?thesis by (simp add: parse_utc_ms_def expect_def)
  next
    case 2
    then have f: "scan_fields s = Some (t\<lparr>tm_year := tm_year t + 1900, tm_mon := tm_mon t + 1\<rparr>, r)"
      using scan_fields_strptime [OF r] by (simp add: no_digit_def)
    let ?n = "hexv a * 100 + hexv b * 10 + hexv c"
    have "scan_d 3 (tl r) = Some (int ?n, ''Z'')"
      using 2 is_digit_10 by (simp add: scan_d_def take_digits_def read_base_def of_digits_def hexv_def [symmetric] Let_def)
    then have "parse_utc_ms s = word_of_int (timegm t) * 1000 + ucast (of_nat ?n :: u32)"
      using f 2 by (simp add: parse_utc_ms_def expect_def)
    moreover have "?n < 1000" using is_digit_10 [OF 2(2)] is_digit_10 [OF 2(3)] is_digit_10 [OF 2(4)] by linarith
    moreover have "ms = word_of_int (timegm t) * 1000 + of_nat ?n"
      using assms(1) r 2 by (simp add: parse_time_ms_def Let_def algebra_simps)
    ultimately show ?thesis by (simp only: ucast_small_u64)
  qed
qed

definition scalar_types :: "string list" where
  "scalar_types = [''boolean'', ''integer'', ''unsigned'', ''float32'', ''visible-string'', ''octet-string'',
     ''bit-string'', ''utc-time'']"


lemma read_typed:
  "goose_value_from_json L (typed ''boolean'' jv) =
     (case jv of JBool b \<Rightarrow> Inr (MBoolean b) | _ \<Rightarrow> Inl (Rejected ''boolean: not a JSON boolean''))"
  "goose_value_from_json L (typed ''integer'' jv) =
     (case jv of JInt i \<Rightarrow> Inr (MInteger (word_of_int (json_int64 i)))
      | _ \<Rightarrow> Inl (Rejected ''integer: not a JSON integer''))"
  "goose_value_from_json L (typed ''unsigned'' jv) =
     (case jv of
        JInt i \<Rightarrow>
          if json_int64 i < 0 \<or> json_int64 i > 0xffffffff
          then Inl (Rejected ''unsigned: not a 32-bit unsigned integer'')
          else Inr (MUnsigned (word_of_int (json_int64 i)))
      | _ \<Rightarrow> Inl (Rejected ''unsigned: not a 32-bit unsigned integer''))"
  "goose_value_from_json L (typed ''float32'' jv) =
     (if (case jv of JDouble _ _ \<Rightarrow> True | JInt _ \<Rightarrow> True | _ \<Rightarrow> False)
      then Inr (MFloat32 (f32_of_f64 L (json_get_double L jv)))
      else Inl (Rejected ''float: not a JSON number''))"
  "goose_value_from_json L (typed ''visible-string'' jv) =
     (case jv of JString s \<Rightarrow> Inr (MVisibleString (c_str s)) | _ \<Rightarrow> Inl (Rejected ''string: not a JSON string''))"
  "goose_value_from_json L (typed ''octet-string'' jv) =
     (case jv of
        JString s \<Rightarrow>
          (case hex_octets (c_str s) of
             Some bs \<Rightarrow> Inr (MOctetString bs)
           | None \<Rightarrow> Inl (Rejected ''octet-string: not hex''))
      | _ \<Rightarrow> Inl (Rejected ''octet-string: not hex''))"
  "goose_value_from_json L (typed ''bit-string'' jv) =
     (case jv of
        JString s \<Rightarrow>
          (case bits_of_text (c_str s) of
             Some bs \<Rightarrow> Inr (MBitString bs)
           | None \<Rightarrow> Inl (Rejected ''bit-string: not binary digits''))
      | _ \<Rightarrow> Inl (Rejected ''bit-string: not a string''))"
  "goose_value_from_json L (typed ''utc-time'' jv) =
     (case (case jv of JString s \<Rightarrow> parse_time_ms (c_str s) | _ \<Rightarrow> None) of
        Some ms \<Rightarrow> Inr (MUtcTime (utc_of_ms L ms))
      | None \<Rightarrow> Inl (Rejected ''time: not YYYY-MM-DDThh:mm:ss[.fff]Z''))"
  by (subst goose_value_from_json.simps,
      simp add: typed_def json_get_ex_def json_get_string_def nul_def cong: json.case_cong option.case_cong)+

lemma narrow_integer:
  assumes "- (2 ^ 31) \<le> sint (word_of_int (json_int64 i) :: u64)" "sint (word_of_int (json_int64 i) :: u64) < 2 ^ 31"
  shows "scast (word_of_int (json_int64 i) :: u32) = (word_of_int (json_int64 i) :: u64)"
proof -
  have "- (2 ^ 63) \<le> json_int64 i \<and> json_int64 i < 2 ^ 63" by (simp add: json_int64_def)
  then have s: "sint (word_of_int (json_int64 i) :: u64) = json_int64 i"
    by (simp add: signed_of_int signed_take_bit_int_eq_self)
  with assms have "sint (word_of_int (json_int64 i) :: u32) = json_int64 i"
    by (simp add: signed_of_int signed_take_bit_int_eq_self)
  then show ?thesis by (simp add: scast_eq)
qed

lemma bits_of_text_ones: "bits_of_text s = Some bs \<Longrightarrow> map (\<lambda>c. c = CHR ''1'') s = bs"
  by (auto simp: bits_of_text_def split: if_splits)

lemma make_value_scalars:
  "make_value L ''boolean'' jval = Some (MBoolean (json_get_boolean L jval))"
  "make_value L ''integer'' jval = Some (MInteger (scast (word_of_int (json_get_int64 L jval) :: u32)))"
  "make_value L ''unsigned'' jval = Some (MUnsigned (word_of_int (json_get_int64 L jval)))"
  "make_value L ''float32'' jval = Some (MFloat32 (f32_of_f64 L (json_get_double L jval)))"
  "make_value L ''visible-string'' jval = Some (MVisibleString (or_empty (json_get_string L jval)))"
  "make_value L ''octet-string'' jval =
     Some (MOctetString (case hex_octets (or_empty (json_get_string L jval)) of None \<Rightarrow> [] | Some bs \<Rightarrow> bs))"
  "make_value L ''bit-string'' jval = Some (MBitString (map (\<lambda>c. c = CHR ''1'') (or_empty (json_get_string L jval))))"
  "make_value L ''utc-time'' jval = Some (MUtcTime (utc_of_ms L (parse_utc_ms (or_empty (json_get_string L jval)))))"
  by (simp_all add: make_value_def hex_decode_octets)

text \<open>C40: The two readers of typed JSON values agree. For the eight scalar types of a fixture, what
  the GOOSE and SV commands' strict reader accepts, the MMS server's reader turns into the same
  value, as long as an integer fits 32 bits and a time has no fraction or exactly three digits of
  it.\<close>

theorem fixture_values_agree:
  assumes "goose_value_from_json L (typed t jv) = Inr v" "t \<in> set scalar_types"
    and "case v of MInteger w \<Rightarrow> - (2 ^ 31) \<le> sint w \<and> sint w < 2 ^ 31
      | MUtcTime raw \<Rightarrow> (\<exists>s. jv = JString s \<and> plain_fraction (c_str s)) | _ \<Rightarrow> True"
  shows "make_value L t jv = Some v"
proof -
  note accessors = json_get_boolean_def json_get_int64_def json_get_string_def or_empty_def
  have "t = ''boolean'' \<or> t = ''integer'' \<or> t = ''unsigned'' \<or> t = ''float32'' \<or> t = ''visible-string'' \<or>
      t = ''octet-string'' \<or> t = ''bit-string'' \<or> t = ''utc-time''"
    using assms(2) by (simp only: scalar_types_def list.set insert_iff empty_iff simp_thms)
  then show ?thesis
  proof (elim disjE)
    assume 1: "t = ''boolean''"
    show ?thesis using assms(1) unfolding 1 read_typed make_value_scalars by (simp add: accessors split: json.splits)
  next
    assume 2: "t = ''integer''"
    show ?thesis using assms(1,3) unfolding 2 read_typed make_value_scalars
      by (cases jv) (simp_all add: accessors, auto simp: narrow_integer)
  next
    assume 3: "t = ''unsigned''"
    show ?thesis using assms(1) unfolding 3 read_typed make_value_scalars
      by (cases jv) (simp_all add: accessors split: if_splits)
  next
    assume 4: "t = ''float32''"
    show ?thesis using assms(1) unfolding 4 read_typed make_value_scalars by (simp split: if_splits)
  next
    assume 5: "t = ''visible-string''"
    show ?thesis using assms(1) unfolding 5 read_typed make_value_scalars by (cases jv) (simp_all add: accessors)
  next
    assume 6: "t = ''octet-string''"
    show ?thesis using assms(1) unfolding 6 read_typed make_value_scalars
      by (cases jv) (simp_all add: accessors split: option.splits)
  next
    assume 7: "t = ''bit-string''"
    show ?thesis using assms(1) unfolding 7 read_typed make_value_scalars
      by (cases jv) (simp_all add: accessors bits_of_text_ones split: option.splits)
  next
    assume 8: "t = ''utc-time''"
    show ?thesis using assms(1,3) unfolding 8 read_typed make_value_scalars
      by (cases jv) (simp_all add: accessors split: option.splits, auto dest: parse_utc_ms_parse_time)
  qed
qed

theorem fixture_values_agree_witness:
  "make_value sample_lib ''integer'' (JInt (-7)) = Some (MInteger (-7))"
proof (rule fixture_values_agree)
  show "goose_value_from_json sample_lib (typed ''integer'' (JInt (-7))) = Inr (MInteger (-7))"
    by (simp add: read_typed json_int64_def)
qed (simp_all add: scalar_types_def)

text \<open>The lenient reader takes the digits of a fraction for a number of milliseconds: half a
  second written \<open>.5\<close> is five milliseconds to it and 500 to the strict reader.\<close>

lemma short_fraction_read_as_ms:
  "parse_utc_ms ''2024-01-02T03:04:05.5Z'' = 1704164645005 \<and>
   parse_time_ms ''2024-01-02T03:04:05.5Z'' = Some 1704164645500"
proof -
  let ?tm = "\<lparr>tm_year = 124, tm_mon = 0, tm_mday = 2, tm_hour = 3, tm_min = 4, tm_sec = 5\<rparr> :: tm"
  have tm: "timegm ?tm = 1704164645" by (simp add: timegm_def Let_def year_start_def leaps_def)
  have s: "strptime_iso ''2024-01-02T03:04:05.5Z'' = Some (?tm, ''.5Z'')"
    by (simp add: strptime_iso_def get_number_def isspace_def expect_def is_digit_def digit_val_def hexv_def
        eval_nat_numeral)
  have "parse_utc_ms ''2024-01-02T03:04:05.5Z'' = 1704164645005"
    using scan_fields_strptime [OF s] tm
    by (simp add: no_digit_def parse_utc_ms_def expect_def scan_d_def take_digits_def isspace_def
        read_base_def of_digits_def is_digit_def digit_val_def Let_def)
  moreover have "parse_time_ms ''2024-01-02T03:04:05.5Z'' = Some 1704164645500"
    using s tm by (simp add: parse_time_ms_def fraction_loop.simps is_digit_def digit_val_def hexv_def)
  ultimately show ?thesis by simp
qed

end
