(* ===== verification/FixtureFree.thy ===== *)
theory FixtureFree
  imports Fixture
begin

text \<open>
  \<open>fixture_free\<close> of \<open>fixture.c\<close> over the blocks a loaded fixture owns. The other theories know a
  fixture by its contents; here it is known by its pointers, and the function is the sequence of the
  reads and releases it makes. A block is an address other than 0; reading or releasing one that is
  not there is undefined.
\<close>

section \<open>Blocks\<close>

type_synonym addr = nat

datatype mem_op = Reads addr | Frees addr | Deletes addr

text \<open>\<open>free\<close> takes NULL; \<open>MmsValue_delete\<close> does not. A value of the library is one block.\<close>

fun exec :: "mem_op list \<Rightarrow> addr set \<Rightarrow> addr set outcome" where
  "exec [] h = Returns h"
| "exec (Reads p # ops) h = (if p \<in> h then exec ops h else Undefined)"
| "exec (Frees p # ops) h =
     (if p = 0 then exec ops h else if p \<in> h then exec ops (h - {p}) else Undefined)"
| "exec (Deletes p # ops) h = (if p \<in> h then exec ops (h - {p}) else Undefined)"

definition blk :: "addr \<Rightarrow> addr list" where
  "blk p = (if p = 0 then [] else [p])"

section \<open>A fixture by its pointers\<close>

text \<open>A specification: its address, its name and what the union \<open>typeSpec\<close> points to.\<close>

datatype c_spec = CSpec addr addr c_type
  and c_type = CScalar | CArray "c_spec option" | CStruct addr "c_spec option list"

record c_var =
  cv_name :: addr
  cv_spec :: "c_spec option"
  cv_value :: addr

record c_entry =
  ce_tag :: addr
  ce_value :: addr

record c_journal =
  cj_name :: addr
  cj_entries :: "addr \<times> c_entry list"

record c_domain =
  cd_name :: addr
  cd_journals :: "addr \<times> c_journal list"
  cd_vars :: "addr \<times> c_var list"

record c_file =
  cf_name :: addr
  cf_data :: addr

record c_report =
  cr_vmd_list :: addr
  cr_variables :: "addr \<times> addr list"

record c_fixture =
  c_at :: addr
  c_texts :: "addr list"
  c_files :: "addr \<times> c_file list"
  c_reports :: "addr \<times> c_report list"
  c_domains :: "addr \<times> c_domain list"

section \<open>Releasing it\<close>

fun free_element :: "c_spec option \<Rightarrow> mem_op list" where
  "free_element None = []"
| "free_element (Some (CSpec at name t)) = [Reads at, Frees name, Frees at]"

fun free_spec :: "c_spec option \<Rightarrow> mem_op list" where
  "free_spec None = []"
| "free_spec (Some (CSpec at name t)) =
     [Reads at, Frees name, Reads at] @
     (case t of
        CScalar \<Rightarrow> []
      | CArray es \<Rightarrow> free_element es
      | CStruct comps cs \<Rightarrow>
          if comps \<noteq> 0 then concat (map (\<lambda>c. Reads comps # free_element c) cs) @ [Frees comps] else []) @
     [Frees at]"

text \<open>Every pointer that is followed to get at a pointer is read: \<open>d->vars[vi].name\<close> reads the domain and the table.\<close>

definition free_var :: "addr \<Rightarrow> addr \<Rightarrow> c_var \<Rightarrow> mem_op list" where
  "free_var domains vars v =
     [Reads domains, Reads vars, Frees (cv_name v), Reads vars] @ free_spec (cv_spec v) @
     [Reads vars] @ (if cv_value v \<noteq> 0 then [Deletes (cv_value v)] else [])"

definition free_entry :: "addr \<Rightarrow> addr \<Rightarrow> c_entry \<Rightarrow> mem_op list" where
  "free_entry journals entries e =
     [Reads journals, Reads entries, Frees (ce_tag e), Reads journals, Reads entries, Deletes (ce_value e)]"

definition free_journal :: "addr \<Rightarrow> addr \<Rightarrow> c_journal \<Rightarrow> mem_op list" where
  "free_journal domains journals j =
     [Reads domains, Reads journals, Frees (cj_name j)] @
     concat (map (free_entry journals (fst (cj_entries j))) (snd (cj_entries j))) @
     [Reads journals, Frees (fst (cj_entries j))]"

definition free_domain :: "addr \<Rightarrow> addr \<Rightarrow> c_domain \<Rightarrow> mem_op list" where
  "free_domain f domains d =
     [Reads f, Reads domains, Frees (cd_name d)] @
     concat (map (free_journal domains (fst (cd_journals d))) (snd (cd_journals d))) @
     [Reads domains, Frees (fst (cd_journals d))] @
     concat (map (free_var domains (fst (cd_vars d))) (snd (cd_vars d))) @
     [Reads domains, Frees (fst (cd_vars d))]"

definition free_file :: "addr \<Rightarrow> addr \<Rightarrow> c_file \<Rightarrow> mem_op list" where
  "free_file f files x =
     [Reads f, Reads files, Frees (cf_name x), Reads f, Reads files, Frees (cf_data x)]"

definition free_report :: "addr \<Rightarrow> addr \<Rightarrow> c_report \<Rightarrow> mem_op list" where
  "free_report f reports r =
     [Reads f, Reads reports, Frees (cr_vmd_list r)] @
     concat (map (\<lambda>v. [Reads f, Reads reports, Reads (fst (cr_variables r)), Frees v]) (snd (cr_variables r))) @
     [Reads f, Reads reports, Frees (fst (cr_variables r))]"

definition fixture_free :: "c_fixture option \<Rightarrow> mem_op list" where
  "fixture_free c =
     (case c of
        None \<Rightarrow> []
      | Some f \<Rightarrow>
          [Reads (c_at f)] @ map Frees (c_texts f) @
          concat (map (free_file (c_at f) (fst (c_files f))) (snd (c_files f))) @
          [Reads (c_at f), Frees (fst (c_files f))] @
          concat (map (free_report (c_at f) (fst (c_reports f))) (snd (c_reports f))) @
          [Reads (c_at f), Frees (fst (c_reports f))] @
          concat (map (free_domain (c_at f) (fst (c_domains f))) (snd (c_domains f))) @
          [Reads (c_at f), Frees (fst (c_domains f))] @
          [Frees (c_at f)])"

section \<open>What it owns\<close>

fun spec_blocks :: "c_spec \<Rightarrow> addr list"
  and type_blocks :: "c_type \<Rightarrow> addr list"
  and comps_blocks :: "c_spec option list \<Rightarrow> addr list" where
  "spec_blocks (CSpec at name t) = blk name @ type_blocks t @ [at]"
| "type_blocks CScalar = []"
| "type_blocks (CArray None) = []"
| "type_blocks (CArray (Some c)) = spec_blocks c"
| "type_blocks (CStruct comps cs) = comps_blocks cs @ blk comps"
| "comps_blocks [] = []"
| "comps_blocks (None # cs) = comps_blocks cs"
| "comps_blocks (Some c # cs) = spec_blocks c @ comps_blocks cs"

definition table_blocks :: "('a \<Rightarrow> addr list) \<Rightarrow> addr \<times> 'a list \<Rightarrow> addr list" where
  "table_blocks f t = concat (map f (snd t)) @ blk (fst t)"

definition var_blocks :: "c_var \<Rightarrow> addr list" where
  "var_blocks v = blk (cv_name v) @ (case cv_spec v of None \<Rightarrow> [] | Some s \<Rightarrow> spec_blocks s) @ blk (cv_value v)"

definition entry_blocks :: "c_entry \<Rightarrow> addr list" where
  "entry_blocks e = blk (ce_tag e) @ blk (ce_value e)"

definition journal_blocks :: "c_journal \<Rightarrow> addr list" where
  "journal_blocks j = blk (cj_name j) @ table_blocks entry_blocks (cj_entries j)"

definition domain_blocks :: "c_domain \<Rightarrow> addr list" where
  "domain_blocks d = blk (cd_name d) @ table_blocks journal_blocks (cd_journals d) @ table_blocks var_blocks (cd_vars d)"

definition file_blocks :: "c_file \<Rightarrow> addr list" where
  "file_blocks x = blk (cf_name x) @ blk (cf_data x)"

definition report_blocks :: "c_report \<Rightarrow> addr list" where
  "report_blocks r = blk (cr_vmd_list r) @ table_blocks blk (cr_variables r)"

definition fixture_blocks :: "c_fixture \<Rightarrow> addr list" where
  "fixture_blocks f = concat (map blk (c_texts f)) @ table_blocks file_blocks (c_files f) @
     table_blocks report_blocks (c_reports f) @ table_blocks domain_blocks (c_domains f) @ [c_at f]"

section \<open>The pointers of a loaded fixture\<close>

text \<open>
  A specification that \<open>make_spec\<close> has left as it was has no element table; the one of a structure has
  one, which \<open>calloc\<close> may give a block also where it has no elements.
\<close>

fun spec_image :: "mms_spec \<Rightarrow> c_spec \<Rightarrow> bool"
  and type_image :: "spec_type \<Rightarrow> c_type \<Rightarrow> bool"
  and comps_image :: "mms_spec list \<Rightarrow> c_spec option list \<Rightarrow> bool" where
  "spec_image (Spec n t) (CSpec at name ct) \<longleftrightarrow> at \<noteq> 0 \<and> (name \<noteq> 0) = (n \<noteq> None) \<and> type_image t ct"
| "type_image (TArray None k) ct \<longleftrightarrow> ct = CArray None"
| "type_image (TArray (Some s) k) ct \<longleftrightarrow> (case ct of CArray (Some c) \<Rightarrow> spec_image s c | _ \<Rightarrow> False)"
| "type_image (TStructure ss) ct \<longleftrightarrow>
     (case ct of CStruct comps cs \<Rightarrow> (comps \<noteq> 0) = (ss \<noteq> []) \<and> comps_image ss cs | _ \<Rightarrow> False)"
| "type_image t ct \<longleftrightarrow> ct = CScalar"
| "comps_image [] cs \<longleftrightarrow> cs = []"
| "comps_image (s # ss) cs \<longleftrightarrow> (case cs of Some c # cs \<Rightarrow> spec_image s c \<and> comps_image ss cs | _ \<Rightarrow> False)"

definition top_image :: "mms_spec \<Rightarrow> c_spec \<Rightarrow> bool" where
  "top_image s c \<longleftrightarrow> spec_image s c \<or>
     (case (s, c) of
        (Spec n (TStructure []), CSpec at name (CStruct comps [])) \<Rightarrow> at \<noteq> 0 \<and> (name \<noteq> 0) = (n \<noteq> None)
      | _ \<Rightarrow> False)"

text \<open>The table of a list: it may be missing or empty where there is nothing in it.\<close>

definition table_image :: "('a \<Rightarrow> 'b \<Rightarrow> bool) \<Rightarrow> 'a list \<Rightarrow> addr \<times> 'b list \<Rightarrow> bool" where
  "table_image r xs t \<longleftrightarrow> (xs \<noteq> [] \<longrightarrow> fst t \<noteq> 0) \<and> list_all2 r xs (snd t)"

definition var_image :: "var_def \<Rightarrow> c_var \<Rightarrow> bool" where
  "var_image v c \<longleftrightarrow> cv_name c \<noteq> 0 \<and> cv_value c \<noteq> 0 \<and>
     (case cv_spec c of None \<Rightarrow> False | Some s \<Rightarrow> top_image (vd_spec v) s)"

definition entry_image :: "journal_entry \<Rightarrow> c_entry \<Rightarrow> bool" where
  "entry_image e c \<longleftrightarrow> ce_tag c \<noteq> 0 \<and> ce_value c \<noteq> 0"

definition journal_image :: "journal_def \<Rightarrow> c_journal \<Rightarrow> bool" where
  "journal_image j c \<longleftrightarrow> cj_name c \<noteq> 0 \<and> table_image entry_image (jn_entries j) (cj_entries c)"

definition domain_image :: "domain_def \<Rightarrow> c_domain \<Rightarrow> bool" where
  "domain_image d c \<longleftrightarrow> cd_name c \<noteq> 0 \<and> table_image journal_image (dm_journals d) (cd_journals c) \<and>
     table_image var_image (dm_vars d) (cd_vars c)"

definition file_image :: "file_def \<Rightarrow> c_file \<Rightarrow> bool" where
  "file_image x c \<longleftrightarrow> cf_name c \<noteq> 0 \<and> (0 \<le> fd_size x \<longrightarrow> cf_data c \<noteq> 0)"

definition report_image :: "report_def \<Rightarrow> c_report \<Rightarrow> bool" where
  "report_image r c \<longleftrightarrow> (cr_vmd_list c \<noteq> 0) = (rp_vmd_list r \<noteq> None) \<and>
     table_image (\<lambda>v p. p \<noteq> 0) (rp_variables r) (cr_variables c)"

definition fixture_image :: "fixture_def \<Rightarrow> c_fixture \<Rightarrow> bool" where
  "fixture_image f c \<longleftrightarrow> c_at c \<noteq> 0 \<and> length (c_texts c) = 4 \<and> 0 \<notin> set (c_texts c) \<and>
     table_image file_image (fx_files f) (c_files c) \<and> table_image report_image (fx_reports f) (c_reports c) \<and>
     table_image domain_image (fx_domains f) (c_domains c)"

section \<open>Footprints\<close>

text \<open>
  Operations that release exactly the blocks \<open>bs\<close>, reading \<open>bs\<close> and \<open>R\<close>, and leave every other block
  alone: the frame around them is arbitrary.
\<close>

definition frees :: "addr set \<Rightarrow> mem_op list \<Rightarrow> addr list \<Rightarrow> bool" where
  "frees R ops bs \<longleftrightarrow> (\<forall>h. R \<subseteq> h \<and> set bs \<inter> h = {} \<and> distinct bs \<longrightarrow> exec ops (h \<union> set bs) = Returns h)"

named_theorems footprint \<open>how footprints are put together\<close>

lemma exec_append: "exec (xs @ ys) h = bind_outcome (exec xs h) (exec ys)"
  by (induction xs h rule: exec.induct) auto

lemma frees_Nil [intro, footprint]: "frees R [] []"
  by (simp add: frees_def)

lemma frees_append [intro, footprint]:
  assumes "frees R xs as" "frees R ys bs"
  shows "frees R (xs @ ys) (as @ bs)"
  unfolding frees_def
proof (intro allI impI, elim conjE)
  fix h
  assume h: "R \<subseteq> h" "set (as @ bs) \<inter> h = {}" "distinct (as @ bs)"
  have "exec xs ((h \<union> set bs) \<union> set as) = Returns (h \<union> set bs)"
    using assms(1) h by (intro assms(1) [unfolded frees_def, rule_format]) auto
  moreover have "exec ys (h \<union> set bs) = Returns h"
    using h by (intro assms(2) [unfolded frees_def, rule_format]) auto
  moreover have "(h \<union> set bs) \<union> set as = h \<union> set (as @ bs)" by auto
  ultimately show "exec (xs @ ys) (h \<union> set (as @ bs)) = Returns h" by (simp add: exec_append)
qed

lemma frees_Reads [footprint]: "p \<in> R \<Longrightarrow> frees R ops bs \<Longrightarrow> frees R (Reads p # ops) bs"
  by (auto simp: frees_def)

lemma frees_blk [intro, footprint]: "frees R [Frees p] (blk p)"
  by (auto simp: frees_def blk_def)

lemma frees_Deletes [footprint]: "p \<noteq> 0 \<Longrightarrow> frees R [Deletes p] (blk p)"
  by (auto simp: frees_def blk_def)

lemma frees_concat [footprint]: "(\<And>x. x \<in> set xs \<Longrightarrow> frees R (f x) (b x)) \<Longrightarrow> frees R (concat (map f xs)) (concat (map b xs))"
  by (induction xs) auto

text \<open>A block is released after what it points to, and may be read until then.\<close>

lemma frees_owner:
  assumes "frees (insert p R) ops bs" "p \<noteq> 0"
  shows "frees R (ops @ [Frees p]) (bs @ [p])"
  unfolding frees_def
proof (intro allI impI, elim conjE)
  fix h
  assume h: "R \<subseteq> h" "set (bs @ [p]) \<inter> h = {}" "distinct (bs @ [p])"
  then have "exec ops (insert p h \<union> set bs) = Returns (insert p h)"
    by (intro assms(1) [unfolded frees_def, rule_format]) auto
  then show "exec (ops @ [Frees p]) (h \<union> set (bs @ [p])) = Returns h" using h assms(2) by (simp add: exec_append)
qed

lemma frees_table:
  assumes "\<And>x. x \<in> set (snd t) \<Longrightarrow> frees (insert (fst t) R) (f x) (b x)" "snd t \<noteq> [] \<Longrightarrow> fst t \<noteq> 0" "set ps \<subseteq> R"
  shows "frees R (concat (map f (snd t)) @ map Reads ps @ [Frees (fst t)]) (table_blocks b t)"
proof -
  have reads: "frees R' (map Reads ps @ ops) bs" if "set ps \<subseteq> R'" "frees R' ops bs" for R' ops bs
    using that by (induction ps) (auto intro: frees_Reads)
  show ?thesis
  proof (cases "fst t = 0")
    case True
    with assms(2) have "snd t = []" by auto
    with True show ?thesis using reads [OF assms(3) frees_blk [of R 0]] by (simp add: table_blocks_def blk_def)
  next
    case False
    have "frees (insert (fst t) R) (map Reads ps @ []) []" using assms(3) by (intro reads) auto
    then have "frees (insert (fst t) R) (concat (map f (snd t)) @ map Reads ps) (concat (map b (snd t)) @ [])"
      using assms(1) by (intro frees_append frees_concat) simp_all
    from frees_owner [OF this False] show ?thesis by (simp add: table_blocks_def blk_def False)
  qed
qed

section \<open>Specifications are flat\<close>

definition leaf :: "mms_spec \<Rightarrow> bool" where
  "leaf s \<longleftrightarrow> (case spec_type s of TArray e k \<Rightarrow> e = None | TStructure cs \<Rightarrow> cs = [] | _ \<Rightarrow> True)"

definition flat :: "mms_spec \<Rightarrow> bool" where
  "flat s \<longleftrightarrow> (case spec_type s of TArray (Some e) k \<Rightarrow> leaf e | TStructure cs \<Rightarrow> list_all leaf cs | _ \<Rightarrow> True)"

lemma make_spec_leaf: "make_spec t sz = Some s \<Longrightarrow> leaf s"
  by (auto simp: make_spec_def leaf_def split: if_splits)

lemma leaf_flat: "leaf s \<Longrightarrow> flat s"
  by (auto simp: leaf_def flat_def split: spec_type.splits option.splits)

lemma flat_simps [simp]:
  "flat (Spec n (TArray (Some e) k)) = leaf e" "flat (Spec n (TStructure cs)) = list_all leaf cs"
  "flat (Spec n (spec_type s)) = flat s"
  by (simp_all add: flat_def)

lemma leaf_renamed: "leaf (Spec n t) \<Longrightarrow> leaf (Spec m t)"
  by (simp add: leaf_def)

lemma component_specs_leaf: "component_specs L i js = Returns (Some cs) \<Longrightarrow> list_all leaf cs"
proof (induction js arbitrary: i cs)
  case (Cons jc js)
  from Cons.prems obtain t sz n ty name rest where c: "make_spec t sz = Some (Spec n ty)"
    "component_specs L (Suc i) js = Returns (Some rest)" "cs = Spec (Some name) ty # rest"
    by (auto split: option.splits mms_spec.splits)
  from Cons.IH [OF c(2)] make_spec_leaf [OF c(1)] show ?case by (auto simp: c(3) intro: leaf_renamed)
qed simp

lemma variable_parts_flat:
  assumes "variable_parts L name t sz jval obj = Returns (Some (s, v))"
  shows "flat s"
proof (cases "t = ''structure''")
  case True
  with assms obtain js cs where "component_specs L 0 js = Returns (Some cs)" "s = Spec (Some name) (TStructure cs)"
    by (auto simp: variable_parts_def build_structure_spec_def split: option.splits json.splits)
  then show ?thesis using component_specs_leaf by simp
next
  case False
  with assms show ?thesis
    by (auto simp: variable_parts_def build_array_spec_def Let_def
        dest: make_spec_leaf leaf_flat [OF make_spec_leaf] split: if_splits option.splits)
qed

lemma loaded_flat:
  assumes "fixture_load L root = Returns (Some f)" "d \<in> set (fx_domains f)" "v \<in> set (dm_vars d)"
  shows "flat (vd_spec v)"
proof -
  obtain name obj where "load_variable L name obj = Returns (Some v)" using assms by (rule loaded_variable)
  then show ?thesis by (auto simp: load_variable_def Let_def split: option.splits dest!: variable_parts_flat)
qed

section \<open>Everything is released\<close>

text \<open>A list of blocks around a footprint, and the reads between.\<close>

lemma frees_free [footprint]: "frees R ops bs \<Longrightarrow> frees R (Frees p # ops) (blk p @ bs)"
  using frees_append [OF frees_blk, of R ops bs p] by simp

lemma leaf_type_blocks: "type_image t ct \<Longrightarrow> leaf (Spec n t) \<Longrightarrow> type_blocks ct = []"
  by (cases t) (auto simp: leaf_def blk_def split: c_type.splits)

lemma leaf_blocks:
  assumes "spec_image s c" "leaf s"
  shows "frees R (free_element (Some c)) (spec_blocks c)"
proof -
  obtain n t where s: "s = Spec n t" by (cases s)
  obtain at name ct where c: "c = CSpec at name ct" by (cases c)
  have "at \<noteq> 0" "type_image t ct" using assms(1) by (simp_all add: s c)
  moreover from this(2) assms(2) have "type_blocks ct = []" unfolding s by (rule leaf_type_blocks)
  moreover have "frees R ([Reads at, Frees name] @ [Frees at]) (blk name @ [at])" if "at \<noteq> 0"
    using that by (intro frees_owner frees_Reads) auto
  ultimately show ?thesis by (simp add: c)
qed

lemma comps_blocks_leaves:
  "comps_image ss cs \<Longrightarrow> list_all leaf ss \<Longrightarrow> p \<in> R \<Longrightarrow>
   frees R (concat (map (\<lambda>c. Reads p # free_element c) cs)) (comps_blocks cs)"
proof (induction ss arbitrary: cs)
  case (Cons s ss)
  then obtain c cs' where cs: "cs = Some c # cs'" "spec_image s c" "comps_image ss cs'"
    by (auto split: list.splits option.splits)
  with Cons have "frees R ((Reads p # free_element (Some c)) @ concat (map (\<lambda>c. Reads p # free_element c) cs'))
      (spec_blocks c @ comps_blocks cs')"
    by (intro frees_append frees_Reads leaf_blocks) auto
  then show ?case by (simp add: cs)
qed auto

lemma array_no_structure [simp]: "\<not> type_image (TArray e k) (CStruct comps cs)"
  by (cases e) simp_all

lemma top_structure:
  "top_image (Spec n t) (CSpec at name (CStruct comps cs)) \<Longrightarrow> \<exists>ss. t = TStructure ss \<and> comps_image ss cs"
  by (cases t) (auto simp: top_image_def split: list.splits)

lemma spec_released:
  assumes "top_image s c" "flat s"
  shows "frees R (free_spec (Some c)) (spec_blocks c)"
proof -
  obtain n t where s: "s = Spec n t" by (cases s)
  obtain at name ct where c: "c = CSpec at name ct" by (cases c)
  have at: "at \<noteq> 0" using assms(1) by (auto simp: top_image_def s c split: spec_type.splits list.splits c_type.splits)
  let ?ops = "case ct of CScalar \<Rightarrow> [] | CArray es \<Rightarrow> free_element es
      | CStruct comps cs \<Rightarrow> if comps \<noteq> 0 then concat (map (\<lambda>c. Reads comps # free_element c) cs) @ [Frees comps] else []"
  have "frees (insert at R) ?ops (type_blocks ct)"
  proof (cases ct)
    case (CArray es)
    then show ?thesis using assms
      by (cases t; cases es) (auto simp: top_image_def s c flat_def simp del: free_element.simps(2) split: option.splits list.splits
          intro: leaf_blocks)
  next
    case (CStruct comps cs)
    show ?thesis
    proof (cases "comps = 0")
      case True
      then have "cs = []" using assms(1)
        by (cases t; cases cs) (auto simp: top_image_def s c CStruct split: list.splits option.splits)
      with True show ?thesis by (auto simp: CStruct blk_def)
    next
      case False
      obtain ss where ss: "t = TStructure ss" "comps_image ss cs"
        using top_structure assms(1) unfolding s c CStruct by metis
      with assms(2) have "list_all leaf ss" by (simp add: s)
      with ss(2) have "frees (insert comps (insert at R)) (concat (map (\<lambda>c. Reads comps # free_element c) cs)) (comps_blocks cs)"
        by (rule comps_blocks_leaves) simp
      from frees_owner [OF this False] False show ?thesis by (simp add: CStruct blk_def)
    qed
  qed auto
  then have "frees (insert at R) ([Reads at, Frees name, Reads at] @ ?ops) (blk name @ type_blocks ct)"
    by (simp add: footprint)
  from frees_owner [OF this at] show ?thesis by (simp add: c)
qed

lemma var_released:
  assumes "var_image v c" "flat (vd_spec v)" "p \<in> R" "q \<in> R"
  shows "frees R (free_var q p c) (var_blocks c)"
proof -
  from assms(1) obtain s where s: "cv_spec c = Some s" "top_image (vd_spec v) s" "cv_value c \<noteq> 0"
    by (auto simp: var_image_def split: option.splits)
  have "frees R ([Reads q, Reads p, Frees (cv_name c), Reads p] @ free_spec (Some s) @ [Reads p, Deletes (cv_value c)])
      (blk (cv_name c) @ spec_blocks s @ blk (cv_value c))"
    using spec_released [OF s(2) assms(2)] assms(3,4) s(3) unfolding append_Cons append_Nil by (intro footprint)
  then show ?thesis by (simp add: free_var_def var_blocks_def s)
qed

lemma entry_released: "entry_image e c \<Longrightarrow> p \<in> R \<Longrightarrow> q \<in> R \<Longrightarrow> frees R (free_entry q p c) (entry_blocks c)"
  unfolding free_entry_def entry_blocks_def
  by (intro footprint) (simp_all add: entry_image_def)

text \<open>A table is released after its elements.\<close>

lemma table_released:
  assumes "table_image r xs t" "set ps \<subseteq> R"
    and "\<And>x c. x \<in> set xs \<Longrightarrow> r x c \<Longrightarrow> frees (insert (fst t) R) (f c) (b c)"
  shows "frees R (concat (map f (snd t)) @ map Reads ps @ [Frees (fst t)]) (table_blocks b t)"
proof (rule frees_table [OF _ _ assms(2)])
  show "frees (insert (fst t) R) (f c) (b c)" if "c \<in> set (snd t)" for c
    using assms(1,3) that by (fastforce simp: table_image_def list_all2_conv_all_nth in_set_conv_nth)
  show "fst t \<noteq> 0" if "snd t \<noteq> []"
    using assms(1) that by (auto simp: table_image_def)
qed

lemma journal_released:
  assumes "journal_image j c" "p \<in> R" "q \<in> R"
  shows "frees R (free_journal q p c) (journal_blocks c)"
proof -
  have "frees R (concat (map (free_entry p (fst (cj_entries c))) (snd (cj_entries c))) @ map Reads [p] @ [Frees (fst (cj_entries c))])
      (table_blocks entry_blocks (cj_entries c))"
    using assms by (intro table_released [where r = entry_image and xs = "jn_entries j"] entry_released)
      (auto simp: journal_image_def)
  then show ?thesis using assms(2,3) by (simp add: free_journal_def journal_blocks_def frees_Reads frees_free)
qed

lemma domain_released:
  assumes "domain_image d c" "p \<in> R" "q \<in> R" "\<And>v. v \<in> set (dm_vars d) \<Longrightarrow> flat (vd_spec v)"
  shows "frees R (free_domain q p c) (domain_blocks c)"
proof -
  have "frees R (concat (map (free_journal p (fst (cd_journals c))) (snd (cd_journals c))) @ map Reads [p] @
      [Frees (fst (cd_journals c))]) (table_blocks journal_blocks (cd_journals c))"
    using assms by (intro table_released [where r = journal_image and xs = "dm_journals d"] journal_released)
      (auto simp: domain_image_def)
  moreover have "frees R (concat (map (free_var p (fst (cd_vars c))) (snd (cd_vars c))) @ map Reads [p] @
      [Frees (fst (cd_vars c))]) (table_blocks var_blocks (cd_vars c))"
    using assms by (intro table_released [where r = var_image and xs = "dm_vars d"] var_released)
      (auto simp: domain_image_def)
  ultimately have "frees R ((concat (map (free_journal p (fst (cd_journals c))) (snd (cd_journals c))) @ map Reads [p] @
      [Frees (fst (cd_journals c))]) @ concat (map (free_var p (fst (cd_vars c))) (snd (cd_vars c))) @ map Reads [p] @
      [Frees (fst (cd_vars c))]) (table_blocks journal_blocks (cd_journals c) @ table_blocks var_blocks (cd_vars c))"
    by (rule frees_append)
  then show ?thesis using assms(2,3) by (simp add: free_domain_def domain_blocks_def frees_Reads frees_free)
qed

lemma report_released:
  assumes "report_image r c" "p \<in> R" "q \<in> R"
  shows "frees R (free_report q p c) (report_blocks c)"
proof -
  have "frees R (concat (map (\<lambda>v. [Reads q, Reads p, Reads (fst (cr_variables c)), Frees v]) (snd (cr_variables c))) @
      map Reads [q, p] @ [Frees (fst (cr_variables c))]) (table_blocks blk (cr_variables c))"
    using assms by (intro table_released [where r = "\<lambda>v p. p \<noteq> 0" and xs = "rp_variables r"] frees_Reads)
      (auto simp: report_image_def)
  then show ?thesis using assms(2,3) by (simp add: free_report_def report_blocks_def frees_Reads frees_free)
qed

lemma file_released: "p \<in> R \<Longrightarrow> q \<in> R \<Longrightarrow> frees R (free_file q p c) (file_blocks c)"
  unfolding free_file_def file_blocks_def by (intro footprint)

lemma fixture_released:
  assumes "fixture_image f c" "\<And>d v. d \<in> set (fx_domains f) \<Longrightarrow> v \<in> set (dm_vars d) \<Longrightarrow> flat (vd_spec v)"
  shows "frees {} (fixture_free (Some c)) (fixture_blocks c)"
proof -
  let ?R = "{c_at c}" and ?at = "c_at c"
  let ?table = "\<lambda>g t. concat (map (g ?at (fst t)) (snd t)) @ map Reads [?at] @ [Frees (fst t)]"
  have texts: "frees ?R (map Frees ps) (concat (map blk ps))" for ps
    by (induction ps) (auto intro: frees_free)
  have files: "frees ?R (?table free_file (c_files c)) (table_blocks file_blocks (c_files c))"
    using assms by (intro table_released [where r = file_image and xs = "fx_files f"] file_released)
      (auto simp: fixture_image_def)
  have reports: "frees ?R (?table free_report (c_reports c)) (table_blocks report_blocks (c_reports c))"
    using assms by (intro table_released [where r = report_image and xs = "fx_reports f"] report_released)
      (auto simp: fixture_image_def)
  have domains: "frees ?R (?table free_domain (c_domains c)) (table_blocks domain_blocks (c_domains c))"
    using assms by (intro table_released [where r = domain_image and xs = "fx_domains f"] domain_released)
      (auto simp: fixture_image_def)
  let ?ops = "Reads ?at # map Frees (c_texts c) @ ?table free_file (c_files c) @
      ?table free_report (c_reports c) @ ?table free_domain (c_domains c)"
  let ?bs = "concat (map blk (c_texts c)) @ table_blocks file_blocks (c_files c) @
      table_blocks report_blocks (c_reports c) @ table_blocks domain_blocks (c_domains c)"
  have "frees ?R ?ops ?bs" by (intro frees_Reads frees_append texts files reports domains) simp
  with frees_owner [of ?at "{}" ?ops ?bs] assms(1) have "frees {} (?ops @ [Frees ?at]) (?bs @ [?at])"
    by (simp add: fixture_image_def)
  then show ?thesis by (simp add: fixture_free_def fixture_blocks_def)
qed

text \<open>C39: \<open>fixture_free\<close> gives back exactly what a loaded fixture owns. For whatever file was loaded,
  and wherever the allocator has put the blocks of the fixture, as long as no two are the same, every
  read goes to a block that is still there, every block is released once, none is left, and the blocks
  of the rest of the program, \<open>h\<close>, are not touched.\<close>

theorem fixture_free_releases:
  assumes "fixture_load L root = Returns (Some f)" "fixture_image f c"
    and "distinct (fixture_blocks c)" "set (fixture_blocks c) \<inter> h = {}"
  shows "exec (fixture_free (Some c)) (h \<union> set (fixture_blocks c)) = Returns h"
  using fixture_released [OF assms(2) loaded_flat [OF assms(1)]] assms(3,4) by (simp add: frees_def)

definition sample_image :: c_fixture where
  "sample_image = \<lparr>c_at = 26, c_texts = [22, 23, 24, 25], c_files = (0, []), c_reports = (27, []),
     c_domains = (21, [\<lparr>cd_name = 19, cd_journals = (0, []), cd_vars = (20,
       [\<lparr>cv_name = 13, cv_spec = Some (CSpec 1 2 CScalar), cv_value = 16\<rparr>,
        \<lparr>cv_name = 14, cv_spec = Some (CSpec 3 4 (CArray (Some (CSpec 5 0 CScalar)))), cv_value = 17\<rparr>,
        \<lparr>cv_name = 15, cv_spec = Some (CSpec 6 7 (CStruct 8 [Some (CSpec 9 10 CScalar), Some (CSpec 11 12 CScalar)])),
         cv_value = 18\<rparr>])\<rparr>])\<rparr>"

theorem fixture_free_releases_witness:
  "exec (fixture_free (Some sample_image)) ({100} \<union> set (fixture_blocks sample_image)) = Returns {100}"
  by (rule fixture_free_releases [OF sample_fixture_loaded])
    (simp_all add: sample_image_def fixture_image_def table_image_def domain_image_def var_image_def top_image_def
      fixture_blocks_def table_blocks_def domain_blocks_def var_blocks_def blk_def)

text \<open>
  On the error paths of \<open>fixture_load\<close> a specification is released with \<open>free(spec->name); free(spec)\<close>
  alone: what it points to is lost.
\<close>

lemma shallow_release_leaks:
  "exec (free_element (Some (CSpec 1 2 (CArray (Some (CSpec 3 0 CScalar)))))) {1, 2, 3} = Returns {3}"
  by auto

end
