(* ===== verification/LineReader.thy ===== *)
theory LineReader
  imports CText
begin

text \<open>
  The stdin reader that \<open>goose_publisher.c\<close> and \<open>sv_publisher.c\<close> share: octets accumulate in
  \<open>line[65536]\<close>, every complete line goes to the command handler, the rest stays for the next
  read. The handler is an interface: what it keeps of the state's invariant, the reader keeps.
\<close>

definition newline :: char where
  "newline = CHR 0x0A"

definition line_max :: nat where
  "line_max = 65535"

text \<open>
  The inner loop over \<open>strchr(start, '\<^emph>\<open>newline\<close>')\<close>: an empty line is skipped, and a handler
  that answers false clears \<open>g_running\<close> without leaving the loop.
\<close>

function read_lines ::
  "('p \<Rightarrow> string \<Rightarrow> ('p \<times> bool) outcome) \<Rightarrow> string \<Rightarrow> 'p \<Rightarrow> bool \<Rightarrow> ('p \<times> bool \<times> string) outcome" where
  "read_lines handle start p running =
     (if newline \<notin> set start then Returns (p, running, start)
      else let l = takeWhile (\<lambda>c. c \<noteq> newline) start; r = tl (dropWhile (\<lambda>c. c \<noteq> newline) start)
           in if l = [] then read_lines handle r p running
              else bind_outcome (handle p l) (\<lambda>(p, keep). read_lines handle r p (running \<and> keep)))"
  by pat_completeness auto
termination
proof (relation "measure (\<lambda>(handle, start, p, running). length start)")
  have "length (tl (dropWhile (\<lambda>c. c \<noteq> newline) start)) < length start" if "newline \<in> set start"
    for start
  proof -
    have "dropWhile (\<lambda>c. c \<noteq> newline) start \<noteq> []" using that by (auto simp: dropWhile_eq_Nil_conv)
    then show ?thesis
      using length_dropWhile_le [of "\<lambda>c. c \<noteq> newline" start] by (cases "dropWhile (\<lambda>c. c \<noteq> newline) start") auto
  qed
  then show "\<lbrakk>\<not> newline \<notin> set start; x = takeWhile (\<lambda>c. c \<noteq> newline) start;
      xa = tl (dropWhile (\<lambda>c. c \<noteq> newline) start); x = []\<rbrakk> \<Longrightarrow>
      ((handle, xa, p, running), handle, start, p, running)
      \<in> measure (\<lambda>(handle, start, p, running). length start)"
    and "\<lbrakk>\<not> newline \<notin> set start; x = takeWhile (\<lambda>c. c \<noteq> newline) start;
      xa = tl (dropWhile (\<lambda>c. c \<noteq> newline) start); x \<noteq> []; handle p x = Returns y; (xb, ya) = y\<rbrakk> \<Longrightarrow>
      ((handle, xa, xb, running \<and> ya), handle, start, p, running)
      \<in> measure (\<lambda>(handle, start, p, running). length start)"
    for handle :: "'p \<Rightarrow> string \<Rightarrow> ('p \<times> bool) outcome" and start x xa xb ya y p running
    by simp_all
qed simp

declare read_lines.simps [simp del]

text \<open>One \<open>read\<close>: \<open>line\<close> holds the pending octets, and a NUL ends what \<open>strchr\<close> sees.\<close>

definition receive ::
  "('p \<Rightarrow> string \<Rightarrow> ('p \<times> bool) outcome) \<Rightarrow> ('p \<Rightarrow> 'p) \<Rightarrow> string \<Rightarrow> 'p \<Rightarrow> bool \<Rightarrow> string \<Rightarrow>
   ('p \<times> bool \<times> string) outcome" where
  "receive handle too_long line p running got =
     bind_outcome (read_lines handle (c_str (line @ got)) p running) (\<lambda>(p, running, rest).
       if length rest = line_max then Returns (too_long p, running, [])
       else Returns (p, running, rest))"

section \<open>Framing\<close>

lemma read_lines_no_newline [simp]:
  "newline \<notin> set start \<Longrightarrow> read_lines handle start p running = Returns (p, running, start)"
  by (simp add: read_lines.simps [of handle start])

lemma read_lines_line:
  "newline \<notin> set l \<Longrightarrow> read_lines handle (l @ newline # r) p running =
     (if l = [] then read_lines handle r p running
      else bind_outcome (handle p l) (\<lambda>(p, keep). read_lines handle r p (running \<and> keep)))"
proof -
  assume "newline \<notin> set l"
  then have "takeWhile (\<lambda>c. c \<noteq> newline) (l @ newline # r) = l"
    "dropWhile (\<lambda>c. c \<noteq> newline) (l @ newline # r) = newline # r"
    by (auto simp: takeWhile_append dropWhile_append dropWhile_eq_Nil_conv)
  then show ?thesis by (simp add: read_lines.simps [of handle "l @ newline # r"])
qed

lemma line_induct [case_names last line]:
  assumes "\<And>s. newline \<notin> set s \<Longrightarrow> P s"
    and "\<And>l r. newline \<notin> set l \<Longrightarrow> P r \<Longrightarrow> P (l @ newline # r)"
  shows "P s"
proof (induction s rule: length_induct)
  case (1 s)
  show ?case
  proof (cases "newline \<in> set s")
    case True
    then obtain l r where "s = l @ newline # r" "newline \<notin> set l" using split_list_first by fastforce
    with 1 assms(2) show ?thesis by simp
  qed (rule assms(1))
qed

lemma read_lines_lineE:
  assumes "read_lines handle (l @ newline # r) p run = Returns (p', run', rest)" "newline \<notin> set l"
  obtains q k where "l = [] \<and> q = p \<and> k \<or> handle p l = Returns (q, k)"
    "read_lines handle r q (run \<and> k) = Returns (p', run', rest)"
proof (cases "l = []")
  case True
  with assms that [of p True] show ?thesis using read_lines_line [of l handle r p run] by simp
next
  case False
  with assms that show ?thesis by (auto simp: read_lines_line)
qed

lemma read_lines_rest: "read_lines handle s p run = Returns (p', run', rest) \<Longrightarrow> newline \<notin> set rest"
proof (induction s arbitrary: p run rule: line_induct)
  case (line l r)
  from line.prems line.hyps obtain q k where "read_lines handle r q (run \<and> k) = Returns (p', run', rest)"
    by (rule read_lines_lineE)
  then show ?case by (rule line.IH)
qed simp

text \<open>Reading a text in two parts is reading it at once.\<close>

lemma read_lines_append:
  "read_lines handle (a @ b) p run =
   bind_outcome (read_lines handle a p run) (\<lambda>(p, run, rest). read_lines handle (rest @ b) p run)"
proof (induction a arbitrary: p run rule: line_induct)
  case (line l r)
  show ?case
  proof (cases "handle p l")
    case (Returns x)
    with line show ?thesis by (cases x) (simp add: read_lines_line)
  next
    case Undefined
    with line show ?thesis by (simp add: read_lines_line)
  qed
qed simp

lemma read_lines_running: "read_lines handle s p run = Returns (p', True, rest) \<Longrightarrow> run"
proof (induction s arbitrary: p run rule: line_induct)
  case (line l r)
  from line.prems line.hyps obtain q k where "read_lines handle r q (run \<and> k) = Returns (p', True, rest)"
    by (rule read_lines_lineE)
  then have "run \<and> k" by (rule line.IH)
  then show ?case ..
qed simp

text \<open>\<open>fits k s\<close>: after \<open>k\<close> pending octets, no line of \<open>s\<close> fills the buffer.\<close>

fun fits :: "nat \<Rightarrow> string \<Rightarrow> bool" where
  "fits k [] = (k < line_max)"
| "fits k (c # s) = (k < line_max \<and> (if c = newline then fits 0 s else fits (Suc k) s))"


definition tail_line :: "string \<Rightarrow> string" where
  "tail_line s = rev (takeWhile (\<lambda>c. c \<noteq> newline) (rev s))"

lemma tail_line_simps [simp]:
  "newline \<notin> set s \<Longrightarrow> tail_line s = s"
  "tail_line (l @ newline # r) = tail_line r"
  by (simp_all add: tail_line_def takeWhile_tail)
    (metis (mono_tags) rev_rev_ident rev_swap set_rev takeWhile_eq_all_conv)

lemma tail_line_Cons: "tail_line (c # s) = (if newline \<in> set s \<or> c = newline then tail_line s else c # s)"
proof (cases "newline \<in> set s")
  case True
  then show ?thesis by (simp add: tail_line_def takeWhile_append1)
next
  case False
  then have "tail_line (newline # s) = tail_line s" using tail_line_simps(2) [of "[]" s] by simp
  with False show ?thesis by auto
qed

lemma read_lines_tail: "read_lines handle s p run = Returns (p', run', rest) \<Longrightarrow> rest = tail_line s"
proof (induction s arbitrary: p run rule: line_induct)
  case (line l r)
  from line.prems line.hyps obtain q k where "read_lines handle r q (run \<and> k) = Returns (p', run', rest)"
    by (rule read_lines_lineE)
  with line.IH show ?case by simp
qed simp

lemma fits_less: "fits k s \<Longrightarrow> k < line_max"
  by (cases s) simp_all

lemma fits_append:
  "fits k (a @ b) \<Longrightarrow> fits (if newline \<in> set a then length (tail_line a) else k + length a) b"
proof (induction a arbitrary: k)
  case Nil
  then show ?case by simp
next
  case (Cons c a)
  show ?case
  proof (cases "c = newline")
    case True
    with Cons.prems Cons.IH [of 0] show ?thesis by (simp add: tail_line_Cons split: if_splits)
  next
    case False
    with Cons.prems Cons.IH [of "Suc k"] show ?thesis by (simp add: tail_line_Cons split: if_splits)
  qed
qed

lemma fits_tail:
  assumes "newline \<notin> set line" "fits (length line) (a @ b)"
  shows "fits (length (tail_line (line @ a))) b"
proof (cases "newline \<in> set a")
  case True
  then obtain l r where a: "a = l @ newline # r" by (meson split_list)
  then have "tail_line (line @ a) = tail_line a" using tail_line_simps(2) [of "line @ l" r] by simp
  with fits_append [OF assms(2)] True show ?thesis by simp
next
  case False
  with fits_append [OF assms(2)] assms(1) show ?thesis by simp
qed

lemma fits_prefix: "fits k (a @ b) \<Longrightarrow> fits k a"
  by (induction a arbitrary: k) (auto dest: fits_less split: if_splits)

lemma tail_line_no_newline: "newline \<notin> set (tail_line s)"
  by (auto simp: tail_line_def dest: set_takeWhileD)

lemma tail_line_append: "tail_line (tail_line a @ b) = tail_line (a @ b)"
proof (cases "newline \<in> set b")
  case True
  then obtain l r where b: "b = l @ newline # r" by (meson split_list)
  then show ?thesis
    using tail_line_simps(2) [of "tail_line a @ l" r] tail_line_simps(2) [of "a @ l" r] by simp
next
  case False
  show ?thesis
  proof (cases "newline \<in> set a")
    case True
    then obtain l r where a: "a = l @ newline # r" "newline \<notin> set r" using split_list_last by fastforce
    with False tail_line_simps(2) [of l "r @ b"] show ?thesis by simp
  qed simp
qed

lemma fits_tail_length:
  assumes "fits 0 (a @ b)"
  shows "length (tail_line (a @ b)) < line_max"
  using fits_tail [of "[]" "a @ b" "[]"] assms by simp

section \<open>The lines of a text\<close>

text \<open>The lines that end in a newline, without the empty ones, which the reader skips.\<close>

fun lines_after :: "string \<Rightarrow> string \<Rightarrow> string list" where
  "lines_after l [] = []"
| "lines_after l (c # s) =
     (if c \<noteq> newline then lines_after (l @ [c]) s
      else (if l = [] then [] else [l]) @ lines_after [] s)"

definition complete_lines :: "string \<Rightarrow> string list" where
  "complete_lines = lines_after []"

lemma lines_after_no_newline: "newline \<notin> set s \<Longrightarrow> lines_after l s = []"
  by (induction s arbitrary: l) auto

lemma lines_after_line:
  "newline \<notin> set l \<Longrightarrow> lines_after k (l @ newline # r) = (if k @ l = [] then [] else [k @ l]) @ lines_after [] r"
  by (induction l arbitrary: k) auto

lemma complete_lines_simps [simp]:
  "newline \<notin> set s \<Longrightarrow> complete_lines s = []"
  "newline \<notin> set l \<Longrightarrow> complete_lines (l @ newline # r) = (if l = [] then [] else [l]) @ complete_lines r"
  by (simp_all add: complete_lines_def lines_after_no_newline lines_after_line)

lemma leading_newline [simp]:
  "complete_lines (newline # r) = complete_lines r" "tail_line (newline # r) = tail_line r"
  using complete_lines_simps(2) [of "[]" r] tail_line_simps(2) [of "[]" r] by simp_all

lemma complete_lines_append:
  "complete_lines (a @ b) = complete_lines a @ complete_lines (tail_line a @ b)"
  by (induction a rule: line_induct) simp_all

section \<open>Handlers that keep an invariant\<close>

locale line_client =
  fixes handle :: "'p \<Rightarrow> string \<Rightarrow> ('p \<times> bool) outcome"
    and too_long :: "'p \<Rightarrow> 'p"
    and inv :: "'p \<Rightarrow> bool"
  assumes handle_inv: "inv p \<Longrightarrow> handle p l = Returns (p', keep) \<Longrightarrow> inv p'"
    and too_long_inv: "inv p \<Longrightarrow> inv (too_long p)"
begin

lemma read_lines_inv: "inv p \<Longrightarrow> read_lines handle s p run = Returns (p', run', rest) \<Longrightarrow> inv p'"
proof (induction s arbitrary: p run rule: line_induct)
  case (line l r)
  from line.prems(2) line.hyps obtain q k where q: "l = [] \<and> q = p \<and> k \<or> handle p l = Returns (q, k)"
    "read_lines handle r q (run \<and> k) = Returns (p', run', rest)"
    by (rule read_lines_lineE)
  from q(1) line.prems(1) have "inv q" by (auto dest: handle_inv)
  then show ?case using q(2) by (rule line.IH)
qed simp

lemma receive_inv:
  assumes "inv p" "receive handle too_long line p run got = Returns (p', run', line')"
  shows "inv p'" "length line \<le> line_max \<Longrightarrow> length got \<le> line_max - length line \<Longrightarrow> length line' < line_max"
proof -
  from assms(2) obtain q r rest where
    r: "read_lines handle (c_str (line @ got)) p run = Returns (q, r, rest)"
    and p': "if length rest = line_max then p' = too_long q \<and> line' = [] else p' = q \<and> line' = rest"
    by (auto simp: receive_def split: if_splits)
  have "inv q" using assms(1) r by (rule read_lines_inv)
  with p' show "inv p'" by (auto simp: too_long_inv split: if_splits)
  assume "length line \<le> line_max" "length got \<le> line_max - length line"
  moreover have "length rest \<le> length (line @ got)"
    unfolding read_lines_tail [OF r] tail_line_def c_str_def
    using length_takeWhile_le [of "\<lambda>c. c \<noteq> newline"] length_takeWhile_le [of "\<lambda>c. c \<noteq> nul" "line @ got"]
    by (metis (no_types, lifting) le_trans length_rev)
  ultimately show "length line' < line_max" using p' by (auto simp: line_max_def split: if_splits)
qed

end

text \<open>
  A handler that never runs into undefined behaviour on the lines \<open>ok\<close> takes makes a reader that
  does not either, as long as every line it completes is one of them.
\<close>

locale total_client = line_client +
  fixes ok :: "string \<Rightarrow> bool"
  assumes handle_total: "inv p \<Longrightarrow> ok l \<Longrightarrow> handle p l \<noteq> Undefined"
begin

lemma read_lines_total:
  "inv p \<Longrightarrow> list_all ok (complete_lines s) \<Longrightarrow> read_lines handle s p run \<noteq> Undefined"
proof (induction s arbitrary: p run rule: line_induct)
  case (line l r)
  show ?case
  proof (cases "l = []")
    case True
    with line read_lines_line [of l handle r p run] show ?thesis by simp
  next
    case False
    obtain q k where q: "handle p l = Returns (q, k)"
      using handle_total [OF line.prems(1), of l] line.prems(2) line.hyps False
      by (cases "handle p l") auto
    then have "inv q" by (rule handle_inv [OF line.prems(1)])
    with False line q show ?thesis by (simp add: read_lines_line)
  qed
qed simp

lemma receive_total:
  "inv p \<Longrightarrow> list_all ok (complete_lines (c_str (line @ got))) \<Longrightarrow>
   receive handle too_long line p run got \<noteq> Undefined"
  using read_lines_total [of p "c_str (line @ got)" run]
  by (cases "read_lines handle (c_str (line @ got)) p run") (auto simp: receive_def split: if_splits)

end

text \<open>
  A handler whose effect on what \<open>obs\<close> observes is a function of the line: the reader folds that
  function over the lines, and \<open>g_running\<close> stays set only if no line clears it.
\<close>

locale observed_client =
  fixes handle :: "'p \<Rightarrow> string \<Rightarrow> ('p \<times> bool) outcome"
    and obs :: "'p \<Rightarrow> 'a"
    and step :: "string \<Rightarrow> 'a \<Rightarrow> 'a"
    and stops :: "string \<Rightarrow> bool"
  assumes handle_obs: "handle p l = Returns (p', keep) \<Longrightarrow> obs p' = step l (obs p) \<and> (keep = (\<not> stops l))"
begin

lemma read_lines_obs:
  "read_lines handle s p run = Returns (p', run', rest) \<Longrightarrow>
   obs p' = fold step (complete_lines s) (obs p) \<and>
   (run' = (run \<and> \<not> list_ex stops (complete_lines s))) \<and> rest = tail_line s"
proof (induction s arbitrary: p run rule: line_induct)
  case (line l r)
  show ?case
  proof (cases "l = []")
    case True
    with line show ?thesis using read_lines_line [of l handle r p run] by simp
  next
    case False
    with line.prems line.hyps obtain q k where q: "handle p l = Returns (q, k)"
      "read_lines handle r q (run \<and> k) = Returns (p', run', rest)"
      using read_lines_line [of l handle r p run] by (cases "handle p l") auto
    with line.IH [OF q(2)] handle_obs [OF q(1)] line.hyps False show ?thesis by auto
  qed
qed simp

lemma receive_obs:
  assumes "receive handle too_long line p run got = Returns (p', run', line')"
    and "is_c_string (line @ got)" "length (tail_line (line @ got)) < line_max"
  shows "obs p' = fold step (complete_lines (line @ got)) (obs p)"
    "run' = (run \<and> \<not> list_ex stops (complete_lines (line @ got)))"
    "line' = tail_line (line @ got)"
proof -
  from assms(2) have c: "c_str (line @ got) = line @ got" by (rule c_str_ident)
  from assms(1) obtain q r rest where
    q: "read_lines handle (line @ got) p run = Returns (q, r, rest)"
    and p': "if length rest = line_max then p' = too_long q \<and> line' = [] \<and> run' = r
      else p' = q \<and> line' = rest \<and> run' = r"
    unfolding receive_def c by (auto split: if_splits)
  from read_lines_obs [OF q] p' assms(3)
  show "obs p' = fold step (complete_lines (line @ got)) (obs p)"
    "run' = (run \<and> \<not> list_ex stops (complete_lines (line @ got)))"
    "line' = tail_line (line @ got)"
    by auto
qed

end

end
