(* ===== verification/Commands.thy ===== *)
theory Commands
  imports GooseCommon LineReader
begin

text \<open>
  What the stdin commands of \<open>goose_publisher.c\<close> and \<open>sv_publisher.c\<close> have in common: the name of
  a command, the answer to an unknown one, and the commands that \<open>strcmp\<close> can take.
\<close>

text \<open>The \<open>cmd\<close> member as \<open>strcmp\<close> gets it: NULL when it is there and null.\<close>

definition command_name :: "value_lib \<Rightarrow> json \<Rightarrow> string option" where
  "command_name L cmd =
     (case json_get_ex cmd ''cmd'' of None \<Rightarrow> Some '''' | Some jc \<Rightarrow> json_get_string L jc)"

definition unknown_command :: "string \<Rightarrow> string" where
  "unknown_command c = ''stdin: unknown cmd \"'' @ take 100 c @ ''\"''"

text \<open>
  A line that crashes neither \<open>strcmp\<close> of the command nor that of a value's type: one that is no
  JSON, or a JSON text whose \<open>cmd\<close> member, if it has one, is not null and that has no member
  \<open>"type":null\<close>. (\<open>{"cmd":null}\<close> is a line that does crash the program.)
\<close>

definition line_ok :: "value_lib \<Rightarrow> string \<Rightarrow> bool" where
  "line_ok L line \<longleftrightarrow>
     (case json_tokener_parse L line of
        None \<Rightarrow> True
      | Some cmd \<Rightarrow> command_name L cmd \<noteq> None \<and> \<not> has_null_type cmd)"

lemma has_null_type_member: "json_get_ex j k = Some v \<Longrightarrow> has_null_type v \<Longrightarrow> has_null_type j"
  using subvalues_member [of j k v] unfolding has_null_type_def by blast

lemma values_no_crash:
  assumes "\<not> has_null_type cmd"
  shows "goose_values_from_json L (json_get_ex cmd k) \<noteq> Inl NullDeref"
proof (cases "json_get_ex cmd k")
  case None
  then show ?thesis by (simp add: goose_values_from_json_def)
next
  case (Some v)
  then have "\<not> has_null_type v" using assms has_null_type_member by blast
  then show ?thesis unfolding Some by (rule goose_values_from_json_no_crash)
qed

end
