(* ===== verification/GoosePublisher.thy ===== *)
theory GoosePublisher
  imports Commands
begin

text \<open>
  \<open>goose_publisher.c\<close>: the retransmission schedule, one frame, a state change, a stdin
  command, the command line and the main loop. Every call the program makes to libiec61850,
  the clock and stdout is appended to \<open>gp_calls\<close> (newest first); what such a call answers is
  a function of the calls before it, the fields of \<open>goose_env\<close>.
\<close>

section \<open>State\<close>

datatype goose_call =
    CreateSocket string "u8 list"
  | CreatePublisher comm_params string bool
  | SetGoCbRef string
  | SetGoID string
  | SetDataSetRef string
  | SetConfRev u32
  | SetSimulation bool
  | SetNeedsCommission bool
  | SetStNum u32
  | IncreaseStNum
  | SetTimeAllowedToLive u32
  | Publish "mms_value list"
  | PublishAndDump "mms_value list"
  | SendPacket "u8 list"
  | MonotonicTime
  | Select u64 bool
  | Emit json

datatype wake = Timeout | Signalled | Input string | Interrupted | EndOfInput

record goose_env =
  gp_publish :: "goose_call list \<Rightarrow> int"
  gp_dump :: "goose_call list \<Rightarrow> int \<times> u8 list"
  gp_clock :: "goose_call list \<Rightarrow> u64"
  gp_wake :: "goose_call list \<Rightarrow> wake"

text \<open>\<open>gp_steps\<close> is the filled part of \<open>steps\<close>, its length \<open>step_count\<close>.\<close>

record goose_publisher =
  gp_values :: "mms_value list"
  gp_st_num :: u32
  gp_sq_num :: u32
  gp_steps :: "u32 list"
  gp_step :: int
  gp_next_ms :: u64
  gp_raw :: bool
  gp_src :: "u8 list"
  gp_vlan :: bool
  gp_calls :: "goose_call list"

definition call :: "goose_call \<Rightarrow> goose_publisher \<Rightarrow> goose_publisher" where
  "call c p = p\<lparr>gp_calls := c # gp_calls p\<rparr>"

definition MAX_STEPS :: nat where
  "MAX_STEPS = 17"

definition INT_MAX :: int where
  "INT_MAX = 2 ^ 31 - 1"

section \<open>The schedule\<close>

function schedule_loop :: "u32 \<Rightarrow> u32 \<Rightarrow> nat \<Rightarrow> u32 list" where
  "schedule_loop d max_ms n =
     (if d < max_ms \<and> n < MAX_STEPS - 1 then d # schedule_loop (d * 2) max_ms (Suc n) else [])"
  by pat_completeness auto
termination
  by (relation "measure (\<lambda>(d, max_ms, n). MAX_STEPS - n)") auto

declare schedule_loop.simps [simp del]

definition build_schedule :: "u32 \<Rightarrow> u32 \<Rightarrow> u32 list" where
  "build_schedule min_ms max_ms =
     (let (min_ms, max_ms) = (if min_ms = 0 \<and> max_ms = 0 then (4, 1000) else (min_ms, max_ms));
          min_ms = (if min_ms = 0 then (if max_ms div 64 \<noteq> 0 then max_ms div 64 else 1) else min_ms);
          max_ms = (if max_ms < min_ms then min_ms else max_ms)
      in schedule_loop min_ms max_ms 0 @ [max_ms])"

section \<open>Frames\<close>

definition published_event :: "u32 \<Rightarrow> u32 \<Rightarrow> u32 \<Rightarrow> json" where
  "published_event st sq tal =
     JObject [(''event'', JString ''published''), (''stNum'', JInt (uint st)),
       (''sqNum'', JInt (uint sq)), (''timeAllowedToLive'', JInt (uint tal))]"

text \<open>
  The \<open>--simulation\<close> path: the source address of the interface, and the S bit of Reserved1,
  octet \<open>GOOSE_SIM_OCTET\<close> (4) of the APDU after the addresses, the tag and the EtherType.
\<close>

definition simulation_frame :: "u8 list \<Rightarrow> bool \<Rightarrow> u8 list \<Rightarrow> u8 list" where
  "simulation_frame src vlan frame =
     (let frame = foldl (\<lambda>f i. f[6 + i := src ! i]) frame [0..<6];
          apdu = 12 + (if vlan then 4 else 0) + 2
      in frame[apdu + 4 := frame ! (apdu + 4) OR 0x80])"

definition send_frame :: "goose_env \<Rightarrow> goose_publisher \<Rightarrow> goose_publisher outcome" where
  "send_frame E p =
     (let step_count = length (gp_steps p);
          idx = (if gp_step p < int step_count then nat (gp_step p) else step_count - 1);
          interval = gp_steps p ! idx;
          tal = 2 * interval;
          p = call (SetTimeAllowedToLive tal) p;
          (rc, p) =
            (if gp_raw p then
               (let (rc, frame) = gp_dump E (gp_calls p);
                    p = call (PublishAndDump (gp_values p)) p
                in (rc, if rc = 0
                        then call (SendPacket (simulation_frame (gp_src p) (gp_vlan p) frame)) p
                        else p))
             else (gp_publish E (gp_calls p), call (Publish (gp_values p)) p));
          p = (if rc \<noteq> 0
               then call (Emit (goose_error ''publish: data set does not fit a GOOSE frame'')) p
               else let p = call (Emit (published_event (gp_st_num p) (gp_sq_num p) tal)) p;
                        sq = gp_sq_num p + 1
                    in p\<lparr>gp_sq_num := (if sq = 0 then 1 else sq)\<rparr>)
      in if INT_MAX < gp_step p + 1 then Undefined
         else let p = p\<lparr>gp_step := gp_step p + 1\<rparr>;
                  now = gp_clock E (gp_calls p);
                  p = call MonotonicTime p
              in Returns (p\<lparr>gp_next_ms := now + ucast interval\<rparr>))"

definition state_change :: "goose_env \<Rightarrow> goose_publisher \<Rightarrow> mms_value list \<Rightarrow> goose_publisher outcome" where
  "state_change E p values =
     (let p = call IncreaseStNum (p\<lparr>gp_values := values\<rparr>);
          st = gp_st_num p + 1
      in send_frame E (p\<lparr>gp_st_num := (if st = 0 then 1 else st), gp_sq_num := 0, gp_step := 0\<rparr>))"

section \<open>Commands\<close>

definition handle_line ::
  "value_lib \<Rightarrow> goose_env \<Rightarrow> goose_publisher \<Rightarrow> string \<Rightarrow> (goose_publisher \<times> bool) outcome" where
  "handle_line L E p line =
     (case json_tokener_parse L line of
        None \<Rightarrow> Returns (call (Emit (goose_error ''stdin: not JSON'')) p, True)
      | Some cmd \<Rightarrow>
          (case command_name L cmd of
             None \<Rightarrow> Undefined
           | Some c \<Rightarrow>
               if c = ''set'' then
                 (case goose_values_from_json L (json_get_ex cmd ''values'') of
                    Inl NullDeref \<Rightarrow> Undefined
                  | Inl (Rejected err) \<Rightarrow>
                      Returns (call (Emit (goose_error (snprintf_s 160 (''set: '' @ err)))) p, True)
                  | Inr values \<Rightarrow> bind_outcome (state_change E p values) (\<lambda>p. Returns (p, True)))
               else if c = ''stop'' then Returns (p, False)
               else Returns (call (Emit (goose_error (unknown_command c))) p, True)))"

section \<open>The command line\<close>

record goose_opts =
  go_iface :: string
  go_gocb_ref :: "string option"
  go_go_id :: "string option"
  go_dataset :: string
  go_values :: "string option"
  go_app_id :: string
  go_dst :: string
  go_vlan_id :: int
  go_vlan_prio :: int
  go_conf_rev :: int
  go_min_time :: int
  go_max_time :: int
  go_test :: bool
  go_simulation :: bool
  go_nds_com :: bool

definition goose_defaults :: goose_opts where
  "goose_defaults = \<lparr>go_iface = ''eth0'', go_gocb_ref = None, go_go_id = None, go_dataset = '''',
     go_values = None, go_app_id = ''0x0000'', go_dst = ''01:0c:cd:01:00:00'', go_vlan_id = 0,
     go_vlan_prio = 4, go_conf_rev = 1, go_min_time = 10, go_max_time = 1000, go_test = False,
     go_simulation = False, go_nds_com = False\<rparr>"

text \<open>The options that take a value.\<close>

definition goose_option :: "string \<Rightarrow> (string \<Rightarrow> goose_opts \<Rightarrow> goose_opts) option" where
  "goose_option a =
     (if a = ''--iface'' then Some (\<lambda>v opts. opts\<lparr>go_iface := v\<rparr>)
      else if a = ''--gocb-ref'' then Some (\<lambda>v opts. opts\<lparr>go_gocb_ref := Some v\<rparr>)
      else if a = ''--go-id'' then Some (\<lambda>v opts. opts\<lparr>go_go_id := Some v\<rparr>)
      else if a = ''--dataset'' then Some (\<lambda>v opts. opts\<lparr>go_dataset := v\<rparr>)
      else if a = ''--app-id'' then Some (\<lambda>v opts. opts\<lparr>go_app_id := v\<rparr>)
      else if a = ''--dst'' then Some (\<lambda>v opts. opts\<lparr>go_dst := v\<rparr>)
      else if a = ''--vlan-id'' then Some (\<lambda>v opts. opts\<lparr>go_vlan_id := fst (strtol 0 v)\<rparr>)
      else if a = ''--vlan-prio'' then Some (\<lambda>v opts. opts\<lparr>go_vlan_prio := fst (strtol 0 v)\<rparr>)
      else if a = ''--conf-rev'' then Some (\<lambda>v opts. opts\<lparr>go_conf_rev := fst (strtol 0 v)\<rparr>)
      else if a = ''--min-time'' then Some (\<lambda>v opts. opts\<lparr>go_min_time := fst (strtol 0 v)\<rparr>)
      else if a = ''--max-time'' then Some (\<lambda>v opts. opts\<lparr>go_max_time := fst (strtol 0 v)\<rparr>)
      else if a = ''--values'' then Some (\<lambda>v opts. opts\<lparr>go_values := Some v\<rparr>)
      else None)"

definition goose_flag :: "string \<Rightarrow> (goose_opts \<Rightarrow> goose_opts) option" where
  "goose_flag a =
     (if a = ''--test'' then Some (\<lambda>opts. opts\<lparr>go_test := True\<rparr>)
      else if a = ''--simulation'' then Some (\<lambda>opts. opts\<lparr>go_simulation := True\<rparr>)
      else if a = ''--nds-com'' then Some (\<lambda>opts. opts\<lparr>go_nds_com := True\<rparr>)
      else None)"

fun parse_args :: "goose_opts \<Rightarrow> string list \<Rightarrow> string + goose_opts" where
  "parse_args opts [] = Inr opts"
| "parse_args opts (a # args) =
     (case goose_option a of
        Some set_value \<Rightarrow>
          (case args of
             [] \<Rightarrow> Inl (''goose-publisher: '' @ a @ '' needs a value'')
           | v # rest \<Rightarrow> parse_args (set_value v opts) rest)
      | None \<Rightarrow>
          (case goose_flag a of
             Some set_flag \<Rightarrow> parse_args (set_flag opts) args
           | None \<Rightarrow> Inl (''goose-publisher: unknown argument '' @ a)))"

text \<open>
  \<open>main\<close> from the parsed options to the first frame. \<open>socket\<close>, \<open>created\<close> and \<open>src\<close> are the
  answers of \<open>Ethernet_createSocket\<close>, \<open>GoosePublisher_createEx\<close> and
  \<open>Ethernet_getInterfaceMACAddress\<close>, \<open>version\<close> the \<open>ADAPTER_VERSION\<close>.
\<close>

definition goose_setup ::
  "value_lib \<Rightarrow> string \<Rightarrow> bool \<Rightarrow> bool \<Rightarrow> u8 list \<Rightarrow> goose_opts \<Rightarrow> (string + goose_publisher) outcome" where
  "goose_setup L version socket created src opts =
     (case (go_gocb_ref opts, go_values opts) of
        (None, _) \<Rightarrow> Returns (Inl ''goose-publisher: --gocb-ref is required'')
      | (_, None) \<Rightarrow> Returns (Inl ''goose-publisher: --values is required'')
      | (Some gocb_ref, Some values_json) \<Rightarrow>
          if go_vlan_id opts < 0 \<or> go_vlan_id opts > 4095 \<or> go_vlan_prio opts < 0 \<or>
             go_vlan_prio opts > 7 \<or> go_conf_rev opts < 0 \<or> go_min_time opts < 0 \<or> go_max_time opts < 0
          then Returns (Inl ''goose-publisher: --vlan-id 0..4095, --vlan-prio 0..7, times and conf-rev >= 0'')
          else
            (let steps = build_schedule (word_of_int (go_min_time opts)) (word_of_int (go_max_time opts))
             in case goose_values_from_json L (json_tokener_parse L values_json) of
                  Inl NullDeref \<Rightarrow> Undefined
                | Inl (Rejected err) \<Rightarrow> Returns (Inl (''goose-publisher: --values: '' @ err))
                | Inr values \<Rightarrow>
                    (case (goose_parse_appid (go_app_id opts), goose_parse_mac (go_dst opts)) of
                       (None, _) \<Rightarrow>
                         Returns (Inl (''goose-publisher: --app-id '' @ go_app_id opts @ '' is not a 16-bit number''))
                     | (_, None) \<Rightarrow>
                         Returns (Inl (''goose-publisher: --dst '' @ go_dst opts @ '' is not a MAC address''))
                     | (Some app_id, Some dst) \<Rightarrow>
                         if go_simulation opts \<and> \<not> socket
                         then Returns (Inl (''goose-publisher: raw socket on '' @ go_iface opts @
                                '' failed (needs CAP_NET_RAW)''))
                         else if \<not> created
                         then Returns (Inl (''goose-publisher: GoosePublisher on '' @ go_iface opts @
                                '' failed (needs CAP_NET_RAW)''))
                         else
                           (let params = \<lparr>vlanId = word_of_int (go_vlan_id opts),
                                  vlanPriority = word_of_int (go_vlan_prio opts), appId = app_id,
                                  dstAddress = dst\<rparr>;
                                calls = (if go_simulation opts then [CreateSocket (go_iface opts) dst] else []) @
                                  [CreatePublisher params (if go_simulation opts then ''lo'' else go_iface opts) True,
                                   SetGoCbRef gocb_ref,
                                   SetGoID (case go_go_id opts of None \<Rightarrow> gocb_ref | Some i \<Rightarrow> i),
                                   SetDataSetRef (go_dataset opts),
                                   SetConfRev (word_of_int (go_conf_rev opts)),
                                   SetSimulation (go_test opts),
                                   SetNeedsCommission (go_nds_com opts),
                                   SetStNum 0, IncreaseStNum,
                                   Emit (goose_ready version ''publisher'' (go_iface opts) src (Some gocb_ref))]
                            in Returns (Inr \<lparr>gp_values = values, gp_st_num = 1, gp_sq_num = 0,
                                 gp_steps = steps, gp_step = 0, gp_next_ms = 0,
                                 gp_raw = go_simulation opts, gp_src = src, gp_vlan = True,
                                 gp_calls = rev calls\<rparr>)))))"

section \<open>The main loop\<close>

record goose_main =
  gm_pub :: goose_publisher
  gm_line :: string
  gm_stdin_open :: bool
  gm_running :: bool

definition line_too_long :: "goose_publisher \<Rightarrow> goose_publisher" where
  "line_too_long p = call (Emit (goose_error ''stdin: line too long'')) p"

text \<open>One turn of the loop, \<open>g_running\<close> being set.\<close>

definition main_step :: "value_lib \<Rightarrow> goose_env \<Rightarrow> goose_main \<Rightarrow> goose_main outcome" where
  "main_step L E m =
     (let p = gm_pub m; now = gp_clock E (gp_calls p); p = call MonotonicTime p
      in if gp_next_ms p \<le> now
         then bind_outcome (send_frame E p) (\<lambda>p. Returns (m\<lparr>gm_pub := p\<rparr>))
         else let w = gp_wake E (gp_calls p);
                  p = call (Select (gp_next_ms p - now) (gm_stdin_open m)) p;
                  m = m\<lparr>gm_pub := p\<rparr>
              in if w = Signalled then Returns (m\<lparr>gm_running := False\<rparr>)
                 else if \<not> gm_stdin_open m then Returns m
                 else (case w of
                     Input got \<Rightarrow>
                       bind_outcome (receive (handle_line L E) line_too_long (gm_line m) p True
                                       (take (line_max - length (gm_line m)) got))
                         (\<lambda>(p, running, line).
                            Returns (m\<lparr>gm_pub := p, gm_running := running, gm_line := line\<rparr>))
                   | EndOfInput \<Rightarrow> Returns (m\<lparr>gm_stdin_open := False\<rparr>)
                   | _ \<Rightarrow> Returns m))"

inductive reaches :: "value_lib \<Rightarrow> goose_env \<Rightarrow> goose_main \<Rightarrow> goose_main \<Rightarrow> bool" for L E m where
  start: "reaches L E m m"
| turn: "reaches L E m m' \<Longrightarrow> gm_running m' \<Longrightarrow> main_step L E m' = Returns m'' \<Longrightarrow> reaches L E m m''"

text \<open>\<open>main\<close> after the set-up: the first frame, then the loop from an empty line.\<close>

definition main_start :: "goose_env \<Rightarrow> goose_publisher \<Rightarrow> goose_main outcome" where
  "main_start E p =
     bind_outcome (send_frame E p) (\<lambda>p.
       Returns \<lparr>gm_pub = p, gm_line = [], gm_stdin_open = True, gm_running = True\<rparr>)"

section \<open>The schedule doubles\<close>

lemma unat_double: "unat (d :: u32) < 2 ^ 31 \<Longrightarrow> unat (d * 2) = unat d * 2"
  by (simp add: unat_word_ariths(2))

lemma schedule_loop_spec:
  "unat M \<le> 2 ^ 31 \<Longrightarrow> n \<le> 16 \<Longrightarrow>
   length (schedule_loop d M n) \<le> 16 - n \<and>
   (\<forall>i < length (schedule_loop d M n).
      unat (schedule_loop d M n ! i) = unat d * 2 ^ i \<and> unat d * 2 ^ i < unat M) \<and>
   (length (schedule_loop d M n) < 16 - n \<longrightarrow> unat M \<le> unat d * 2 ^ length (schedule_loop d M n))"
proof (induction d M n rule: schedule_loop.induct)
  case (1 d M n)
  show ?case
  proof (cases "d < M \<and> n < MAX_STEPS - 1")
    case False
    then have "schedule_loop d M n = []" by (subst schedule_loop.simps) simp
    with False "1.prems" show ?thesis by (auto simp: MAX_STEPS_def word_less_nat_alt)
  next
    case True
    let ?r = "schedule_loop (d * 2) M (Suc n)"
    have eq: "schedule_loop d M n = d # ?r" using True by (subst schedule_loop.simps) simp
    have lt: "unat d < unat M" using True by (simp add: word_less_nat_alt)
    then have dbl: "unat (d * 2) = unat d * 2" using "1.prems" by (intro unat_double) simp
    have "Suc n \<le> 16" using True by (simp add: MAX_STEPS_def)
    note IH = "1.IH" [OF True "1.prems"(1) this]
    have "unat ((d # ?r) ! i) = unat d * 2 ^ i \<and> unat d * 2 ^ i < unat M" if "i < length (d # ?r)" for i
      using IH that lt dbl by (cases i) (auto simp: mult.assoc)
    moreover have "length (d # ?r) < 16 - n \<longrightarrow> unat M \<le> unat d * 2 ^ length (d # ?r)"
      using IH dbl by (auto simp: mult.assoc)
    moreover have "length (d # ?r) \<le> 16 - n" using IH \<open>Suc n \<le> 16\<close> by auto
    ultimately show ?thesis unfolding eq by blast
  qed
qed

lemma build_schedule_simple:
  "0 < a \<Longrightarrow> a \<le> M \<Longrightarrow> build_schedule a M = schedule_loop a M 0 @ [M]"
  by (auto simp: build_schedule_def Let_def)

lemma length_schedule_loop: "length (schedule_loop d M n) \<le> 16 - n"
proof (induction d M n rule: schedule_loop.induct)
  case (1 d M n)
  then show ?case
    by (cases "d < M \<and> n < MAX_STEPS - 1") (auto simp: MAX_STEPS_def schedule_loop.simps [of d M n])
qed

lemma build_schedule_length: "1 \<le> length (build_schedule a M) \<and> length (build_schedule a M) \<le> MAX_STEPS"
  using length_schedule_loop [of _ _ 0]
  by (auto simp: build_schedule_def Let_def MAX_STEPS_def intro: le_trans [OF length_schedule_loop])

text \<open>The intervals the documentation promises: \<open>min * 2 ^ k\<close> while below \<open>max\<close>, then \<open>max\<close>.\<close>

lemma build_schedule_nth:
  assumes "0 < a" "a \<le> M" "unat M \<le> 2 ^ 31" "k < length (build_schedule a M)"
  shows "unat (build_schedule a M ! k) =
    (if k = length (build_schedule a M) - 1 then unat M else unat a * 2 ^ k)"
    and "k < length (build_schedule a M) - 1 \<Longrightarrow> unat a * 2 ^ k < unat M"
    and "length (build_schedule a M) < MAX_STEPS \<Longrightarrow> unat M \<le> unat a * 2 ^ (length (build_schedule a M) - 1)"
  using assms schedule_loop_spec [of M 0 a]
  by (auto simp: build_schedule_simple nth_append MAX_STEPS_def)

lemma schedule_loop_pos:
  "0 < d \<Longrightarrow> unat M \<le> 2 ^ 31 \<Longrightarrow> x \<in> set (schedule_loop d M 0) \<Longrightarrow> 0 < x"
proof -
  assume d: "0 < d" "unat M \<le> 2 ^ 31" "x \<in> set (schedule_loop d M 0)"
  then obtain i where "i < length (schedule_loop d M 0)" "x = schedule_loop d M 0 ! i"
    by (auto simp: in_set_conv_nth)
  with schedule_loop_spec [of M 0 d] d have "unat x = unat d * 2 ^ i" by auto
  with d(1) show "0 < x" by (simp add: word_less_nat_alt)
qed

text \<open>With a maximum above \<open>2 ^ 31\<close> ms the doubling wraps to an interval of zero.\<close>

lemma build_schedule_wraps: "build_schedule 0x80000000 0xffffffff ! 1 = 0"
  by (simp add: build_schedule_simple schedule_loop.simps [of "0x80000000"] schedule_loop.simps [of 4294967296]
    MAX_STEPS_def)

section \<open>What the frames announce\<close>

text \<open>
  The abstract counters of IEC 61850-8-1: a state change moves \<open>stNum\<close> on and restarts
  \<open>sqNum\<close> at 0, a frame that the library has sent moves \<open>sqNum\<close> on, and both skip 0 when they
  wrap. \<open>counters\<close> reads them off the calls and the library's answers to them; it does not look
  at the events. \<open>expected_events\<close> is the event every publishing call has to be followed by, from
  its answer: a published event with the counters at the call and the time allowed to live set
  last, or the error event; \<open>printed_events\<close> is what the program prints.
\<close>

definition bump :: "u32 \<Rightarrow> u32" where
  "bump n = (if n + 1 = 0 then 1 else n + 1)"

definition is_published :: "json \<Rightarrow> bool" where
  "is_published j \<longleftrightarrow> json_get_ex j ''event'' = Some (JString ''published'')"

fun counters :: "goose_env \<Rightarrow> goose_call list \<Rightarrow> u32 \<times> u32" where
  "counters E [] = (0, 0)"
| "counters E (SetStNum n # cs) = (n, snd (counters E cs))"
| "counters E (IncreaseStNum # cs) = (bump (fst (counters E cs)), 0)"
| "counters E (Publish vs # cs) =
     (if gp_publish E cs = 0 then (fst (counters E cs), bump (snd (counters E cs))) else counters E cs)"
| "counters E (PublishAndDump vs # cs) =
     (if fst (gp_dump E cs) = 0 then (fst (counters E cs), bump (snd (counters E cs))) else counters E cs)"
| "counters E (c # cs) = counters E cs"

fun last_tal :: "goose_call list \<Rightarrow> u32" where
  "last_tal [] = 0"
| "last_tal (SetTimeAllowedToLive t # cs) = t"
| "last_tal (c # cs) = last_tal cs"

abbreviation publish_error :: json where
  "publish_error \<equiv> goose_error ''publish: data set does not fit a GOOSE frame''"

definition answer_event :: "goose_env \<Rightarrow> int \<Rightarrow> goose_call list \<Rightarrow> json" where
  "answer_event E rc cs =
     (if rc = 0 then published_event (fst (counters E cs)) (snd (counters E cs)) (last_tal cs)
      else publish_error)"

fun expected_events :: "goose_env \<Rightarrow> goose_call list \<Rightarrow> json list" where
  "expected_events E [] = []"
| "expected_events E (Publish vs # cs) = answer_event E (gp_publish E cs) cs # expected_events E cs"
| "expected_events E (PublishAndDump vs # cs) =
     answer_event E (fst (gp_dump E cs)) cs # expected_events E cs"
| "expected_events E (c # cs) = expected_events E cs"

fun printed_events :: "goose_call list \<Rightarrow> json list" where
  "printed_events [] = []"
| "printed_events (Emit j # cs) =
     (if is_published j \<or> j = publish_error then [j] else []) @ printed_events cs"
| "printed_events (c # cs) = printed_events cs"

definition publisher_inv :: "goose_publisher \<Rightarrow> bool" where
  "publisher_inv p \<longleftrightarrow>
     gp_st_num p \<noteq> 0 \<and> gp_steps p \<noteq> [] \<and> length (gp_steps p) \<le> MAX_STEPS \<and> 0 \<le> gp_step p"

definition announces :: "goose_env \<Rightarrow> goose_publisher \<Rightarrow> bool" where
  "announces E p \<longleftrightarrow> printed_events (gp_calls p) = expected_events E (gp_calls p) \<and>
     counters E (gp_calls p) = (gp_st_num p, gp_sq_num p)"

lemma goose_pub_call_simps [simp]:
  "gp_values (call c p) = gp_values p" "gp_st_num (call c p) = gp_st_num p"
  "gp_sq_num (call c p) = gp_sq_num p" "gp_steps (call c p) = gp_steps p"
  "gp_step (call c p) = gp_step p" "gp_next_ms (call c p) = gp_next_ms p"
  "gp_raw (call c p) = gp_raw p" "gp_src (call c p) = gp_src p" "gp_vlan (call c p) = gp_vlan p"
  "gp_calls (call c p) = c # gp_calls p"
  by (simp_all add: call_def)

lemma is_published_simps [simp]:
  "is_published (published_event st sq tal)" "\<not> is_published (goose_error m)"
  "\<not> is_published (goose_ready v r i s g)"
  by (simp_all add: is_published_def published_event_def goose_error_def goose_ready_def json_get_ex_def)

lemma publish_error_simps [simp]:
  "published_event st sq tal \<noteq> publish_error" "goose_ready v r i s g \<noteq> publish_error"
  "goose_error ''stdin: not JSON'' \<noteq> publish_error" "goose_error ''stdin: line too long'' \<noteq> publish_error"
  "goose_error (snprintf_s 160 (CHR ''s'' # err)) \<noteq> publish_error"
  "goose_error (unknown_command c) \<noteq> publish_error"
  by (simp_all add: published_event_def goose_error_def goose_ready_def unknown_command_def snprintf_s_def)

lemma bump_nonzero [simp]: "bump n \<noteq> 0"
  by (simp add: bump_def)

text \<open>The interval that the next frame uses: the last one repeats.\<close>

definition interval_at :: "u32 list \<Rightarrow> int \<Rightarrow> u32" where
  "interval_at steps step = steps ! min (nat step) (length steps - 1)"

definition publish_calls :: "goose_env \<Rightarrow> goose_publisher \<Rightarrow> goose_call list \<Rightarrow> int \<times> goose_call list" where
  "publish_calls E p cs =
     (if gp_raw p
      then let (rc, frame) = gp_dump E cs
           in (rc, if rc = 0
                   then [SendPacket (simulation_frame (gp_src p) (gp_vlan p) frame), PublishAndDump (gp_values p)]
                   else [PublishAndDump (gp_values p)])
      else (gp_publish E cs, [Publish (gp_values p)]))"

text \<open>One frame, spelled out.\<close>

lemma send_frame_eq:
  assumes "0 \<le> gp_step p" "gp_step p < INT_MAX" "gp_steps p \<noteq> []"
    and "interval = interval_at (gp_steps p) (gp_step p)"
    and "cs = SetTimeAllowedToLive (2 * interval) # gp_calls p"
    and "publish_calls E p cs = (rc, sent)"
    and "ev = (if rc \<noteq> 0 then goose_error ''publish: data set does not fit a GOOSE frame''
               else published_event (gp_st_num p) (gp_sq_num p) (2 * interval))"
  shows "send_frame E p = Returns (p\<lparr>gp_sq_num := (if rc \<noteq> 0 then gp_sq_num p else bump (gp_sq_num p)),
      gp_step := gp_step p + 1, gp_calls := MonotonicTime # Emit ev # sent @ cs,
      gp_next_ms := gp_clock E (Emit ev # sent @ cs) + ucast interval\<rparr>)"
proof -
  have idx: "(if gp_step p < int (length (gp_steps p)) then nat (gp_step p) else length (gp_steps p) - 1) =
      min (nat (gp_step p)) (length (gp_steps p) - 1)"
    using assms(1,3) by (auto simp: min_def nat_less_iff le_nat_iff)
  have ov: "\<not> INT_MAX < gp_step p + 1" using assms(2) by simp
  have tal: "gp_calls (call (SetTimeAllowedToLive (2 * interval)) p) = cs" by (simp add: assms(5))
  show ?thesis
  proof (cases "gp_raw p")
    case True
    obtain rc' frame where d: "gp_dump E cs = (rc', frame)" by force
    with assms(6) True have "rc' = rc" by (auto simp: publish_calls_def)
    with d assms(6) True have sent: "sent = (if rc = 0
        then [SendPacket (simulation_frame (gp_src p) (gp_vlan p) frame), PublishAndDump (gp_values p)]
        else [PublishAndDump (gp_values p)])" by (auto simp: publish_calls_def)
    from d \<open>rc' = rc\<close> True show ?thesis
      unfolding send_frame_def Let_def idx interval_at_def [symmetric] assms(4) [symmetric] tal
      using ov by (cases "rc = 0") (simp_all add: assms(5,7) sent call_def bump_def)
  next
    case False
    with assms(6) show ?thesis
      unfolding send_frame_def Let_def idx interval_at_def [symmetric] assms(4) [symmetric] tal
      using ov by (cases "rc = 0") (auto simp: assms(5,7) publish_calls_def call_def bump_def)
  qed
qed

lemma goose_pub_send_frame_Returns:
  assumes "send_frame E p = Returns p'" "0 \<le> gp_step p" "gp_steps p \<noteq> []"
  obtains interval cs rc sent ev where
    "interval = interval_at (gp_steps p) (gp_step p)" "gp_step p < INT_MAX"
    "cs = SetTimeAllowedToLive (2 * interval) # gp_calls p" "publish_calls E p cs = (rc, sent)"
    "ev = (if rc \<noteq> 0 then goose_error ''publish: data set does not fit a GOOSE frame''
           else published_event (gp_st_num p) (gp_sq_num p) (2 * interval))"
    "p' = p\<lparr>gp_sq_num := (if rc \<noteq> 0 then gp_sq_num p else bump (gp_sq_num p)),
      gp_step := gp_step p + 1, gp_calls := MonotonicTime # Emit ev # sent @ cs,
      gp_next_ms := gp_clock E (Emit ev # sent @ cs) + ucast interval\<rparr>"
proof -
  define interval where "interval = interval_at (gp_steps p) (gp_step p)"
  define cs where "cs = SetTimeAllowedToLive (2 * interval) # gp_calls p"
  obtain rc sent where rs: "publish_calls E p cs = (rc, sent)" by force
  define ev where "ev = (if rc \<noteq> 0 then goose_error ''publish: data set does not fit a GOOSE frame''
           else published_event (gp_st_num p) (gp_sq_num p) (2 * interval))"
  have lt: "gp_step p < INT_MAX"
    using assms(1) by (auto simp: send_frame_def Let_def split: prod.splits if_splits)
  have "p' = p\<lparr>gp_sq_num := (if rc \<noteq> 0 then gp_sq_num p else bump (gp_sq_num p)),
      gp_step := gp_step p + 1, gp_calls := MonotonicTime # Emit ev # sent @ cs,
      gp_next_ms := gp_clock E (Emit ev # sent @ cs) + ucast interval\<rparr>"
    using send_frame_eq [OF assms(2) lt assms(3) interval_def cs_def rs ev_def] assms(1) by simp
  with lt rs show ?thesis by (rule that [OF interval_def _ cs_def _ ev_def])
qed

lemma publish_calls_simps:
  assumes "publish_calls E p cs = (rc, sent)"
  shows "last_tal (sent @ ds) = last_tal ds" "printed_events (sent @ ds) = printed_events ds"
    "expected_events E (sent @ cs) = answer_event E rc cs # expected_events E cs"
    "counters E (sent @ cs) = (if rc = 0 then (fst (counters E cs), bump (snd (counters E cs))) else counters E cs)"
  using assms by (auto simp: publish_calls_def split: prod.splits if_splits)

lemma goose_pub_send_frame_inv:
  assumes "publisher_inv p" "send_frame E p = Returns p'"
  shows "publisher_inv p'" "announces E p \<Longrightarrow> announces E p'"
proof -
  have "publisher_inv p' \<and> (announces E p \<longrightarrow> announces E p')"
    using assms(2)
  proof (rule goose_pub_send_frame_Returns)
    fix interval cs rc sent ev
    assume a: "interval = interval_at (gp_steps p) (gp_step p)" "cs = SetTimeAllowedToLive (2 * interval) # gp_calls p"
      and s: "publish_calls E p cs = (rc, sent)"
      and e: "ev = (if rc \<noteq> 0 then publish_error
             else published_event (gp_st_num p) (gp_sq_num p) (2 * interval))"
      "p' = p\<lparr>gp_sq_num := (if rc \<noteq> 0 then gp_sq_num p else bump (gp_sq_num p)),
        gp_step := gp_step p + 1, gp_calls := MonotonicTime # Emit ev # sent @ cs,
        gp_next_ms := gp_clock E (Emit ev # sent @ cs) + ucast interval\<rparr>"
    then show "publisher_inv p' \<and> (announces E p \<longrightarrow> announces E p')"
      using assms(1) publish_calls_simps(1,2) [OF s, of cs] publish_calls_simps(3,4) [OF s]
      by (simp add: publisher_inv_def announces_def answer_event_def)
  qed (use assms(1) in \<open>simp_all add: publisher_inv_def\<close>)
  then show "publisher_inv p'" "announces E p \<Longrightarrow> announces E p'" by blast+
qed

lemma state_change_inv:
  assumes "publisher_inv p" "state_change E p vs = Returns p'"
  shows "publisher_inv p'" "announces E p \<Longrightarrow> announces E p'"
proof -
  let ?q = "call IncreaseStNum (p\<lparr>gp_values := vs\<rparr>)\<lparr>gp_st_num := bump (gp_st_num p),
      gp_sq_num := 0, gp_step := 0\<rparr>"
  have q: "publisher_inv ?q" using assms(1) by (simp add: publisher_inv_def)
  have s: "send_frame E ?q = Returns p'"
    using assms(2) by (simp add: state_change_def Let_def bump_def split: if_splits)
  from q s show "publisher_inv p'" by (rule goose_pub_send_frame_inv(1))
  assume "announces E p"
  then have "announces E ?q" by (simp add: announces_def)
  with q s show "announces E p'" by (rule goose_pub_send_frame_inv(2))
qed

lemma goose_pub_emit_inv:
  "publisher_inv p \<Longrightarrow> publisher_inv (call c p)"
  "announces E p \<Longrightarrow> \<not> is_published j \<Longrightarrow> j \<noteq> publish_error \<Longrightarrow> announces E (call (Emit j) p)"
  by (simp_all add: publisher_inv_def announces_def)

lemma goose_pub_handle_line_inv:
  assumes "publisher_inv p" "handle_line L E p l = Returns (p', keep)"
  shows "publisher_inv p'" "announces E p \<Longrightarrow> announces E p'"
  using assms
  by (auto simp: handle_line_def goose_pub_emit_inv
      split: option.splits if_splits sum.splits value_error.splits intro: state_change_inv)

interpretation goose_lines: line_client "handle_line L E" line_too_long publisher_inv
  by unfold_locales (auto simp: line_too_long_def goose_pub_emit_inv intro: goose_pub_handle_line_inv)

interpretation goose_event_lines:
  line_client "handle_line L E" line_too_long "\<lambda>p. publisher_inv p \<and> announces E p"
  by unfold_locales (auto simp: line_too_long_def goose_pub_emit_inv intro: goose_pub_handle_line_inv)

lemma goose_receive_inv:
  "receive (handle_line L E) line_too_long line p run got = Returns (p', run', line') \<Longrightarrow>
   publisher_inv p \<Longrightarrow> publisher_inv p'"
  by (rule goose_lines.receive_inv(1))

lemma goose_receive_announces:
  "receive (handle_line L E) line_too_long line p run got = Returns (p', run', line') \<Longrightarrow>
   publisher_inv p \<Longrightarrow> announces E p \<Longrightarrow> announces E p'"
  using goose_event_lines.receive_inv(1) by blast

lemma goose_pub_main_step_inv:
  assumes "publisher_inv (gm_pub m)" "main_step L E m = Returns m'"
  shows "publisher_inv (gm_pub m')" "announces E (gm_pub m) \<Longrightarrow> announces E (gm_pub m')"
proof -
  have clock: "publisher_inv (call MonotonicTime (gm_pub m))"
    and select: "publisher_inv (call (Select w b) (call MonotonicTime (gm_pub m)))" for w b
    using assms(1) by (simp_all add: publisher_inv_def)
  show "publisher_inv (gm_pub m')"
    using assms(2) clock select
    by (auto simp: main_step_def Let_def split: if_splits wake.splits
      dest: goose_pub_send_frame_inv(1) [OF clock] goose_receive_inv)
  assume "announces E (gm_pub m)"
  then have a: "announces E (call MonotonicTime (gm_pub m))"
    and b: "announces E (call (Select w b) (call MonotonicTime (gm_pub m)))" for w b
    by (simp_all add: announces_def)
  show "announces E (gm_pub m')"
    using assms(2) a b
    by (auto simp: main_step_def Let_def split: if_splits wake.splits
      dest: goose_pub_send_frame_inv(2) [OF clock] goose_receive_announces [OF _ select])
qed

lemma goose_pub_reaches_inv: "reaches L E m m' \<Longrightarrow> publisher_inv (gm_pub m) \<Longrightarrow> publisher_inv (gm_pub m')"
  by (induction rule: reaches.induct) (auto intro: goose_pub_main_step_inv(1))

lemma goose_pub_reaches_announces:
  "reaches L E m m' \<Longrightarrow> publisher_inv (gm_pub m) \<Longrightarrow> announces E (gm_pub m) \<Longrightarrow> announces E (gm_pub m')"
  by (induction rule: reaches.induct) (auto intro: goose_pub_main_step_inv(2) goose_pub_reaches_inv)

section \<open>Properties of the publisher\<close>

lemma goose_pub_send_frame_total:
  assumes "publisher_inv p" "gp_step p < INT_MAX"
  shows "\<exists>p'. send_frame E p = Returns p'"
proof -
  define interval where "interval = interval_at (gp_steps p) (gp_step p)"
  define cs where "cs = SetTimeAllowedToLive (2 * interval) # gp_calls p"
  obtain rc sent where rs: "publish_calls E p cs = (rc, sent)" by force
  have "0 \<le> gp_step p" "gp_steps p \<noteq> []" using assms(1) by (simp_all add: publisher_inv_def)
  then show ?thesis
    using send_frame_eq [OF _ assms(2) _ interval_def cs_def rs refl] by blast
qed

lemma state_change_total: "publisher_inv p \<Longrightarrow> \<exists>p'. state_change E p vs = Returns p'"
  unfolding state_change_def Let_def
  by (rule goose_pub_send_frame_total) (simp_all add: publisher_inv_def bump_def INT_MAX_def)

lemma goose_pub_handle_line_total:
  assumes "line_ok L l" "publisher_inv p"
  shows "handle_line L E p l \<noteq> Undefined"
proof (cases "json_tokener_parse L l")
  case None
  then show ?thesis by (simp add: handle_line_def)
next
  case (Some cmd)
  with assms(1) obtain c where c: "command_name L cmd = Some c" and n: "\<not> has_null_type cmd"
    unfolding line_ok_def by auto
  show ?thesis
  proof (cases "goose_values_from_json L (json_get_ex cmd ''values'')")
    case (Inl e)
    with values_no_crash [OF n, of L "''values''"] show ?thesis
      by (cases e) (simp_all add: handle_line_def Some c)
  next
    case (Inr vs)
    obtain p' where "state_change E p vs = Returns p'" using state_change_total assms(2) by blast
    with Inr show ?thesis by (simp add: handle_line_def Some c)
  qed
qed

interpretation goose_total: total_client "handle_line L E" line_too_long publisher_inv "line_ok L"
  by unfold_locales (rule goose_pub_handle_line_total)

text \<open>The lines that the next turn completes, when it reads.\<close>

definition lines_read :: "goose_env \<Rightarrow> goose_main \<Rightarrow> string list" where
  "lines_read E m =
     (case gp_wake E (MonotonicTime # gp_calls (gm_pub m)) of
        Input got \<Rightarrow> complete_lines (c_str (gm_line m @ take (line_max - length (gm_line m)) got))
      | _ \<Rightarrow> [])"

lemma main_step_total:
  assumes "list_all (line_ok L) (lines_read E m)" "publisher_inv (gm_pub m)" "gp_step (gm_pub m) < INT_MAX"
  shows "main_step L E m \<noteq> Undefined"
proof -
  have clock: "publisher_inv (call MonotonicTime (gm_pub m))"
    and sel: "publisher_inv (call (Select w b) (call MonotonicTime (gm_pub m)))" for w b
    using assms(2) by (simp_all add: publisher_inv_def)
  obtain p' where sent: "send_frame E (call MonotonicTime (gm_pub m)) = Returns p'"
    using goose_pub_send_frame_total [OF clock] assms(3) by auto
  have r: "bind_outcome (receive (handle_line L E) line_too_long (gm_line m)
       (call (Select w b) (call MonotonicTime (gm_pub m))) True (take (line_max - length (gm_line m)) got))
       (\<lambda>(p, running, line). Returns (f p running line)) \<noteq> Undefined"
    if "gp_wake E (MonotonicTime # gp_calls (gm_pub m)) = Input got"
    for w b got and f :: "_ \<Rightarrow> _ \<Rightarrow> _ \<Rightarrow> goose_main"
    using goose_total.receive_total [OF sel, of L "gm_line m" "take (line_max - length (gm_line m)) got"
        E w b True] assms(1) that
    by (cases "receive (handle_line L E) line_too_long (gm_line m)
        (call (Select w b) (call MonotonicTime (gm_pub m))) True (take (line_max - length (gm_line m)) got)")
      (auto simp: lines_read_def)
  show ?thesis
    unfolding main_step_def Let_def by (auto simp: sent r split: wake.split)
qed

lemma goose_setup_cases:
  assumes "goose_setup L version socket created src opts = Returns (Inr p)"
  obtains gocb_ref values_json vs app_id dst where
    "go_gocb_ref opts = Some gocb_ref" "go_values opts = Some values_json"
    "0 \<le> go_vlan_id opts" "go_vlan_id opts \<le> 4095" "0 \<le> go_vlan_prio opts" "go_vlan_prio opts \<le> 7"
    "0 \<le> go_conf_rev opts" "0 \<le> go_min_time opts" "0 \<le> go_max_time opts"
    "goose_values_from_json L (json_tokener_parse L values_json) = Inr vs"
    "goose_parse_appid (go_app_id opts) = Some app_id" "goose_parse_mac (go_dst opts) = Some dst"
    "go_simulation opts \<Longrightarrow> socket" created
    "p = \<lparr>gp_values = vs, gp_st_num = 1, gp_sq_num = 0,
       gp_steps = build_schedule (word_of_int (go_min_time opts)) (word_of_int (go_max_time opts)),
       gp_step = 0, gp_next_ms = 0, gp_raw = go_simulation opts, gp_src = src, gp_vlan = True,
       gp_calls = [Emit (goose_ready version ''publisher'' (go_iface opts) src (Some gocb_ref)),
         IncreaseStNum, SetStNum 0, SetNeedsCommission (go_nds_com opts), SetSimulation (go_test opts),
         SetConfRev (word_of_int (go_conf_rev opts)), SetDataSetRef (go_dataset opts),
         SetGoID (case go_go_id opts of None \<Rightarrow> gocb_ref | Some i \<Rightarrow> i), SetGoCbRef gocb_ref,
         CreatePublisher \<lparr>vlanId = word_of_int (go_vlan_id opts),
           vlanPriority = word_of_int (go_vlan_prio opts), appId = app_id, dstAddress = dst\<rparr>
           (if go_simulation opts then ''lo'' else go_iface opts) True] @
         (if go_simulation opts then [CreateSocket (go_iface opts) dst] else [])\<rparr>"
proof -
  obtain gocb_ref values_json where o: "go_gocb_ref opts = Some gocb_ref" "go_values opts = Some values_json"
    using assms by (auto simp: goose_setup_def split: option.splits)
  have r: "\<not> (go_vlan_id opts < 0 \<or> go_vlan_id opts > 4095 \<or> go_vlan_prio opts < 0 \<or>
      go_vlan_prio opts > 7 \<or> go_conf_rev opts < 0 \<or> go_min_time opts < 0 \<or> go_max_time opts < 0)"
    using assms o by (auto simp: goose_setup_def split: if_splits)
  obtain vs where v: "goose_values_from_json L (json_tokener_parse L values_json) = Inr vs"
    using assms o r by (auto simp: goose_setup_def split: sum.splits value_error.splits)
  obtain a d where ad: "goose_parse_appid (go_app_id opts) = Some a" "goose_parse_mac (go_dst opts) = Some d"
    using assms o r v by (auto simp: goose_setup_def Let_def split: option.splits)
  have c: "go_simulation opts \<Longrightarrow> socket" created
    using assms o r v ad by (auto simp: goose_setup_def Let_def split: if_splits)
  have nf: "(go_simulation opts \<and> \<not> socket) = False" "(\<not> created) = False" using c by simp_all
  note p = assms [unfolded goose_setup_def o v ad option.case sum.case prod.case Let_def if_not_P [OF r] nf
      if_False]
  show ?thesis
  proof (rule that [OF o _ _ _ _ _ _ _ v ad])
    show "0 \<le> go_vlan_id opts" "go_vlan_id opts \<le> 4095" "0 \<le> go_vlan_prio opts" "go_vlan_prio opts \<le> 7"
      "0 \<le> go_conf_rev opts" "0 \<le> go_min_time opts" "0 \<le> go_max_time opts"
      using r by linarith+
    show "go_simulation opts \<Longrightarrow> socket" by (rule c(1))
    show created by (rule c(2))
  qed (use p in \<open>simp split: if_splits\<close>)
qed

lemma goose_setup_inv:
  assumes "goose_setup L version socket created src opts = Returns (Inr p)"
  shows "publisher_inv p" "gp_step p = 0" "announces E p"
proof -
  let ?steps = "build_schedule (word_of_int (go_min_time opts)) (word_of_int (go_max_time opts))"
  have "?steps \<noteq> []" "length ?steps \<le> MAX_STEPS"
    using build_schedule_length [of "word_of_int (go_min_time opts)" "word_of_int (go_max_time opts)"]
    by auto
  then show "publisher_inv p" "gp_step p = 0" "announces E p"
    by (auto intro: goose_setup_cases [OF assms] simp: publisher_inv_def announces_def bump_def)
qed

text \<open>C4: In every state the GOOSE publisher's main loop can reach, for any answers of the library:
  every frame it asks libiec61850 to publish is followed by one event on stdout, in order, which
  the library's return code decides. After 0 it is a published event with the \<open>stNum\<close> and
  \<open>sqNum\<close> of the frame, as the calls so far and their return codes give them (a state change
  moves \<open>stNum\<close> on and restarts \<open>sqNum\<close>, only a frame that was sent moves \<open>sqNum\<close> on, both skip
  0 when they wrap), and the time allowed to live set for the frame; after any other code it is
  the error event. There are no other events of these kinds, and the program's copies of the
  counters agree with that count.\<close>

theorem goose_announced:
  assumes "goose_setup L version socket created src opts = Returns (Inr p)"
    and "main_start E p = Returns m" "reaches L E m m'"
  shows "printed_events (gp_calls (gm_pub m')) = expected_events E (gp_calls (gm_pub m')) \<and>
    counters E (gp_calls (gm_pub m')) = (gp_st_num (gm_pub m'), gp_sq_num (gm_pub m')) \<and>
    gp_st_num (gm_pub m') \<noteq> 0"
proof -
  from goose_setup_inv [OF assms(1)] assms(2) have m: "publisher_inv (gm_pub m)" "announces E (gm_pub m)"
    by (auto simp: main_start_def dest: goose_pub_send_frame_inv)
  from assms(3) m(1) have "publisher_inv (gm_pub m')" by (rule goose_pub_reaches_inv)
  moreover from assms(3) m have "announces E (gm_pub m')" by (rule goose_pub_reaches_announces)
  ultimately show ?thesis by (simp add: publisher_inv_def announces_def)
qed

lemma parse_defaults:
  "goose_parse_appid ''0x0000'' = Some 0"
  "goose_parse_mac ''01:0c:cd:01:00:00'' = Some [1, 12, 205, 1, 0, 0]"
proof -
  have "''0x'' @ hex_pad 4 (unat (0 :: u16)) = ''0x0000''"
    by (simp add: hex_pad_def pad0_def to_digits.simps [of 16 0] hex_digit_chars numeral_3_eq_3)
  then show "goose_parse_appid ''0x0000'' = Some 0" using goose_parse_appid_hex [of 0] by simp
  have "goose_format_mac [1, 12, 205, 1, 0, 0] = ''01:0c:cd:01:00:00''"
    by (simp add: goose_format_mac_def hex_pad_2 hex_digit_chars)
  then show "goose_parse_mac ''01:0c:cd:01:00:00'' = Some [1, 12, 205, 1, 0, 0]"
    using goose_parse_format_mac [of "[1, 12, 205, 1, 0, 0]"] by simp
qed

definition sample_goose_lib :: value_lib where
  "sample_goose_lib = sample_lib\<lparr>json_parse := (\<lambda>s. Some (JArray []))\<rparr>"

definition sample_goose_opts :: goose_opts where
  "sample_goose_opts = goose_defaults\<lparr>go_gocb_ref := Some ''IED1/LLN0$GO$gcb'', go_values := Some ''[]''\<rparr>"

definition sample_goose_env :: goose_env where
  "sample_goose_env = \<lparr>gp_publish = (\<lambda>cs. 0), gp_dump = (\<lambda>cs. (0, [])),
     gp_clock = (\<lambda>cs. of_nat (length cs) * 100), gp_wake = (\<lambda>cs. Timeout)\<rparr>"

definition sample_publisher :: goose_publisher where
  "sample_publisher = \<lparr>gp_values = [], gp_st_num = 1, gp_sq_num = 0, gp_steps = build_schedule 10 1000,
     gp_step = 0, gp_next_ms = 0, gp_raw = False, gp_src = [2, 0, 0, 0, 0, 1], gp_vlan = True,
     gp_calls = [Emit (goose_ready ''dev'' ''publisher'' ''eth0'' [2, 0, 0, 0, 0, 1] (Some ''IED1/LLN0$GO$gcb'')),
       IncreaseStNum, SetStNum 0, SetNeedsCommission False, SetSimulation False, SetConfRev 1,
       SetDataSetRef '''', SetGoID ''IED1/LLN0$GO$gcb'', SetGoCbRef ''IED1/LLN0$GO$gcb'',
       CreatePublisher \<lparr>vlanId = 0, vlanPriority = 4, appId = 0, dstAddress = [1, 12, 205, 1, 0, 0]\<rparr> ''eth0'' True]\<rparr>"

lemma sample_setup:
  "goose_setup sample_goose_lib ''dev'' True True [2, 0, 0, 0, 0, 1] sample_goose_opts = Returns (Inr sample_publisher)"
  by (simp add: goose_setup_def sample_goose_opts_def goose_defaults_def parse_defaults sample_publisher_def
    sample_goose_lib_def json_tokener_parse_def goose_values_from_json_def)

lemma sample_line_ok: "line_ok sample_goose_lib line"
  by (auto simp: line_ok_def sample_goose_lib_def json_tokener_parse_def command_name_def json_get_ex_def
    has_null_type_def)

lemma sample_run:
  obtains m m' where "main_start sample_goose_env sample_publisher = Returns m" "gm_running m"
    "main_step sample_goose_lib sample_goose_env m = Returns m'"
    "reaches sample_goose_lib sample_goose_env m m'"
proof -
  note inv = goose_setup_inv [OF sample_setup]
  obtain p where p: "send_frame sample_goose_env sample_publisher = Returns p"
    using goose_pub_send_frame_total [OF inv(1)] by (auto simp: inv(2) INT_MAX_def)
  define m where "m = \<lparr>gm_pub = p, gm_line = [], gm_stdin_open = True, gm_running = True\<rparr>"
  have m: "main_start sample_goose_env sample_publisher = Returns m"
    by (simp add: main_start_def p m_def)
  have "publisher_inv p" using goose_pub_send_frame_inv(1) [OF inv(1) p] .
  moreover have "gp_step p = 1"
    by (rule goose_pub_send_frame_Returns [OF p]) (use inv in \<open>simp_all add: publisher_inv_def\<close>)
  ultimately have "main_step sample_goose_lib sample_goose_env m \<noteq> Undefined"
    by (intro main_step_total) (simp_all add: m_def INT_MAX_def sample_line_ok list_all_iff)
  then obtain m' where m': "main_step sample_goose_lib sample_goose_env m = Returns m'"
    by (cases "main_step sample_goose_lib sample_goose_env m") auto
  have "gm_running m" by (simp add: m_def)
  with m m' show ?thesis by (intro that [of m m'] reaches.turn [OF reaches.start])
qed

theorem goose_announced_witness:
  "\<exists>m m'. main_start sample_goose_env sample_publisher = Returns m \<and>
     main_step sample_goose_lib sample_goose_env m = Returns m' \<and>
     printed_events (gp_calls (gm_pub m')) = expected_events sample_goose_env (gp_calls (gm_pub m')) \<and>
     counters sample_goose_env (gp_calls (gm_pub m')) = (gp_st_num (gm_pub m'), gp_sq_num (gm_pub m'))"
proof -
  obtain m m' where m: "main_start sample_goose_env sample_publisher = Returns m"
    "main_step sample_goose_lib sample_goose_env m = Returns m'"
    "reaches sample_goose_lib sample_goose_env m m'"
    by (rule sample_run)
  with goose_announced [OF sample_setup m(1,3)] show ?thesis by blast
qed

text \<open>C11: A turn of the GOOSE publisher's main loop has no undefined behaviour, for any octets on
  stdin and any answer of the library, as long as fewer than \<open>2 ^ 31 - 1\<close> frames have repeated
  the current state and every line that the turn's read completes is one that \<open>strcmp\<close> can take:
  no JSON at all, or JSON whose \<open>cmd\<close> member is not null and which has no member
  \<open>"type":null\<close>. (A line such as \<open>{"cmd":null}\<close> does crash the program.)\<close>

theorem goose_defined:
  assumes "list_all (line_ok L) (lines_read E m')" "goose_setup L version socket created src opts = Returns (Inr p)"
    and "main_start E p = Returns m" "reaches L E m m'" "gp_step (gm_pub m') < INT_MAX"
  shows "main_step L E m' \<noteq> Undefined"
proof -
  from goose_setup_inv [OF assms(2)] assms(3) have "publisher_inv (gm_pub m)"
    by (auto simp: main_start_def dest: goose_pub_send_frame_inv)
  with assms(4) have "publisher_inv (gm_pub m')" by (rule goose_pub_reaches_inv)
  with assms(1,5) show ?thesis by (intro main_step_total)
qed

theorem goose_defined_witness:
  "\<exists>m. main_start sample_goose_env sample_publisher = Returns m \<and>
     main_step sample_goose_lib sample_goose_env m \<noteq> Undefined"
proof -
  obtain p where p: "send_frame sample_goose_env sample_publisher = Returns p"
    using goose_pub_send_frame_total [OF goose_setup_inv(1) [OF sample_setup]] by (auto simp: sample_publisher_def INT_MAX_def)
  define m where "m = \<lparr>gm_pub = p, gm_line = [], gm_stdin_open = True, gm_running = True\<rparr>"
  have m: "main_start sample_goose_env sample_publisher = Returns m" by (simp add: main_start_def p m_def)
  have "gp_step p = 1"
    by (rule goose_pub_send_frame_Returns [OF p]) (simp_all add: sample_publisher_def build_schedule_def)
  then have "gp_step (gm_pub m) < INT_MAX" by (simp add: m_def INT_MAX_def)
  moreover have "list_all (line_ok sample_goose_lib) (lines_read sample_goose_env m)"
    by (simp add: list_all_iff sample_line_ok)
  ultimately show ?thesis using goose_defined [OF _ sample_setup m reaches.start] m by blast
qed

text \<open>C15: With a minimum time above 0, not above the maximum time, and a maximum time of at most
  \<open>2 ^ 31\<close> ms, the intervals between the frames of a state are the minimum time doubled at each
  step while that stays below the maximum, then the maximum, and there are at most 17 of them.\<close>

theorem goose_schedule_doubles:
  assumes "0 < a" "a \<le> M" "unat M \<le> 2 ^ 31" "s = build_schedule a M" "n = length s - 1"
  shows "length s = Suc n \<and> n \<le> 16 \<and> s ! n = M \<and>
    (\<forall>k \<in> {..<n}. unat (s ! k) = unat a * 2 ^ k \<and> unat a * 2 ^ k < unat M) \<and>
    (n = 16 \<or> unat M \<le> unat a * 2 ^ n)"
proof -
  have len: "length s = Suc n" "n \<le> 16"
    using build_schedule_length [of a M] assms(4,5) by (auto simp: MAX_STEPS_def)
  moreover have "s ! n = M"
    using assms(1,2) len by (simp add: assms(4) build_schedule_simple nth_append)
  moreover have "\<forall>k \<in> {..<n}. unat (s ! k) = unat a * 2 ^ k \<and> unat a * 2 ^ k < unat M"
    using build_schedule_nth [OF assms(1-3)] len by (auto simp: assms(4))
  moreover have "n = 16 \<or> unat M \<le> unat a * 2 ^ n"
  proof -
    have "0 < length (build_schedule a M)" using len by (simp add: assms(4))
    from build_schedule_nth(3) [OF assms(1-3) this] len show ?thesis
      by (cases "n < 16") (auto simp: assms(4) MAX_STEPS_def)
  qed
  ultimately show ?thesis by blast
qed

theorem goose_schedule_doubles_witness:
  "build_schedule 4 20 ! 0 = 4 \<and> length (build_schedule 4 20) = 4 \<and> build_schedule 4 20 ! 3 = 20"
proof -
  have len: "length (build_schedule 4 20) = 4"
    by (simp add: build_schedule_simple schedule_loop.simps MAX_STEPS_def)
  then have "build_schedule 4 20 ! 3 = 20 \<and> unat (build_schedule 4 20 ! 0) = 4"
    using goose_schedule_doubles [of 4 20 "build_schedule 4 20" 3] by force
  then show ?thesis using len by (simp add: word_unat_eq_iff)
qed

text \<open>C13: Each frame of a GOOSE publisher announces a time allowed to live of twice the interval
  to the next frame and sets the deadline of that frame one interval after the clock it reads;
  the \<open>k\<close>-th frame of a state uses the \<open>k\<close>-th interval of the schedule and the last one from
  then on. This is for a schedule built from a minimum time above 0 and at most the maximum time,
  and a maximum time below \<open>2 ^ 31\<close> ms: then no interval exceeds the maximum, and the announced
  time is twice the interval as a number, without wrapping.\<close>

theorem goose_frame_timing:
  assumes "publisher_inv p" "send_frame E p = Returns p'"
    and "gp_steps p = build_schedule a M" "0 < a" "a \<le> M" "unat M < 2 ^ 31"
    and "interval = interval_at (gp_steps p) (gp_step p)"
  shows "last_tal (gp_calls p') = 2 * interval \<and> unat (last_tal (gp_calls p')) = 2 * unat interval \<and>
    gp_next_ms p' = gp_clock E (tl (gp_calls p')) + ucast interval \<and>
    gp_step p' = gp_step p + 1 \<and> interval \<le> M"
proof -
  from assms(1) have st: "0 \<le> gp_step p" "gp_steps p \<noteq> []" by (simp_all add: publisher_inv_def)
  define k where "k = min (nat (gp_step p)) (length (gp_steps p) - 1)"
  have k: "k < length (build_schedule a M)" using build_schedule_length [of a M] by (auto simp: k_def assms(3))
  have ivl: "interval = build_schedule a M ! k" by (simp add: assms(7) interval_at_def k_def assms(3))
  have "unat interval \<le> unat M"
  proof (cases "k = length (build_schedule a M) - 1")
    case True
    with build_schedule_nth(1) [OF assms(4,5) _ k] assms(6) show ?thesis by (simp add: ivl)
  next
    case False
    with k have "k < length (build_schedule a M) - 1" by linarith
    with build_schedule_nth(1,2) [OF assms(4,5) _ k] assms(6) show ?thesis by (simp add: ivl)
  qed
  then have le: "interval \<le> M" and two: "unat (2 * interval) = 2 * unat interval"
    using assms(6) unat_double [of interval] by (simp_all add: word_le_nat_alt mult.commute)
  show ?thesis
    by (rule goose_pub_send_frame_Returns [OF assms(2) st])
      (use le two publish_calls_simps in \<open>auto simp: assms(7)\<close>)
qed

theorem goose_frame_timing_witness:
  "\<exists>p'. send_frame sample_goose_env sample_publisher = Returns p' \<and>
     unat (last_tal (gp_calls p')) = 20 \<and> gp_step p' = 1"
proof -
  note inv = goose_setup_inv(1) [OF sample_setup]
  obtain p' where p': "send_frame sample_goose_env sample_publisher = Returns p'"
    using goose_pub_send_frame_total [OF inv] by (auto simp: sample_publisher_def INT_MAX_def)
  have steps: "gp_steps sample_publisher = build_schedule 10 1000" and step: "gp_step sample_publisher = 0"
    by (simp_all add: sample_publisher_def)
  have "build_schedule 10 1000 ! 0 = 10"
    by (simp add: build_schedule_simple schedule_loop.simps [of 10] MAX_STEPS_def)
  then have ten: "interval_at (gp_steps sample_publisher) (gp_step sample_publisher) = 10"
    unfolding steps step interval_at_def by simp
  have "unat (last_tal (gp_calls p')) = 20 \<and> gp_step p' = 1"
    using goose_frame_timing [OF inv p' steps _ _ _ ten [symmetric]] step by simp
  with p' show ?thesis by blast
qed

text \<open>C16: A state change of a GOOSE publisher asks the library for the next \<open>stNum\<close>, counts it
  the same way (1 follows \<open>2 ^ 32 - 1\<close>), sets the first interval's time allowed to live and
  publishes the new values once. The library's answer to that call decides the rest: after 0 it
  prints the published event with the new \<open>stNum\<close> and \<open>sqNum\<close> 0 and goes on with \<open>sqNum\<close> 1
  (in the \<open>--simulation\<close> mode after putting the dumped frame, patched, on the raw socket), after
  any other code it prints the error event, sends nothing and stays at \<open>sqNum\<close> 0. Either way
  the schedule restarts one first interval after the clock read last.\<close>

theorem goose_state_change:
  assumes "publisher_inv p" "state_change E p vs = Returns p'"
    and "cs = SetTimeAllowedToLive (2 * hd (gp_steps p)) # IncreaseStNum # gp_calls p"
    and "rc = (if gp_raw p then fst (gp_dump E cs) else gp_publish E cs)"
    and "patched = simulation_frame (gp_src p) (gp_vlan p) (snd (gp_dump E cs))"
    and "sent = (if gp_raw p then (if rc = 0 then [SendPacket patched] else []) @ [PublishAndDump vs]
                 else [Publish vs])"
  shows "gp_values p' = vs \<and> gp_st_num p' = bump (gp_st_num p) \<and> gp_step p' = 1 \<and>
    gp_calls p' = MonotonicTime #
      Emit (if rc = 0 then published_event (bump (gp_st_num p)) 0 (2 * hd (gp_steps p)) else publish_error) #
      sent @ cs \<and>
    gp_sq_num p' = (if rc = 0 then 1 else 0) \<and>
    gp_next_ms p' = gp_clock E (tl (gp_calls p')) + ucast (hd (gp_steps p))"
proof -
  define q where "q = call IncreaseStNum (p\<lparr>gp_values := vs\<rparr>)\<lparr>gp_st_num := bump (gp_st_num p),
      gp_sq_num := 0, gp_step := 0\<rparr>"
  have s: "send_frame E q = Returns p'"
    using assms(2) by (simp add: q_def state_change_def Let_def bump_def split: if_splits)
  have ne: "gp_steps p \<noteq> []" using assms(1) by (simp add: publisher_inv_def)
  then have ivl: "interval_at (gp_steps q) (gp_step q) = hd (gp_steps p)"
    by (simp add: q_def interval_at_def hd_conv_nth)
  have b: "bump 0 = 1" by (simp add: bump_def)
  have pc: "publish_calls E q cs = (rc, sent)"
    by (auto simp: publish_calls_def q_def assms(4-6) split: prod.splits)
  show ?thesis
  proof (rule goose_pub_send_frame_Returns [OF s])
    fix interval cs' rc' sent' ev
    assume a: "interval = interval_at (gp_steps q) (gp_step q)"
      "cs' = SetTimeAllowedToLive (2 * interval) # gp_calls q" "publish_calls E q cs' = (rc', sent')"
      "ev = (if rc' \<noteq> 0 then publish_error
           else published_event (gp_st_num q) (gp_sq_num q) (2 * interval))"
      "p' = q\<lparr>gp_sq_num := (if rc' \<noteq> 0 then gp_sq_num q else bump (gp_sq_num q)),
        gp_step := gp_step q + 1, gp_calls := MonotonicTime # Emit ev # sent' @ cs',
        gp_next_ms := gp_clock E (Emit ev # sent' @ cs') + ucast interval\<rparr>"
    have "cs' = cs" unfolding a(2) a(1) ivl by (simp add: q_def assms(3))
    with a(3) pc have "rc' = rc" "sent' = sent" by simp_all
    then show ?thesis
      unfolding a(5) a(4) \<open>cs' = cs\<close> a(1) ivl by (simp add: q_def b)
  qed (simp_all add: q_def ne)
qed

theorem goose_state_change_witness:
  "\<exists>p'. state_change sample_goose_env sample_publisher [MBoolean True] = Returns p' \<and>
     gp_st_num p' = 2 \<and> gp_sq_num p' = 1 \<and> gp_values p' = [MBoolean True]"
proof -
  note inv = goose_setup_inv(1) [OF sample_setup]
  obtain p' where p': "state_change sample_goose_env sample_publisher [MBoolean True] = Returns p'"
    using state_change_total [OF inv] by blast
  with goose_state_change [OF inv p' refl refl refl refl] show ?thesis
    by (simp add: sample_publisher_def sample_goose_env_def bump_def)
qed

text \<open>The values that a stdin line sets, when it is a well-formed \<open>set\<close> command.\<close>

definition set_values :: "value_lib \<Rightarrow> string \<Rightarrow> mms_value list option" where
  "set_values L line =
     (case json_tokener_parse L line of
        None \<Rightarrow> None
      | Some cmd \<Rightarrow>
          if command_name L cmd = Some ''set''
          then (case goose_values_from_json L (json_get_ex cmd ''values'') of Inl e \<Rightarrow> None | Inr vs \<Rightarrow> Some vs)
          else None)"

definition carried_out :: "value_lib \<Rightarrow> string \<Rightarrow> bool" where
  "carried_out L line =
     (case json_tokener_parse L line of
        None \<Rightarrow> False
      | Some cmd \<Rightarrow> command_name L cmd = Some ''set'' \<and>
          (case goose_values_from_json L (json_get_ex cmd ''values'') of Inl e \<Rightarrow> False | Inr vs \<Rightarrow> True))"

definition stops :: "value_lib \<Rightarrow> string \<Rightarrow> bool" where
  "stops L line =
     (case json_tokener_parse L line of None \<Rightarrow> False | Some cmd \<Rightarrow> command_name L cmd = Some ''stop'')"

text \<open>C19: A stdin line that a GOOSE publisher does not carry out changes neither the published
  values nor the counters nor the schedule: it adds one error event, and only
  \<open>{"cmd":"stop"}\<close> ends the program.\<close>

theorem goose_line_rejected:
  assumes "handle_line L E p line = Returns (p', keep)" "\<not> carried_out L line"
  shows "keep = (\<not> stops L line) \<and>
    (if stops L line then p' = p else \<exists>msg. p' = call (Emit (goose_error msg)) p)"
proof (cases "json_tokener_parse L line")
  case None
  with assms(1) show ?thesis by (auto simp: handle_line_def stops_def)
next
  case (Some cmd)
  with assms(1) obtain c where c: "command_name L cmd = Some c"
    by (cases "command_name L cmd") (simp_all add: handle_line_def)
  show ?thesis
  proof (cases "c = ''set''")
    case True
    then obtain e where e: "goose_values_from_json L (json_get_ex cmd ''values'') = Inl e"
      using assms(2) Some c by (auto simp: carried_out_def split: sum.splits)
    show ?thesis
    proof (cases e)
      case (Rejected msg)
      with e assms(1) Some c True show ?thesis by (auto simp: handle_line_def stops_def)
    next
      case NullDeref
      with e assms(1) Some c True show ?thesis by (simp add: handle_line_def)
    qed
  next
    case False
    with assms(1) Some c show ?thesis
      by (auto simp: handle_line_def stops_def split: if_splits)
  qed
qed

theorem goose_line_rejected_witness:
  "\<exists>msg. handle_line sample_lib sample_goose_env sample_publisher ''x'' =
     Returns (call (Emit (goose_error msg)) sample_publisher, True)"
proof -
  have n: "json_tokener_parse sample_lib ''x'' = None" by (simp add: json_tokener_parse_def sample_lib_def)
  then have "handle_line sample_lib sample_goose_env sample_publisher ''x'' =
      Returns (call (Emit (goose_error ''stdin: not JSON'')) sample_publisher, True)"
    by (simp add: handle_line_def)
  from goose_line_rejected [OF this] n show ?thesis
    by (simp add: carried_out_def stops_def handle_line_def)
qed

text \<open>
  The octets of stdin that the reads of a run have delivered, off its calls: a turn that selects
  stdin and is answered with input reads what fits the rest of the line buffer.
\<close>

fun stdin_octets :: "goose_env \<Rightarrow> goose_call list \<Rightarrow> string" where
  "stdin_octets E [] = []"
| "stdin_octets E (Select w stdin_open # cs) =
     stdin_octets E cs @
     (case gp_wake E cs of
        Input got \<Rightarrow> if stdin_open then take (line_max - length (tail_line (stdin_octets E cs))) got else []
      | _ \<Rightarrow> [])"
| "stdin_octets E (c # cs) = stdin_octets E cs"

text \<open>What a line does to the values and the state number; it reads nothing itself.\<close>

definition apply_line :: "value_lib \<Rightarrow> string \<Rightarrow> mms_value list \<times> u32 \<times> string \<Rightarrow> mms_value list \<times> u32 \<times> string" where
  "apply_line L line = (\<lambda>(vs, st, octets).
     case set_values L line of None \<Rightarrow> (vs, st, octets) | Some vs' \<Rightarrow> (vs', bump st, octets))"

definition observed :: "goose_env \<Rightarrow> goose_publisher \<Rightarrow> mms_value list \<times> u32 \<times> string" where
  "observed E p = (gp_values p, gp_st_num p, stdin_octets E (gp_calls p))"

lemma send_frame_observed: "send_frame E p = Returns p' \<Longrightarrow> observed E p' = observed E p"
  by (auto simp: send_frame_def observed_def Let_def split: prod.splits if_splits)

lemma state_change_observed:
  "state_change E p vs = Returns p' \<Longrightarrow>
   observed E p' = (vs, bump (gp_st_num p), stdin_octets E (gp_calls p))"
  by (auto simp: state_change_def Let_def bump_def dest!: send_frame_observed split: if_splits)
    (simp_all add: observed_def)

lemma handle_line_observed:
  assumes "handle_line L E p line = Returns (p', keep)"
  shows "observed E p' = apply_line L line (observed E p) \<and> keep = (\<not> stops L line)"
proof (cases "json_tokener_parse L line")
  case None
  with assms show ?thesis
    by (auto simp: handle_line_def apply_line_def set_values_def stops_def observed_def)
next
  case (Some cmd)
  with assms obtain c where c: "command_name L cmd = Some c"
    by (cases "command_name L cmd") (simp_all add: handle_line_def)
  show ?thesis
  proof (cases "goose_values_from_json L (json_get_ex cmd ''values'')")
    case (Inl e)
    with assms Some c show ?thesis
      by (cases e)
        (auto simp: handle_line_def apply_line_def set_values_def stops_def observed_def split: if_splits)
  next
    case (Inr vs)
    with assms Some c show ?thesis
      by (cases "state_change E p vs")
        (auto simp: handle_line_def apply_line_def set_values_def stops_def split: if_splits
          dest!: state_change_observed, auto simp: observed_def)
  qed
qed

interpretation goose_observed: observed_client "handle_line L E" "observed E" "apply_line L" "stops L"
  by unfold_locales (rule handle_line_observed)

lemma observed_call [simp]: "observed E (call MonotonicTime p) = observed E p"
  by (simp add: observed_def)

lemma fold_apply_line:
  "fold (apply_line L) ls (vs, st, octets) =
   (last (vs # List.map_filter (set_values L) ls),
    (bump ^^ length (List.map_filter (set_values L) ls)) st, octets)"
  by (induction ls arbitrary: vs st)
    (auto simp: apply_line_def List.map_filter_simps funpow_swap1 split: option.split)

text \<open>The run so far has done what the lines of the octets read so far say.\<close>

definition framed :: "value_lib \<Rightarrow> goose_env \<Rightarrow> mms_value list \<times> u32 \<Rightarrow> goose_main \<Rightarrow> bool" where
  "framed L E start m \<longleftrightarrow>
     (let s = stdin_octets E (gp_calls (gm_pub m))
      in is_c_string s \<longrightarrow> fits 0 s \<longrightarrow>
         gm_line m = tail_line s \<and>
         observed E (gm_pub m) = fold (apply_line L) (complete_lines s) (fst start, snd start, s) \<and>
         (gm_running m \<longrightarrow> \<not> list_ex (stops L) (complete_lines s)))"

lemma is_c_string_tail_line: "is_c_string s \<Longrightarrow> is_c_string (tail_line s)"
  by (auto simp: is_c_string_def tail_line_def dest: set_takeWhileD)

lemma receive_framed:
  assumes "receive (handle_line L E) line_too_long (tail_line s) q True got = Returns (p', run', line')"
    and "is_c_string (s @ got)" "fits 0 (s @ got)" "\<not> list_ex (stops L) (complete_lines s)"
    and "observed E q = fold (apply_line L) (complete_lines s) (vs, st, s @ got)"
  shows "observed E p' = fold (apply_line L) (complete_lines (s @ got)) (vs, st, s @ got)"
    "line' = tail_line (s @ got)" "run' = (\<not> list_ex (stops L) (complete_lines (s @ got)))"
proof -
  have c: "is_c_string (tail_line s @ got)" using assms(2) is_c_string_tail_line by simp
  have l: "length (tail_line (tail_line s @ got)) < line_max"
    using fits_tail_length [OF assms(3)] by (simp add: tail_line_append)
  note r = goose_observed.receive_obs [OF assms(1) c l]
  show obs: "observed E p' = fold (apply_line L) (complete_lines (s @ got)) (vs, st, s @ got)"
    using r(1) by (simp add: assms(5) complete_lines_append [of s got])
  show "line' = tail_line (s @ got)" using r(3) by (simp add: tail_line_append)
  show "run' = (\<not> list_ex (stops L) (complete_lines (s @ got)))"
    using r(2) assms(4) by (simp add: complete_lines_append [of s got])
qed

lemma handle_line_octets:
  "handle_line L E p line = Returns (p', keep) \<Longrightarrow> stdin_octets E (gp_calls p') = stdin_octets E (gp_calls p)"
  using handle_line_observed [of L E p line p' keep]
  by (auto simp: observed_def apply_line_def split: option.splits)

interpretation goose_octets:
  line_client "handle_line L E" line_too_long "\<lambda>p. stdin_octets E (gp_calls p) = octets"
  by unfold_locales (auto simp: line_too_long_def dest: handle_line_octets)

lemma framed_same:
  "framed L E start m \<Longrightarrow> observed E p = observed E (gm_pub m) \<Longrightarrow> gm_line m' = gm_line m \<Longrightarrow> gm_pub m' = p \<Longrightarrow>
   (gm_running m' \<Longrightarrow> gm_running m) \<Longrightarrow> framed L E start m'"
  by (auto simp: framed_def Let_def observed_def)

lemma main_step_framed:
  assumes "framed L E start m" "gm_running m" "main_step L E m = Returns m'"
  shows "framed L E start m'"
proof -
  let ?cs = "MonotonicTime # gp_calls (gm_pub m)"
  define now where "now = gp_clock E (gp_calls (gm_pub m))"
  define q where "q = call (Select (gp_next_ms (gm_pub m) - now) (gm_stdin_open m)) (call MonotonicTime (gm_pub m))"
  show ?thesis
  proof (cases "gp_next_ms (gm_pub m) \<le> now")
    case True
    then obtain p' where "send_frame E (call MonotonicTime (gm_pub m)) = Returns p'" "m' = m\<lparr>gm_pub := p'\<rparr>"
      using assms(3) by (auto simp: main_step_def Let_def now_def)
    from send_frame_observed [OF this(1)] this(2) assms(1,2) show ?thesis
      by (intro framed_same [of L E start m p' m']) simp_all
  next
    case False
    note step = assms(3) [unfolded main_step_def Let_def, folded now_def]
    show ?thesis
    proof (cases "\<exists>got. gp_wake E ?cs = Input got \<and> gm_stdin_open m")
      case no: False
      then have "observed E q = observed E (gm_pub m)"
        by (auto simp: q_def observed_def split: wake.split)
      moreover have "gm_pub m' = q" "gm_line m' = gm_line m"
        using step False no by (auto simp: q_def split: if_splits wake.splits)
      ultimately show ?thesis using assms(1,2) framed_same by blast
    next
      case True
      then obtain got0 where w: "gp_wake E ?cs = Input got0" "gm_stdin_open m" by blast
      define s where "s = stdin_octets E (gp_calls (gm_pub m))"
      define got where "got = take (line_max - length (tail_line s)) got0"
      have q: "observed E q = (gp_values (gm_pub m), gp_st_num (gm_pub m), s @ got)"
        using w by (simp add: q_def observed_def s_def got_def)
      obtain p' run' line' where
        r: "receive (handle_line L E) line_too_long (gm_line m) q True
              (take (line_max - length (gm_line m)) got0) = Returns (p', run', line')"
        and m': "m' = m\<lparr>gm_pub := p', gm_running := run', gm_line := line'\<rparr>"
        using step False w by (auto simp: q_def)
      have o: "stdin_octets E (gp_calls p') = s @ got"
        using goose_octets.receive_inv(1) [OF _ r] q by (simp add: observed_def)
      show ?thesis
        unfolding framed_def Let_def m' o
      proof (simp add: o, intro impI)
        assume ok: "is_c_string s \<and> is_c_string got" "fits 0 (s @ got)"
        then have cs: "is_c_string (s @ got)" by simp
        from assms(1,2) ok fits_prefix [OF ok(2)]
        have m: "gm_line m = tail_line s" "\<not> list_ex (stops L) (complete_lines s)"
          "observed E (gm_pub m) = fold (apply_line L) (complete_lines s) (fst start, snd start, s)"
          by (simp_all add: framed_def Let_def s_def)
        from m(3) q have obs: "observed E q = fold (apply_line L) (complete_lines s) (fst start, snd start, s @ got)"
          by (simp add: fold_apply_line observed_def)
        from receive_framed [OF r [unfolded m(1), folded got_def] cs ok(2) m(2) obs]
        show "line' = tail_line (s @ got) \<and>
          observed E p' = fold (apply_line L) (complete_lines (s @ got)) (fst start, snd start, s @ got) \<and>
          (run' \<longrightarrow> \<not> list_ex (stops L) (complete_lines (s @ got)))" by simp
      qed
    qed
  qed
qed

text \<open>C14: In every state the GOOSE publisher's main loop can reach, what the program has done with
  its stdin depends only on the octets it has read, in whatever pieces \<open>read\<close> delivered them
  between frames, time-outs and interrupted calls: the line buffer holds the octets after the
  last newline, the published values are those of the last well-formed \<open>set\<close> line among the
  complete lines (at first those of \<open>--values\<close>), \<open>stNum\<close> has moved on once per such line, and
  while the loop runs no complete line was a \<open>stop\<close>. This is for input without NUL octets and
  without a line that fills the 64 KiB buffer.\<close>

theorem goose_commands_applied:
  assumes "goose_setup L version socket created src opts = Returns (Inr p)"
    and "main_start E p = Returns m" "reaches L E m m'"
    and "s = stdin_octets E (gp_calls (gm_pub m'))" "is_c_string s" "fits 0 s"
    and "sets = List.map_filter (set_values L) (complete_lines s)"
  shows "gm_line m' = tail_line s \<and> gp_values (gm_pub m') = last (gp_values p # sets) \<and>
    gp_st_num (gm_pub m') = (bump ^^ length sets) 1 \<and>
    (gm_running m' \<longrightarrow> \<not> list_ex (stops L) (complete_lines s))"
proof -
  have p: "observed E p = (gp_values p, 1, [])"
    by (rule goose_setup_cases [OF assms(1)]) (simp add: observed_def)
  with assms(2) have "framed L E (gp_values p, 1) m"
    by (cases "send_frame E p")
      (auto simp: main_start_def framed_def observed_def Let_def dest!: send_frame_observed)
  with assms(3) have "framed L E (gp_values p, 1) m'"
    by (induction rule: reaches.induct) (auto intro: main_step_framed)
  with assms(4-7) show ?thesis by (auto simp: framed_def Let_def fold_apply_line observed_def)
qed

definition set_lib :: value_lib where
  "set_lib = sample_lib\<lparr>json_parse := (\<lambda>s. Some (if s = ''[]'' then JArray []
     else JObject [(''cmd'', JString ''set''),
       (''values'', JArray [JObject [(''type'', JString ''boolean''), (''value'', JBool True)]])]))\<rparr>"

definition set_env :: goose_env where
  "set_env = sample_goose_env\<lparr>gp_clock := (\<lambda>cs. 0), gp_wake := (\<lambda>cs. Input [CHR ''x'', newline])\<rparr>"

lemma set_env_sel: "gp_clock set_env cs = 0" "gp_wake set_env cs = Input [CHR ''x'', newline]"
  by (simp_all add: set_env_def)

lemma set_setup:
  "goose_setup set_lib ''dev'' True True [2, 0, 0, 0, 0, 1] sample_goose_opts = Returns (Inr sample_publisher)"
  by (simp add: goose_setup_def sample_goose_opts_def goose_defaults_def parse_defaults sample_publisher_def
    set_lib_def json_tokener_parse_def goose_values_from_json_def)

lemma set_line: "set_values set_lib ''x'' = Some [MBoolean True]" "\<not> stops set_lib ''x''" "line_ok set_lib ''x''"
  by (simp_all add: set_values_def stops_def line_ok_def set_lib_def json_tokener_parse_def command_name_def
    json_get_ex_def json_get_string_def nul_def goose_values_from_json_def goose_value_from_json.simps
    has_null_type_def)

lemma set_run:
  obtains m m' where "main_start set_env sample_publisher = Returns m"
    "main_step set_lib set_env m = Returns m'" "reaches set_lib set_env m m'"
    "stdin_octets set_env (gp_calls (gm_pub m')) = [CHR ''x'', newline]"
proof -
  note inv = goose_setup_inv [OF set_setup]
  obtain p where p: "send_frame set_env sample_publisher = Returns p"
    using goose_pub_send_frame_total [OF inv(1)] by (auto simp: inv(2) INT_MAX_def)
  define m where "m = \<lparr>gm_pub = p, gm_line = [], gm_stdin_open = True, gm_running = True\<rparr>"
  have m: "main_start set_env sample_publisher = Returns m"
    by (simp add: main_start_def p m_def)
  have "build_schedule 10 1000 ! 0 = 10"
    by (simp add: build_schedule_simple schedule_loop.simps [of 10] MAX_STEPS_def)
  then have ten: "interval_at (build_schedule 10 1000) 0 = 10" by (simp add: interval_at_def)
  have pinv: "publisher_inv p" using goose_pub_send_frame_inv(1) [OF inv(1) p] .
  have p1: "gp_step p = 1" "gp_next_ms p = 10"
    by (rule goose_pub_send_frame_Returns [OF p]; use inv ten in \<open>simp add: publisher_inv_def sample_publisher_def set_env_def\<close>)+
  have o: "stdin_octets set_env (gp_calls p) = []"
    using send_frame_observed [OF p] by (simp add: observed_def sample_publisher_def)
  have n: "newline \<noteq> CHR ''x''" "nul \<noteq> CHR ''x''" "nul \<noteq> newline" by (simp_all add: newline_def nul_def)
  have "lines_read set_env m = [''x'']"
    using n complete_lines_simps(2) [of "''x''" "[]"]
    by (simp add: lines_read_def m_def set_env_def line_max_def)
  then have "main_step set_lib set_env m \<noteq> Undefined"
    by (intro main_step_total) (simp_all add: m_def INT_MAX_def pinv p1 set_line)
  then obtain m' where m': "main_step set_lib set_env m = Returns m'"
    by (cases "main_step set_lib set_env m") auto
  let ?q = "call (Select 10 True) (call MonotonicTime p)"
  obtain p' run' line' where r: "receive (handle_line set_lib set_env) line_too_long [] ?q True
      [CHR ''x'', newline] = Returns (p', run', line')" and p': "gm_pub m' = p'"
    using m' by (auto simp: main_step_def Let_def m_def p1 set_env_sel line_max_def)
  have "stdin_octets set_env (gp_calls ?q) = [CHR ''x'', newline]"
    using o by (simp add: set_env_def line_max_def)
  from goose_octets.receive_inv(1) [OF this r] p'
  have s: "stdin_octets set_env (gp_calls (gm_pub m')) = [CHR ''x'', newline]" by simp
  have "gm_running m" by (simp add: m_def)
  with m m' s show ?thesis by (intro that [of m m'] reaches.turn [OF reaches.start])
qed

theorem goose_commands_applied_witness:
  "\<exists>m m'. main_start set_env sample_publisher = Returns m \<and> main_step set_lib set_env m = Returns m' \<and>
     gp_values (gm_pub m') = [MBoolean True] \<and> gp_st_num (gm_pub m') = 2"
proof -
  obtain m m' where m: "main_start set_env sample_publisher = Returns m"
    "main_step set_lib set_env m = Returns m'" "reaches set_lib set_env m m'"
    "stdin_octets set_env (gp_calls (gm_pub m')) = [CHR ''x'', newline]"
    by (rule set_run)
  have n: "newline \<noteq> CHR ''x''" "CHR ''x'' \<noteq> nul" "newline \<noteq> nul" by (simp_all add: newline_def nul_def)
  have "complete_lines [CHR ''x'', newline] = [''x'']"
    using complete_lines_simps(2) [of "''x''" "[]"] n by simp
  then have "gp_values (gm_pub m') = [MBoolean True] \<and> gp_st_num (gm_pub m') = 2"
    using goose_commands_applied [OF set_setup m(1,3) m(4) [symmetric] _ _ refl] n
    by (simp add: set_line line_max_def bump_def)
  with m(1,2) show ?thesis by blast
qed

text \<open>Whatever the command line, a GOOSE publisher that starts hands libiec61850 the VLAN
  identifier, the priority and the configuration revision as given, none of them cut off, and a
  six-octet destination address.\<close>

theorem goose_setup_parameters:
  assumes "goose_setup L version socket created src opts = Returns (Inr p)"
  shows "\<exists>params iface. CreatePublisher params iface True \<in> set (gp_calls p) \<and>
    uint (vlanId params) = go_vlan_id opts \<and> uint (vlanId params) \<le> 4095 \<and>
    uint (vlanPriority params) = go_vlan_prio opts \<and> uint (vlanPriority params) \<le> 7 \<and>
    goose_parse_appid (go_app_id opts) = Some (appId params) \<and>
    goose_parse_mac (go_dst opts) = Some (dstAddress params) \<and> length (dstAddress params) = 6 \<and>
    (go_simulation opts = gp_raw p) \<and> (gp_raw p = (iface = ''lo'' \<and> go_simulation opts))"
  by (rule goose_setup_cases [OF assms])
    (auto dest: goose_parse_mac_length simp: unsigned_of_int take_bit_int_eq_self)

theorem goose_setup_parameters_witness:
  "\<exists>params iface. CreatePublisher params iface True \<in> set (gp_calls sample_publisher) \<and>
     uint (vlanPriority params) = 4"
  using goose_setup_parameters [OF sample_setup] by (auto simp: sample_goose_opts_def goose_defaults_def)

text \<open>The simulation path changes the source address and one bit of the frame.\<close>

lemma foldl_update_nth:
  "k \<le> 6 \<Longrightarrow> i < length frame \<Longrightarrow> foldl (\<lambda>f i. f[6 + i := src ! i]) frame [0..<k] ! i =
   (if 6 \<le> i \<and> i < 6 + k then src ! (i - 6) else frame ! i) \<and>
   length (foldl (\<lambda>f i. f[6 + i := src ! i]) frame [0..<k]) = length frame"
proof (induction k)
  case (Suc k)
  then show ?case by (cases "i = 6 + k") (auto simp: nth_list_update)
qed auto

lemma simulation_frame_nth:
  assumes "23 \<le> length frame" "i < length frame"
  shows "simulation_frame src True frame ! i =
    (if 6 \<le> i \<and> i < 12 then src ! (i - 6) else if i = 22 then frame ! 22 OR 0x80 else frame ! i)"
    and "length (simulation_frame src True frame) = length frame"
proof -
  note f = foldl_update_nth [of 6 _ frame src]
  have "length (foldl (\<lambda>f i. f[6 + i := src ! i]) frame [0..<6]) = length frame" using f [of i] assms by simp
  with f [of i] f [of 22] assms show "simulation_frame src True frame ! i =
    (if 6 \<le> i \<and> i < 12 then src ! (i - 6) else if i = 22 then frame ! 22 OR 0x80 else frame ! i)"
    and "length (simulation_frame src True frame) = length frame"
    by (auto simp: simulation_frame_def nth_list_update)
qed

end
