(* ===== verification/StreamTable.thy ===== *)
theory StreamTable
  imports Prelude
begin

text \<open>
  The interface of the subscribers' stream tables: a fixed number of slots, filled in order,
  one per key. \<open>regular\<close> keys are those a slot stores unchanged; a longer one is cut off by
  \<open>snprintf\<close>, is not found again and takes a slot each time.
\<close>

locale slot_table =
  fixes slot :: "'k \<Rightarrow> 'e list \<Rightarrow> nat option \<times> 'e list"
    and key :: "'e \<Rightarrow> 'k"
    and limit :: nat
    and regular :: "'k \<Rightarrow> bool"
  assumes slot_found:
      "i < length es \<Longrightarrow> key (es ! i) = k \<Longrightarrow> (\<And>j. j < i \<Longrightarrow> key (es ! j) \<noteq> k) \<Longrightarrow> slot k es = (Some i, es)"
    and slot_new:
      "k \<notin> key ` set es \<Longrightarrow> length es < limit \<Longrightarrow>
       \<exists>e. slot k es = (Some (length es), es @ [e]) \<and> (regular k \<longrightarrow> key e = k)"
    and slot_full: "k \<notin> key ` set es \<Longrightarrow> length es = limit \<Longrightarrow> slot k es = (None, es)"
begin

lemma slot_cases:
  assumes "length es \<le> limit"
  obtains (found) i where "slot k es = (Some i, es)" "i < length es" "key (es ! i) = k"
  | (new) e where "slot k es = (Some (length es), es @ [e])" "regular k \<longrightarrow> key e = k"
      "k \<notin> key ` set es" "length es < limit"
  | (full) "slot k es = (None, es)" "k \<notin> key ` set es" "length es = limit"
proof (cases "k \<in> key ` set es")
  case True
  then obtain i where i: "i < length es" "key (es ! i) = k" by (auto simp: in_set_conv_nth)
  define m where "m = (LEAST i. i < length es \<and> key (es ! i) = k)"
  have m: "m < length es" "key (es ! m) = k"
    using LeastI [of "\<lambda>i. i < length es \<and> key (es ! i) = k", OF conjI [OF i]] by (simp_all add: m_def)
  have "key (es ! j) \<noteq> k" if "j < m" for j
    using not_less_Least [of j "\<lambda>i. i < length es \<and> key (es ! i) = k"] that m(1) by (auto simp: m_def)
  with m have "slot k es = (Some m, es)" by (intro slot_found)
  with m show thesis by (intro found)
next
  case False
  show thesis
  proof (cases "length es < limit")
    case True
    with False slot_new new show thesis by blast
  next
    case f: False
    with False slot_full full assms show thesis by force
  qed
qed

lemma slot_bound: "length es \<le> limit \<Longrightarrow> length (snd (slot k es)) \<le> limit"
  by (cases rule: slot_cases [of es k]) auto

lemma slot_prefix: "length es \<le> limit \<Longrightarrow> take (length es) (snd (slot k es)) = es"
  by (cases rule: slot_cases [of es k]) auto

lemma slot_index:
  assumes "slot k es = (Some i, es')" "length es \<le> limit"
  shows "i < length es'" "regular k \<Longrightarrow> key (es' ! i) = k"
proof -
  have "i < length es' \<and> (regular k \<longrightarrow> key (es' ! i) = k)"
    by (cases rule: slot_cases [of es k]) (use assms in \<open>auto simp: nth_append\<close>)
  then show "i < length es'" "regular k \<Longrightarrow> key (es' ! i) = k" by blast+
qed

lemma slot_distinct:
  assumes "regular k" "distinct (map key es)" "length es \<le> limit"
  shows "distinct (map key (snd (slot k es)))"
  by (cases rule: slot_cases [of es k]) (use assms in auto)

text \<open>The entries of other keys are not touched, and a regular key keeps its slot.\<close>

lemma slot_other: "length es \<le> limit \<Longrightarrow> j < length es \<Longrightarrow> snd (slot k es) ! j = es ! j"
  by (cases rule: slot_cases [of es k]) (auto simp: nth_append)

lemma slot_again:
  assumes "regular k" "distinct (map key es)" "slot k es = (Some i, es')"
    and "map key es'' = map key es'" "length es \<le> limit"
  shows "slot k es'' = (Some i, es'')"
proof -
  have len: "length es'' = length es'" using assms(4) by (metis length_map)
  have i: "i < length es'" "key (es' ! i) = k" using slot_index [OF assms(3,5)] assms(1) by simp_all
  have nth: "j < length es' \<Longrightarrow> key (es'' ! j) = key (es' ! j)" for j
    using assms(4) len by (metis nth_map)
  have "distinct (map key es')" using slot_distinct [OF assms(1,2,5)] assms(3) by (metis snd_conv)
  then have "key (es' ! j) \<noteq> k" if "j < i" for j
    using that i nth_eq_iff_index_eq [of "map key es'" j i] by auto
  with i nth len show ?thesis by (intro slot_found) auto
qed

end

end
