(* ===== verification/GooseSubscriber.thy ===== *)
theory GooseSubscriber
  imports GooseCommon StreamTable
begin

text \<open>
  \<open>goose_subscriber.c\<close>: the stream table with its supervision, the frame filter, the listener
  and the loop over received frames. The events printed so far are \<open>gs_out\<close>, newest first.
  What libiec61850's receiver makes of a frame, the message it hands to the listener or none,
  is the parameter \<open>decode\<close>.
\<close>

section \<open>Streams\<close>

record stream =
  gocb_ref :: string
  deadline_ms :: u64
  timed_out :: bool

definition MAX_STREAMS :: nat where
  "MAX_STREAMS = 64"

record goose_subscriber =
  gs_streams :: "stream list"
  gs_dst :: "u8 list"
  gs_src :: "u8 list"
  gs_simulation :: bool
  gs_out :: "json list"

definition emit :: "json \<Rightarrow> goose_subscriber \<Rightarrow> goose_subscriber" where
  "emit j g = g\<lparr>gs_out := j # gs_out g\<rparr>"

definition supervision_event :: "string \<Rightarrow> string \<Rightarrow> json" where
  "supervision_event ref state =
     JObject [(''event'', JString ''supervision''), (''gocbRef'', JString ref), (''state'', JString state)]"

text \<open>The index of the stream, which is appended when it is new and the table has room.\<close>

fun find_stream :: "string \<Rightarrow> stream list \<Rightarrow> nat option" where
  "find_stream ref [] = None"
| "find_stream ref (s # ss) =
     (if gocb_ref s = ref then Some 0 else map_option Suc (find_stream ref ss))"

definition stream_for :: "string \<Rightarrow> stream list \<Rightarrow> nat option \<times> stream list" where
  "stream_for ref ss =
     (case find_stream ref ss of
        Some i \<Rightarrow> (Some i, ss)
      | None \<Rightarrow>
          if length ss = MAX_STREAMS then (None, ss)
          else (Some (length ss),
                ss @ [\<lparr>gocb_ref = snprintf_s 130 ref, deadline_ms = 0, timed_out = False\<rparr>]))"

definition expired :: "u64 \<Rightarrow> stream \<Rightarrow> bool" where
  "expired now s \<longleftrightarrow> deadline_ms s \<noteq> 0 \<and> \<not> timed_out s \<and> deadline_ms s \<le> now"

text \<open>The loop over the table, with the events of the expired streams in order.\<close>

fun check_streams :: "u64 \<Rightarrow> stream list \<Rightarrow> stream list \<times> json list" where
  "check_streams now [] = ([], [])"
| "check_streams now (s # ss) =
     (let (ss', evs) = check_streams now ss
      in if expired now s
         then (s\<lparr>timed_out := True\<rparr> # ss', supervision_event (gocb_ref s) ''timeout'' # evs)
         else (s # ss', evs))"

definition check_supervision :: "u64 \<Rightarrow> goose_subscriber \<Rightarrow> goose_subscriber" where
  "check_supervision now g =
     (let (ss, evs) = check_streams now (gs_streams g)
      in g\<lparr>gs_streams := ss, gs_out := rev evs @ gs_out g\<rparr>)"

section \<open>The listener\<close>

record goose_message =
  gm_ref :: string
  gm_tal :: u32
  gm_dat_set :: string
  gm_go_id :: string
  gm_app_id :: u32
  gm_st_num :: u32
  gm_sq_num :: u32
  gm_conf_rev :: u32
  gm_test :: bool
  gm_nds_com :: bool
  gm_values :: "mms_value option list option"
  gm_timestamp :: "u8 list"

definition goose_event :: "value_lib \<Rightarrow> goose_subscriber \<Rightarrow> goose_message \<Rightarrow> json" where
  "goose_event L g msg =
     (let vals = (case gm_values msg of None \<Rightarrow> [] | Some vs \<Rightarrow> vs)
      in JObject [(''event'', JString ''goose''), (''gocbRef'', JString (gm_ref msg)),
           (''datSet'', JString (gm_dat_set msg)), (''goID'', JString (gm_go_id msg)),
           (''appID'', JString (''0x'' @ hex_pad 4 (unat (gm_app_id msg AND 0xffff)))),
           (''dst'', JString (goose_format_mac (gs_dst g))),
           (''src'', JString (goose_format_mac (gs_src g))),
           (''stNum'', JInt (uint (gm_st_num msg))), (''sqNum'', JInt (uint (gm_sq_num msg))),
           (''timeAllowedToLive'', JInt (uint (gm_tal msg))),
           (''confRev'', JInt (uint (gm_conf_rev msg))), (''test'', JBool (gm_test msg)),
           (''simulation'', JBool (gs_simulation g)), (''ndsCom'', JBool (gm_nds_com msg)),
           (''numDatSetEntries'', JInt (int (length vals))),
           (''t'', JString (goose_format_utc_ns (gm_timestamp msg))),
           (''values'', JArray (map (goose_value_to_json L) vals))])"

definition listener ::
  "value_lib \<Rightarrow> string option \<Rightarrow> u64 \<Rightarrow> goose_message \<Rightarrow> goose_subscriber \<Rightarrow> goose_subscriber" where
  "listener L gocb_filter now msg g =
     (if (case gocb_filter of None \<Rightarrow> False | Some f \<Rightarrow> gm_ref msg \<noteq> f) then g
      else let ref = gm_ref msg; tal = gm_tal msg; (found, ss) = stream_for ref (gs_streams g);
               g = g\<lparr>gs_streams := ss\<rparr>;
               g = (case found of
                      None \<Rightarrow> g
                    | Some i \<Rightarrow>
                        let s = ss ! i;
                            g = (if timed_out s then emit (supervision_event ref ''ok'') g else g);
                            s = s\<lparr>timed_out := False,
                                  deadline_ms := (if tal \<noteq> 0 then now + ucast tal else 0)\<rparr>
                        in g\<lparr>gs_streams := ss[i := s]\<rparr>)
           in emit (goose_event L g msg) g)"

section \<open>Frames\<close>

record goose_filter =
  gf_app_id :: "u16 option"
  gf_dst :: "u8 list option"
  gf_gocb :: "string option"

text \<open>The offset of the EtherType behind the addresses and the 802.1Q tag, if any.\<close>

definition ether_offset :: "u8 list \<Rightarrow> nat" where
  "ether_offset frame = (if frame ! 12 = 0x81 \<and> frame ! 13 = 0x00 then 16 else 12)"

definition receive_frame ::
  "value_lib \<Rightarrow> (u8 list \<Rightarrow> goose_message option) \<Rightarrow> goose_filter \<Rightarrow> u64 \<Rightarrow> u8 list \<Rightarrow>
   goose_subscriber \<Rightarrow> goose_subscriber" where
  "receive_frame L decode fl now frame g =
     (let n = length frame
      in if n < 14 then g
         else let off = ether_offset frame
              in if n < off + 10 \<or> frame ! off \<noteq> 0x88 \<or> frame ! (off + 1) \<noteq> 0xb8 then g
                 else let apdu = off + 2;
                          frame_app_id :: u16 = push_bit 8 (ucast (frame ! apdu)) OR ucast (frame ! (apdu + 1))
                      in if (case gf_app_id fl of None \<Rightarrow> False | Some a \<Rightarrow> frame_app_id \<noteq> a) then g
                         else if (case gf_dst fl of None \<Rightarrow> False | Some d \<Rightarrow> take 6 frame \<noteq> d) then g
                         else let g = g\<lparr>gs_dst := take 6 frame, gs_src := take 6 (drop 6 frame),
                                        gs_simulation := frame ! (apdu + 4) AND 0x80 \<noteq> 0\<rparr>
                              in (case decode frame of
                                    None \<Rightarrow> g
                                  | Some msg \<Rightarrow> listener L (gf_gocb fl) now msg g))"

section \<open>The command line\<close>

record goose_sub_opts =
  gso_iface :: string
  gso_filter :: goose_filter

fun parse_args :: "goose_sub_opts \<Rightarrow> string list \<Rightarrow> string + goose_sub_opts" where
  "parse_args opts [] = Inr opts"
| "parse_args opts (a # args) =
     (if a \<in> {''--iface'', ''--app-id'', ''--gocb-ref'', ''--dst''} then
        (case args of
           [] \<Rightarrow> Inl (''goose-subscriber: '' @ a @ '' needs a value'')
         | v # rest \<Rightarrow>
             if a = ''--iface'' then parse_args (opts\<lparr>gso_iface := v\<rparr>) rest
             else if a = ''--app-id'' then
               (case goose_parse_appid v of
                  None \<Rightarrow> Inl (''goose-subscriber: --app-id '' @ v @ '' is not a 16-bit number'')
                | Some n \<Rightarrow> parse_args (opts\<lparr>gso_filter := (gso_filter opts)\<lparr>gf_app_id := Some n\<rparr>\<rparr>) rest)
             else if a = ''--gocb-ref'' then
               parse_args (opts\<lparr>gso_filter := (gso_filter opts)\<lparr>gf_gocb := Some v\<rparr>\<rparr>) rest
             else
               (case goose_parse_mac v of
                  None \<Rightarrow> Inl (''goose-subscriber: --dst '' @ v @ '' is not a MAC address'')
                | Some m \<Rightarrow> parse_args (opts\<lparr>gso_filter := (gso_filter opts)\<lparr>gf_dst := Some m\<rparr>\<rparr>) rest))
      else Inl (''goose-subscriber: unknown argument '' @ a))"

definition goose_sub_defaults :: goose_sub_opts where
  "goose_sub_defaults =
     \<lparr>gso_iface = ''eth0'', gso_filter = \<lparr>gf_app_id = None, gf_dst = None, gf_gocb = None\<rparr>\<rparr>"

section \<open>The main loop\<close>

text \<open>
  A turn checks the supervision and then takes the frames that are there, each with the
  clock its listener reads.
\<close>

inductive loop_step ::
  "value_lib \<Rightarrow> (u8 list \<Rightarrow> goose_message option) \<Rightarrow> goose_filter \<Rightarrow> goose_subscriber \<Rightarrow> goose_subscriber \<Rightarrow> bool"
  for L decode fl where
  check: "loop_step L decode fl g (check_supervision now g)"
| frame: "loop_step L decode fl g (receive_frame L decode fl now bytes g)"

inductive_cases goose_sub_loop_stepE: "loop_step L decode fl g g'"

definition subscriber_start :: "string \<Rightarrow> string \<Rightarrow> u8 list \<Rightarrow> string option \<Rightarrow> goose_subscriber" where
  "subscriber_start version iface own gocb_filter =
     \<lparr>gs_streams = [], gs_dst = replicate 6 0, gs_src = replicate 6 0, gs_simulation = False,
      gs_out = [goose_ready version ''subscriber'' iface own gocb_filter]\<rparr>"

inductive received ::
  "value_lib \<Rightarrow> (u8 list \<Rightarrow> goose_message option) \<Rightarrow> goose_filter \<Rightarrow> goose_subscriber \<Rightarrow> goose_subscriber \<Rightarrow> bool"
  for L decode fl g where
  start: "received L decode fl g g"
| step: "received L decode fl g g' \<Longrightarrow> loop_step L decode fl g' g'' \<Longrightarrow> received L decode fl g g''"

section \<open>The table and its supervision\<close>

text \<open>A GOOSE control block reference has at most 129 characters.\<close>

definition ref_ok :: "string \<Rightarrow> bool" where
  "ref_ok ref \<longleftrightarrow> length ref < 130"

lemma goose_sub_find_stream_Some:
  "i < length ss \<Longrightarrow> gocb_ref (ss ! i) = ref \<Longrightarrow> (\<And>j. j < i \<Longrightarrow> gocb_ref (ss ! j) \<noteq> ref) \<Longrightarrow>
   find_stream ref ss = Some i"
proof (induction ss arbitrary: i)
  case (Cons s ss)
  show ?case
  proof (cases i)
    case 0
    with Cons.prems show ?thesis by simp
  next
    case (Suc k)
    have "gocb_ref s \<noteq> ref" using Cons.prems(3) [of 0] Suc by simp
    moreover have "gocb_ref (ss ! j) \<noteq> ref" if "j < k" for j
      using Cons.prems(3) [of "Suc j"] that Suc by simp
    ultimately show ?thesis using Cons.IH [of k] Cons.prems(1,2) Suc by simp
  qed
qed simp

lemma goose_sub_find_stream_None: "ref \<notin> gocb_ref ` set ss \<Longrightarrow> find_stream ref ss = None"
  by (induction ss) auto

interpretation goose_streams: slot_table stream_for gocb_ref MAX_STREAMS ref_ok
proof
  fix i and ss :: "stream list" and ref
  assume "i < length ss" "gocb_ref (ss ! i) = ref" "\<And>j. j < i \<Longrightarrow> gocb_ref (ss ! j) \<noteq> ref"
  then show "stream_for ref ss = (Some i, ss)" by (simp add: stream_for_def goose_sub_find_stream_Some)
next
  fix ref and ss :: "stream list"
  assume "ref \<notin> gocb_ref ` set ss" "length ss < MAX_STREAMS"
  then show "\<exists>e. stream_for ref ss = (Some (length ss), ss @ [e]) \<and> (ref_ok ref \<longrightarrow> gocb_ref e = ref)"
    by (simp add: stream_for_def goose_sub_find_stream_None ref_ok_def)
qed (simp add: stream_for_def goose_sub_find_stream_None)

text \<open>What the events say about a stream: whether its last supervision event was a timeout,
  and that timeouts and recoveries alternate.\<close>

fun down :: "string \<Rightarrow> json list \<Rightarrow> bool" where
  "down ref [] = False"
| "down ref (e # es) =
     (if e = supervision_event ref ''timeout'' then True
      else if e = supervision_event ref ''ok'' then False
      else down ref es)"

fun alternates :: "string \<Rightarrow> json list \<Rightarrow> bool" where
  "alternates ref [] = True"
| "alternates ref (e # es) =
     ((e \<noteq> supervision_event ref ''timeout'' \<or> \<not> down ref es) \<and>
      (e \<noteq> supervision_event ref ''ok'' \<or> down ref es) \<and> alternates ref es)"

definition table_ok :: "stream list \<Rightarrow> bool" where
  "table_ok ss \<longleftrightarrow> length ss \<le> MAX_STREAMS \<and> distinct (map gocb_ref ss)"

definition supervised :: "stream list \<Rightarrow> json list \<Rightarrow> bool" where
  "supervised ss out \<longleftrightarrow> (\<forall>ref. alternates ref out \<and>
     (down ref out \<longleftrightarrow> (\<exists>s \<in> set ss. gocb_ref s = ref \<and> timed_out s)))"

definition subscriber_inv :: "goose_subscriber \<Rightarrow> bool" where
  "subscriber_inv g \<longleftrightarrow> table_ok (gs_streams g) \<and> supervised (gs_streams g) (gs_out g)"

lemma supervision_event_eq [simp]:
  "supervision_event r s = supervision_event r' s' \<longleftrightarrow> r = r' \<and> s = s'"
  by (auto simp: supervision_event_def)

lemma other_event_neq [simp]:
  "goose_event L g msg \<noteq> supervision_event r s"
  "goose_ready v r' i m c \<noteq> supervision_event r s"
  by (auto simp: goose_event_def goose_ready_def supervision_event_def Let_def)

lemma supervised_other:
  "supervised ss out \<Longrightarrow> (\<And>r s. e \<noteq> supervision_event r s) \<Longrightarrow> supervised ss (e # out)"
  by (simp add: supervised_def)

text \<open>One expired stream, and the loop over the table.\<close>

lemma check_streams_refs: "check_streams now ss = (ss', evs) \<Longrightarrow> map gocb_ref ss' = map gocb_ref ss"
  by (induction ss arbitrary: ss' evs) (auto split: prod.splits if_splits)

lemma down_append:
  "down ref (es @ out) \<longleftrightarrow>
   (if supervision_event ref ''timeout'' \<in> set es \<or> supervision_event ref ''ok'' \<in> set es then down ref es else down ref out)"
  by (induction es) auto

lemma supervised_timeouts:
  "check_streams now ss = (ss', evs) \<Longrightarrow> distinct (map gocb_ref ss) \<Longrightarrow>
   (\<forall>ref. alternates ref out) \<Longrightarrow>
   (\<forall>s \<in> set ss. down (gocb_ref s) out = timed_out s) \<Longrightarrow>
   (\<forall>ref. alternates ref (rev evs @ out)) \<and>
   (\<forall>s \<in> set ss'. down (gocb_ref s) (rev evs @ out) = timed_out s) \<and>
   (\<forall>ref. ref \<notin> gocb_ref ` set ss \<longrightarrow> down ref (rev evs @ out) = down ref out)"
proof (induction ss arbitrary: ss' evs out)
  case Nil
  then show ?case by simp
next
  case (Cons s ss)
  obtain ss1 evs1 where c: "check_streams now ss = (ss1, evs1)" by force
  have refs: "gocb_ref ` set ss1 = gocb_ref ` set ss" using check_streams_refs [OF c] by (metis list.set_map)
  show ?case
  proof (cases "expired now s")
    case True
    let ?out = "supervision_event (gocb_ref s) ''timeout'' # out"
    from True have nt: "\<not> timed_out s" by (simp add: expired_def)
    have "\<forall>ref. alternates ref ?out" using Cons.prems(3,4) nt by auto
    moreover have "\<forall>t \<in> set ss. down (gocb_ref t) ?out = timed_out t" using Cons.prems(2,4) by auto
    ultimately show ?thesis
      using Cons.IH [OF c, of ?out] Cons.prems(1,2) c True refs by auto
  next
    case False
    with Cons.IH [OF c, of out] Cons.prems c refs show ?thesis by auto
  qed
qed

lemma check_streams_eq:
  "check_streams now ss = (map (\<lambda>s. if expired now s then s\<lparr>timed_out := True\<rparr> else s) ss,
     map (\<lambda>s. supervision_event (gocb_ref s) ''timeout'') (filter (expired now) ss))"
  by (induction ss) auto

lemma distinct_ref_eq:
  "distinct (map gocb_ref ss) \<Longrightarrow> s \<in> set ss \<Longrightarrow> t \<in> set ss \<Longrightarrow> gocb_ref s = gocb_ref t \<Longrightarrow> s = t"
  by (auto simp: distinct_map dest: inj_onD)

lemma supervised_iff:
  assumes "distinct (map gocb_ref ss)"
  shows "supervised ss out \<longleftrightarrow> (\<forall>ref. alternates ref out) \<and> (\<forall>s \<in> set ss. down (gocb_ref s) out = timed_out s) \<and>
    (\<forall>ref. ref \<notin> gocb_ref ` set ss \<longrightarrow> \<not> down ref out)"
proof -
  have a: "(\<exists>t \<in> set ss. gocb_ref t = gocb_ref s \<and> timed_out t) = timed_out s" if "s \<in> set ss" for s
    using that distinct_ref_eq [OF assms] by blast
  have b: "\<not> (\<exists>t \<in> set ss. gocb_ref t = ref \<and> timed_out t)" if "ref \<notin> gocb_ref ` set ss" for ref
    using that by blast
  show ?thesis
  proof
    assume "supervised ss out"
    with a b show "(\<forall>ref. alternates ref out) \<and> (\<forall>s \<in> set ss. down (gocb_ref s) out = timed_out s) \<and>
      (\<forall>ref. ref \<notin> gocb_ref ` set ss \<longrightarrow> \<not> down ref out)" by (simp add: supervised_def)
  next
    assume r: "(\<forall>ref. alternates ref out) \<and> (\<forall>s \<in> set ss. down (gocb_ref s) out = timed_out s) \<and>
      (\<forall>ref. ref \<notin> gocb_ref ` set ss \<longrightarrow> \<not> down ref out)"
    have "down ref out = (\<exists>t \<in> set ss. gocb_ref t = ref \<and> timed_out t)" for ref
    proof (cases "ref \<in> gocb_ref ` set ss")
      case True
      then obtain t where "t \<in> set ss" "ref = gocb_ref t" by blast
      with r a show ?thesis by simp
    next
      case False
      with r b show ?thesis by simp
    qed
    with r show "supervised ss out" by (simp add: supervised_def)
  qed
qed

lemma check_supervision_inv:
  assumes "subscriber_inv g"
  shows "subscriber_inv (check_supervision now g)"
proof -
  obtain ss evs where c: "check_streams now (gs_streams g) = (ss, evs)" by force
  have refs: "map gocb_ref ss = map gocb_ref (gs_streams g)" by (rule check_streams_refs [OF c])
  from assms have t: "table_ok (gs_streams g)" "distinct (map gocb_ref (gs_streams g))"
    and s: "supervised (gs_streams g) (gs_out g)" by (simp_all add: subscriber_inv_def table_ok_def)
  have "table_ok ss" using t(1) refs by (metis length_map table_ok_def)
  moreover have "supervised ss (rev evs @ gs_out g)"
    using supervised_timeouts [OF c t(2), of "gs_out g"] s t(2) refs
      supervised_iff [OF t(2)] supervised_iff [of ss] list.set_map [of gocb_ref] by metis
  ultimately show ?thesis by (simp add: subscriber_inv_def check_supervision_def c)
qed

text \<open>The stream a message belongs to, as the listener leaves it.\<close>

definition refreshed :: "u64 \<Rightarrow> u32 \<Rightarrow> stream \<Rightarrow> stream" where
  "refreshed now tal s = s\<lparr>timed_out := False, deadline_ms := (if tal \<noteq> 0 then now + ucast tal else 0)\<rparr>"

lemma listener_cases:
  assumes "table_ok (gs_streams g)" "ref_ok (gm_ref msg)"
  obtains (filtered) f where "gocb_filter = Some f" "gm_ref msg \<noteq> f" "listener L gocb_filter now msg g = g"
  | (full) "gm_ref msg \<notin> gocb_ref ` set (gs_streams g)" "length (gs_streams g) = MAX_STREAMS"
      "listener L gocb_filter now msg g = emit (goose_event L g msg) g"
  | (known) i s where "i < length (gs_streams g)" "s = gs_streams g ! i" "gocb_ref s = gm_ref msg"
      "listener L gocb_filter now msg g = emit (goose_event L g msg)
         ((if timed_out s then emit (supervision_event (gm_ref msg) ''ok'') g else g)
           \<lparr>gs_streams := (gs_streams g)[i := refreshed now (gm_tal msg) s]\<rparr>)"
  | (new) s where "gm_ref msg \<notin> gocb_ref ` set (gs_streams g)" "length (gs_streams g) < MAX_STREAMS"
      "gocb_ref s = gm_ref msg" "\<not> timed_out s"
      "listener L gocb_filter now msg g = emit (goose_event L g msg)
         (g\<lparr>gs_streams := gs_streams g @ [s]\<rparr>)" "s = refreshed now (gm_tal msg) s"
proof (cases "case gocb_filter of None \<Rightarrow> False | Some f \<Rightarrow> gm_ref msg \<noteq> f")
  case True
  then show thesis by (cases gocb_filter) (auto intro: filtered simp: listener_def)
next
  case nf: False
  have ev: "goose_event L (g'\<lparr>gs_streams := ss\<rparr>) msg = goose_event L g' msg"
    "goose_event L (g'\<lparr>gs_out := es\<rparr>) msg = goose_event L g' msg"
    "goose_event L (emit e g') msg = goose_event L g' msg" for g' ss e es
    by (simp_all add: goose_event_def emit_def)
  have len: "length (gs_streams g) \<le> MAX_STREAMS" using assms(1) by (simp add: table_ok_def)
  show thesis
  proof (cases rule: goose_streams.slot_cases [OF len, of "gm_ref msg", case_names found new full])
    case (found i)
    then show thesis using nf
      by (intro known [of i "gs_streams g ! i"]) (auto simp: listener_def Let_def refreshed_def ev emit_def)
  next
    case (new e)
    have e: "e = \<lparr>gocb_ref = snprintf_s 130 (gm_ref msg), deadline_ms = 0, timed_out = False\<rparr>"
      using new(1,3,4) by (simp add: stream_for_def goose_sub_find_stream_None)
    show thesis using new(1,3,4) nf assms(2)
      by (intro that(4) [of "refreshed now (gm_tal msg) e"])
        (auto simp: listener_def Let_def refreshed_def ev emit_def e ref_ok_def)
  next
    case full
    then show thesis using nf by (intro that(2)) (auto simp: listener_def Let_def)
  qed
qed

text \<open>A message of a stream the table has: its recovery is reported, no other stream is touched.\<close>

lemma supervised_refreshed:
  assumes d: "distinct (map gocb_ref ss)" and s: "supervised ss out" and i: "i < length ss" "st = ss ! i"
  shows "distinct (map gocb_ref (ss[i := refreshed now tal st])) \<and>
    supervised (ss[i := refreshed now tal st]) ((if timed_out st then [supervision_event (gocb_ref st) ''ok''] else []) @ out)"
    (is "distinct (map gocb_ref ?ss) \<and> supervised ?ss ?out")
proof -
  note iff = supervised_iff [OF d, THEN iffD1, OF s]
  have refs: "map gocb_ref ?ss = map gocb_ref ss"
    using i by (simp add: map_update refreshed_def list_update_same_conv)
  then have d': "distinct (map gocb_ref ?ss)" using d by simp
  have st: "st \<in> set ss" using i by auto
  have "down (gocb_ref x) ?out = timed_out x" if x: "x \<in> set ?ss" for x
  proof (cases "gocb_ref x = gocb_ref st")
    case True
    have "x = refreshed now tal st"
      using x True d' i distinct_ref_eq [OF d', of x "refreshed now tal st"] by (simp add: refreshed_def set_update_memI)
    then show ?thesis using iff st by (auto simp: refreshed_def)
  next
    case False
    then have "x \<in> set ss" using set_update_subset_insert [THEN subsetD, OF x] by (auto simp: refreshed_def)
    with False iff show ?thesis by auto
  qed
  moreover have "\<forall>ref. alternates ref ?out" using iff st by auto
  moreover have "\<forall>ref. ref \<notin> gocb_ref ` set ?ss \<longrightarrow> \<not> down ref ?out"
  proof -
    have "gocb_ref ` set ?ss = gocb_ref ` set ss" using refs by (metis list.set_map)
    then show ?thesis using iff st by auto
  qed
  ultimately show ?thesis using supervised_iff [OF d'] d' by blast
qed

lemma goose_sub_listener_inv:
  assumes "subscriber_inv g" "ref_ok (gm_ref msg)"
  shows "subscriber_inv (listener L gocb_filter now msg g)"
proof -
  from assms(1) have t: "table_ok (gs_streams g)" and d: "distinct (map gocb_ref (gs_streams g))"
    and s: "supervised (gs_streams g) (gs_out g)"
    by (simp_all add: subscriber_inv_def table_ok_def)
  show ?thesis
  proof (cases rule: listener_cases [OF t assms(2), of gocb_filter L now, case_names filtered full known new])
    case (filtered f)
    with assms(1) show ?thesis by simp
  next
    case full
    with assms(1) show ?thesis by (simp add: subscriber_inv_def emit_def supervised_other)
  next
    case (known i st)
    note r = supervised_refreshed [OF d s known(1,2), of now "gm_tal msg"]
    have "table_ok ((gs_streams g)[i := refreshed now (gm_tal msg) st])" using t r by (simp add: table_ok_def)
    with r show ?thesis
      unfolding known(4) by (auto simp: subscriber_inv_def emit_def supervised_other known(3))
  next
    case (new st)
    have d': "distinct (map gocb_ref (gs_streams g @ [st]))" using d new(1,3) by simp
    have "supervised (gs_streams g @ [st]) (gs_out g)"
      using supervised_iff [OF d, THEN iffD1, OF s] new(1,3,4) unfolding supervised_iff [OF d'] by auto
    moreover have "table_ok (gs_streams g @ [st])" using t d' new(2) by (simp add: table_ok_def)
    ultimately show ?thesis
      unfolding new(5) by (simp add: subscriber_inv_def emit_def supervised_other)
  qed
qed

text \<open>The library hands out control block references of the standard's length.\<close>

definition refs_ok :: "(u8 list \<Rightarrow> goose_message option) \<Rightarrow> bool" where
  "refs_ok decode \<longleftrightarrow> (\<forall>bytes msg. decode bytes = Some msg \<longrightarrow> ref_ok (gm_ref msg))"

lemma subscriber_inv_header [simp]:
  "subscriber_inv (g\<lparr>gs_dst := d, gs_src := s, gs_simulation := b\<rparr>) = subscriber_inv g"
  by (simp add: subscriber_inv_def)

lemma goose_sub_receive_frame_inv:
  assumes "refs_ok decode" "subscriber_inv g"
  shows "subscriber_inv (receive_frame L decode fl now bytes g)"
  using assms by (auto simp: receive_frame_def Let_def refs_ok_def split: option.split intro!: goose_sub_listener_inv)

lemma subscriber_start_inv: "subscriber_inv (subscriber_start version iface own f)"
  by (simp add: subscriber_inv_def subscriber_start_def table_ok_def supervised_def MAX_STREAMS_def)

lemma received_inv:
  "received L decode fl g g' \<Longrightarrow> refs_ok decode \<Longrightarrow> subscriber_inv g \<Longrightarrow> subscriber_inv g'"
  by (induction rule: received.induct)
    (auto elim!: goose_sub_loop_stepE intro: check_supervision_inv goose_sub_receive_frame_inv)

text \<open>C2: Whatever frames arrive and whenever the supervision runs, the events of a GOOSE
  subscriber tell one story about each stream: a timeout is never reported twice without a
  recovery between, a recovery only after a timeout, and a stream is marked as timed out exactly
  when the last event about it says so. The table keeps one entry per reference and at most 64.\<close>

theorem goose_supervision_alternates:
  assumes "refs_ok decode" "received L decode fl (subscriber_start version iface own f) g"
  shows "alternates ref (gs_out g) \<and>
    down ref (gs_out g) = (\<exists>s \<in> set (gs_streams g). gocb_ref s = ref \<and> timed_out s) \<and>
    length (gs_streams g) \<le> 64 \<and> distinct (map gocb_ref (gs_streams g))"
  using received_inv [OF assms(2,1) subscriber_start_inv]
  by (simp add: subscriber_inv_def supervised_def table_ok_def MAX_STREAMS_def)

definition sample_message :: goose_message where
  "sample_message = \<lparr>gm_ref = ''G'', gm_tal = 20, gm_dat_set = ''D'', gm_go_id = ''G'', gm_app_id = 0x1001,
     gm_st_num = 1, gm_sq_num = 0, gm_conf_rev = 1, gm_test = False, gm_nds_com = False,
     gm_values = Some [Some (MBoolean True)], gm_timestamp = [0, 0, 0, 0, 0, 0, 0, 0]\<rparr>"

definition sample_frame :: "u8 list" where
  "sample_frame = [1, 12, 205, 1, 0, 1, 2, 0, 0, 0, 0, 9, 0x88, 0xb8, 0x10, 0x01, 0, 8, 0, 0, 0, 0]"

definition sample_filter :: goose_filter where
  "sample_filter = \<lparr>gf_app_id = Some 0x1001, gf_dst = None, gf_gocb = None\<rparr>"

lemma sample_refs_ok: "refs_ok (\<lambda>bytes. Some sample_message)"
  by (simp add: refs_ok_def ref_ok_def sample_message_def)

lemma sample_received:
  "received L decode fl g (check_supervision n2 (receive_frame L decode fl n1 bytes g))"
  by (rule received.step [OF received.step [OF received.start loop_step.frame] loop_step.check])

theorem goose_supervision_alternates_witness:
  "alternates ''G'' (gs_out (check_supervision 200 (receive_frame sample_lib (\<lambda>bytes. Some sample_message)
     sample_filter 100 sample_frame (subscriber_start ''dev'' ''eth0'' [] None))))"
  using goose_supervision_alternates [OF sample_refs_ok sample_received] by blast

text \<open>A supervision check reports exactly the streams whose deadline has passed and that
  were not reported yet, in table order, and marks just those; afterwards no stream is overdue
  and unreported.\<close>

theorem goose_check_complete:
  "gs_streams (check_supervision now g) =
     map (\<lambda>s. if expired now s then s\<lparr>timed_out := True\<rparr> else s) (gs_streams g) \<and>
   gs_out (check_supervision now g) =
     rev (map (\<lambda>s. supervision_event (gocb_ref s) ''timeout'') (filter (expired now) (gs_streams g))) @ gs_out g \<and>
   filter (expired now) (gs_streams (check_supervision now g)) = []"
  by (auto simp: check_supervision_def check_streams_eq filter_empty_conv expired_def)

lemma filter_update_other: "\<not> P x \<Longrightarrow> \<not> P (xs ! i) \<Longrightarrow> filter P (xs[i := x]) = filter P xs"
proof (induction xs arbitrary: i)
  case (Cons y ys)
  then show ?case by (cases i) auto
qed simp

lemma refreshed_deadline:
  assumes "unat now + unat tal < 2 ^ 64" "tal \<noteq> 0"
  shows "unat (deadline_ms (refreshed now tal s)) = unat now + unat tal"
proof -
  have "unat tal < 4294967296" by (rule unat_u32_less)
  then have "unat (ucast tal :: u64) = unat tal" by (simp add: unsigned_ucast_eq take_bit_nat_eq_self)
  with assms show ?thesis by (simp add: refreshed_def unat_word_ariths(1))
qed

text \<open>When the listener takes a message of a stream in a table with room, that stream is
  not timed out any more and its deadline is the time allowed to live after the clock it read, so
  a later check before that deadline does not report it. Of the other streams nothing changes.\<close>

theorem goose_message_refreshes:
  assumes "subscriber_inv g" "ref_ok (gm_ref msg)" "length (gs_streams g) < MAX_STREAMS"
    and "unat now + unat (gm_tal msg) < 2 ^ 64" "gm_tal msg \<noteq> 0"
    and "unat later < unat now + unat (gm_tal msg)"
    and "g' = listener L None now msg g"
  shows "(\<exists>s \<in> set (gs_streams g'). gocb_ref s = gm_ref msg \<and> \<not> timed_out s \<and>
      unat (deadline_ms s) = unat now + unat (gm_tal msg) \<and> \<not> expired later s) \<and>
    filter (\<lambda>s. gocb_ref s \<noteq> gm_ref msg) (gs_streams g') =
      filter (\<lambda>s. gocb_ref s \<noteq> gm_ref msg) (gs_streams g)"
proof -
  have t: "table_ok (gs_streams g)" using assms(1) by (simp add: subscriber_inv_def)
  have r: "gocb_ref (refreshed now (gm_tal msg) s) = gocb_ref s \<and> \<not> timed_out (refreshed now (gm_tal msg) s) \<and>
      unat (deadline_ms (refreshed now (gm_tal msg) s)) = unat now + unat (gm_tal msg) \<and>
      \<not> expired later (refreshed now (gm_tal msg) s)" for s
    using refreshed_deadline [OF assms(4,5), of s] assms(6)
    by (simp add: expired_def word_le_nat_alt) (simp add: refreshed_def)
  show ?thesis
  proof (cases rule: listener_cases [OF t assms(2), of None L now, case_names filtered full known new])
    case (known i s)
    have "gs_streams g' = (gs_streams g)[i := refreshed now (gm_tal msg) s]"
      by (simp add: assms(7) known(4) emit_def)
    moreover have "refreshed now (gm_tal msg) s \<in> set ((gs_streams g)[i := refreshed now (gm_tal msg) s])"
      using known(1) by (rule set_update_memI)
    ultimately show ?thesis using r [of s] known(2,3)
      by (intro conjI bexI [of _ "refreshed now (gm_tal msg) s"]) (simp_all add: filter_update_other)
  next
    case (new s)
    have "gs_streams g' = gs_streams g @ [s]" by (simp add: assms(7) new(5) emit_def)
    with r [of s] new(3,6) show ?thesis by auto
  qed (use assms(3) in simp_all)
qed

theorem goose_message_refreshes_witness:
  "\<exists>s \<in> set (gs_streams (listener sample_lib None 100 sample_message (subscriber_start ''dev'' ''eth0'' [] None))).
     gocb_ref s = ''G'' \<and> unat (deadline_ms s) = 120 \<and> \<not> expired 119 s"
proof -
  have "ref_ok (gm_ref sample_message)" "length (gs_streams (subscriber_start ''dev'' ''eth0'' [] None)) < MAX_STREAMS"
    "unat (100 :: u64) + unat (gm_tal sample_message) < 2 ^ 64" "gm_tal sample_message \<noteq> 0"
    "unat (119 :: u64) < unat (100 :: u64) + unat (gm_tal sample_message)"
    by (simp_all add: sample_message_def ref_ok_def subscriber_start_def MAX_STREAMS_def)
  note this' = goose_message_refreshes [OF subscriber_start_inv this refl, of sample_lib, THEN conjunct1]
  have "gm_ref sample_message = ''G''" "gm_tal sample_message = 20" by (simp_all add: sample_message_def)
  with this' show ?thesis by auto
qed

definition frame_of :: "u8 list \<Rightarrow> u8 list \<Rightarrow> (u8 \<times> u8) option \<Rightarrow> u8 list \<Rightarrow> u8 list" where
  "frame_of dst src tag apdu =
     dst @ src @ (case tag of None \<Rightarrow> [] | Some (a, b) \<Rightarrow> [0x81, 0, a, b]) @ [0x88, 0xb8] @ apdu"

text \<open>The GOOSE subscriber treats a frame with an 802.1Q tag like the same frame without:
  it forwards it exactly when the EtherType is GOOSE's, the APDU has its eight-octet header, and
  the APPID and destination filters, if any, match; it then records both addresses and the
  simulation bit before the receiver sees the frame, and otherwise changes nothing.\<close>

theorem goose_frame_filter:
  assumes "length dst = 6" "length src = 6"
  shows "receive_frame L decode fl now (frame_of dst src tag apdu) g =
    (if 8 \<le> length apdu \<and>
        (gf_app_id fl = None \<or> gf_app_id fl = Some (push_bit 8 (ucast (apdu ! 0)) OR ucast (apdu ! 1))) \<and>
        (gf_dst fl = None \<or> gf_dst fl = Some dst)
     then (let g = g\<lparr>gs_dst := dst, gs_src := src, gs_simulation := apdu ! 4 AND 0x80 \<noteq> 0\<rparr>
           in case decode (frame_of dst src tag apdu) of
                None \<Rightarrow> g
              | Some msg \<Rightarrow> listener L (gf_gocb fl) now msg g)
     else g)"
proof -
  obtain a b c d e f where dst: "dst = [a, b, c, d, e, f]" using assms(1) by (auto simp: eval_nat_numeral length_Suc_conv)
  obtain a' b' c' d' e' f' where src: "src = [a', b', c', d', e', f']"
    using assms(2) by (auto simp: eval_nat_numeral length_Suc_conv)
  define F where "F = frame_of dst src tag apdu"
  define off :: nat where "off = (case tag of None \<Rightarrow> 12 | Some t \<Rightarrow> 16)"
  have F: "ether_offset F = off" "F ! off = 0x88" "F ! (off + 1) = 0xb8" "F ! (off + 2) = apdu ! 0"
    "F ! (off + 2 + 1) = apdu ! 1" "F ! (off + 2 + 4) = apdu ! 4" "length F = off + 2 + length apdu"
    "take 6 F = dst" "take 6 (drop 6 F) = src" "12 \<le> off"
    by (cases tag; force simp: F_def off_def frame_of_def dst src ether_offset_def)+
  have n: "(length F < 14) = False" "(length F < off + 10) = (length apdu < 8)" using F(7,10) by auto
  show ?thesis
    unfolding receive_frame_def Let_def F_def [symmetric] n if_False F(1-6,8,9)
    by (cases "gf_app_id fl"; cases "gf_dst fl") auto
qed

theorem goose_frame_filter_witness:
  "gs_src (receive_frame sample_lib (\<lambda>bytes. None) sample_filter 100
     (frame_of [1, 12, 205, 1, 0, 1] [2, 0, 0, 0, 0, 9] (Some (0x80, 5)) [0x10, 0x01, 0, 8, 0x80, 0, 0, 0])
     (subscriber_start ''dev'' ''eth0'' [] None)) = [2, 0, 0, 0, 0, 9]"
  by (subst goose_frame_filter) (simp_all add: sample_filter_def subscriber_start_def)

end
