(* ===== verification/GooseLink.thy ===== *)
theory GooseLink
  imports GoosePublisher GooseSubscriber
begin

text \<open>
  A GOOSE publisher and a subscriber: the time a frame allows to the next is kept by the publisher's
  main loop, so a subscriber that supervises it reports a timeout when the publisher is gone and
  not before.
\<close>

section \<open>What a publisher puts on the wire, and when\<close>

text \<open>The clock reading last taken in a history, and how long the calls of \<open>select\<close> since then may wait.\<close>

fun reading :: "goose_env \<Rightarrow> goose_call list \<Rightarrow> nat" where
  "reading E [] = 0"
| "reading E (MonotonicTime # cs) = unat (gp_clock E cs)"
| "reading E (c # cs) = reading E cs"

fun waited :: "goose_call list \<Rightarrow> nat" where
  "waited [] = 0"
| "waited (MonotonicTime # cs) = 0"
| "waited (Select ms b # cs) = unat ms + waited cs"
| "waited (c # cs) = waited cs"

text \<open>
  A host that keeps up: its clock does not go back or wrap, and between two readings it moves by at
  most the time \<open>select\<close> was told to wait and \<open>late\<close> ms.
\<close>

fun steady :: "goose_env \<Rightarrow> nat \<Rightarrow> goose_call list \<Rightarrow> bool" where
  "steady E late [] = True"
| "steady E late (MonotonicTime # cs) =
     (steady E late cs \<and> unat (gp_clock E cs) < 2 ^ 63 \<and>
      (MonotonicTime \<in> set cs \<longrightarrow> reading E cs \<le> unat (gp_clock E cs) \<and>
         unat (gp_clock E cs) \<le> reading E cs + waited cs + late))"
| "steady E late (c # cs) = steady E late cs"

text \<open>
  The frames of a history, the newest first: the first reading after each (\<open>r\<close> for what has none
  yet) and the time allowed to live it carries. With \<open>--simulation\<close> the frame on the
  interface is the one the program sends itself.
\<close>

fun frames :: "goose_env \<Rightarrow> nat \<Rightarrow> goose_call list \<Rightarrow> (nat \<times> u32) list" where
  "frames E r [] = []"
| "frames E r (MonotonicTime # cs) = frames E (unat (gp_clock E cs)) cs"
| "frames E r (Publish vs # cs) =
     (if gp_publish E cs = 0 then (r, last_tal cs) # frames E r cs else frames E r cs)"
| "frames E r (SendPacket f # cs) = (r, last_tal cs) # frames E r cs"
| "frames E r (c # cs) = frames E r cs"

text \<open>A library that accepts every frame.\<close>

definition accepts_all :: "goose_env \<Rightarrow> bool" where
  "accepts_all E \<longleftrightarrow> (\<forall>cs. gp_publish E cs = 0 \<and> fst (gp_dump E cs) = 0)"

definition follows :: "nat \<Rightarrow> nat \<times> u32 \<Rightarrow> nat \<times> u32 \<Rightarrow> bool" where
  "follows late y x \<longleftrightarrow> fst x \<le> fst y \<and> fst y \<le> fst x + unat (snd x) div 2 + 2 * late"

text \<open>The history of a publisher that keeps its promise, with \<open>a\<close> its shortest interval.\<close>

definition keeps_time :: "goose_env \<Rightarrow> nat \<Rightarrow> nat \<Rightarrow> goose_call list \<Rightarrow> bool" where
  "keeps_time E a late cs \<longleftrightarrow>
     (frames E 0 cs \<noteq> [] \<longrightarrow> MonotonicTime \<in> set cs) \<and> (\<forall>r. frames E r cs = frames E 0 cs) \<and>
     successively (follows late) (frames E 0 cs) \<and> list_all (\<lambda>f. 2 * a \<le> unat (snd f)) (frames E 0 cs)"

definition next_due :: "goose_env \<Rightarrow> goose_call list \<Rightarrow> nat" where
  "next_due E cs = fst (hd (frames E 0 cs)) + unat (snd (hd (frames E 0 cs))) div 2"

definition schedule_within :: "nat \<Rightarrow> u32 list \<Rightarrow> bool" where
  "schedule_within a steps \<longleftrightarrow> list_all (\<lambda>i. a \<le> unat i \<and> unat i < 2 ^ 31) steps"

definition on_time :: "goose_env \<Rightarrow> nat \<Rightarrow> nat \<Rightarrow> goose_publisher \<Rightarrow> bool" where
  "on_time E a late p \<longleftrightarrow>
     (let cs = gp_calls p in publisher_inv p \<and> schedule_within a (gp_steps p) \<and> keeps_time E a late cs \<and>
        frames E 0 cs \<noteq> [] \<and> fst (hd (frames E 0 cs)) \<le> reading E cs \<and>
        reading E cs + waited cs \<le> next_due E cs \<and> unat (gp_next_ms p) = next_due E cs)"

lemma steady_Cons: "steady E late (c # cs) \<Longrightarrow> steady E late cs"
  by (cases c) auto

lemma steady_suffix: "steady E late (xs @ cs) \<Longrightarrow> steady E late cs"
  by (induction xs) (auto dest: steady_Cons)

lemma publish_calls_sent:
  assumes "accepts_all E" "publish_calls E p cs = (rc, sent)"
  shows "rc = 0" "frames E r (sent @ cs) = (r, last_tal cs) # frames E r cs" "reading E (sent @ cs) = reading E cs"
    "waited (sent @ cs) = waited cs" "MonotonicTime \<in> set (sent @ cs) \<longleftrightarrow> MonotonicTime \<in> set cs"
proof -
  have "gp_publish E cs = 0" "fst (gp_dump E cs) = 0" using assms(1) by (simp_all add: accepts_all_def)
  with assms(2) show "rc = 0" "frames E r (sent @ cs) = (r, last_tal cs) # frames E r cs" "reading E (sent @ cs) = reading E cs"
    "waited (sent @ cs) = waited cs" "MonotonicTime \<in> set (sent @ cs) \<longleftrightarrow> MonotonicTime \<in> set cs"
    by (auto simp: publish_calls_def split: if_splits prod.splits)
qed

lemma interval_within:
  assumes "schedule_within a steps" "steps \<noteq> []"
  shows "a \<le> unat (interval_at steps k)" "unat (2 * interval_at steps k) = 2 * unat (interval_at steps k)"
    "unat (interval_at steps k) < 2 ^ 31"
proof -
  have "interval_at steps k \<in> set steps" using assms(2) by (simp add: interval_at_def min.strict_coboundedI2)
  then show "a \<le> unat (interval_at steps k)" and lt: "unat (interval_at steps k) < 2 ^ 31"
    using assms(1) by (auto simp: schedule_within_def list_all_iff)
  from unat_double [OF lt] show "unat (2 * interval_at steps k) = 2 * unat (interval_at steps k)" by (simp add: mult.commute)
qed

text \<open>A frame sent no later than \<open>late\<close> after it is due keeps the publisher on time.\<close>

lemma send_on_time:
  assumes "publisher_inv p" "schedule_within a (gp_steps p)" "keeps_time E a late (gp_calls p)" "accepts_all E"
    and "send_frame E p = Returns p'" "steady E late (gp_calls p')"
    and "frames E 0 (gp_calls p) \<noteq> [] \<Longrightarrow> fst (hd (frames E 0 (gp_calls p))) \<le> reading E (gp_calls p) \<and>
      reading E (gp_calls p) + waited (gp_calls p) \<le> next_due E (gp_calls p) + late"
  shows "on_time E a late p'"
proof -
  have st: "0 \<le> gp_step p" "gp_steps p \<noteq> []" using assms(1) by (simp_all add: publisher_inv_def)
  obtain interval cs rc sent ev where
    i: "interval = interval_at (gp_steps p) (gp_step p)" and "gp_step p < INT_MAX" and cs: "cs = SetTimeAllowedToLive (2 * interval) # gp_calls p"
    and s: "publish_calls E p cs = (rc, sent)"
    and "ev = (if rc \<noteq> 0 then goose_error ''publish: data set does not fit a GOOSE frame''
           else published_event (gp_st_num p) (gp_sq_num p) (2 * interval))"
    and p': "p' = p\<lparr>gp_sq_num := (if rc \<noteq> 0 then gp_sq_num p else bump (gp_sq_num p)),
      gp_step := gp_step p + 1, gp_calls := MonotonicTime # Emit ev # sent @ cs,
      gp_next_ms := gp_clock E (Emit ev # sent @ cs) + ucast interval\<rparr>"
    by (rule goose_pub_send_frame_Returns [OF assms(5) st])
  note sent = publish_calls_sent [OF assms(4) s]
  define T where "T = unat (gp_clock E (Emit ev # sent @ cs))"
  note iv = interval_within [OF assms(2) st(2), of "gp_step p", folded i]
  have T: "T < 2 ^ 63" "MonotonicTime \<in> set (gp_calls p) \<longrightarrow> reading E (gp_calls p) \<le> T \<and>
      T \<le> reading E (gp_calls p) + waited (gp_calls p) + late"
  proof -
    have "gp_calls p' = MonotonicTime # Emit ev # sent @ cs" by (simp add: p')
    then have "steady E late (MonotonicTime # Emit ev # sent @ cs)" using assms(6) by simp
    then have "T < 2 ^ 63 \<and> (MonotonicTime \<in> set (sent @ cs) \<longrightarrow> reading E (sent @ cs) \<le> T \<and>
      T \<le> reading E (sent @ cs) + waited (sent @ cs) + late)"
      unfolding T_def by (simp only: steady.simps reading.simps waited.simps set_simps insert_iff goose_call.distinct) blast
    then show "T < 2 ^ 63" "MonotonicTime \<in> set (gp_calls p) \<longrightarrow> reading E (gp_calls p) \<le> T \<and>
      T \<le> reading E (gp_calls p) + waited (gp_calls p) + late"
      unfolding sent(3-5) unfolding cs by simp_all
  qed
  have keep: "frames E 0 (gp_calls p) \<noteq> [] \<longrightarrow> MonotonicTime \<in> set (gp_calls p)" "frames E r (gp_calls p) = frames E 0 (gp_calls p)"
    "successively (follows late) (frames E 0 (gp_calls p))" "list_all (\<lambda>f. 2 * a \<le> unat (snd f)) (frames E 0 (gp_calls p))" for r
    using assms(3) by (auto simp: keeps_time_def)
  have fr: "frames E r (gp_calls p') = (T, 2 * interval) # frames E 0 (gp_calls p)" for r
    using sent(2) [of T] keep(2) [of T] by (simp add: p' T_def cs)
  have "follows late (T, 2 * interval) (hd (frames E 0 (gp_calls p)))" if "frames E 0 (gp_calls p) \<noteq> []"
    using assms(7) [OF that] T(2) keep(1) that by (auto simp: follows_def next_due_def)
  then have "successively (follows late) (frames E 0 (gp_calls p'))"
    using keep(3) by (auto simp: fr successively_Cons)
  then have "keeps_time E a late (gp_calls p')"
    using keep(4) iv by (simp add: keeps_time_def fr) (simp add: p')
  moreover have "unat (gp_next_ms p') = T + unat interval"
  proof -
    have "unat (ucast interval :: u64) = unat interval"
      using unat_u32_less [of interval] by (simp add: unsigned_ucast_eq take_bit_nat_eq_self)
    then show ?thesis using T(1) iv(3) by (simp add: p' T_def unat_word_ariths(1))
  qed
  moreover have "reading E (gp_calls p') = T" "waited (gp_calls p') = 0" by (simp_all add: p' T_def)
  moreover have "gp_steps p' = gp_steps p" by (simp add: p')
  ultimately show ?thesis
    using goose_pub_send_frame_inv(1) [OF assms(1,5)] assms(2) by (simp add: on_time_def Let_def fr next_due_def iv(2))
qed

lemma keeps_time_call:
  assumes "keeps_time E a late cs" "c = MonotonicTime \<or> c = IncreaseStNum \<or> (\<exists>j. c = Emit j) \<or> (\<exists>ms b. c = Select ms b)"
  shows "keeps_time E a late (c # cs)" "frames E r (c # cs) = frames E 0 cs"
proof -
  have fr: "frames E r (c # cs) = frames E 0 cs" for r
    using assms by (auto simp: keeps_time_def)
  then show "frames E r (c # cs) = frames E 0 cs" .
  show "keeps_time E a late (c # cs)" using assms(1) by (auto simp: keeps_time_def fr)
qed

lemma on_time_emit: "on_time E a late p \<Longrightarrow> \<not> is_published j \<Longrightarrow> on_time E a late (call (Emit j) p)"
  using keeps_time_call(1) [of E a late "gp_calls p" "Emit j"] goose_pub_emit_inv(1) [of p "Emit j"]
  by (simp add: on_time_def Let_def next_due_def)

lemma send_frame_calls:
  assumes "publisher_inv p" "send_frame E p = Returns p'"
  obtains xs where "gp_calls p' = xs @ gp_calls p"
proof (rule goose_pub_send_frame_Returns [OF assms(2)])
  show "0 \<le> gp_step p" "gp_steps p \<noteq> []" using assms(1) by (simp_all add: publisher_inv_def)
  fix interval cs rc sent ev
  assume "cs = SetTimeAllowedToLive (2 * interval) # gp_calls p"
    "p' = p\<lparr>gp_sq_num := (if rc \<noteq> 0 then gp_sq_num p else bump (gp_sq_num p)),
      gp_step := gp_step p + 1, gp_calls := MonotonicTime # Emit ev # sent @ cs,
      gp_next_ms := gp_clock E (Emit ev # sent @ cs) + ucast interval\<rparr>"
  then show thesis by (intro that [of "MonotonicTime # Emit ev # sent @ [SetTimeAllowedToLive (2 * interval)]"]) simp
qed

text \<open>A publisher that is on time as long as its host keeps up.\<close>

definition keeps_up :: "goose_env \<Rightarrow> nat \<Rightarrow> nat \<Rightarrow> goose_publisher \<Rightarrow> bool" where
  "keeps_up E a late p \<longleftrightarrow> accepts_all E \<and> publisher_inv p \<and> (steady E late (gp_calls p) \<longrightarrow> on_time E a late p)"

lemma keeps_up_state_change:
  assumes "keeps_up E a late p" "state_change E p vs = Returns p'"
  shows "keeps_up E a late p'"
proof -
  let ?q = "call IncreaseStNum (p\<lparr>gp_values := vs\<rparr>)\<lparr>gp_st_num := bump (gp_st_num p), gp_sq_num := 0, gp_step := 0\<rparr>"
  have inv: "publisher_inv p" and acc: "accepts_all E" using assms(1) by (simp_all add: keeps_up_def)
  then have q: "publisher_inv ?q" by (simp add: publisher_inv_def)
  have s: "send_frame E ?q = Returns p'" using assms(2) by (simp add: state_change_def Let_def bump_def split: if_splits)
  obtain xs where "gp_calls p' = xs @ gp_calls ?q" using q s by (rule send_frame_calls)
  then have eq: "gp_calls p' = (xs @ [IncreaseStNum]) @ gp_calls p" by simp
  have "on_time E a late p'" if st: "steady E late (gp_calls p')"
  proof (rule send_on_time [OF q _ _ acc s st])
    have "steady E late (gp_calls p)" using st unfolding eq by (rule steady_suffix)
    then have o: "on_time E a late p" using assms(1) by (simp add: keeps_up_def)
    then show "schedule_within a (gp_steps ?q)" "keeps_time E a late (gp_calls ?q)"
      using keeps_time_call(1) by (auto simp: on_time_def Let_def)
    show "fst (hd (frames E 0 (gp_calls ?q))) \<le> reading E (gp_calls ?q) \<and>
        reading E (gp_calls ?q) + waited (gp_calls ?q) \<le> next_due E (gp_calls ?q) + late"
      using o by (simp add: on_time_def Let_def next_due_def)
  qed
  with inv acc show ?thesis using goose_pub_send_frame_inv(1) [OF q s] by (simp add: keeps_up_def)
qed

lemma keeps_up_emit: "keeps_up E a late p \<Longrightarrow> \<not> is_published j \<Longrightarrow> keeps_up E a late (call (Emit j) p)"
  by (auto simp: keeps_up_def goose_pub_emit_inv intro: on_time_emit)

lemma keeps_up_line:
  "keeps_up E a late p \<Longrightarrow> handle_line L E p l = Returns (p', keep) \<Longrightarrow> keeps_up E a late p'"
  by (auto simp: handle_line_def keeps_up_emit split: option.splits if_splits sum.splits value_error.splits
      intro: keeps_up_state_change)

interpretation goose_prompt: line_client "handle_line L E" line_too_long "keeps_up E a late"
  by unfold_locales (auto simp: line_too_long_def keeps_up_emit intro: keeps_up_line)

text \<open>One turn of the main loop.\<close>

lemma on_time_reading:
  assumes "on_time E a late p" "steady E late (gp_calls (call MonotonicTime p))"
  shows "reading E (gp_calls p) \<le> unat (gp_clock E (gp_calls p))"
    "unat (gp_clock E (gp_calls p)) \<le> next_due E (gp_calls p) + late"
  using assms by (auto simp: on_time_def Let_def keeps_time_def)

lemma keeps_up_due:
  assumes "keeps_up E a late p" "send_frame E (call MonotonicTime p) = Returns p'"
  shows "keeps_up E a late p'"
proof -
  let ?q = "call MonotonicTime p"
  have acc: "accepts_all E" and q: "publisher_inv ?q" using assms(1) by (simp_all add: keeps_up_def publisher_inv_def)
  obtain xs where eq: "gp_calls p' = xs @ gp_calls ?q" using q assms(2) by (rule send_frame_calls)
  have "on_time E a late p'" if st: "steady E late (gp_calls p')"
  proof (rule send_on_time [OF q _ _ acc assms(2) st])
    have sq: "steady E late (gp_calls ?q)" using st unfolding eq by (rule steady_suffix)
    then have o: "on_time E a late p" using assms(1) by (simp add: keeps_up_def)
    then have k: "keeps_time E a late (gp_calls p)" by (simp add: on_time_def Let_def)
    show "schedule_within a (gp_steps ?q)" using o by (simp add: on_time_def Let_def)
    show "keeps_time E a late (gp_calls ?q)" using keeps_time_call(1) [OF k] by simp
    have "frames E 0 (gp_calls ?q) = frames E 0 (gp_calls p)" using keeps_time_call(2) [OF k, of MonotonicTime 0] by simp
    then show "fst (hd (frames E 0 (gp_calls ?q))) \<le> reading E (gp_calls ?q) \<and>
        reading E (gp_calls ?q) + waited (gp_calls ?q) \<le> next_due E (gp_calls ?q) + late"
      using on_time_reading [OF o sq] o by (simp add: on_time_def Let_def next_due_def)
  qed
  with acc show ?thesis using goose_pub_send_frame_inv(1) [OF q assms(2)] by (simp add: keeps_up_def)
qed

lemma keeps_up_select:
  assumes "keeps_up E a late p" "now = gp_clock E (gp_calls p)" "now < gp_next_ms p"
  shows "keeps_up E a late (call (Select (gp_next_ms p - now) b) (call MonotonicTime p))"
proof -
  let ?q = "call MonotonicTime p" and ?r = "call (Select (gp_next_ms p - now) b) (call MonotonicTime p)"
  have "on_time E a late ?r" if st: "steady E late (gp_calls ?r)"
  proof -
    have sq: "steady E late (gp_calls ?q)" using st by simp
    then have o: "on_time E a late p" using assms(1) by (simp add: keeps_up_def)
    then have k: "keeps_time E a late (gp_calls p)" by (simp add: on_time_def Let_def)
    have kq: "keeps_time E a late (gp_calls ?q)" using keeps_time_call(1) [OF k] by simp
    then have kr: "keeps_time E a late (gp_calls ?r)" using keeps_time_call(1) [OF kq] by simp
    have fr: "frames E 0 (gp_calls ?r) = frames E 0 (gp_calls p)"
      using keeps_time_call(2) [OF k, of MonotonicTime 0] by simp
    have "unat (gp_next_ms p - now) = unat (gp_next_ms p) - unat now"
      using assms(3) by (simp add: unat_sub order.strict_implies_order)
    moreover have "unat now < unat (gp_next_ms p)" using assms(3) by (simp add: word_less_nat_alt)
    ultimately show ?thesis
      using on_time_reading(1) [OF o sq] o kr fr assms(2)
      by (simp add: on_time_def Let_def next_due_def publisher_inv_def)
  qed
  with assms(1) show ?thesis by (simp add: keeps_up_def publisher_inv_def)
qed

lemma keeps_up_step:
  assumes "keeps_up E a late (gm_pub m)" "main_step L E m = Returns m'"
  shows "keeps_up E a late (gm_pub m')"
proof (cases "gp_next_ms (gm_pub m) \<le> gp_clock E (gp_calls (gm_pub m))")
  case True
  with assms show ?thesis by (auto simp: main_step_def Let_def dest: keeps_up_due split: if_splits)
next
  case False
  then have "gp_clock E (gp_calls (gm_pub m)) < gp_next_ms (gm_pub m)" by simp
  note select = keeps_up_select [OF assms(1) refl this]
  from assms(2) False select show ?thesis
    by (auto simp: main_step_def Let_def split: if_splits wake.splits dest!: goose_prompt.receive_inv(1) [rotated])
qed

lemma keeps_up_reaches: "reaches L E m m' \<Longrightarrow> keeps_up E a late (gm_pub m) \<Longrightarrow> keeps_up E a late (gm_pub m')"
  by (induction rule: reaches.induct) (auto intro: keeps_up_step)

text \<open>The first frame, and every history of the program.\<close>

lemma schedule_within_build:
  assumes "0 < a" "a \<le> M" "unat M < 2 ^ 31"
  shows "schedule_within (unat a) (build_schedule a M)"
proof -
  have "unat a \<le> unat (build_schedule a M ! k) \<and> unat (build_schedule a M ! k) < 2 ^ 31" if k: "k < length (build_schedule a M)" for k
  proof (cases "k = length (build_schedule a M) - 1")
    case True
    with build_schedule_nth(1) [OF assms(1,2) _ k] assms(2,3) show ?thesis by (simp add: word_le_nat_alt)
  next
    case False
    with k have "k < length (build_schedule a M) - 1" by linarith
    with build_schedule_nth(1,2) [OF assms(1,2) _ k] assms(3) False show ?thesis by simp
  qed
  then show ?thesis by (auto simp: schedule_within_def list_all_length)
qed

lemma publisher_on_time:
  assumes "goose_setup L version socket created src opts = Returns (Inr p)"
    and "0 < go_min_time opts" "go_min_time opts \<le> go_max_time opts" "go_max_time opts < 2 ^ 31"
    and "main_start E p = Returns m0" "reaches L E m0 m" "accepts_all E" "steady E late (gp_calls (gm_pub m))"
  shows "on_time E (nat (go_min_time opts)) late (gm_pub m)"
proof -
  let ?a = "word_of_int (go_min_time opts) :: u32" and ?M = "word_of_int (go_max_time opts) :: u32"
  have wa: "unat ?a = nat (go_min_time opts)" "unat ?M = nat (go_max_time opts)"
    using assms(2-4) by (simp_all add: unsigned_of_int take_bit_int_eq_self)
  then have "0 < ?a" "?a \<le> ?M" "unat ?M < 2 ^ 31" using assms(2-4) by (simp_all add: word_less_nat_alt word_le_nat_alt)
  then have sched: "schedule_within (nat (go_min_time opts)) (gp_steps p)"
    using schedule_within_build [of ?a ?M] wa(1) by (auto intro: goose_setup_cases [OF assms(1)])
  have fr: "frames E r (gp_calls p) = []" for r by (rule goose_setup_cases [OF assms(1)]) simp
  have inv: "publisher_inv p" using assms(1) by (rule goose_setup_inv)
  obtain p' where p': "send_frame E p = Returns p'" and m0: "gm_pub m0 = p'"
    using assms(5) by (cases "send_frame E p") (auto simp: main_start_def)
  have "on_time E (nat (go_min_time opts)) late p'" if "steady E late (gp_calls p')"
    by (rule send_on_time [OF inv sched _ assms(7) p' that]) (simp_all add: keeps_time_def fr)
  then have "keeps_up E (nat (go_min_time opts)) late (gm_pub m0)"
    using assms(7) goose_pub_send_frame_inv(1) [OF inv p'] by (simp add: keeps_up_def m0)
  with assms(6) have "keeps_up E (nat (go_min_time opts)) late (gm_pub m)" by (rule keeps_up_reaches)
  with assms(8) show ?thesis by (simp add: keeps_up_def)
qed

section \<open>What a subscriber sees of it\<close>

text \<open>A message the receiver hands to the listener, or a check of the supervision, with the clock.\<close>

datatype heard = Arrives u64 goose_message | Checks u64

fun heard_at :: "heard \<Rightarrow> nat" where
  "heard_at (Arrives now msg) = unat now"
| "heard_at (Checks now) = unat now"

fun hears :: "value_lib \<Rightarrow> string option \<Rightarrow> heard list \<Rightarrow> goose_subscriber \<Rightarrow> goose_subscriber" where
  "hears L f [] g = g"
| "hears L f (Arrives now msg # hs) g = hears L f hs (listener L f now msg g)"
| "hears L f (Checks now # hs) g = hears L f hs (check_supervision now g)"

text \<open>The messages of one stream.\<close>

fun messages :: "string \<Rightarrow> heard list \<Rightarrow> (nat \<times> u32) list" where
  "messages ref [] = []"
| "messages ref (Arrives now msg # hs) =
     (if gm_ref msg = ref then (unat now, gm_tal msg) # messages ref hs else messages ref hs)"
| "messages ref (Checks now # hs) = messages ref hs"

fun refs_fit :: "heard list \<Rightarrow> bool" where
  "refs_fit [] = True"
| "refs_fit (Arrives now msg # hs) = (ref_ok (gm_ref msg) \<and> refs_fit hs)"
| "refs_fit (Checks now # hs) = refs_fit hs"

text \<open>Every check comes before the deadline the last message of the stream has set.\<close>

fun in_time :: "string \<Rightarrow> nat option \<Rightarrow> heard list \<Rightarrow> bool" where
  "in_time ref D [] = True"
| "in_time ref D (Arrives now msg # hs) =
     (if gm_ref msg = ref
      then gm_tal msg \<noteq> 0 \<and> unat now + unat (gm_tal msg) < 2 ^ 64 \<and> in_time ref (Some (unat now + unat (gm_tal msg))) hs
      else in_time ref D hs)"
| "in_time ref D (Checks now # hs) = ((case D of None \<Rightarrow> True | Some d \<Rightarrow> unat now < d) \<and> in_time ref D hs)"

definition deadline_after :: "string \<Rightarrow> nat option \<Rightarrow> heard list \<Rightarrow> nat option" where
  "deadline_after ref D hs =
     (if messages ref hs = [] then D else Some (fst (last (messages ref hs)) + unat (snd (last (messages ref hs)))))"

text \<open>A subscriber that has not reported a timeout of the stream and has its deadline.\<close>

definition alive :: "string \<Rightarrow> nat option \<Rightarrow> goose_subscriber \<Rightarrow> bool" where
  "alive ref D g \<longleftrightarrow> subscriber_inv g \<and> supervision_event ref ''timeout'' \<notin> set (gs_out g) \<and>
     (\<forall>s \<in> set (gs_streams g). gocb_ref s = ref \<longrightarrow> \<not> timed_out s \<and> deadline_ms s \<noteq> 0 \<and> D = Some (unat (deadline_ms s)))"

lemma event_not_supervision [simp]:
  "supervision_event r s \<noteq> goose_event L g msg" "supervision_event r s \<noteq> goose_ready v r' i m c"
  using other_event_neq by metis+

lemma alive_check:
  assumes "alive ref D g" "case D of None \<Rightarrow> True | Some d \<Rightarrow> unat now < d"
  shows "alive ref D (check_supervision now g)"
proof -
  have ne: "\<not> expired now s" if "s \<in> set (gs_streams g)" "gocb_ref s = ref" for s
    using assms that by (auto simp: alive_def expired_def word_le_nat_alt)
  have streams: "gs_streams (check_supervision now g) = map (\<lambda>s. if expired now s then s\<lparr>timed_out := True\<rparr> else s) (gs_streams g)"
    and out: "gs_out (check_supervision now g) =
      rev (map (\<lambda>s. supervision_event (gocb_ref s) ''timeout'') (filter (expired now) (gs_streams g))) @ gs_out g"
    by (simp_all add: check_supervision_def check_streams_eq)
  have "subscriber_inv (check_supervision now g)" using assms(1) by (intro check_supervision_inv) (simp add: alive_def)
  moreover have "supervision_event ref ''timeout'' \<notin> set (gs_out (check_supervision now g))"
    using assms(1) ne by (auto simp: out alive_def)
  ultimately show ?thesis using assms(1) ne by (auto simp: alive_def streams)
qed

lemma alive_listener:
  assumes "alive ref D g" "ref_ok (gm_ref msg)" "f = None \<or> f = Some ref"
    and "gm_ref msg = ref \<Longrightarrow> gm_tal msg \<noteq> 0 \<and> unat now + unat (gm_tal msg) < 2 ^ 64"
  shows "alive ref (if gm_ref msg = ref then Some (unat now + unat (gm_tal msg)) else D) (listener L f now msg g)"
proof -
  have inv: "subscriber_inv g" and t: "table_ok (gs_streams g)" and quiet: "supervision_event ref ''timeout'' \<notin> set (gs_out g)"
    and old: "\<And>s. s \<in> set (gs_streams g) \<Longrightarrow> gocb_ref s = ref \<Longrightarrow> \<not> timed_out s \<and> deadline_ms s \<noteq> 0 \<and> D = Some (unat (deadline_ms s))"
    using assms(1) by (auto simp: alive_def subscriber_inv_def)
  have inv': "subscriber_inv (listener L f now msg g)" using inv assms(2) by (rule goose_sub_listener_inv)
  have r: "\<not> timed_out (refreshed now (gm_tal msg) s) \<and> deadline_ms (refreshed now (gm_tal msg) s) \<noteq> 0 \<and>
      unat (deadline_ms (refreshed now (gm_tal msg) s)) = unat now + unat (gm_tal msg)" if "gm_ref msg = ref" for s
  proof -
    from assms(4) [OF that] have tal: "gm_tal msg \<noteq> 0" "unat now + unat (gm_tal msg) < 2 ^ 64" by simp_all
    have "unat (gm_tal msg) \<noteq> 0" using tal(1) by (simp add: unat_eq_0)
    with refreshed_deadline [OF tal(2,1), of s] show ?thesis by (auto simp: refreshed_def)
  qed
  show ?thesis
  proof (cases rule: listener_cases [OF t assms(2), of f L now, case_names filtered full known new])
    case (filtered h)
    with assms(3) have "gm_ref msg \<noteq> ref" by auto
    with assms(1) filtered show ?thesis by simp
  next
    case full
    then have "\<forall>s \<in> set (gs_streams g). gocb_ref s = ref \<longrightarrow> gm_ref msg \<noteq> ref" by auto
    with inv' quiet old show ?thesis unfolding alive_def full(3) by (auto simp: emit_def)
  next
    case (known i s)
    have "distinct (map gocb_ref (gs_streams g))" using t by (simp add: table_ok_def)
    then have other: "j = i" if "j < length (gs_streams g)" "gocb_ref (gs_streams g ! j) = gm_ref msg" for j
      using that known(1-3) by (metis distinct_conv_nth length_map nth_map)
    have streams: "gs_streams (listener L f now msg g) = (gs_streams g)[i := refreshed now (gm_tal msg) s]"
      by (simp add: known(4) emit_def)
    have "\<not> timed_out x \<and> deadline_ms x \<noteq> 0 \<and> (if gm_ref msg = ref then Some (unat now + unat (gm_tal msg)) else D) = Some (unat (deadline_ms x))"
      if x: "x \<in> set (gs_streams (listener L f now msg g))" "gocb_ref x = ref" for x
    proof -
      from x(1) obtain j where j: "j < length (gs_streams g)" "x = (gs_streams g)[i := refreshed now (gm_tal msg) s] ! j"
        by (auto simp: streams in_set_conv_nth)
      show ?thesis
      proof (cases "j = i")
        case True
        with j x(2) known(3) r show ?thesis by (auto simp: refreshed_def)
      next
        case False
        with j have x': "x = gs_streams g ! j" by simp
        then have "gm_ref msg \<noteq> ref" using other j(1) False x(2) by auto
        with old [of x] j(1) x' x(2) show ?thesis by simp
      qed
    qed
    moreover have "supervision_event ref ''timeout'' \<notin> set (gs_out (listener L f now msg g))"
      using quiet by (auto simp: known(4) emit_def)
    ultimately show ?thesis using inv' by (simp add: alive_def)
  next
    case (new s)
    have "gs_streams (listener L f now msg g) = gs_streams g @ [s]" "gs_out (listener L f now msg g) = goose_event L g msg # gs_out g"
      by (simp_all add: new(5) emit_def)
    moreover have "gm_ref msg \<noteq> ref" if "x \<in> set (gs_streams g)" "gocb_ref x = ref" for x
      using that new(1) by auto
    ultimately show ?thesis using inv' quiet old r [of s] new(3,6) by (auto simp: alive_def)
  qed
qed

lemma alive_hears:
  assumes "alive ref D g" "in_time ref D hs" "refs_fit hs" "f = None \<or> f = Some ref"
  shows "alive ref (deadline_after ref D hs) (hears L f hs g)"
  using assms(1-3)
proof (induction hs arbitrary: D g)
  case (Cons h hs)
  show ?case
  proof (cases h)
    case (Arrives now msg)
    with Cons.prems have "alive ref (if gm_ref msg = ref then Some (unat now + unat (gm_tal msg)) else D) (listener L f now msg g)"
      by (intro alive_listener assms(4)) auto
    from Cons.IH [OF this] Cons.prems(2,3) Arrives show ?thesis by (auto simp: deadline_after_def split: if_splits)
  next
    case (Checks now)
    with Cons.prems have "alive ref D (check_supervision now g)" by (intro alive_check) auto
    moreover have "deadline_after ref D (h # hs) = deadline_after ref D hs" by (simp add: deadline_after_def Checks)
    ultimately show ?thesis using Cons.IH Cons.prems(2,3) by (simp add: Checks)
  qed
qed (simp add: deadline_after_def)

section \<open>The two together\<close>

text \<open>A frame as it arrives: within \<open>d\<close> ms of the publisher's reading, with its time allowed to live.\<close>

definition arrives_as :: "nat \<Rightarrow> nat \<times> u32 \<Rightarrow> nat \<times> u32 \<Rightarrow> bool" where
  "arrives_as d x y \<longleftrightarrow> snd y = snd x \<and> fst y \<le> fst x + d \<and> fst x \<le> fst y + d"

lemma messages_later:
  "sorted (map heard_at hs) \<Longrightarrow> \<forall>h \<in> set hs. t \<le> heard_at h \<Longrightarrow> y \<in> set (messages ref hs) \<Longrightarrow> t \<le> fst y"
proof (induction hs)
  case (Cons h hs)
  then show ?case by (cases h) (auto split: if_splits)
qed simp

lemma in_time_frames:
  assumes "2 * (late + d) < a"
  shows "successively (\<lambda>x y. follows late y x) (x # fs) \<Longrightarrow> list_all (\<lambda>f. 2 * a \<le> unat (snd f)) (x # fs) \<Longrightarrow>
    arrives_as d x y \<Longrightarrow> list_all2 (arrives_as d) fs (messages ref hs) \<Longrightarrow> sorted (map heard_at hs) \<Longrightarrow>
    list_all (\<lambda>h. heard_at h \<le> fst (last (x # fs)) + unat (snd (last (x # fs))) div 2 + d \<and> heard_at h < 2 ^ 63 + 2 ^ 32) hs \<Longrightarrow>
    in_time ref (Some (fst y + unat (snd y))) hs"
proof (induction hs arbitrary: x y fs)
  case (Cons h hs)
  show ?case
  proof (cases h)
    case (Checks now)
    have "unat now < fst y + unat (snd y)"
    proof (cases fs)
      case Nil
      with Cons.prems assms show ?thesis by (auto simp: Checks arrives_as_def)
    next
      case (Cons z zs)
      with Cons.prems(4) obtain n ns where n: "messages ref hs = n # ns" "arrives_as d z n"
        by (auto simp: Checks list_all2_Cons1)
      have "unat now \<le> fst n"
        by (rule messages_later [of hs _ _ ref]) (use Cons.prems(5) n(1) in \<open>auto simp: Checks\<close>)
      with Cons.prems(1-3) n(2) Cons assms show ?thesis by (auto simp: arrives_as_def follows_def)
    qed
    with Cons show ?thesis by (auto simp: Checks)
  next
    case (Arrives now msg)
    show ?thesis
    proof (cases "gm_ref msg = ref")
      case False
      with Cons show ?thesis by (auto simp: Arrives)
    next
      case True
      with Cons.prems(4) obtain z zs where z: "fs = z # zs" "arrives_as d z (unat now, gm_tal msg)"
        "list_all2 (arrives_as d) zs (messages ref hs)" by (auto simp: Arrives list_all2_Cons2)
      have "0 < a" using assms by simp
      moreover have "2 * a \<le> unat (gm_tal msg)" using Cons.prems(2) z(1,2) by (simp add: arrives_as_def)
      ultimately have "gm_tal msg \<noteq> 0" by auto
      moreover have "unat now + unat (gm_tal msg) < 2 ^ 64"
        using Cons.prems(6) unat_u32_less [of "gm_tal msg"] by (simp add: Arrives)
      moreover have "in_time ref (Some (fst (unat now, gm_tal msg) + unat (snd (unat now, gm_tal msg)))) hs"
        by (rule Cons.IH [OF _ _ z(2,3)]) (use Cons.prems z(1) in \<open>auto simp: Arrives\<close>)
      ultimately show ?thesis by (simp add: Arrives True)
    qed
  qed
qed simp

lemma in_time_from_start:
  assumes "2 * (late + d) < a"
  shows "successively (\<lambda>x y. follows late y x) fs \<Longrightarrow> list_all (\<lambda>f. 2 * a \<le> unat (snd f)) fs \<Longrightarrow>
    list_all2 (arrives_as d) fs (messages ref hs) \<Longrightarrow> sorted (map heard_at hs) \<Longrightarrow>
    list_all (\<lambda>h. (fs \<noteq> [] \<longrightarrow> heard_at h \<le> fst (last fs) + unat (snd (last fs)) div 2 + d) \<and> heard_at h < 2 ^ 63 + 2 ^ 32) hs \<Longrightarrow>
    in_time ref None hs"
proof (induction hs)
  case (Cons h hs)
  show ?case
  proof (cases h)
    case (Checks now)
    with Cons show ?thesis by simp
  next
    case (Arrives now msg)
    show ?thesis
    proof (cases "gm_ref msg = ref")
      case False
      with Cons show ?thesis by (simp add: Arrives)
    next
      case True
      with Cons.prems(3) obtain z zs where z: "fs = z # zs" "arrives_as d z (unat now, gm_tal msg)"
        "list_all2 (arrives_as d) zs (messages ref hs)" by (auto simp: Arrives list_all2_Cons2)
      have "0 < a" using assms by simp
      moreover have "2 * a \<le> unat (gm_tal msg)" using Cons.prems(2) z(1,2) by (simp add: arrives_as_def)
      ultimately have "gm_tal msg \<noteq> 0" by auto
      moreover have "unat now + unat (gm_tal msg) < 2 ^ 64"
        using Cons.prems(5) unat_u32_less [of "gm_tal msg"] by (simp add: Arrives)
      moreover have "in_time ref (Some (fst (unat now, gm_tal msg) + unat (snd (unat now, gm_tal msg)))) hs"
        by (rule in_time_frames [OF assms _ _ z(2,3)]) (use Cons.prems z(1) in \<open>auto simp: Arrives\<close>)
      ultimately show ?thesis by (simp add: Arrives True)
    qed
  qed
qed simp

lemma reading_bound: "steady E late cs \<Longrightarrow> reading E cs < 2 ^ 63"
  by (induction E cs rule: reading.induct) (auto dest: steady_Cons)

text \<open>What the subscriber hears of the publisher keeps the stream alive; without it, the stream times out.\<close>

lemma goose_link_heard:
  assumes "goose_setup L version socket created src opts = Returns (Inr p)"
    and "0 < go_min_time opts" "go_min_time opts \<le> go_max_time opts" "go_max_time opts < 2 ^ 31"
    and "main_start E p = Returns m0" "reaches L E m0 m" "accepts_all E"
    and "steady E late (gp_calls (gm_pub m))" "2 * (late + d) < nat (go_min_time opts)"
    and "sent = frames E 0 (gp_calls (gm_pub m))" "list_all2 (arrives_as d) (rev sent) (messages ref hs)"
    and "sorted (map heard_at hs)" "list_all (\<lambda>h. heard_at h \<le> reading E (gp_calls (gm_pub m)) + d) hs"
    and "refs_fit hs" "f = None \<or> f = Some ref" "g = hears Ls f hs (subscriber_start ver iface own f)"
  shows "supervision_event ref ''timeout'' \<notin> set (gs_out g) \<and> sent \<noteq> [] \<and>
    (\<forall>t. ref \<in> gocb_ref ` set (gs_streams g) \<and> fst (hd sent) + unat (snd (hd sent)) + d \<le> unat t \<longrightarrow>
      supervision_event ref ''timeout'' \<in> set (gs_out (check_supervision t g)))"
proof -
  let ?a = "nat (go_min_time opts)" and ?cs = "gp_calls (gm_pub m)"
  have o: "on_time E ?a late (gm_pub m)" by (rule publisher_on_time [OF assms(1-8)])
  then have ne: "sent \<noteq> []" and spaced: "successively (\<lambda>x y. follows late y x) (rev sent)"
    and tal: "list_all (\<lambda>f. 2 * ?a \<le> unat (snd f)) (rev sent)"
    and due: "reading E ?cs \<le> fst (last (rev sent)) + unat (snd (last (rev sent))) div 2"
    by (simp_all add: on_time_def Let_def keeps_time_def next_due_def assms(10) last_rev)
  have "d < 2 ^ 31" using assms(3,4,9) by (simp add: zless_nat_eq_int_zless)
  then have "list_all (\<lambda>h. (rev sent \<noteq> [] \<longrightarrow> heard_at h \<le> fst (last (rev sent)) + unat (snd (last (rev sent))) div 2 + d) \<and>
      heard_at h < 2 ^ 63 + 2 ^ 32) hs"
    using assms(13) due reading_bound [OF assms(8)] by (fastforce simp: list_all_iff)
  with assms(9,11,12) spaced tal have "in_time ref None hs" by (intro in_time_from_start)
  moreover have "alive ref None (subscriber_start ver iface own f)"
    using subscriber_start_inv [of ver iface own f] by (auto simp: alive_def subscriber_start_def)
  ultimately have alive: "alive ref (deadline_after ref None hs) g"
    unfolding assms(16) using assms(14,15) by (intro alive_hears)
  have "list_all2 (arrives_as d) sent (rev (messages ref hs))" using assms(11) by (simp add: list_all2_rev1)
  then have "arrives_as d (hd sent) (last (messages ref hs)) \<and> messages ref hs \<noteq> []"
    using ne by (cases sent) (auto simp: list_all2_Cons1 hd_rev [symmetric])
  then have "\<exists>D. deadline_after ref None hs = Some D \<and> D \<le> fst (hd sent) + unat (snd (hd sent)) + d"
    by (auto simp: deadline_after_def arrives_as_def)
  then have "supervision_event ref ''timeout'' \<in> set (gs_out (check_supervision t g))"
    if "ref \<in> gocb_ref ` set (gs_streams g)" "fst (hd sent) + unat (snd (hd sent)) + d \<le> unat t" for t
    using that alive
    by (fastforce simp: alive_def check_supervision_def check_streams_eq expired_def word_le_nat_alt)
  with alive ne show ?thesis by (simp add: alive_def)
qed

section \<open>A pair\<close>

text \<open>A clock that moves while the program waits, and not otherwise.\<close>

fun elapsed :: "goose_call list \<Rightarrow> nat" where
  "elapsed [] = 0"
| "elapsed (Select ms b # cs) = elapsed cs + unat ms"
| "elapsed (c # cs) = elapsed cs"

definition link_env :: goose_env where
  "link_env = \<lparr>gp_publish = (\<lambda>cs. 0), gp_dump = (\<lambda>cs. (0, [])), gp_clock = (\<lambda>cs. of_nat (elapsed cs)),
     gp_wake = (\<lambda>cs. Timeout)\<rparr>"

lemma link_accepts: "accepts_all link_env"
  by (simp add: accepts_all_def link_env_def)

lemma link_send:
  assumes "0 \<le> gp_step p" "gp_step p < INT_MAX" "gp_steps p \<noteq> []" "\<not> gp_raw p"
    and "interval_at (gp_steps p) (gp_step p) = interval"
  shows "send_frame link_env p = Returns (p\<lparr>gp_sq_num := bump (gp_sq_num p), gp_step := gp_step p + 1,
    gp_calls := MonotonicTime # Emit (published_event (gp_st_num p) (gp_sq_num p) (2 * interval)) #
      Publish (gp_values p) # SetTimeAllowedToLive (2 * interval) # gp_calls p,
    gp_next_ms := of_nat (elapsed (gp_calls p)) + ucast interval\<rparr>)"
  using send_frame_eq [OF assms(1-3) assms(5) [symmetric] refl, of link_env 0 "[Publish (gp_values p)]", OF _ refl] assms(4)
  by (simp add: publish_calls_def link_env_def)

lemma sample_intervals: "interval_at (build_schedule 10 1000) 0 = 10" "interval_at (build_schedule 10 1000) 1 = 20"
proof -
  have "build_schedule 10 1000 = 10 # 20 # schedule_loop 40 1000 (Suc (Suc 0)) @ [1000]"
    by (simp add: build_schedule_simple schedule_loop.simps [of 10] schedule_loop.simps [of 20] MAX_STEPS_def)
  then show "interval_at (build_schedule 10 1000) 0 = 10" "interval_at (build_schedule 10 1000) 1 = 20"
    by (simp_all add: interval_at_def)
qed

lemma link_run:
  obtains m0 m1 m where "main_start link_env sample_publisher = Returns m0" "main_step sample_goose_lib link_env m0 = Returns m1"
    "main_step sample_goose_lib link_env m1 = Returns m" "reaches sample_goose_lib link_env m0 m"
    "frames link_env 0 (gp_calls (gm_pub m)) = [(10, 40), (0, 20)]" "steady link_env 0 (gp_calls (gm_pub m))"
    "reading link_env (gp_calls (gm_pub m)) = 10"
proof -
  let ?p = sample_publisher
  have steps: "gp_steps ?p = build_schedule 10 1000" "build_schedule 10 1000 \<noteq> []"
    using build_schedule_length [of 10 1000] by (auto simp: sample_publisher_def)
  have p: "gp_step ?p = 0" "\<not> gp_raw ?p" "elapsed (gp_calls ?p) = 0" "steady link_env 0 (gp_calls ?p)"
    "MonotonicTime \<notin> set (gp_calls ?p)" "frames link_env r (gp_calls ?p) = []" "gp_st_num ?p = 1" "gp_sq_num ?p = 0" for r
    by (simp_all add: sample_publisher_def)
  define p1 where "p1 = ?p\<lparr>gp_sq_num := 1, gp_step := 1, gp_calls := MonotonicTime # Emit (published_event 1 0 20) #
      Publish (gp_values ?p) # SetTimeAllowedToLive 20 # gp_calls ?p, gp_next_ms := 10\<rparr>"
  have s1: "send_frame link_env ?p = Returns p1"
    using link_send [of ?p 10] p steps sample_intervals(1) by (simp add: INT_MAX_def p1_def bump_def)
  define m0 where "m0 = \<lparr>gm_pub = p1, gm_line = [], gm_stdin_open = True, gm_running = True\<rparr>"
  define q where "q = call (Select 10 True) (call MonotonicTime p1)"
  define m1 where "m1 = m0\<lparr>gm_pub := q\<rparr>"
  have e1: "elapsed (gp_calls p1) = 0" "elapsed (gp_calls q) = 10" using p(3) by (simp_all add: p1_def q_def)
  have 0: "main_start link_env ?p = Returns m0" by (simp add: main_start_def s1 m0_def)
  have "gp_next_ms p1 = 10" by (simp add: p1_def)
  then have 1: "main_step sample_goose_lib link_env m0 = Returns m1"
    using e1(1) by (simp add: main_step_def m0_def m1_def q_def Let_def link_env_def)
  define p2 where "p2 = (call MonotonicTime q)\<lparr>gp_sq_num := bump (gp_sq_num q), gp_step := 2,
    gp_calls := MonotonicTime # Emit (published_event (gp_st_num q) (gp_sq_num q) 40) #
      Publish (gp_values q) # SetTimeAllowedToLive 40 # MonotonicTime # gp_calls q, gp_next_ms := 30\<rparr>"
  have q: "gp_step q = 1" "gp_steps q = build_schedule 10 1000" "\<not> gp_raw q" "gp_next_ms q = 10"
    using p(2) steps(1) by (simp_all add: q_def p1_def)
  have s2: "send_frame link_env (call MonotonicTime q) = Returns p2"
    using link_send [of "call MonotonicTime q" 20] q steps(2) sample_intervals(2) e1(2) by (simp add: INT_MAX_def p2_def)
  define m where "m = m1\<lparr>gm_pub := p2\<rparr>"
  have 2: "main_step sample_goose_lib link_env m1 = Returns m"
    using e1(2) q(4) s2 by (simp add: main_step_def m1_def m_def m0_def Let_def link_env_def)
  have reach: "reaches sample_goose_lib link_env m0 m"
    by (rule reaches.turn [OF reaches.turn [OF reaches.start _ 1] _ 2]) (simp_all add: m0_def m1_def)
  have calls: "gp_calls (gm_pub m) = MonotonicTime # Emit (published_event (gp_st_num q) (gp_sq_num q) 40) #
      Publish (gp_values q) # SetTimeAllowedToLive 40 # MonotonicTime # Select 10 True # MonotonicTime #
      MonotonicTime # Emit (published_event 1 0 20) # Publish (gp_values ?p) # SetTimeAllowedToLive 20 # gp_calls ?p"
    by (simp add: m_def p2_def) (simp add: q_def p1_def)
  have "frames link_env 0 (gp_calls (gm_pub m)) = [(10, 40), (0, 20)]" "steady link_env 0 (gp_calls (gm_pub m))"
    "reading link_env (gp_calls (gm_pub m)) = 10"
    unfolding calls using p by (simp_all add: link_env_def)
  with 0 1 2 reach show thesis by (rule that)
qed

definition link_message :: "u32 \<Rightarrow> goose_message" where
  "link_message tal = sample_message\<lparr>gm_tal := tal\<rparr>"

definition link_heard :: "heard list" where
  "link_heard = [Checks 0, Arrives 1 (link_message 20), Checks 8, Arrives 11 (link_message 40), Checks 12]"

end
