(* ===== verification/FrameLoop.thy ===== *)
theory FrameLoop
  imports Prelude
begin

text \<open>
  The raw socket both subscribers read: \<open>goose_subscriber.c\<close> and \<open>sv_subscriber.c\<close> drop what arrived
  before they were ready, and then alternate between what is due at a clock and taking the frames
  that are there. What is due and what becomes of a frame are an interface: what the client keeps
  of its invariant, the loop keeps.
\<close>

section \<open>Calls\<close>

datatype net_call =
    CreateSocket string
  | ProtocolFilter u16
  | ReceiveBuffer int
  | ReceivePacket
  | CreateReceiver
  | AddObserver
  | NoDestAddrCheck
  | InterfaceMAC string
  | AddSocket
  | WaitReady nat
  | MonotonicTime

text \<open>
  What the network, the clock and a signal handler answer, given the calls before: \<open>ne_frame\<close> is the
  frame \<open>Ethernet_receivePacket\<close> stores, none where it returns 0 or less. \<open>ne_socket\<close>: whether a raw
  socket on the interface is given; \<open>ne_mac\<close>: the address of the interface.
\<close>

record net_env =
  ne_socket :: "string \<Rightarrow> bool"
  ne_mac :: "string \<Rightarrow> u8 list"
  ne_frame :: "net_call list \<Rightarrow> u8 list"
  ne_ready :: "net_call list \<Rightarrow> int"
  ne_clock :: "net_call list \<Rightarrow> u64"
  ne_signalled :: "net_call list \<Rightarrow> bool"

text \<open>\<open>while (Ethernet_receivePacket(...) > 0) ;\<close> None is a loop that does not end.\<close>

partial_function (option) drain :: "net_env \<Rightarrow> net_call list \<Rightarrow> net_call list option" where
  "drain E cs = (if ne_frame E cs = [] then Some (ReceivePacket # cs) else drain E (ReceivePacket # cs))"

section \<open>The loop\<close>

text \<open>The state of the loop: before \<open>while (g_running)\<close>, or in the inner loop over the frames.\<close>

record 'g frame_loop =
  fl_draining :: bool
  fl_running :: bool
  fl_state :: 'g
  fl_calls :: "net_call list"

definition loop_turn ::
  "(u64 \<Rightarrow> 'g \<Rightarrow> 'g) \<Rightarrow> (u64 \<Rightarrow> u8 list \<Rightarrow> 'g \<Rightarrow> 'g outcome) \<Rightarrow> net_env \<Rightarrow> 'g frame_loop \<Rightarrow> 'g frame_loop outcome" where
  "loop_turn check receive E s =
     (if fl_draining s
      then let frame = ne_frame E (fl_calls s); cs = ReceivePacket # fl_calls s; s = s\<lparr>fl_calls := cs\<rparr>
           in if frame = [] then Returns (s\<lparr>fl_draining := False\<rparr>)
              else bind_outcome (receive (ne_clock E cs) frame (fl_state s)) (\<lambda>g. Returns (s\<lparr>fl_state := g\<rparr>))
      else if ne_signalled E (fl_calls s) then Returns (s\<lparr>fl_running := False\<rparr>)
      else let now = ne_clock E (fl_calls s); cs = MonotonicTime # fl_calls s
           in Returns (s\<lparr>fl_state := check now (fl_state s), fl_draining := 0 < ne_ready E cs, fl_calls := WaitReady 10 # cs\<rparr>))"

inductive loop_reaches ::
  "(u64 \<Rightarrow> 'g \<Rightarrow> 'g) \<Rightarrow> (u64 \<Rightarrow> u8 list \<Rightarrow> 'g \<Rightarrow> 'g outcome) \<Rightarrow> net_env \<Rightarrow> 'g frame_loop \<Rightarrow> 'g frame_loop \<Rightarrow> bool"
  for check receive E s where
  start: "loop_reaches check receive E s s"
| turn: "loop_reaches check receive E s s' \<Longrightarrow> fl_running s' \<Longrightarrow> loop_turn check receive E s' = Returns s'' \<Longrightarrow>
    loop_reaches check receive E s s''"

text \<open>
  What comes of starting a program: the text of a meta flag, the code and message it exits with, frames that
  arrive faster than they can be dropped, or its loop.
\<close>

datatype 'r sub_start = Answers string | Exits "int \<times> string" | NeverReady | Runs 'r

definition loop_start :: "'g \<Rightarrow> net_call list \<Rightarrow> 'g frame_loop" where
  "loop_start g cs = \<lparr>fl_draining = False, fl_running = True, fl_state = g, fl_calls = AddSocket # cs\<rparr>"

section \<open>A run and its events\<close>

text \<open>What happened since the socket was added to the handles, oldest first.\<close>

datatype frame_event = CheckAt u64 | FrameAt u64 "u8 list"

fun events_of :: "net_env \<Rightarrow> net_call list \<Rightarrow> frame_event list" where
  "events_of E [] = []"
| "events_of E (AddSocket # cs) = []"
| "events_of E (MonotonicTime # cs) = events_of E cs @ [CheckAt (ne_clock E cs)]"
| "events_of E (ReceivePacket # cs) = events_of E cs @
     (if ne_frame E cs = [] then [] else [FrameAt (ne_clock E (ReceivePacket # cs)) (ne_frame E cs)])"
| "events_of E (c # cs) = events_of E cs"

fun run_events ::
  "(u64 \<Rightarrow> 'g \<Rightarrow> 'g) \<Rightarrow> (u64 \<Rightarrow> u8 list \<Rightarrow> 'g \<Rightarrow> 'g outcome) \<Rightarrow> frame_event list \<Rightarrow> 'g \<Rightarrow> 'g outcome" where
  "run_events check receive [] g = Returns g"
| "run_events check receive (CheckAt now # evs) g = run_events check receive evs (check now g)"
| "run_events check receive (FrameAt now frame # evs) g =
     bind_outcome (receive now frame g) (run_events check receive evs)"

lemma run_events_append:
  "run_events check receive (evs @ evs') g =
   bind_outcome (run_events check receive evs g) (run_events check receive evs')"
proof (induction evs arbitrary: g)
  case (Cons ev evs)
  show ?case
  proof (cases ev)
    case (FrameAt now frame)
    then show ?thesis by (cases "receive now frame g") (simp_all add: Cons)
  qed (simp add: Cons)
qed simp

text \<open>The state is that of the events in their order: nothing is taken twice, left out or reordered.\<close>

lemma loop_events:
  assumes "loop_reaches check receive E (loop_start g cs) s"
  shows "run_events check receive (events_of E (fl_calls s)) g = Returns (fl_state s)"
  using assms
proof (induction rule: loop_reaches.induct)
  case start
  then show ?case by (simp add: loop_start_def)
next
  case (turn s' s'')
  show ?case
  proof (cases "fl_draining s' \<and> ne_frame E (fl_calls s') \<noteq> []")
    case True
    with turn obtain g' where "receive (ne_clock E (ReceivePacket # fl_calls s')) (ne_frame E (fl_calls s')) (fl_state s') = Returns g'"
      "s'' = s'\<lparr>fl_calls := ReceivePacket # fl_calls s', fl_state := g'\<rparr>"
      by (cases "receive (ne_clock E (ReceivePacket # fl_calls s')) (ne_frame E (fl_calls s')) (fl_state s')")
        (auto simp: loop_turn_def)
    with turn True show ?thesis by (simp add: run_events_append)
  next
    case False
    with turn show ?thesis by (auto simp: loop_turn_def Let_def run_events_append split: if_splits)
  qed
qed

locale frame_client =
  fixes check :: "u64 \<Rightarrow> 'g \<Rightarrow> 'g"
    and receive :: "u64 \<Rightarrow> u8 list \<Rightarrow> 'g \<Rightarrow> 'g outcome"
    and inv :: "'g \<Rightarrow> bool"
  assumes check_inv: "inv g \<Longrightarrow> inv (check now g)"
    and receive_inv: "inv g \<Longrightarrow> receive now frame g = Returns g' \<Longrightarrow> inv g'"
begin

lemma turn_inv: "inv (fl_state s) \<Longrightarrow> loop_turn check receive E s = Returns s' \<Longrightarrow> inv (fl_state s')"
  by (cases "receive (ne_clock E (ReceivePacket # fl_calls s)) (ne_frame E (fl_calls s)) (fl_state s)")
    (auto simp: loop_turn_def Let_def check_inv split: if_splits intro: receive_inv)

lemma loop_inv: "loop_reaches check receive E s s' \<Longrightarrow> inv (fl_state s) \<Longrightarrow> inv (fl_state s')"
  by (induction rule: loop_reaches.induct) (auto intro: turn_inv)

end

section \<open>Waiting for the first pause\<close>

text \<open>The frames that arrived before end with the first read that finds none.\<close>

lemma drain_Some: "drain E cs = Some ds \<Longrightarrow> \<exists>n. ds = ReceivePacket # replicate n ReceivePacket @ cs"
proof (induction rule: drain.raw_induct [rotated, consumes 1])
  case (1 dr E cs ds)
  show ?case
  proof (cases "ne_frame E cs = []")
    case True
    with 1(2) show ?thesis by (intro exI [of _ 0]) simp
  next
    case False
    with 1(2) have "dr E (ReceivePacket # cs) = Some ds" by simp
    from 1(1) [OF this] obtain n where "ds = ReceivePacket # replicate n ReceivePacket @ ReceivePacket # cs" by blast
    then have "ds = ReceivePacket # replicate (Suc n) ReceivePacket @ cs" by (simp add: replicate_app_Cons_same)
    then show ?thesis by blast
  qed
qed

lemma drain_returns: "ne_frame E (replicate n ReceivePacket @ cs) = [] \<Longrightarrow> \<exists>ds. drain E cs = Some ds"
proof (induction n arbitrary: cs)
  case 0
  then show ?case by (simp add: drain.simps)
next
  case (Suc n)
  then have "\<exists>ds. drain E (ReceivePacket # cs) = Some ds" by (simp add: replicate_app_Cons_same)
  then show ?case by (simp add: drain.simps [of E cs])
qed

text \<open>
  While frames keep coming, the inner loop does not end: nothing that is due at a clock is done and
  no signal is looked at, for any number of turns.
\<close>

lemma busy_loop:
  assumes "\<And>cs. ne_frame E cs \<noteq> []"
  shows "loop_reaches check receive E s s' \<Longrightarrow> fl_draining s \<Longrightarrow> fl_running s \<Longrightarrow>
    fl_draining s' \<and> fl_running s' \<and> (\<exists>n. fl_calls s' = replicate n ReceivePacket @ fl_calls s)"
proof (induction rule: loop_reaches.induct)
  case start
  then show ?case by (auto intro: exI [of _ 0])
next
  case (turn s' s'')
  then obtain n g where "fl_draining s'" "fl_calls s' = replicate n ReceivePacket @ fl_calls s"
    "s'' = s'\<lparr>fl_calls := ReceivePacket # fl_calls s', fl_state := g\<rparr>"
    using assms by (cases "receive (ne_clock E (ReceivePacket # fl_calls s')) (ne_frame E (fl_calls s')) (fl_state s')")
      (auto simp: loop_turn_def)
  with turn show ?case by (auto intro: exI [of _ "Suc n"])
qed

end
