(* ===== verification/JsonLines.thy ===== *)
theory JsonLines
  imports CText
begin

text \<open>
  \<open>jsonlines.h\<close>: the ready event every program prints once it serves requests, and the two
  flags answered before anything else. \<open>version\<close> is what \<open>getenv("ADAPTER_VERSION")\<close> returns.
\<close>

definition adapter_version :: "string option \<Rightarrow> string" where
  "adapter_version version = (case version of None \<Rightarrow> ''dev'' | Some v \<Rightarrow> v)"

definition jl_ready :: "string option \<Rightarrow> string \<Rightarrow> string \<Rightarrow> string \<Rightarrow> string option \<Rightarrow> string" where
  "jl_ready version addr fixture adapter ied_name =
     ''{\"event\":\"ready\",\"address\":\"'' @ addr @ ''\",'' @
     ''\"fixture\":\"'' @ fixture @ ''\",\"adapter\":\"'' @ adapter @
     ''\",\"version\":\"'' @ adapter_version version @ ''\",'' @
     ''\"ied_name\":\"'' @ (case ied_name of None \<Rightarrow> [] | Some n \<Rightarrow> n) @ ''\"}'' @ [CHR 0x0A]"

definition capabilities :: "string \<Rightarrow> string \<Rightarrow> string" where
  "capabilities version commands =
     ''{\"event\":\"capabilities\",\"adapterVersion\":\"'' @ version @ ''\",'' @
     ''\"fixtureRevision\":\"iec61850-v3\",'' @
     ''\"commands\":['' @ commands @ '']}'' @ [CHR 0x0A]"

text \<open>What goes to stderr: a log line, and the last words of a program with its exit code.\<close>

definition jl_log :: "string \<Rightarrow> string" where
  "jl_log msg = msg @ [CHR 0x0A]"

definition jl_fatal :: "int \<Rightarrow> string \<Rightarrow> int \<times> string" where
  "jl_fatal status msg = (status, msg @ [CHR 0x0A])"

text \<open>What is printed before the program exits with 0; None when it goes on. \<open>argv\<close> holds the program's name.\<close>

definition jl_handle_meta_flags :: "string option \<Rightarrow> string list \<Rightarrow> string \<Rightarrow> string option" where
  "jl_handle_meta_flags version argv adapter_image =
     (if length argv < 2 then None
      else if argv ! 1 = ''--version'' then
        Some (''{\"event\":\"version\",\"adapterVersion\":\"'' @ adapter_version version @ ''\",'' @
          ''\"fixtureRevision\":\"iec61850-v3\"}'' @ [CHR 0x0A])
      else if argv ! 1 = ''--capabilities'' then
        Some (capabilities (adapter_version version)
          (if adapter_image = ''libiec61850'' then
             ''\"libiec61850-mms-server\",\"libiec61850-mms-client\",'' @
             ''\"libiec61850-ied-server\",\"libiec61850-ied-client\",'' @
             ''\"libiec61850-ied-controller\",\"libiec61850-ied-reporter\",'' @
             ''\"libiec61850-goose-publisher\",\"libiec61850-goose-subscriber\",'' @
             ''\"libiec61850-sv-publisher\",\"libiec61850-sv-subscriber\"''
           else
             ''\"iec61850bean-ied-server\",\"iec61850bean-ied-client\",'' @
             ''\"iec61850bean-ied-controller\",\"iec61850bean-ied-reporter\"''))
      else None)"

end
