(* ===== verification/GooseRun.thy ===== *)
theory GooseRun
  imports GooseLink FrameLoop JsonLines
begin

text \<open>
  The main function of \<open>goose_subscriber.c\<close> over its raw socket, and a whole run of publisher and
  subscriber: the frames the subscriber's loop takes are those the supervision is kept with.
\<close>

section \<open>The program\<close>

definition goose_sub_main ::
  "string option \<Rightarrow> net_env \<Rightarrow> string list \<Rightarrow> (goose_filter \<times> goose_subscriber frame_loop) sub_start" where
  "goose_sub_main version E argv =
     (case jl_handle_meta_flags version argv ''libiec61850'' of
        Some t \<Rightarrow> Answers t
      | None \<Rightarrow>
          (case GooseSubscriber.parse_args goose_sub_defaults (drop 1 argv) of
             Inl e \<Rightarrow> Exits (jl_fatal 1 e)
           | Inr opts \<Rightarrow>
               let iface = gso_iface opts; fl = gso_filter opts
               in if \<not> ne_socket E iface
                  then Exits (jl_fatal 1 (''goose-subscriber: raw socket on '' @ iface @ '' failed (needs CAP_NET_RAW)''))
                  else (case drain E [ProtocolFilter 0x88b8, CreateSocket iface] of
                          None \<Rightarrow> NeverReady
                        | Some cs \<Rightarrow>
                            Runs (fl, loop_start
                              (GooseSubscriber.subscriber_start (adapter_version version) iface (ne_mac E iface) (gf_gocb fl))
                              (InterfaceMAC iface # AddObserver # CreateReceiver # cs)))))"

text \<open>What the loop does with a clock and with a frame.\<close>

definition goose_receive ::
  "value_lib \<Rightarrow> (u8 list \<Rightarrow> goose_message option) \<Rightarrow> goose_filter \<Rightarrow> u64 \<Rightarrow> u8 list \<Rightarrow>
   goose_subscriber \<Rightarrow> goose_subscriber outcome" where
  "goose_receive L decode fl now frame g = Returns (GooseSubscriber.receive_frame L decode fl now frame g)"

text \<open>The runs of the loop are runs of the step relation.\<close>

interpretation goose_frames: frame_client check_supervision "goose_receive L decode fl" "received L decode fl g0"
  by unfold_locales (auto simp: goose_receive_def intro: received.step loop_step.check loop_step.frame)

lemma goose_loop_received:
  "loop_reaches check_supervision (goose_receive L decode fl) E (loop_start g cs) s \<Longrightarrow>
   received L decode fl g (fl_state s)"
  by (drule goose_frames.loop_inv) (simp_all add: loop_start_def received.start)

text \<open>A turn never stops on undefined behaviour.\<close>

lemma goose_turn_total: "\<exists>s'. loop_turn check_supervision (goose_receive L decode fl) E s = Returns s'"
  by (simp add: loop_turn_def goose_receive_def Let_def)

section \<open>The frames that count\<close>

definition accepted :: "goose_filter \<Rightarrow> u8 list \<Rightarrow> bool" where
  "accepted fl frame \<longleftrightarrow> 14 \<le> length frame \<and> ether_offset frame + 10 \<le> length frame \<and>
     frame ! ether_offset frame = 0x88 \<and> frame ! (ether_offset frame + 1) = 0xb8 \<and>
     (case gf_app_id fl of None \<Rightarrow> True
      | Some a \<Rightarrow> push_bit 8 (ucast (frame ! (ether_offset frame + 2))) OR ucast (frame ! (ether_offset frame + 3)) = a) \<and>
     (case gf_dst fl of None \<Rightarrow> True | Some d \<Rightarrow> take 6 frame = d)"

text \<open>What the supervision hears of a run: the checks and the messages of accepted frames.\<close>

fun heard_in :: "(u8 list \<Rightarrow> goose_message option) \<Rightarrow> goose_filter \<Rightarrow> frame_event list \<Rightarrow> heard list" where
  "heard_in decode fl [] = []"
| "heard_in decode fl (CheckAt now # evs) = Checks now # heard_in decode fl evs"
| "heard_in decode fl (FrameAt now frame # evs) =
     (case (if accepted fl frame then decode frame else None) of
        None \<Rightarrow> heard_in decode fl evs
      | Some msg \<Rightarrow> Arrives now msg # heard_in decode fl evs)"

text \<open>The streams and the supervision events, that is all but the header of the last frame.\<close>

definition is_supervision :: "json \<Rightarrow> bool" where
  "is_supervision j \<longleftrightarrow> (\<exists>ref state. j = supervision_event ref state)"

definition supervision_of :: "goose_subscriber \<Rightarrow> stream list \<times> json list" where
  "supervision_of g = (gs_streams g, filter is_supervision (gs_out g))"

lemma is_supervision_simps [simp]:
  "is_supervision (supervision_event r s)" "\<not> is_supervision (goose_event L g msg)"
  by (auto simp: is_supervision_def)

lemma supervision_of_header [simp]:
  "supervision_of (g\<lparr>gs_dst := d, gs_src := s, gs_simulation := b\<rparr>) = supervision_of g"
  by (simp add: supervision_of_def)

lemma supervision_of_check:
  "supervision_of g = supervision_of g' \<Longrightarrow> supervision_of (check_supervision now g) = supervision_of (check_supervision now g')"
  by (simp add: supervision_of_def check_supervision_def split: prod.split)

lemma supervision_of_listener:
  "supervision_of g = supervision_of g' \<Longrightarrow> supervision_of (GooseSubscriber.listener L f now msg g) =
    supervision_of (GooseSubscriber.listener L f now msg g')"
  by (auto simp: supervision_of_def GooseSubscriber.listener_def GooseSubscriber.emit_def Let_def split: prod.split option.split)

lemma receive_frame_accepted:
  "GooseSubscriber.receive_frame L decode fl now frame g =
    (if accepted fl frame
     then (let g = g\<lparr>gs_dst := take 6 frame, gs_src := take 6 (drop 6 frame),
                    gs_simulation := frame ! (ether_offset frame + 6) AND 0x80 \<noteq> 0\<rparr>
           in case decode frame of None \<Rightarrow> g | Some msg \<Rightarrow> GooseSubscriber.listener L (gf_gocb fl) now msg g)
     else g)"
  by (auto simp: GooseSubscriber.receive_frame_def accepted_def Let_def eval_nat_numeral split: option.split)

lemma supervision_of_frame:
  assumes "supervision_of g = supervision_of g'"
  shows "supervision_of (GooseSubscriber.receive_frame L decode fl now frame g) =
    supervision_of (hears L (gf_gocb fl) (heard_in decode fl [FrameAt now frame]) g')"
  using assms by (auto simp: receive_frame_accepted Let_def split: option.split intro!: supervision_of_listener)

lemma hears_append: "hears L f (hs @ hs') g = hears L f hs' (hears L f hs g)"
  by (induction L f hs g rule: hears.induct) auto

lemma heard_in_append: "heard_in decode fl (evs @ evs') = heard_in decode fl evs @ heard_in decode fl evs'"
  by (induction decode fl evs rule: heard_in.induct) (auto split: option.split)

lemma run_events_hears:
  "run_events check_supervision (goose_receive L decode fl) evs g = Returns r \<Longrightarrow> supervision_of g = supervision_of g' \<Longrightarrow>
    supervision_of r = supervision_of (hears L (gf_gocb fl) (heard_in decode fl evs) g')"
proof (induction evs arbitrary: g g')
  case (Cons ev evs)
  show ?case
  proof (cases ev)
    case (CheckAt now)
    then show ?thesis using Cons.IH [OF _ supervision_of_check [OF Cons.prems(2)]] Cons.prems(1) by simp
  next
    case (FrameAt now frame)
    have "heard_in decode fl (ev # evs) = heard_in decode fl [FrameAt now frame] @ heard_in decode fl evs"
      using heard_in_append [of decode fl "[ev]" evs] FrameAt by simp
    then show ?thesis
      using Cons.IH [OF _ supervision_of_frame [OF Cons.prems(2)]] Cons.prems(1) FrameAt
      by (simp add: goose_receive_def hears_append)
  qed
qed simp

section \<open>The two together\<close>

lemma supervision_in: "supervision_event r s \<in> set (gs_out g) \<longleftrightarrow> supervision_event r s \<in> set (snd (supervision_of g))"
  by (auto simp: supervision_of_def)

lemma heard_in_refs: "refs_ok decode \<Longrightarrow> refs_fit (heard_in decode fl evs)"
  by (induction decode fl evs rule: heard_in.induct) (auto simp: refs_ok_def split: option.split)

lemma goose_sub_main_Runs:
  assumes "goose_sub_main version E argv = Runs (fl, s0)"
  obtains iface cs where
    "s0 = loop_start (GooseSubscriber.subscriber_start (adapter_version version) iface (ne_mac E iface) (gf_gocb fl)) cs"
  using assms by (auto simp: goose_sub_main_def Let_def split: option.splits sum.splits if_splits)

text \<open>The state of a run is that of the messages and checks heard, in their order.\<close>

lemma goose_run_hears:
  assumes "goose_sub_main version E argv = Runs (fl, s0)"
    and "loop_reaches check_supervision (goose_receive L decode fl) E s0 s"
  obtains iface own where "supervision_of (fl_state s) = supervision_of (hears L (gf_gocb fl)
    (heard_in decode fl (events_of E (fl_calls s)))
    (GooseSubscriber.subscriber_start (adapter_version version) iface own (gf_gocb fl)))"
  using goose_sub_main_Runs [OF assms(1)] assms(2) run_events_hears [OF loop_events refl] by metis

text \<open>C6: A subscriber does not lose a publisher that is there, and loses one that is gone, from
  main function to main function. Let a publisher with a minimum time above 0 and a maximum below
  \<open>2 ^ 31\<close> ms run with any commands and a library that accepts its frames, on a host that takes at
  most \<open>late\<close> ms between clock readings besides waiting; let the subscriber's loop take each frame
  within \<open>d\<close> ms of the reading after it, and let \<open>2 * (late + d)\<close> be below the minimum time. With any
  other frames and checks in between, up to \<open>d\<close> ms after the publisher's last reading, the
  subscriber has reported no timeout of the stream. If its next turn checks the supervision once the
  time the last frame allowed and \<open>d\<close> ms have passed, that turn reports it, provided the table had
  room for the stream.\<close>

theorem goose_link:
  assumes "goose_setup L version socket created src opts = Returns (Inr p)"
    and "0 < go_min_time opts" "go_min_time opts \<le> go_max_time opts" "go_max_time opts < 2 ^ 31"
    and "GoosePublisher.main_start E p = Returns m0" "GoosePublisher.reaches L E m0 m" "accepts_all E"
    and "steady E late (gp_calls (gm_pub m))" "2 * (late + d) < nat (go_min_time opts)"
    and "sent = frames E 0 (gp_calls (gm_pub m))"
    and "goose_sub_main sub_version N argv = Runs (fl, s0)"
    and "loop_reaches check_supervision (goose_receive Ls decode fl) N s0 s"
    and "hs = heard_in decode fl (events_of N (fl_calls s))" "list_all2 (arrives_as d) (rev sent) (messages ref hs)"
    and "sorted (map heard_at hs)" "list_all (\<lambda>h. heard_at h \<le> reading E (gp_calls (gm_pub m)) + d) hs"
    and "refs_ok decode" "gf_gocb fl = None \<or> gf_gocb fl = Some ref"
  shows "supervision_event ref ''timeout'' \<notin> set (gs_out (fl_state s)) \<and> sent \<noteq> [] \<and>
    (\<forall>s'. \<not> fl_draining s \<and> \<not> ne_signalled N (fl_calls s) \<and> ref \<in> gocb_ref ` set (gs_streams (fl_state s)) \<and>
        fst (hd sent) + unat (snd (hd sent)) + d \<le> unat (ne_clock N (fl_calls s)) \<and>
        loop_turn check_supervision (goose_receive Ls decode fl) N s = Returns s' \<longrightarrow>
      supervision_event ref ''timeout'' \<in> set (gs_out (fl_state s')))"
proof -
  obtain iface own where same: "supervision_of (fl_state s) = supervision_of (hears Ls (gf_gocb fl) hs
      (GooseSubscriber.subscriber_start (adapter_version sub_version) iface own (gf_gocb fl)))" (is "_ = supervision_of ?g")
    using goose_run_hears [OF assms(11,12)] assms(13) by metis
  have streams: "gs_streams (fl_state s) = gs_streams ?g" using same by (simp add: supervision_of_def)
  note link = goose_link_heard [OF assms(1-10,14-16) heard_in_refs [OF assms(17), of fl "events_of N (fl_calls s)", folded assms(13)]
      assms(18) refl, where Ls = Ls and ver = "adapter_version sub_version" and iface = iface and own = own]
  have check: "supervision_event ref ''timeout'' \<in> set (gs_out (check_supervision t (fl_state s)))"
    if "supervision_event ref ''timeout'' \<in> set (gs_out (check_supervision t ?g))" for t
    using that supervision_of_check [OF same, of t] by (simp add: supervision_in)
  have "supervision_event ref ''timeout'' \<in> set (gs_out (fl_state s'))"
    if "\<not> fl_draining s" "\<not> ne_signalled N (fl_calls s)" "ref \<in> gocb_ref ` set (gs_streams (fl_state s))"
      "fst (hd sent) + unat (snd (hd sent)) + d \<le> unat (ne_clock N (fl_calls s))"
      "loop_turn check_supervision (goose_receive Ls decode fl) N s = Returns s'" for s'
  proof -
    have "fl_state s' = check_supervision (ne_clock N (fl_calls s)) (fl_state s)"
      using that(1,2,5) by (auto simp: loop_turn_def Let_def)
    then show ?thesis using link that(3,4) check by (simp add: streams)
  qed
  moreover have "supervision_event ref ''timeout'' \<notin> set (gs_out (fl_state s))"
    using link same by (simp add: supervision_in)
  ultimately show ?thesis using link by blast
qed

section \<open>A pair\<close>

text \<open>
  A network seen from the subscriber, by the number of calls before: two frames arrive, the time to live is
  their last octet.
\<close>

definition link_net :: net_env where
  "link_net = \<lparr>ne_socket = (\<lambda>i. True), ne_mac = (\<lambda>i. [2, 0, 0, 0, 0, 2]),
     ne_frame = (\<lambda>cs. if length cs = 9 then sample_frame @ [20] else if length cs = 13 then sample_frame @ [40] else []),
     ne_ready = (\<lambda>cs. if length cs \<in> {8, 12} then 1 else 0),
     ne_clock = (\<lambda>cs. if length cs < 10 then 0 else if length cs = 10 then 1 else if length cs = 11 then 8
                      else if length cs = 14 then 11 else if length cs = 15 then 12 else 52),
     ne_signalled = (\<lambda>cs. False)\<rparr>"

definition link_decode :: "u8 list \<Rightarrow> goose_message option" where
  "link_decode frame = Some (link_message (ucast (last frame)))"

definition link_start :: "goose_subscriber frame_loop" where
  "link_start = loop_start (GooseSubscriber.subscriber_start ''dev'' ''eth0'' [2, 0, 0, 0, 0, 2] None)
     [InterfaceMAC ''eth0'', AddObserver, CreateReceiver, ReceivePacket, ProtocolFilter 0x88b8, CreateSocket ''eth0'']"

abbreviation link_filter :: goose_filter where
  "link_filter \<equiv> \<lparr>gf_app_id = None, gf_dst = None, gf_gocb = None\<rparr>"

abbreviation link_turn :: "goose_subscriber frame_loop \<Rightarrow> goose_subscriber frame_loop outcome" where
  "link_turn \<equiv> loop_turn check_supervision (goose_receive sample_lib link_decode link_filter) link_net"

lemma link_main: "goose_sub_main None link_net [''goose-subscriber''] = Runs (link_filter, link_start)"
proof -
  have "drain link_net [ProtocolFilter 0x88b8, net_call.CreateSocket ''eth0''] =
      Some [ReceivePacket, ProtocolFilter 0x88b8, net_call.CreateSocket ''eth0'']"
    by (subst drain.simps) (simp add: link_net_def)
  moreover have "ne_socket link_net i" "ne_mac link_net i = [2, 0, 0, 0, 0, 2]" for i by (simp_all add: link_net_def)
  ultimately show ?thesis
    by (simp add: goose_sub_main_def jl_handle_meta_flags_def goose_sub_defaults_def adapter_version_def link_start_def Let_def)
qed

lemma link_decode_refs: "refs_ok link_decode"
  by (simp add: refs_ok_def link_decode_def link_message_def sample_message_def ref_ok_def)

text \<open>A state of that run after \<open>n\<close> calls.\<close>

definition link_reached :: "nat \<Rightarrow> bool \<Rightarrow> frame_event list \<Rightarrow> goose_subscriber frame_loop \<Rightarrow> bool" where
  "link_reached n busy evs s \<longleftrightarrow>
     loop_reaches check_supervision (goose_receive sample_lib link_decode link_filter) link_net link_start s \<and>
     fl_running s \<and> fl_draining s = busy \<and> length (fl_calls s) = n \<and> events_of link_net (fl_calls s) = evs"

lemma link_check:
  assumes "link_reached n False evs s"
  shows "\<exists>t. link_reached (n + 2) (n \<in> {7, 11}) (evs @ [CheckAt (ne_clock link_net (replicate n ReceivePacket))]) t"
proof -
  let ?t = "s\<lparr>fl_state := check_supervision (ne_clock link_net (fl_calls s)) (fl_state s),
      fl_draining := n \<in> {7, 11}, fl_calls := WaitReady 10 # MonotonicTime # fl_calls s\<rparr>"
  have "link_turn s = Returns ?t" using assms by (simp add: link_reached_def loop_turn_def Let_def link_net_def)
  moreover have "ne_clock link_net (fl_calls s) = ne_clock link_net (replicate n ReceivePacket)"
    using assms by (simp add: link_reached_def link_net_def)
  ultimately show ?thesis
    using assms by (intro exI [of _ ?t]) (auto simp: link_reached_def intro: loop_reaches.turn)
qed

lemma link_frame:
  assumes "link_reached n True evs s" "n \<in> {9, 13}"
  shows "\<exists>t. link_reached (n + 1) True (evs @ [FrameAt (ne_clock link_net (replicate (Suc n) ReceivePacket))
    (ne_frame link_net (replicate n ReceivePacket))]) t"
proof -
  have f: "ne_frame link_net (fl_calls s) \<noteq> []" "ne_frame link_net (fl_calls s) = ne_frame link_net (replicate n ReceivePacket)"
    "ne_clock link_net (ReceivePacket # fl_calls s) = ne_clock link_net (replicate (Suc n) ReceivePacket)"
    using assms by (auto simp: link_reached_def link_net_def)
  obtain g where "link_turn s = Returns (s\<lparr>fl_calls := ReceivePacket # fl_calls s, fl_state := g\<rparr>)"
    using assms f(1) by (auto simp: link_reached_def loop_turn_def Let_def goose_receive_def)
  then show ?thesis using assms f
    by (intro exI [of _ "s\<lparr>fl_calls := ReceivePacket # fl_calls s, fl_state := g\<rparr>"])
      (auto simp: link_reached_def intro: loop_reaches.turn)
qed

lemma link_none:
  assumes "link_reached n True evs s" "n \<notin> {9, 13}"
  shows "\<exists>t. link_reached (n + 1) False evs t"
proof -
  have f: "ne_frame link_net (fl_calls s) = []" using assms by (auto simp: link_reached_def link_net_def)
  then have "link_turn s = Returns (s\<lparr>fl_calls := ReceivePacket # fl_calls s, fl_draining := False\<rparr>)"
    using assms by (simp add: link_reached_def loop_turn_def)
  then show ?thesis using assms f
    by (intro exI [of _ "s\<lparr>fl_calls := ReceivePacket # fl_calls s, fl_draining := False\<rparr>"])
      (auto simp: link_reached_def intro: loop_reaches.turn)
qed

lemma link_net_reached:
  obtains s where "link_reached 17 False
    [CheckAt 0, FrameAt 1 (sample_frame @ [20]), CheckAt 8, FrameAt 11 (sample_frame @ [40]), CheckAt 12] s"
proof -
  have "link_reached 7 False [] link_start"
    by (simp add: link_reached_def link_start_def loop_start_def loop_reaches.start)
  from link_check [OF this] obtain s1 where "link_reached 9 True [CheckAt 0] s1" by (auto simp: link_net_def)
  from link_frame [OF this] obtain s2 where "link_reached 10 True [CheckAt 0, FrameAt 1 (sample_frame @ [20])] s2"
    by (auto simp: link_net_def)
  from link_none [OF this] obtain s3 where "link_reached 11 False [CheckAt 0, FrameAt 1 (sample_frame @ [20])] s3" by auto
  from link_check [OF this] obtain s4 where "link_reached 13 True [CheckAt 0, FrameAt 1 (sample_frame @ [20]), CheckAt 8] s4"
    by (auto simp: link_net_def)
  from link_frame [OF this] obtain s5 where "link_reached 14 True
      [CheckAt 0, FrameAt 1 (sample_frame @ [20]), CheckAt 8, FrameAt 11 (sample_frame @ [40])] s5" by (auto simp: link_net_def)
  from link_none [OF this] obtain s6 where "link_reached 15 False
      [CheckAt 0, FrameAt 1 (sample_frame @ [20]), CheckAt 8, FrameAt 11 (sample_frame @ [40])] s6" by auto
  from link_check [OF this] obtain s7 where "link_reached 17 False
      [CheckAt 0, FrameAt 1 (sample_frame @ [20]), CheckAt 8, FrameAt 11 (sample_frame @ [40]), CheckAt 12] s7"
    by (auto simp: link_net_def)
  then show thesis by (rule that)
qed

lemma link_accepted: "accepted link_filter (sample_frame @ [ttl])"
  by (simp add: accepted_def ether_offset_def sample_frame_def)

theorem goose_link_witness:
  "\<exists>m0 m1 m s. GoosePublisher.main_start link_env sample_publisher = Returns m0 \<and>
     GoosePublisher.main_step sample_goose_lib link_env m0 = Returns m1 \<and>
     GoosePublisher.main_step sample_goose_lib link_env m1 = Returns m \<and>
     loop_reaches check_supervision (goose_receive sample_lib link_decode link_filter) link_net link_start s \<and>
     supervision_event ''G'' ''timeout'' \<notin> set (gs_out (fl_state s)) \<and>
     (\<exists>s'. link_turn s = Returns s' \<and> supervision_event ''G'' ''timeout'' \<in> set (gs_out (fl_state s')))"
proof -
  obtain m0 m1 m where r: "GoosePublisher.main_start link_env sample_publisher = Returns m0"
    "GoosePublisher.main_step sample_goose_lib link_env m0 = Returns m1"
    "GoosePublisher.main_step sample_goose_lib link_env m1 = Returns m" "GoosePublisher.reaches sample_goose_lib link_env m0 m"
    "frames link_env 0 (gp_calls (gm_pub m)) = [(10, 40), (0, 20)]" "steady link_env 0 (gp_calls (gm_pub m))"
    "reading link_env (gp_calls (gm_pub m)) = 10" by (rule link_run)
  obtain s where reached: "link_reached 17 False
      [CheckAt 0, FrameAt 1 (sample_frame @ [20]), CheckAt 8, FrameAt 11 (sample_frame @ [40]), CheckAt 12] s"
    by (rule link_net_reached)
  then have s: "loop_reaches check_supervision (goose_receive sample_lib link_decode link_filter) link_net link_start s"
    "\<not> fl_draining s" "length (fl_calls s) = 17"
    "heard_in link_decode link_filter (events_of link_net (fl_calls s)) = link_heard"
    using link_accepted by (simp_all add: link_reached_def link_heard_def link_decode_def)
  have o: "0 < go_min_time sample_goose_opts" "go_min_time sample_goose_opts \<le> go_max_time sample_goose_opts"
    "go_max_time sample_goose_opts < 2 ^ 31" "2 * (0 + 2) < nat (go_min_time sample_goose_opts)"
    by (simp_all add: sample_goose_opts_def goose_defaults_def)
  have hs: "list_all2 (arrives_as 2) (rev [(10, 40), (0, 20)]) (messages ''G'' link_heard)" "sorted (map heard_at link_heard)"
    "list_all (\<lambda>h. heard_at h \<le> reading link_env (gp_calls (gm_pub m)) + 2) link_heard"
    using r(7) by (simp_all add: link_heard_def link_message_def sample_message_def arrives_as_def)
  note link = goose_link [OF sample_setup o(1-3) r(1,4) link_accepts r(6) o(4) r(5) [symmetric] link_main s(1) s(4) [symmetric]
      hs link_decode_refs]
  obtain iface own where same: "supervision_of (fl_state s) = supervision_of (hears sample_lib None link_heard
      (GooseSubscriber.subscriber_start (adapter_version None) iface own None))"
    using goose_run_hears [OF link_main s(1)] s(4) by (metis goose_filter.select_convs(3))
  have "''G'' \<in> gocb_ref ` set (gs_streams (hears sample_lib None link_heard
      (GooseSubscriber.subscriber_start (adapter_version None) iface own None)))"
    by (simp add: link_heard_def GooseSubscriber.subscriber_start_def check_supervision_def GooseSubscriber.listener_def
        GooseSubscriber.stream_for_def GooseSubscriber.emit_def link_message_def sample_message_def
        GooseSubscriber.MAX_STREAMS_def Let_def expired_def)
  then have "''G'' \<in> gocb_ref ` set (gs_streams (fl_state s))" using same by (simp add: supervision_of_def)
  moreover obtain s' where "link_turn s = Returns s'" using goose_turn_total by blast
  moreover have "\<not> ne_signalled link_net (fl_calls s)" "unat (ne_clock link_net (fl_calls s)) = 52"
    using s(3) by (simp_all add: link_net_def)
  ultimately have "supervision_event ''G'' ''timeout'' \<notin> set (gs_out (fl_state s)) \<and> link_turn s = Returns s' \<and>
      supervision_event ''G'' ''timeout'' \<in> set (gs_out (fl_state s'))" using link s(2) by simp
  with r(1-3) s(1) show ?thesis by blast
qed

end
