(* ===== verification/GooseSupervision.thy ===== *)
theory GooseSupervision
  imports GooseRun
begin

text \<open>
  The supervision of the GOOSE subscriber against its specification: every stream has a supervisor of
  its own, which knows a deadline and whether it has reported a timeout. The code keeps one table of at
  most 64 streams and walks over it; as long as the table has room this cannot be told apart.
\<close>

section \<open>One stream by itself\<close>

text \<open>The deadline, 0 for none, and whether it has been reported.\<close>

type_synonym supervisor = "u64 \<times> bool"

definition overdue :: "u64 \<Rightarrow> supervisor \<Rightarrow> bool" where
  "overdue now v \<longleftrightarrow> fst v \<noteq> 0 \<and> \<not> snd v \<and> fst v \<le> now"

text \<open>The states reported of the stream \<open>ref\<close>, oldest first.\<close>

fun supervise :: "string \<Rightarrow> heard list \<Rightarrow> supervisor \<Rightarrow> string list" where
  "supervise ref [] v = []"
| "supervise ref (Arrives now msg # hs) v =
     (if gm_ref msg = ref
      then (if snd v then [''ok''] else []) @
        supervise ref hs (if gm_tal msg \<noteq> 0 then now + ucast (gm_tal msg) else 0, False)
      else supervise ref hs v)"
| "supervise ref (Checks now # hs) v =
     (if overdue now v then ''timeout'' # supervise ref hs (fst v, True) else supervise ref hs v)"

section \<open>The table as supervisors\<close>

definition supervisor_of :: "string \<Rightarrow> stream list \<Rightarrow> supervisor" where
  "supervisor_of ref ss =
     (case filter (\<lambda>s. gocb_ref s = ref) ss of [] \<Rightarrow> (0, False) | s # _ \<Rightarrow> (deadline_ms s, timed_out s))"

definition about :: "string \<Rightarrow> json \<Rightarrow> bool" where
  "about ref j \<longleftrightarrow> (\<exists>state. j = supervision_event ref state)"

lemma about_simps [simp]:
  "about ref (supervision_event r s) \<longleftrightarrow> r = ref" "\<not> about ref (goose_event L g msg)" "\<not> about ref (goose_ready v r' i m c)"
  by (auto simp: about_def)

text \<open>A reference occurs once in the table.\<close>

lemma distinct_filter_ref:
  "distinct (map gocb_ref ss) \<Longrightarrow> s \<in> set ss \<Longrightarrow> filter (\<lambda>x. gocb_ref x = gocb_ref s) ss = [s]"
proof (induction ss)
  case (Cons t ss)
  show ?case
  proof (cases "t = s")
    case True
    with Cons.prems have "filter (\<lambda>x. gocb_ref x = gocb_ref s) ss = []" by (auto simp: filter_empty_conv image_iff)
    with True show ?thesis by simp
  next
    case False
    with Cons show ?thesis by auto
  qed
qed simp

lemma supervisor_known: "distinct (map gocb_ref ss) \<Longrightarrow> s \<in> set ss \<Longrightarrow> gocb_ref s = ref \<Longrightarrow>
    supervisor_of ref ss = (deadline_ms s, timed_out s)"
  using distinct_filter_ref [of ss s] by (auto simp: supervisor_of_def)

lemma supervisor_new:
  assumes "ref \<notin> gocb_ref ` set ss"
  shows "supervisor_of ref ss = (0, False)"
proof -
  have "filter (\<lambda>s. gocb_ref s = ref) ss = []" using assms by (auto simp: filter_empty_conv)
  then show ?thesis by (simp add: supervisor_of_def)
qed

text \<open>Only the entries of a reference matter for its supervisor.\<close>

lemma supervisor_cong:
  "filter (\<lambda>s. gocb_ref s = ref) ss = filter (\<lambda>s. gocb_ref s = ref) ss' \<Longrightarrow> supervisor_of ref ss = supervisor_of ref ss'"
  by (simp add: supervisor_of_def)

section \<open>A check\<close>

lemma check_one:
  assumes "distinct (map gocb_ref (gs_streams g))"
  shows "supervisor_of ref (gs_streams (check_supervision now g)) =
      (fst (supervisor_of ref (gs_streams g)), snd (supervisor_of ref (gs_streams g)) \<or> overdue now (supervisor_of ref (gs_streams g)))"
    and "filter (about ref) (gs_out (check_supervision now g)) =
      (if overdue now (supervisor_of ref (gs_streams g)) then [supervision_event ref ''timeout''] else []) @ filter (about ref) (gs_out g)"
proof -
  let ?ss = "gs_streams g" and ?mark = "\<lambda>s. if expired now s then s\<lparr>timed_out := True\<rparr> else s"
  have same: "gocb_ref (?mark s) = gocb_ref s" for s by simp
  have out: "gs_out (check_supervision now g) =
      rev (map (\<lambda>s. supervision_event (gocb_ref s) ''timeout'') (filter (expired now) ?ss)) @ gs_out g"
    and streams: "gs_streams (check_supervision now g) = map ?mark ?ss"
    by (simp_all add: check_supervision_def check_streams_eq)
  have mine: "filter (\<lambda>s. gocb_ref s = ref) (map ?mark ?ss) = map ?mark (filter (\<lambda>s. gocb_ref s = ref) ?ss)"
    by (simp add: filter_map comp_def if_distrib [of gocb_ref] cong: if_cong)
  have told: "filter (about ref) (map (\<lambda>s. supervision_event (gocb_ref s) ''timeout'') (filter (expired now) ss)) =
      map (\<lambda>s. supervision_event ref ''timeout'') (filter (expired now) (filter (\<lambda>s. gocb_ref s = ref) ss))" for ss
    by (induction ss) auto
  show "supervisor_of ref (gs_streams (check_supervision now g)) =
      (fst (supervisor_of ref ?ss), snd (supervisor_of ref ?ss) \<or> overdue now (supervisor_of ref ?ss))"
    unfolding streams supervisor_of_def mine
    by (cases "filter (\<lambda>s. gocb_ref s = ref) ?ss") (auto simp: overdue_def expired_def)
  show "filter (about ref) (gs_out (check_supervision now g)) =
      (if overdue now (supervisor_of ref ?ss) then [supervision_event ref ''timeout''] else []) @ filter (about ref) (gs_out g)"
  proof (cases "ref \<in> gocb_ref ` set ?ss")
    case True
    then obtain s where "s \<in> set ?ss" "gocb_ref s = ref" by auto
    with assms have "filter (\<lambda>s. gocb_ref s = ref) ?ss = [s]" using distinct_filter_ref by metis
    then show ?thesis by (auto simp: out rev_filter [symmetric] told supervisor_of_def overdue_def expired_def)
  next
    case False
    then have "filter (\<lambda>s. gocb_ref s = ref) ?ss = []" by (auto simp: filter_empty_conv image_iff)
    then show ?thesis by (auto simp: out rev_filter [symmetric] told supervisor_of_def overdue_def)
  qed
qed

section \<open>A message\<close>

lemma refreshed_fields [simp]:
  "gocb_ref (refreshed now tal s) = gocb_ref s" "timed_out (refreshed now tal s) = False"
  "deadline_ms (refreshed now tal s) = (if tal \<noteq> 0 then now + ucast tal else 0)"
  by (simp_all add: refreshed_def)

lemma filter_other_ref:
  "i < length ss \<Longrightarrow> gocb_ref (ss ! i) \<noteq> ref \<Longrightarrow> gocb_ref s \<noteq> ref \<Longrightarrow>
   filter (\<lambda>s. gocb_ref s = ref) (ss[i := s]) = filter (\<lambda>s. gocb_ref s = ref) ss"
  by (rule filter_update_other) simp_all

text \<open>The listener, on a table that has the stream or room for it.\<close>

lemma listener_one:
  assumes inv: "subscriber_inv g" and ok: "ref_ok (gm_ref msg)" and f: "f = None \<or> f = Some ref"
    and room: "gm_ref msg \<in> gocb_ref ` set (gs_streams g) \<or> length (gs_streams g) < MAX_STREAMS \<or> (f \<noteq> None \<and> gm_ref msg \<noteq> ref)"
  shows "supervisor_of ref (gs_streams (GooseSubscriber.listener L f now msg g)) =
      (if gm_ref msg = ref then (if gm_tal msg \<noteq> 0 then now + ucast (gm_tal msg) else 0, False)
       else supervisor_of ref (gs_streams g))" (is ?streams)
    and "filter (about ref) (gs_out (GooseSubscriber.listener L f now msg g)) =
      (if gm_ref msg = ref \<and> snd (supervisor_of ref (gs_streams g)) then [supervision_event ref ''ok''] else []) @
      filter (about ref) (gs_out g)" (is ?out)
    and "gocb_ref ` set (gs_streams (GooseSubscriber.listener L f now msg g)) \<subseteq>
      insert (gm_ref msg) (gocb_ref ` set (gs_streams g))" (is ?refs)
proof -
  let ?ss = "gs_streams g"
  have t: "table_ok ?ss" and d: "distinct (map gocb_ref ?ss)" using inv by (simp_all add: subscriber_inv_def table_ok_def)
  have inv': "subscriber_inv (GooseSubscriber.listener L f now msg g)" using inv ok by (rule goose_sub_listener_inv)
  then have d': "distinct (map gocb_ref (gs_streams (GooseSubscriber.listener L f now msg g)))"
    by (simp add: subscriber_inv_def table_ok_def)
  have "?streams \<and> ?out \<and> ?refs"
  proof (cases rule: listener_cases [OF t ok, of f L now, case_names filtered full known new])
    case (filtered h)
    then have "gm_ref msg \<noteq> ref" using f by auto
    with filtered show ?thesis by auto
  next
    case full
    then have "gm_ref msg \<noteq> ref \<and> f \<noteq> None" using room by auto
    with full f show ?thesis by (auto simp: GooseSubscriber.emit_def)
  next
    case (known i s)
    have s: "s \<in> set ?ss" using known(1,2) by simp
    have streams: "gs_streams (GooseSubscriber.listener L f now msg g) = ?ss[i := refreshed now (gm_tal msg) s]"
      by (simp add: known(4) GooseSubscriber.emit_def)
    have "refreshed now (gm_tal msg) s \<in> set (?ss[i := refreshed now (gm_tal msg) s])"
      using known(1) by (simp add: set_update_memI)
    from supervisor_known [OF d' [unfolded streams] this] known(3)
    have new: "gm_ref msg = ref \<longrightarrow> supervisor_of ref (?ss[i := refreshed now (gm_tal msg) s]) =
        (if gm_tal msg \<noteq> 0 then now + ucast (gm_tal msg) else 0, False)" by auto
    have old: "gm_ref msg \<noteq> ref \<longrightarrow> supervisor_of ref (?ss[i := refreshed now (gm_tal msg) s]) = supervisor_of ref ?ss"
      using known(1-3) by (auto intro!: supervisor_cong filter_other_ref)
    have out: "?out" using supervisor_known [OF d s] known(3) by (auto simp: known(4) GooseSubscriber.emit_def)
    have "?refs" using set_update_subset_insert [of ?ss i "refreshed now (gm_tal msg) s"] known(3)
      by (fastforce simp: streams)
    with new old out show ?thesis by (auto simp: streams)
  next
    case (new s)
    have streams: "gs_streams (GooseSubscriber.listener L f now msg g) = ?ss @ [s]"
      by (simp add: new(5) GooseSubscriber.emit_def)
    have fields: "timed_out s = False" "deadline_ms s = (if gm_tal msg \<noteq> 0 then now + ucast (gm_tal msg) else 0)"
      by (subst new(6), simp)+
    have "?streams" unfolding streams
      using new(3) fields d' by (auto simp: streams supervisor_known [of "?ss @ [s]" s] intro!: supervisor_cong)
    moreover have "?out" using supervisor_new [OF new(1)] by (auto simp: new(5) GooseSubscriber.emit_def)
    ultimately show ?thesis using new(3) by (auto simp: streams)
  qed
  then show ?streams ?out ?refs by simp_all
qed

section \<open>All of it\<close>

fun refs_heard :: "heard list \<Rightarrow> string set" where
  "refs_heard [] = {}"
| "refs_heard (Arrives now msg # hs) = insert (gm_ref msg) (refs_heard hs)"
| "refs_heard (Checks now # hs) = refs_heard hs"

lemma finite_refs_heard [simp]: "finite (refs_heard hs)"
  by (induction hs rule: refs_heard.induct) auto

lemma card_at_most: "card B \<le> n \<Longrightarrow> A \<subseteq> B \<Longrightarrow> finite B \<Longrightarrow> card A \<le> n"
  by (meson card_mono le_trans)

lemma hears_supervise:
  assumes "f = None \<or> f = Some ref"
  shows "subscriber_inv g \<Longrightarrow> refs_fit hs \<Longrightarrow> f = None \<longrightarrow> card (gocb_ref ` set (gs_streams g) \<union> refs_heard hs) \<le> MAX_STREAMS \<Longrightarrow>
    f \<noteq> None \<longrightarrow> gocb_ref ` set (gs_streams g) \<subseteq> {ref} \<Longrightarrow>
    rev (filter (about ref) (gs_out (hears L f hs g))) =
      rev (filter (about ref) (gs_out g)) @ map (supervision_event ref) (supervise ref hs (supervisor_of ref (gs_streams g)))"
proof (induction hs arbitrary: g)
  case (Cons h hs)
  have d: "distinct (map gocb_ref (gs_streams g))" using Cons.prems(1) by (simp add: subscriber_inv_def table_ok_def)
  show ?case
  proof (cases h)
    case (Checks now)
    have "map gocb_ref (gs_streams (check_supervision now g)) = map gocb_ref (gs_streams g)"
      using check_streams_refs [OF check_streams_eq] by (simp add: check_supervision_def check_streams_eq)
    then have refs: "gocb_ref ` set (gs_streams (check_supervision now g)) = gocb_ref ` set (gs_streams g)"
      by (metis list.set_map)
    obtain dl out where v: "supervisor_of ref (gs_streams g) = (dl, out)" by force
    show ?thesis
      using Cons.IH [OF check_supervision_inv [OF Cons.prems(1)]] Cons.prems(2-) check_one [OF d, of ref now]
      by (auto simp: Checks refs v overdue_def)
  next
    case (Arrives now msg)
    have ok: "ref_ok (gm_ref msg)" using Cons.prems(2) by (simp add: Arrives)
    have room: "gm_ref msg \<in> gocb_ref ` set (gs_streams g) \<or> length (gs_streams g) < MAX_STREAMS \<or> (f \<noteq> None \<and> gm_ref msg \<noteq> ref)"
    proof (cases "f = None \<and> gm_ref msg \<notin> gocb_ref ` set (gs_streams g)")
      case True
      have sub: "insert (gm_ref msg) (gocb_ref ` set (gs_streams g)) \<subseteq> gocb_ref ` set (gs_streams g) \<union> refs_heard (h # hs)"
        by (auto simp: Arrives)
      have "card (insert (gm_ref msg) (gocb_ref ` set (gs_streams g))) \<le> MAX_STREAMS"
        by (rule card_at_most [OF _ sub]) (use Cons.prems(3) True in simp_all)
      moreover have "card (gocb_ref ` set (gs_streams g)) = length (gs_streams g)" using distinct_card [OF d] by simp
      ultimately show ?thesis using True by simp
    next
      case False
      have "length (gs_streams g) < MAX_STREAMS" if "f \<noteq> None"
      proof -
        have "gocb_ref ` set (gs_streams g) \<subseteq> {ref}" using Cons.prems(4) that by blast
        from card_at_most [OF _ this, of 1] have "card (set (map gocb_ref (gs_streams g))) \<le> 1" by simp
        then show ?thesis unfolding distinct_card [OF d] by (simp add: MAX_STREAMS_def)
      qed
      with False show ?thesis by blast
    qed
    note one = listener_one [OF Cons.prems(1) ok assms room, where L = L and now = now]
    let ?g = "GooseSubscriber.listener L f now msg g"
    have sub: "gocb_ref ` set (gs_streams ?g) \<union> refs_heard hs \<subseteq> gocb_ref ` set (gs_streams g) \<union> refs_heard (h # hs)"
      using one(3) by (auto simp: Arrives)
    have "f = None \<longrightarrow> card (gocb_ref ` set (gs_streams ?g) \<union> refs_heard hs) \<le> MAX_STREAMS"
      by (intro impI card_at_most [OF _ sub]) (use Cons.prems(3) in simp_all)
    moreover have "f \<noteq> None \<longrightarrow> gocb_ref ` set (gs_streams ?g) \<subseteq> {ref}"
    proof (cases "gm_ref msg = ref")
      case True
      then show ?thesis using one(3) Cons.prems(4) by auto
    next
      case False
      then show ?thesis using assms Cons.prems(4) by (auto simp: GooseSubscriber.listener_def)
    qed
    ultimately show ?thesis
      using Cons.IH [OF goose_sub_listener_inv [OF Cons.prems(1) ok, of L f now]] Cons.prems(2) one(1,2)
      by (auto simp: Arrives)
  qed
qed simp

text \<open>C3: The subscriber's supervision refines one supervisor per stream. In every run of the program,
  with any frames and checks in any order, the supervision events printed about a stream are those
  that a supervisor of this stream alone reports of the messages and checks: a timeout at the first
  check at or after the deadline, a recovery at the next message. The other streams, the table and its
  order make no difference, as long as at most 64 streams are heard, or one is chosen on the command
  line.\<close>

theorem goose_supervision_refines:
  assumes "goose_sub_main version E argv = Runs (fl, s0)"
    and "loop_reaches check_supervision (goose_receive L decode fl) E s0 s"
    and "hs = heard_in decode fl (events_of E (fl_calls s))" "refs_ok decode"
    and "gf_gocb fl = None \<and> card (refs_heard hs) \<le> 64 \<or> gf_gocb fl = Some ref"
  shows "rev (filter (about ref) (gs_out (fl_state s))) = map (supervision_event ref) (supervise ref hs (0, False))"
proof -
  obtain iface own where same: "supervision_of (fl_state s) = supervision_of (hears L (gf_gocb fl) hs
      (GooseSubscriber.subscriber_start (adapter_version version) iface own (gf_gocb fl)))"
    using goose_run_hears [OF assms(1,2)] assms(3) by metis
  let ?g = "GooseSubscriber.subscriber_start (adapter_version version) iface own (gf_gocb fl)"
  have only: "filter (about ref) es = filter (about ref) (filter is_supervision es)" for es
    by (induction es) (auto simp: about_def is_supervision_def)
  have "refs_fit hs" using heard_in_refs [OF assms(4)] assms(3) by simp
  moreover have "gs_streams ?g = []" "filter (about ref) (gs_out ?g) = []"
    by (simp_all add: GooseSubscriber.subscriber_start_def)
  ultimately have "rev (filter (about ref) (gs_out (hears L (gf_gocb fl) hs ?g))) =
      map (supervision_event ref) (supervise ref hs (0, False))"
    using hears_supervise [of "gf_gocb fl" ref ?g hs L] assms(5) subscriber_start_inv supervisor_new [of ref "[]"]
    by (auto simp: MAX_STREAMS_def)
  moreover have "filter (about ref) (gs_out (fl_state s)) = filter (about ref) (gs_out (hears L (gf_gocb fl) hs ?g))"
    using same only by (metis supervision_of_def snd_conv)
  ultimately show ?thesis by simp
qed

text \<open>The pair of \<open>GooseRun\<close> with one more check, after the publisher has fallen silent.\<close>

theorem goose_supervision_refines_witness:
  "\<exists>s. loop_reaches check_supervision (goose_receive sample_lib link_decode link_filter) link_net link_start s \<and>
     rev (filter (about ''G'') (gs_out (fl_state s))) = [supervision_event ''G'' ''timeout'']"
proof -
  obtain s where s: "link_reached 17 False
      [CheckAt 0, FrameAt 1 (sample_frame @ [20]), CheckAt 8, FrameAt 11 (sample_frame @ [40]), CheckAt 12] s"
    by (rule link_net_reached)
  from link_check [OF this] obtain t where t: "link_reached 19 False ([CheckAt 0, FrameAt 1 (sample_frame @ [20]),
      CheckAt 8, FrameAt 11 (sample_frame @ [40]), CheckAt 12] @ [CheckAt 52]) t" by (auto simp: link_net_def)
  have heard: "heard_in link_decode link_filter (events_of link_net (fl_calls t)) = link_heard @ [Checks 52]"
    using t link_accepted by (simp add: link_reached_def link_heard_def link_decode_def)
  have r: "loop_reaches check_supervision (goose_receive sample_lib link_decode link_filter) link_net link_start t"
    using t by (simp add: link_reached_def)
  have "supervise ''G'' (link_heard @ [Checks 52]) (0, False) = [''timeout'']" "card (refs_heard (link_heard @ [Checks 52])) \<le> 64"
    by (simp_all add: link_heard_def link_message_def sample_message_def overdue_def)
  then have "rev (filter (about ''G'') (gs_out (fl_state t))) = [supervision_event ''G'' ''timeout'']"
    using goose_supervision_refines [OF link_main r heard [symmetric] link_decode_refs, of "''G''"] by simp
  with r show ?thesis by blast
qed

end
