(* ===== verification/JsonText.thy ===== *)
theory JsonText
  imports Values
begin

text \<open>
  The JSON texts \<open>mms_client_services.c\<close> builds: the growing buffer behind \<open>sb_printf\<close>, and the
  texts of strings, values, types and names. A function that appends to a buffer is given by the
  text it appends; that the buffer holds exactly the texts appended is proved of \<open>sb_printf\<close>. The
  grammar of RFC 8259 that the texts are to follow is stated here too.
\<close>

section \<open>The string builder\<close>

text \<open>
  \<open>sb_mem\<close> are the \<open>cap\<close> characters at \<open>buf\<close>. What \<open>malloc\<close> and \<open>realloc\<close> leave in new memory is
  not specified: \<open>fill\<close> stands for it.
\<close>

record sb =
  sb_mem :: string
  sb_len :: nat

definition cap :: "sb \<Rightarrow> nat" where
  "cap b = length (sb_mem b)"

definition sb_init :: "(nat \<Rightarrow> char) \<Rightarrow> sb" where
  "sb_init fill = \<lparr>sb_mem = (map fill [0..<1024])[0 := nul], sb_len = 0\<rparr>"

text \<open>\<open>vsnprintf\<close> into \<open>room\<close> characters from \<open>off\<close>: what fits of the text, and a NUL.\<close>

definition print_at :: "string \<Rightarrow> nat \<Rightarrow> nat \<Rightarrow> string \<Rightarrow> string" where
  "print_at mem off room t =
     (if room = 0 then mem
      else let w = take (room - 1) t @ [nul] in take off mem @ w @ drop (off + length w) mem)"

definition grow :: "(nat \<Rightarrow> char) \<Rightarrow> string \<Rightarrow> nat \<Rightarrow> string" where
  "grow fill mem n = take n mem @ map fill [length mem..<n]"

text \<open>What \<open>vsnprintf\<close> returns: the length of the whole text, a negative \<open>int\<close> when it is none.\<close>

definition vsnprintf_result :: "string \<Rightarrow> int" where
  "vsnprintf_result t = (if length t < 2 ^ 31 then int (length t) else - 1)"

text \<open>The loop of \<open>sb_printf\<close>; \<open>t\<close> is the formatted text. None when it does not end.\<close>

partial_function (option) sb_printf :: "(nat \<Rightarrow> char) \<Rightarrow> sb \<Rightarrow> string \<Rightarrow> sb option" where
  "sb_printf fill b t =
     (let b1 = b\<lparr>sb_mem := print_at (sb_mem b) (sb_len b) (cap b - sb_len b) t\<rparr>;
          n = vsnprintf_result t
      in if n < 0 then Some b1
         else if nat n < cap b1 - sb_len b1 then Some (b1\<lparr>sb_len := sb_len b1 + nat n\<rparr>)
         else sb_printf fill (b1\<lparr>sb_mem := grow fill (sb_mem b1) ((cap b1 + nat n) * 2)\<rparr>) t)"

text \<open>A text of \<open>2 ^ 31\<close> characters and more: the call returns and the length stays.\<close>

lemma sb_printf_too_long:
  "2 ^ 31 \<le> length t \<Longrightarrow>
   sb_printf fill b t = Some (b\<lparr>sb_mem := print_at (sb_mem b) (sb_len b) (cap b - sb_len b) t\<rparr>)"
  by (subst sb_printf.simps) (simp add: Let_def vsnprintf_result_def)

fun sb_print_all :: "(nat \<Rightarrow> char) \<Rightarrow> sb \<Rightarrow> string list \<Rightarrow> sb option" where
  "sb_print_all fill b [] = Some b"
| "sb_print_all fill b (t # ts) = Option.bind (sb_printf fill b t) (\<lambda>b. sb_print_all fill b ts)"

lemma length_grow: "length mem \<le> n \<Longrightarrow> length (grow fill mem n) = n"
  by (simp add: grow_def)

lemma length_print_at: "off + room \<le> length mem \<Longrightarrow> length (print_at mem off room t) = length mem"
  by (auto simp: print_at_def Let_def)

text \<open>The C string the buffer holds.\<close>

definition sb_text :: "sb \<Rightarrow> string" where
  "sb_text b = take (sb_len b) (sb_mem b)"

definition sb_ok :: "sb \<Rightarrow> bool" where
  "sb_ok b \<longleftrightarrow> sb_len b < cap b \<and> sb_mem b ! sb_len b = nul \<and> is_c_string (sb_text b)"

section \<open>JSON strings\<close>

definition sb_char :: "char \<Rightarrow> string" where
  "sb_char c =
     (if c = CHR 0x22 \<or> c = CHR 0x5C then [CHR 0x5C, c]
      else if code c < 0x20 then CHR 0x5C # CHR ''u'' # hex_pad 4 (code c)
      else [c])"

definition sb_string :: "string option \<Rightarrow> string" where
  "sb_string s = ''\"'' @ concat (map sb_char (case s of None \<Rightarrow> [] | Some s \<Rightarrow> s)) @ ''\"''"

definition sb_hex :: "u8 list \<Rightarrow> string" where
  "sb_hex data = ''\"'' @ concat (map (\<lambda>b. hex_pad 2 (unat b)) data) @ ''\"''"

text \<open>Elements with a comma before each but the first.\<close>

fun commas :: "string list \<Rightarrow> string" where
  "commas [] = []"
| "commas [t] = t"
| "commas (t # ts) = t @ '','' @ commas ts"

definition sb_names :: "string list \<Rightarrow> string" where
  "sb_names names = ''['' @ commas (map (\<lambda>n. sb_string (Some n)) names) @ '']''"

section \<open>Error names\<close>

text \<open>\<open>MmsDataAccessError\<close>: the numbers of ISO 9506-2, and -1 for success.\<close>

abbreviation DATA_ACCESS_ERROR_SUCCESS :: int where
  "DATA_ACCESS_ERROR_SUCCESS \<equiv> - 1"

definition dae_name :: "int \<Rightarrow> string" where
  "dae_name e =
     (if e = 0 then ''object-invalidated''
      else if e = 1 then ''hardware-fault''
      else if e = 2 then ''temporarily-unavailable''
      else if e = 3 then ''object-access-denied''
      else if e = 4 then ''object-undefined''
      else if e = 5 then ''invalid-address''
      else if e = 6 then ''type-unsupported''
      else if e = 7 then ''type-inconsistent''
      else if e = 8 then ''object-attribute-inconsistent''
      else if e = 9 then ''object-access-unsupported''
      else if e = 10 then ''object-non-existent''
      else if e = 11 then ''object-value-invalid''
      else if e = DATA_ACCESS_ERROR_SUCCESS then ''success''
      else ''unknown'')"

text \<open>\<open>MmsError\<close>: the codes the program tells apart, and the others.\<close>

datatype mms_error =
    MMS_ERROR_NONE | CONNECTION_LOST | SERVICE_TIMEOUT | PARSING_RESPONSE | REJECT_INVALID_PDU
  | REJECT_UNRECOGNIZED_SERVICE | ACCESS_OBJECT_NON_EXISTENT | ACCESS_OBJECT_ACCESS_DENIED
  | DEFINITION_OBJECT_UNDEFINED | FILE_FILE_NON_EXISTENT | FILE_OTHER | SERVICE_OTHER
  | OTHER_ERROR int

fun mms_err_name :: "mms_error \<Rightarrow> string" where
  "mms_err_name MMS_ERROR_NONE = ''none''"
| "mms_err_name CONNECTION_LOST = ''connection-lost''"
| "mms_err_name SERVICE_TIMEOUT = ''service-timeout''"
| "mms_err_name PARSING_RESPONSE = ''parsing-response''"
| "mms_err_name REJECT_INVALID_PDU = ''reject-invalid-pdu''"
| "mms_err_name REJECT_UNRECOGNIZED_SERVICE = ''reject-unrecognized-service''"
| "mms_err_name ACCESS_OBJECT_NON_EXISTENT = ''object-non-existent''"
| "mms_err_name ACCESS_OBJECT_ACCESS_DENIED = ''object-access-denied''"
| "mms_err_name DEFINITION_OBJECT_UNDEFINED = ''object-undefined''"
| "mms_err_name FILE_FILE_NON_EXISTENT = ''file-non-existent''"
| "mms_err_name FILE_OTHER = ''file-other''"
| "mms_err_name SERVICE_OTHER = ''service-other''"
| "mms_err_name (OTHER_ERROR _) = ''mms-error''"

section \<open>Values and types\<close>

text \<open>\<open>utc_ms\<close>: \<open>MmsValue_getUtcTimeInMs\<close>. \<open>f64_eq\<close>: \<open>==\<close> on \<open>double\<close>.\<close>

record text_lib = value_lib +
  utc_ms :: "u8 list \<Rightarrow> u64"
  f64_eq :: "u64 \<Rightarrow> u64 \<Rightarrow> bool"

definition float_text :: "text_lib \<Rightarrow> u64 \<Rightarrow> u32 \<Rightarrow> string" where
  "float_text L d f = (if f64_eq L d (f64_of_f32 L f) then print_g L 9 (f64_of_f32 L f) else print_g L 17 d)"

fun sb_value :: "text_lib \<Rightarrow> mms_value option \<Rightarrow> string" where
  "sb_value L None = ''null''"
| "sb_value L (Some (MBoolean b)) = (if b then ''true'' else ''false'')"
| "sb_value L (Some (MInteger w)) = dec_int (sint w)"
| "sb_value L (Some (MUnsigned w)) = dec (unat w)"
| "sb_value L (Some (MFloat32 f)) = float_text L (f64_of_f32 L f) f"
| "sb_value L (Some (MFloat64 d)) = float_text L d (f32_of_f64 L d)"
| "sb_value L (Some (MVisibleString s)) = sb_string (Some s)"
| "sb_value L (Some (MMmsString s)) = sb_string (Some s)"
| "sb_value L (Some (MOctetString bs)) = sb_hex bs"
| "sb_value L (Some (MBitString bs)) = ''\"'' @ map (\<lambda>b. if b then CHR ''1'' else CHR ''0'') bs @ ''\"''"
| "sb_value L (Some (MUtcTime t)) = dec (unat (utc_ms L t))"
| "sb_value L (Some (MBinaryTime t)) = dec (unat (bintime_ms L t))"
| "sb_value L (Some (MArray vs)) = ''['' @ commas (map (sb_value L) vs) @ '']''"
| "sb_value L (Some (MStructure vs)) = ''['' @ commas (map (sb_value L) vs) @ '']''"
| "sb_value L (Some (MDataAccessError e)) = ''{\"error\":\"'' @ dae_name e @ ''\"}''"
| "sb_value L (Some MOther) = ''null''"

fun spec_type_name :: "mms_type \<Rightarrow> string" where
  "spec_type_name MMS_BOOLEAN = ''boolean''"
| "spec_type_name MMS_INTEGER = ''integer''"
| "spec_type_name MMS_UNSIGNED = ''unsigned''"
| "spec_type_name MMS_FLOAT = ''float32''"
| "spec_type_name MMS_VISIBLE_STRING = ''visible-string''"
| "spec_type_name MMS_STRING = ''mms-string''"
| "spec_type_name MMS_OCTET_STRING = ''octet-string''"
| "spec_type_name MMS_BIT_STRING = ''bit-string''"
| "spec_type_name MMS_UTC_TIME = ''utc-time''"
| "spec_type_name MMS_BINARY_TIME = ''binary-time''"
| "spec_type_name MMS_ARRAY = ''array''"
| "spec_type_name MMS_STRUCTURE = ''structure''"
| "spec_type_name _ = ''unknown''"

text \<open>A type description as the library decodes it, with its name if it is a component; \<open>Simple\<close> is neither array nor structure.\<close>

datatype type_desc =
    Simple (desc_name: "string option") mms_type
  | ArrayOf (desc_name: "string option") int type_desc
  | StructOf (desc_name: "string option") "type_desc list"

fun desc_type :: "type_desc \<Rightarrow> mms_type" where
  "desc_type (Simple _ t) = t"
| "desc_type (ArrayOf _ _ _) = MMS_ARRAY"
| "desc_type (StructOf _ _) = MMS_STRUCTURE"

fun sb_spec :: "type_desc \<Rightarrow> string" where
  "sb_spec (Simple _ t) = ''{\"type\":\"'' @ spec_type_name t @ ''\"}''"
| "sb_spec (ArrayOf _ n e) = ''{\"type\":\"'' @ spec_type_name MMS_ARRAY @ ''\",\"count\":'' @ dec_int n @ '',\"element\":'' @ sb_spec e @ ''}''"
| "sb_spec (StructOf _ cs) = ''{\"type\":\"'' @ spec_type_name MMS_STRUCTURE @ ''\",\"components\":['' @
     commas (map (\<lambda>c. ''{\"name\":'' @ sb_string (desc_name c) @ '',\"spec\":'' @ sb_spec c @ ''}'') cs) @ '']}''"

section \<open>The buffer holds what was printed\<close>

lemma print_at_fits:
  assumes "off + room \<le> length mem" "length t < room"
  shows "take off (print_at mem off room t) = take off mem"
    "take (length t) (drop off (print_at mem off room t)) = t"
    "print_at mem off room t ! (off + length t) = nul"
  using assms by (simp_all add: print_at_def Let_def nth_append)

lemma print_at_take: "off + room \<le> length mem \<Longrightarrow> take off (print_at mem off room t) = take off mem"
  by (simp add: print_at_def Let_def)

lemma sb_printf_room:
  assumes "sb_len b < cap b" "length t < cap b - sb_len b" "length t < 2 ^ 31"
  shows "\<exists>b'. sb_printf fill b t = Some b' \<and> sb_text b' = sb_text b @ t \<and> sb_len b' < cap b' \<and>
    sb_mem b' ! sb_len b' = nul \<and> cap b' = cap b"
proof -
  let ?room = "cap b - sb_len b"
  let ?mem = "print_at (sb_mem b) (sb_len b) ?room t"
  have le: "sb_len b + ?room \<le> length (sb_mem b)" using assms by (simp add: cap_def)
  have len: "length ?mem = cap b" using length_print_at [OF le] by (simp add: cap_def)
  have "sb_printf fill b t = Some (b\<lparr>sb_mem := ?mem, sb_len := sb_len b + length t\<rparr>)"
    using assms(2,3) len by (subst sb_printf.simps) (simp add: Let_def cap_def vsnprintf_result_def)
  moreover have "take (sb_len b + length t) ?mem = take (sb_len b) (sb_mem b) @ t"
    using print_at_fits [OF le assms(2)] by (simp add: take_add)
  moreover have "?mem ! (sb_len b + length t) = nul" using print_at_fits(3) [OF le assms(2)] .
  ultimately show ?thesis using assms len by (auto simp: sb_text_def cap_def)
qed

lemma sb_printf_ok:
  assumes "sb_ok b" "is_c_string t" "length t < 2 ^ 31"
  shows "\<exists>b'. sb_printf fill b t = Some b' \<and> sb_ok b' \<and> sb_text b' = sb_text b @ t \<and> cap b \<le> cap b'"
proof (cases "length t < cap b - sb_len b")
  case True
  then obtain b' where "sb_printf fill b t = Some b'" "sb_text b' = sb_text b @ t" "sb_len b' < cap b'"
    "sb_mem b' ! sb_len b' = nul" "cap b' = cap b"
    using sb_printf_room [OF _ True assms(3), of fill] assms(1) by (auto simp: sb_ok_def)
  with assms show ?thesis by (auto simp: sb_ok_def)
next
  case False
  let ?room = "cap b - sb_len b"
  let ?mem = "print_at (sb_mem b) (sb_len b) ?room t"
  let ?b = "b\<lparr>sb_mem := grow fill ?mem ((cap b + length t) * 2)\<rparr>"
  have lt: "sb_len b < cap b" using assms(1) by (simp add: sb_ok_def)
  then have le: "sb_len b + ?room \<le> length (sb_mem b)" by (simp add: cap_def)
  have len: "length ?mem = cap b" using length_print_at [OF le] by (simp add: cap_def)
  have "sb_printf fill b t = sb_printf fill ?b t"
    using False len assms(3) by (subst sb_printf.simps) (simp add: Let_def cap_def vsnprintf_result_def)
  moreover have c: "cap ?b = (cap b + length t) * 2" using len by (simp add: cap_def length_grow)
  moreover have "sb_text ?b = sb_text b"
    using lt len print_at_take [OF le] by (simp add: sb_text_def grow_def cap_def min_def)
  moreover have "sb_len ?b < cap ?b" "length t < cap ?b - sb_len ?b" unfolding c using lt by auto
  then obtain b' where "sb_printf fill ?b t = Some b'" "sb_text b' = sb_text ?b @ t" "sb_len b' < cap b'"
    "sb_mem b' ! sb_len b' = nul" "cap b' = cap ?b"
    using sb_printf_room [of ?b t fill] assms(3) by blast
  ultimately show ?thesis using assms by (auto simp: sb_ok_def)
qed

lemma sb_init_ok: "sb_ok (sb_init fill) \<and> sb_text (sb_init fill) = []"
  by (simp add: sb_init_def sb_ok_def sb_text_def cap_def)

lemma sb_print_all_ok:
  "sb_ok b \<Longrightarrow> list_all (\<lambda>t. is_c_string t \<and> length t < 2 ^ 31) ts \<Longrightarrow>
   \<exists>b'. sb_print_all fill b ts = Some b' \<and> sb_ok b' \<and> sb_text b' = sb_text b @ concat ts"
proof (induction ts arbitrary: b)
  case (Cons t ts)
  then obtain b1 where b1: "sb_printf fill b t = Some b1" "sb_ok b1" "sb_text b1 = sb_text b @ t"
    using sb_printf_ok [of b t fill] by auto
  with Cons.IH [OF b1(2)] Cons.prems show ?case by auto
qed simp

text \<open>C31: The string builder keeps what is printed. Any sequence of \<open>sb_printf\<close> calls on a fresh
  buffer with texts of less than \<open>2 ^ 31\<close> characters each, what the \<open>int\<close> that \<open>vsnprintf\<close> returns can
  count, returns; the C string in the buffer is the texts one after the other, ended by its NUL inside
  the allocated memory, whatever the memory held before. (Allocation does not fail and capacities
  stay below \<open>2 ^ 64\<close>.)\<close>

theorem sb_refines:
  assumes "list_all (\<lambda>t. is_c_string t \<and> length t < 2 ^ 31) ts"
  shows "\<exists>b. sb_print_all fill (sb_init fill) ts = Some b \<and> c_str (sb_mem b) = concat ts \<and>
    sb_len b = length (concat ts) \<and> sb_len b < cap b \<and> sb_mem b ! sb_len b = nul"
proof -
  obtain b where b: "sb_print_all fill (sb_init fill) ts = Some b" "sb_ok b" "sb_text b = concat ts"
    using sb_print_all_ok [OF _ assms] sb_init_ok by fastforce
  then have lt: "sb_len b < length (sb_mem b)" "sb_mem b ! sb_len b = nul" by (simp_all add: sb_ok_def cap_def)
  then have "sb_mem b = concat ts @ nul # drop (Suc (sb_len b)) (sb_mem b)"
    using b(3) by (metis sb_text_def id_take_nth_drop)
  moreover have "c_str (u @ nul # r) = u" if "is_c_string u" for u r
    using that by (auto simp: c_str_def is_c_string_def takeWhile_append)
  ultimately have "c_str (sb_mem b) = concat ts" using b(2,3) by (metis sb_ok_def)
  moreover have "length (sb_text b) = sb_len b" using lt(1) by (simp add: sb_text_def)
  then have "length (concat ts) = sb_len b" using b(3) by simp
  ultimately show ?thesis using b lt by (auto simp: cap_def)
qed

theorem sb_refines_witness:
  "\<exists>b. sb_print_all (\<lambda>_. CHR ''x'') (sb_init (\<lambda>_. CHR ''x'')) [''ab'', replicate 2000 (CHR ''c''), ''d''] = Some b \<and>
     c_str (sb_mem b) = ''ab'' @ replicate 2000 (CHR ''c'') @ ''d''"
  using sb_refines [of "[''ab'', replicate 2000 (CHR ''c''), ''d'']" "\<lambda>_. CHR ''x''"]
  by (auto simp: nul_def is_c_string_def simp del: sb_print_all.simps)

section \<open>Reading a string back\<close>

text \<open>An escape of RFC 8259 after its backslash; \<open>\u\<close> for ASCII only.\<close>

definition read_escape :: "string \<Rightarrow> (char \<times> string) option" where
  "read_escape s =
     (case s of
        [] \<Rightarrow> None
      | e # r \<Rightarrow>
          if e = CHR 0x22 \<or> e = CHR 0x5C \<or> e = CHR ''/'' then Some (e, r)
          else if e = CHR ''b'' then Some (CHR 0x08, r)
          else if e = CHR ''f'' then Some (CHR 0x0C, r)
          else if e = CHR ''n'' then Some (CHR 0x0A, r)
          else if e = CHR ''r'' then Some (CHR 0x0D, r)
          else if e = CHR ''t'' then Some (CHR 0x09, r)
          else if e = CHR ''u'' then
            (let h = take 4 r; v = read_base 16 h
             in if length h = 4 \<and> list_all (is_digit 16) h \<and> v < 128 then Some (char_of v, drop 4 r) else None)
          else None)"

lemma read_escape_length: "read_escape s = Some (c, r) \<Longrightarrow> length r < length s"
  by (auto simp: read_escape_def Let_def split: list.splits if_splits)

function read_units :: "string \<Rightarrow> (string \<times> string) option" where
  "read_units [] = None"
| "read_units (c # r) =
     (if c = CHR 0x22 then Some ([], r)
      else if c = CHR 0x5C then
        (case read_escape r of
           None \<Rightarrow> None
         | Some (d, r') \<Rightarrow> map_option (\<lambda>(s, t). (d # s, t)) (read_units r'))
      else if code c < 0x20 then None
      else map_option (\<lambda>(s, t). (c # s, t)) (read_units r))"
  by pat_completeness auto
termination
  by (relation "measure length") (auto dest: read_escape_length)

definition read_json_string :: "string \<Rightarrow> (string \<times> string) option" where
  "read_json_string s = (case s of [] \<Rightarrow> None | c # r \<Rightarrow> if c = CHR 0x22 then read_units r else None)"

lemma read_escape_u:
  assumes "n < 128"
  shows "read_escape (CHR ''u'' # hex_pad 4 n @ r) = Some (char_of n, r)"
proof -
  have len: "length (hex_pad 4 n) = 4" using assms by (intro length_hex_pad) simp_all
  obtain ds where ds: "hex_pad 4 n = map digit_char ds" "list_all (\<lambda>d. d < 16) ds" "of_digits 16 ds = n"
    using hex_pad_digits [of 4 n] by blast
  have "list_all (is_digit 16) (hex_pad 4 n)" using ds by (auto simp: list_all_iff)
  moreover have "read_base 16 (hex_pad 4 n) = n"
    using ds list_all_less_mono [of 16 ds 36] by simp
  ultimately show ?thesis using len assms by (simp add: read_escape_def)
qed

lemma read_units_char: "read_units (sb_char c @ r) = map_option (\<lambda>(s, t). (c # s, t)) (read_units r)"
proof -
  consider "c = CHR 0x22 \<or> c = CHR 0x5C" | "c \<noteq> CHR 0x22" "c \<noteq> CHR 0x5C" "code c < 0x20"
    | "c \<noteq> CHR 0x22" "c \<noteq> CHR 0x5C" "\<not> code c < 0x20" by blast
  then show ?thesis
  proof cases
    case 1
    then show ?thesis by (auto simp: sb_char_def read_escape_def)
  next
    case 2
    then have "read_escape (CHR ''u'' # hex_pad 4 (code c) @ r) = Some (c, r)" using read_escape_u [of "code c" r] by simp
    with 2 show ?thesis by (simp add: sb_char_def)
  next
    case 3
    then show ?thesis by (simp add: sb_char_def)
  qed
qed

lemma read_units_chars: "read_units (concat (map sb_char s) @ CHR 0x22 # r) = Some (s, r)"
  by (induction s) (simp_all add: read_units_char)

text \<open>C33: Strings survive. A JSON reader gets back exactly the octets \<open>sb_string\<close> was given, quotes,
  backslashes and control characters among them, and stops behind the closing quote.\<close>

theorem sb_string_roundtrip:
  "read_json_string (sb_string (Some s) @ r) = Some (s, r)"
  by (simp add: read_json_string_def sb_string_def read_units_chars)

interpretation json_strings: codec "\<lambda>s. sb_string (Some s)" "\<lambda>t. map_option fst (read_json_string t)" "\<lambda>_. True"
  by unfold_locales (use read_units_chars [of _ "[]"] in \<open>simp add: read_json_string_def sb_string_def\<close>)

section \<open>The grammar of JSON\<close>

definition json_unit :: "string \<Rightarrow> bool" where
  "json_unit u \<longleftrightarrow>
     (\<exists>c. u = [c] \<and> 0x20 \<le> code c \<and> c \<noteq> CHR 0x22 \<and> c \<noteq> CHR 0x5C) \<or>
     (\<exists>c. u = [CHR 0x5C, c] \<and> c \<in> set [CHR 0x22, CHR 0x5C, CHR ''/'', CHR ''b'', CHR ''f'', CHR ''n'', CHR ''r'', CHR ''t'']) \<or>
     (\<exists>h. u = CHR 0x5C # CHR ''u'' # h \<and> length h = 4 \<and> list_all (is_digit 16) h)"

definition json_string :: "string \<Rightarrow> bool" where
  "json_string t \<longleftrightarrow> (\<exists>us. t = ''\"'' @ concat us @ ''\"'' \<and> list_all json_unit us)"

text \<open>A number: a sign, digits without a leading zero, and perhaps a fraction and an exponent.\<close>

definition digits :: "string \<Rightarrow> bool" where
  "digits s \<longleftrightarrow> s \<noteq> [] \<and> list_all (is_digit 10) s"

definition json_number :: "string \<Rightarrow> bool" where
  "json_number t \<longleftrightarrow>
     (\<exists>m i f e. t = m @ i @ f @ e \<and> m \<in> {[], ''-''} \<and> digits i \<and> (hd i = CHR ''0'' \<longrightarrow> length i = 1) \<and>
        (f = [] \<or> (\<exists>d. f = CHR ''.'' # d \<and> digits d)) \<and>
        (e = [] \<or> (\<exists>x s d. e = x # s @ d \<and> x \<in> {CHR ''e'', CHR ''E''} \<and> s \<in> {[], ''+'', ''-''} \<and> digits d)))"

inductive json_syntax :: "string \<Rightarrow> bool" where
  literal: "t \<in> {''null'', ''true'', ''false''} \<Longrightarrow> json_syntax t"
| number: "json_number t \<Longrightarrow> json_syntax t"
| text_string: "json_string t \<Longrightarrow> json_syntax t"
| array: "(\<And>t. t \<in> set ts \<Longrightarrow> json_syntax t) \<Longrightarrow> json_syntax (''['' @ commas ts @ '']'')"
| object: "(\<And>k t. (k, t) \<in> set ms \<Longrightarrow> json_string k \<and> json_syntax t) \<Longrightarrow>
    json_syntax (''{'' @ commas (map (\<lambda>(k, t). k @ '':'' @ t) ms) @ ''}'')"

lemma json_unit_sb_char: "json_unit (sb_char c)"
proof -
  have "list_all (is_digit 16) (hex_pad 4 (code c)) \<and> length (hex_pad 4 (code c)) = 4" if "code c < 0x20"
    using that hex_pad_digits [of 4 "code c"] by (auto simp: length_hex_pad list_all_iff)
  then show ?thesis unfolding json_unit_def sb_char_def by auto
qed

lemma json_string_sb_string [simp]: "json_string (sb_string s)"
proof -
  have "list_all json_unit (map sb_char x)" for x by (simp add: list_all_iff json_unit_sb_char)
  then show ?thesis unfolding sb_string_def json_string_def by blast
qed

text \<open>Characters that stand for themselves.\<close>

definition plain :: "char \<Rightarrow> bool" where
  "plain c \<longleftrightarrow> 0x20 \<le> code c \<and> c \<noteq> CHR 0x22 \<and> c \<noteq> CHR 0x5C"

lemma json_string_plain:
  assumes "list_all plain s"
  shows "json_string (''\"'' @ s @ ''\"'')"
proof -
  have "s = concat (map (\<lambda>c. [c]) s)" by (induction s) simp_all
  moreover have "list_all json_unit (map (\<lambda>c. [c]) s)"
    using assms by (auto simp: list_all_iff plain_def json_unit_def)
  ultimately show ?thesis unfolding json_string_def by metis
qed

lemma plain_digit_char:
  assumes "d < 36"
  shows "plain (digit_char d)"
proof -
  have "code (digit_char d) \<noteq> 34 \<and> code (digit_char d) \<noteq> 92 \<and> 32 \<le> code (digit_char d)"
    using assms by (simp add: code_digit_char)
  note c = this
  have "digit_char d \<noteq> CHR 0x22"
  proof
    assume "digit_char d = CHR 0x22"
    then have "code (digit_char d) = 34" by simp
    with c show False by simp
  qed
  moreover have "digit_char d \<noteq> CHR 0x5C"
  proof
    assume "digit_char d = CHR 0x5C"
    then have "code (digit_char d) = 92" by simp
    with c show False by simp
  qed
  ultimately show ?thesis using c by (simp add: plain_def)
qed

lemma plain_hex_pad: "list_all plain (hex_pad w n)"
  using hex_pad_digits [of w n] plain_digit_char by (force simp: list_all_iff)

lemma json_string_sb_hex [simp]: "json_string (sb_hex bs)"
proof -
  have "list_all plain (concat (map (\<lambda>b. hex_pad 2 (unat b)) bs))"
    using plain_hex_pad by (fastforce simp: list_all_iff)
  then show ?thesis unfolding sb_hex_def by (rule json_string_plain)
qed

lemma digits_dec: "digits (dec n) \<and> (hd (dec n) = CHR ''0'' \<longrightarrow> length (dec n) = 1)"
proof (cases "n = 0")
  case True
  then show ?thesis by (simp add: dec_def to_digits.simps digits_def digit_char_0 [symmetric] is_digit_def digit_val_def)
next
  case False
  obtain d ds where ds: "to_digits 10 n = d # ds" by (cases "to_digits 10 n") auto
  have "d \<noteq> 0" "d < 36" using hd_to_digits [of 10 n] False ds to_digits_less [of 10 d n] by auto
  then have "hd (dec n) \<noteq> CHR ''0''" using ds by (simp add: dec_def digit_char_0)
  moreover have "list_all (is_digit 10) (dec n)"
    using to_digits_less [of 10 _ n] by (auto simp: dec_def list_all_iff)
  ultimately show ?thesis by (simp add: digits_def dec_def)
qed

lemma json_number_dec [simp]: "json_number (dec n)" "json_number (dec_int i)"
proof -
  have n: "json_number (m @ dec n)" if "m = [] \<or> m = ''-''" for m n
    unfolding json_number_def using digits_dec [of n] that by (intro exI [of _ m] exI [of _ "dec n"] exI [of _ "[]"]) auto
  show "json_number (dec n)" using n [of "[]"] by simp
  show "json_number (dec_int i)" using n [of "[]"] n [of "''-''"] by (simp add: dec_int_def)
qed

text \<open>The floats of a value that print as numbers: neither an infinity nor a NaN.\<close>

fun floats_print :: "text_lib \<Rightarrow> mms_value option \<Rightarrow> bool" where
  "floats_print L (Some (MFloat32 f)) = json_number (float_text L (f64_of_f32 L f) f)"
| "floats_print L (Some (MFloat64 d)) = json_number (float_text L d (f32_of_f64 L d))"
| "floats_print L (Some (MArray vs)) = list_all (floats_print L) vs"
| "floats_print L (Some (MStructure vs)) = list_all (floats_print L) vs"
| "floats_print L _ = True"

lemma json_string_dae: "json_string (''\"'' @ dae_name e @ ''\"'')"
  by (intro json_string_plain) (simp add: dae_name_def plain_def)

lemma json_syntax_members:
  assumes "list_all (\<lambda>(k, t). json_string k \<and> json_syntax t) ms"
  shows "json_syntax (''{'' @ commas (map (\<lambda>(k, t). k @ '':'' @ t) ms) @ ''}'')"
  using assms by (intro json_syntax.object) (auto simp: list_all_iff)

lemma json_syntax_array_map:
  assumes "\<And>x. x \<in> set xs \<Longrightarrow> json_syntax (f x)"
  shows "json_syntax (''['' @ commas (map f xs) @ '']'')"
  using assms by (intro json_syntax.array) auto

lemma json_syntax_value: "floats_print L v \<Longrightarrow> json_syntax (sb_value L v)"
proof (induction L v rule: sb_value.induct)
  case (13 L vs)
  then show ?case by (simp only: sb_value.simps) (rule json_syntax_array_map, simp add: list_all_iff)
next
  case (14 L vs)
  then show ?case by (simp only: sb_value.simps) (rule json_syntax_array_map, simp add: list_all_iff)
next
  case (15 L e)
  have "json_syntax (''{'' @ commas (map (\<lambda>(k, t). k @ '':'' @ t) [(''\"error\"'', ''\"'' @ dae_name e @ ''\"'')]) @ ''}'')"
    using json_string_dae [of e] json_string_plain [of "''error''"]
    by (intro json_syntax_members) (simp add: json_syntax.text_string plain_def)
  then show ?case by simp
next
  case (10 L bs)
  have "plain (CHR ''1'')" "plain (CHR ''0'')" by (simp_all add: plain_def)
  then have "list_all plain (map (\<lambda>b. if b then CHR ''1'' else CHR ''0'') bs)" by (induction bs) (simp_all split: if_splits)
  then show ?case using json_string_plain by (simp add: json_syntax.text_string)
qed (simp_all add: json_syntax.literal json_syntax.number json_syntax.text_string)

lemma json_string_type_name: "json_string (''\"'' @ spec_type_name t @ ''\"'')"
  by (rule json_string_plain) (cases t; simp add: plain_def)

lemma json_syntax_spec: "json_syntax (sb_spec d)"
proof (induction d rule: sb_spec.induct)
  case (1 n t)
  have "json_syntax (''{'' @ commas (map (\<lambda>(k, t). k @ '':'' @ t) [(''\"type\"'', ''\"'' @ spec_type_name t @ ''\"'')]) @ ''}'')"
    using json_string_type_name [of t] json_string_plain [of "''type''"]
    by (intro json_syntax_members) (simp add: json_syntax.text_string plain_def)
  then show ?case by simp
next
  case (2 n k e)
  have "json_syntax (''{'' @ commas (map (\<lambda>(k, t). k @ '':'' @ t) [(''\"type\"'', ''\"'' @ spec_type_name MMS_ARRAY @ ''\"''),
      (''\"count\"'', dec_int k), (''\"element\"'', sb_spec e)]) @ ''}'')"
    using json_string_type_name [of MMS_ARRAY] json_string_plain [of "''type''"] json_string_plain [of "''count''"]
      json_string_plain [of "''element''"] 2
    by (intro json_syntax_members) (simp add: json_syntax.text_string json_syntax.number plain_def)
  then show ?case by simp
next
  case (3 n cs)
  have "json_syntax (''{'' @ commas (map (\<lambda>(k, t). k @ '':'' @ t) [(''\"name\"'', sb_string (desc_name c)), (''\"spec\"'', sb_spec c)]) @ ''}'')"
    if "c \<in> set cs" for c
    using json_string_plain [of "''name''"] json_string_plain [of "''spec''"] 3 [OF that]
    by (intro json_syntax_members) (simp add: json_syntax.text_string plain_def)
  then have "json_syntax (''['' @ commas (map (\<lambda>c. ''{\"name\":'' @ sb_string (desc_name c) @ '',\"spec\":'' @ sb_spec c @ ''}'') cs) @ '']'')"
    by (intro json_syntax_array_map) simp
  then have "json_syntax (''{'' @ commas (map (\<lambda>(k, t). k @ '':'' @ t) [(''\"type\"'', ''\"'' @ spec_type_name MMS_STRUCTURE @ ''\"''),
      (''\"components\"'', ''['' @ commas (map (\<lambda>c. ''{\"name\":'' @ sb_string (desc_name c) @ '',\"spec\":'' @ sb_spec c @ ''}'') cs) @ '']'')]) @ ''}'')"
    using json_string_type_name [of MMS_STRUCTURE] json_string_plain [of "''type''"] json_string_plain [of "''components''"]
    by (intro json_syntax_members) (simp add: json_syntax.text_string plain_def)
  then show ?case by simp
qed

lemma commas_Cons: "commas (t # ts) = t @ concat (map (\<lambda>u. '','' @ u) ts)"
  by (induction ts arbitrary: t) simp_all

text \<open>An object with given members, as the functions print it.\<close>

definition object_text :: "(string \<times> string) list \<Rightarrow> string" where
  "object_text ms = ''{'' @ commas (map (\<lambda>(k, t). ''\"'' @ k @ ''\":'' @ t) ms) @ ''}''"

lemma json_object_text:
  assumes "list_all (\<lambda>(k, t). list_all plain k \<and> json_syntax t) ms"
  shows "json_syntax (object_text ms)"
proof -
  have "list_all (\<lambda>(k, t). json_string k \<and> json_syntax t) (map (\<lambda>(k, t). (''\"'' @ k @ ''\"'', t)) ms)"
    using assms json_string_plain by (auto simp: list_all_iff)
  from json_syntax_members [OF this] show ?thesis by (simp add: object_text_def case_prod_unfold o_def)
qed

lemma json_bool: "json_syntax (if b then ''true'' else ''false'')"
  by (simp add: json_syntax.literal)

text \<open>A JSON text is one line: it has no control character.\<close>

lemma set_commas: "c \<in> set (commas ts) \<Longrightarrow> c = CHR '','' \<or> (\<exists>t \<in> set ts. c \<in> set t)"
  by (induction ts rule: commas.induct) auto

lemma is_digit_code: "is_digit b c \<Longrightarrow> 0x20 \<le> code c"
  by (auto simp: is_digit_def digit_val_def split: if_splits)

lemma json_string_code:
  assumes "json_string t" "c \<in> set t"
  shows "0x20 \<le> code c"
proof -
  have hex: "32 \<le> code c" if "list_all (is_digit 16) h" "c \<in> set h" for h
    using that is_digit_code [of 16 c] by (simp add: list_all_iff)
  have unit: "32 \<le> code c" if "json_unit u" "c \<in> set u" for u
    using that hex unfolding json_unit_def by auto
  from assms obtain us where us: "t = CHR 0x22 # concat us @ [CHR 0x22]" "list_all json_unit us"
    by (auto simp: json_string_def)
  then consider "c = CHR 0x22" | u where "u \<in> set us" "c \<in> set u" using assms(2) by auto
  then show ?thesis
  proof cases
    case 2
    with us(2) show ?thesis by (intro unit [of u]) (auto simp: list_all_iff)
  qed simp
qed

lemma digits_code: "digits d \<Longrightarrow> c \<in> set d \<Longrightarrow> 0x20 \<le> code c"
  by (auto simp: digits_def list_all_iff dest: is_digit_code)

lemma json_number_code:
  assumes "json_number t" "c \<in> set t"
  shows "0x20 \<le> code c"
proof -
  from assms(1) obtain m i f e where t: "t = m @ i @ f @ e" "m \<in> {[], ''-''}" "digits i"
    and f: "f = [] \<or> (\<exists>d. f = CHR ''.'' # d \<and> digits d)"
    and e: "e = [] \<or> (\<exists>x s d. e = x # s @ d \<and> x \<in> {CHR ''e'', CHR ''E''} \<and> s \<in> {[], ''+'', ''-''} \<and> digits d)"
    unfolding json_number_def by blast
  have "c \<in> set m \<Longrightarrow> 32 \<le> code c" "c \<in> set i \<Longrightarrow> 32 \<le> code c" using t by (auto dest: digits_code)
  moreover have "c \<in> set f \<Longrightarrow> 32 \<le> code c" using f by (auto dest: digits_code)
  moreover have "c \<in> set e \<Longrightarrow> 32 \<le> code c" using e by (auto dest: digits_code)
  ultimately show ?thesis using assms(2) t(1) by auto
qed

lemma json_syntax_one_line: "json_syntax t \<Longrightarrow> c \<in> set t \<Longrightarrow> 0x20 \<le> code c"
proof (induction arbitrary: c rule: json_syntax.induct)
  case (literal t)
  then show ?case by auto
next
  case (number t)
  then show ?case by (rule json_number_code)
next
  case (text_string t)
  then show ?case by (rule json_string_code)
next
  case (array ts)
  then show ?case by (auto dest!: set_commas)
next
  case (object ms)
  then show ?case by (auto dest!: set_commas) (blast dest: json_string_code)+
qed

definition sample_text_lib :: text_lib where
  "sample_text_lib = value_lib.extend sample_lib \<lparr>utc_ms = (\<lambda>_. 0), f64_eq = (=)\<rparr>"

end
