(* ===== verification/OutLine.thy ===== *)
theory OutLine
  imports JsonText
begin

text \<open>
  The lines of the programs that print them with \<open>printf\<close>, \<open>ied_client.c\<close>, \<open>ied_controller.c\<close>,
  \<open>ied_reporter.c\<close> and \<open>mms_client.c\<close>: an operation, sometimes a target, whether it succeeded, and
  the members after these. Unlike \<open>mms_client_services.c\<close>, they print strings as they are.
\<close>

section \<open>What the library computes for the clients\<close>

text \<open>
  \<open>to_int32\<close>, \<open>to_uint32\<close>: \<open>MmsValue_toInt32\<close> and \<open>MmsValue_toUint32\<close> of an MMS_INTEGER or
  MMS_UNSIGNED, held in 64 bits. \<open>dbpos\<close>: \<open>Dbpos_fromMmsValue\<close> of a bit string.
\<close>

record client_lib = text_lib +
  to_int32 :: "u64 \<Rightarrow> u32"
  to_uint32 :: "u64 \<Rightarrow> u32"
  dbpos :: "bool list \<Rightarrow> u32"

definition sample_client_lib :: client_lib where
  "sample_client_lib = text_lib.extend sample_text_lib
     \<lparr>to_int32 = ucast, to_uint32 = ucast, dbpos = (\<lambda>bs. if bs = [True, False] then 2 else 0)\<rparr>"

text \<open>\<open>printf("%g", (double) f)\<close>.\<close>

definition float_g :: "'a text_lib_scheme \<Rightarrow> u32 \<Rightarrow> string" where
  "float_g L f = print_g L 6 (f64_of_f32 L f)"

text \<open>
  The accessors, on values of the type their documentation names. What they do on a value of
  another type is not documented: Undefined.
\<close>

fun MmsValue_getBoolean :: "mms_value \<Rightarrow> bool outcome" where
  "MmsValue_getBoolean (MBoolean b) = Returns b"
| "MmsValue_getBoolean _ = Undefined"

fun MmsValue_toInt32 :: "client_lib \<Rightarrow> mms_value \<Rightarrow> u32 outcome" where
  "MmsValue_toInt32 L (MInteger w) = Returns (to_int32 L w)"
| "MmsValue_toInt32 L (MUnsigned w) = Returns (to_int32 L (ucast w))"
| "MmsValue_toInt32 L _ = Undefined"

fun MmsValue_toUint32 :: "client_lib \<Rightarrow> mms_value \<Rightarrow> u32 outcome" where
  "MmsValue_toUint32 L (MInteger w) = Returns (to_uint32 L w)"
| "MmsValue_toUint32 L (MUnsigned w) = Returns w"
| "MmsValue_toUint32 L _ = Undefined"

fun MmsValue_toFloat :: "client_lib \<Rightarrow> mms_value \<Rightarrow> u32 outcome" where
  "MmsValue_toFloat L (MFloat32 f) = Returns f"
| "MmsValue_toFloat L (MFloat64 d) = Returns (f32_of_f64 L d)"
| "MmsValue_toFloat L _ = Undefined"

fun MmsValue_getOctets :: "mms_value \<Rightarrow> u8 list outcome" where
  "MmsValue_getOctets (MOctetString bs) = Returns bs"
| "MmsValue_getOctets _ = Undefined"

fun MmsValue_getBits :: "mms_value \<Rightarrow> bool list outcome" where
  "MmsValue_getBits (MBitString bs) = Returns bs"
| "MmsValue_getBits _ = Undefined"

fun MmsValue_getUtcTimeInMs :: "client_lib \<Rightarrow> mms_value \<Rightarrow> u64 outcome" where
  "MmsValue_getUtcTimeInMs L (MUtcTime t) = Returns (utc_ms L t)"
| "MmsValue_getUtcTimeInMs L _ = Undefined"

text \<open>\<open>MmsValue_getArraySize\<close> and \<open>MmsValue_getElement\<close> for the indices below it.\<close>

fun MmsValue_elements :: "mms_value \<Rightarrow> mms_value option list outcome" where
  "MmsValue_elements (MArray vs) = Returns vs"
| "MmsValue_elements (MStructure vs) = Returns vs"
| "MmsValue_elements _ = Undefined"

text \<open>\<open>MmsValue_toString\<close>: NULL for a value that is no string.\<close>

fun MmsValue_toString :: "mms_value \<Rightarrow> string option" where
  "MmsValue_toString (MVisibleString s) = Some s"
| "MmsValue_toString (MMmsString s) = Some s"
| "MmsValue_toString _ = None"

section \<open>Lines\<close>

record out_line =
  ol_op :: string
  ol_target :: "string option"
  ol_ok :: bool
  ol_more :: "(string \<times> string) list"

definition truth :: "bool \<Rightarrow> string" where
  "truth b = (if b then ''true'' else ''false'')"

definition quoted :: "string \<Rightarrow> string" where
  "quoted s = ''\"'' @ s @ ''\"''"

definition bracketed :: "string list \<Rightarrow> string" where
  "bracketed ts = ''['' @ commas ts @ '']''"

definition out_text :: "out_line \<Rightarrow> string" where
  "out_text l =
     ''{\"operation\":\"'' @ ol_op l @ ''\"'' @
     (case ol_target l of None \<Rightarrow> [] | Some t \<Rightarrow> '',\"target\":\"'' @ t @ ''\"'') @
     '',\"ok\":'' @ truth (ol_ok l) @
     concat (map (\<lambda>(k, t). '',\"'' @ k @ ''\":'' @ t) (ol_more l)) @ ''}''"

text \<open>\<open>emit_error\<close>, and the lines without further members.\<close>

definition error_line :: "string \<Rightarrow> string option \<Rightarrow> string \<Rightarrow> out_line" where
  "error_line op target msg = \<lparr>ol_op = op, ol_target = target, ol_ok = False, ol_more = [(''error'', quoted msg)]\<rparr>"

definition ok_line :: "string \<Rightarrow> string option \<Rightarrow> (string \<times> string) list \<Rightarrow> out_line" where
  "ok_line op target ms = \<lparr>ol_op = op, ol_target = target, ol_ok = True, ol_more = ms\<rparr>"

lemma line_simps [simp]:
  "ol_op (error_line op target msg) = op" "ol_target (error_line op target msg) = target"
  "\<not> ol_ok (error_line op target msg)" "ol_more (error_line op target msg) = [(''error'', quoted msg)]"
  "ol_op (ok_line op target ms) = op" "ol_target (ok_line op target ms) = target"
  "ol_ok (ok_line op target ms)" "ol_more (ok_line op target ms) = ms"
  by (simp_all add: error_line_def ok_line_def)

section \<open>Lines that are JSON\<close>

definition plain_string :: "string \<Rightarrow> bool" where
  "plain_string s \<longleftrightarrow> list_all plain s"

lemma plain_string_simps [simp]:
  "plain_string []"
  "plain_string (c # s) \<longleftrightarrow> plain c \<and> plain_string s"
  "plain_string (s @ t) \<longleftrightarrow> plain_string s \<and> plain_string t"
  by (simp_all add: plain_string_def)

lemma plain_string_take: "plain_string s \<Longrightarrow> plain_string (snprintf_s n s)"
  by (auto simp: plain_string_def snprintf_s_def list_all_iff dest: in_set_takeD)

definition json_out :: "out_line \<Rightarrow> bool" where
  "json_out l \<longleftrightarrow> json_syntax (out_text l)"

lemma json_truth: "json_syntax (truth b)"
  by (simp add: truth_def json_syntax.literal)

lemma json_quoted: "plain_string s \<Longrightarrow> json_syntax (quoted s)"
  using json_syntax.text_string [OF json_string_plain [of s]] by (simp add: plain_string_def quoted_def)

lemma json_bracketed: "(\<And>t. t \<in> set ts \<Longrightarrow> json_syntax t) \<Longrightarrow> json_syntax (bracketed ts)"
  unfolding bracketed_def by (rule json_syntax.array)

lemma json_outI:
  assumes "plain_string (ol_op l)" "\<And>t. ol_target l = Some t \<Longrightarrow> plain_string t"
    "list_all (\<lambda>(k, t). plain_string k \<and> json_syntax t) (ol_more l)"
  shows "json_out l"
proof -
  let ?t = "case ol_target l of None \<Rightarrow> [] | Some t \<Rightarrow> [(''target'', quoted t)]"
  have "out_text l = object_text ([(''operation'', quoted (ol_op l))] @ ?t @ [(''ok'', truth (ol_ok l))] @ ol_more l)"
    by (simp add: out_text_def object_text_def commas_Cons quoted_def case_prod_unfold o_def split: option.split)
  moreover have "json_syntax \<dots>"
    using assms by (intro json_object_text)
      (auto simp: plain_string_def [symmetric] plain_def json_quoted json_truth split: option.split)
  ultimately show ?thesis by (simp add: json_out_def)
qed

lemma json_error_line:
  "plain_string op \<Longrightarrow> (\<And>t. target = Some t \<Longrightarrow> plain_string t) \<Longrightarrow> plain_string msg \<Longrightarrow> json_out (error_line op target msg)"
  by (rule json_outI) (auto simp: plain_def json_quoted)

lemma json_ok_line:
  "plain_string op \<Longrightarrow> (\<And>t. target = Some t \<Longrightarrow> plain_string t) \<Longrightarrow>
   list_all (\<lambda>(k, t). plain_string k \<and> json_syntax t) ms \<Longrightarrow> json_out (ok_line op target ms)"
  by (rule json_outI) auto

end
