(* ===== verification/IedCommon.thy ===== *)
theory IedCommon
  imports JsonLines OutLine
begin

text \<open>
  What the three IED client programs share: the requests they make of an \<open>IedConnection\<close>, the
  answers, the state of a run, and the scan of the command line. The connection is a parameter: it
  answers every request from the requests before it, so that it stands for every server and network.
\<close>

section \<open>Requests and answers\<close>

text \<open>\<open>IedClientError\<close>: the codes the programs tell apart, and the others.\<close>

datatype ied_error =
    IED_ERROR_OK | IED_ERROR_NOT_CONNECTED | IED_ERROR_ALREADY_CONNECTED | IED_ERROR_CONNECTION_LOST
  | IED_ERROR_SERVICE_NOT_SUPPORTED | IED_ERROR_TIMEOUT | IED_ERROR_ACCESS_DENIED
  | IED_ERROR_OBJECT_DOES_NOT_EXIST | IED_ERROR_OBJECT_EXISTS | IED_ERROR_OBJECT_ACCESS_UNSUPPORTED
  | IED_ERROR_TYPE_INCONSISTENT | IED_ERROR_OTHER int

fun ied_error_str :: "ied_error \<Rightarrow> string" where
  "ied_error_str IED_ERROR_OK = ''ok''"
| "ied_error_str IED_ERROR_NOT_CONNECTED = ''not-connected''"
| "ied_error_str IED_ERROR_ALREADY_CONNECTED = ''already-connected''"
| "ied_error_str IED_ERROR_CONNECTION_LOST = ''connection-lost''"
| "ied_error_str IED_ERROR_SERVICE_NOT_SUPPORTED = ''service-not-supported''"
| "ied_error_str IED_ERROR_TIMEOUT = ''timeout''"
| "ied_error_str IED_ERROR_ACCESS_DENIED = ''access-denied''"
| "ied_error_str IED_ERROR_OBJECT_DOES_NOT_EXIST = ''object-does-not-exist''"
| "ied_error_str IED_ERROR_OBJECT_EXISTS = ''object-exists''"
| "ied_error_str IED_ERROR_OBJECT_ACCESS_UNSUPPORTED = ''object-access-unsupported''"
| "ied_error_str IED_ERROR_TYPE_INCONSISTENT = ''type-inconsistent''"
| "ied_error_str (IED_ERROR_OTHER _) = ''unknown-error''"

text \<open>The functional constraints the programs use, and \<open>FunctionalConstraint_toString\<close>: their names in IEC 61850-7-2.\<close>

datatype fc = IEC61850_FC_ST | IEC61850_FC_MX | IEC61850_FC_CF | IEC61850_FC_DC

fun fc_name :: "fc \<Rightarrow> string" where
  "fc_name IEC61850_FC_ST = ''ST''"
| "fc_name IEC61850_FC_MX = ''MX''"
| "fc_name IEC61850_FC_CF = ''CF''"
| "fc_name IEC61850_FC_DC = ''DC''"

text \<open>
  A control object is known by a number. \<open>SetRCBValues ena single\<close> writes the element RptEna of
  the program's report control block, which holds \<open>ena\<close>.
\<close>

datatype ied_request =
    IedConnect string int
  | IedClose
  | GetServerDirectory bool
  | GetLogicalDeviceDirectory string
  | GetLogicalNodeDirectory string bool
  | ReadBooleanValue string fc
  | ReadInt32Value string fc
  | ReadUnsigned32Value string fc
  | ReadFloatValue string fc
  | ReadStringValue string fc
  | ReadObject string fc
  | WriteInt32Value string fc int
  | WriteBooleanValue string fc bool
  | ReadDataSetValues string
  | ControlCreate string
  | ControlSelect nat
  | ControlSelectWithValue nat bool
  | ControlOperate nat bool nat
  | ControlLastApplError nat
  | ControlDestroy nat
  | GetRCBValues string
  | InstallReportHandler string string
  | SetRCBValues bool bool
  | DestroyRCB

text \<open>
  What a call returns and stores, each field for the calls that have it. Every call with an error
  argument stores an error there; lists, data sets and control blocks are there whenever it is
  \<open>IED_ERROR_OK\<close>.
\<close>

record ied_answer =
  ia_err :: ied_error
  ia_bool :: bool
  ia_int32 :: u32
  ia_uint32 :: u32
  ia_float :: u32
  ia_text :: "string option"
  ia_value :: "mms_value option"
  ia_names :: "string list"
  ia_object :: "nat option"
  ia_dataset :: "int \<times> mms_value option list option"
  ia_rcb :: "string option \<times> bool"

type_synonym ied_connection = "ied_request list \<Rightarrow> ied_request \<Rightarrow> ied_answer"

section \<open>A run\<close>

text \<open>The requests made with their answers, and the lines printed.\<close>

record session =
  ses_log :: "(ied_request \<times> ied_answer) list"
  ses_lines :: "out_line list"

definition session_start :: session where
  "session_start = \<lparr>ses_log = [], ses_lines = []\<rparr>"

definition ask :: "ied_connection \<Rightarrow> ied_request \<Rightarrow> session \<Rightarrow> ied_answer \<times> session" where
  "ask conn r s = (let a = conn (map fst (ses_log s)) r in (a, s\<lparr>ses_log := ses_log s @ [(r, a)]\<rparr>))"

definition print_line :: "out_line \<Rightarrow> session \<Rightarrow> session" where
  "print_line l s = s\<lparr>ses_lines := ses_lines s @ [l]\<rparr>"

definition emit_error :: "string \<Rightarrow> string option \<Rightarrow> string \<Rightarrow> session \<Rightarrow> session" where
  "emit_error op target msg = print_line (error_line op target msg)"

text \<open>What a program does: one of the two texts of \<open>jl_handle_meta_flags\<close>, or a run with its exit code.\<close>

datatype ied_run = Meta string | Ran int session

section \<open>The command line\<close>

text \<open>
  \<open>for (i = 1; i < argc; i++) if (!strcmp(argv[i], name) && i + 1 < argc) ... argv[++i]\<close>: an option
  takes the argument behind it, and anything else is skipped. \<open>known\<close> is None for a name that
  is no option.
\<close>

fun scan_args :: "(string \<Rightarrow> (string \<Rightarrow> 'o \<Rightarrow> 'o) option) \<Rightarrow> string list \<Rightarrow> 'o \<Rightarrow> 'o" where
  "scan_args known (name # v # args) opts =
     (case known name of
        Some f \<Rightarrow> scan_args known args (f v opts)
      | None \<Rightarrow> scan_args known (v # args) opts)"
| "scan_args known _ opts = opts"

definition bad_port :: "int \<Rightarrow> bool" where
  "bad_port port \<longleftrightarrow> port \<le> 0 \<or> port > 65535"

section \<open>Facts about runs\<close>

text \<open>\<open>grows s evs ls s'\<close>: from \<open>s\<close> to \<open>s'\<close> the requests \<open>evs\<close> were made and the lines \<open>ls\<close> printed.\<close>

definition grows :: "session \<Rightarrow> (ied_request \<times> ied_answer) list \<Rightarrow> out_line list \<Rightarrow> session \<Rightarrow> bool" where
  "grows s evs ls s' \<longleftrightarrow> ses_log s' = ses_log s @ evs \<and> ses_lines s' = ses_lines s @ ls"

lemma grows_refl [simp]: "grows s [] [] s"
  by (simp add: grows_def)

lemma grows_trans: "grows s evs ls s1 \<Longrightarrow> grows s1 evs' ls' s2 \<Longrightarrow> grows s (evs @ evs') (ls @ ls') s2"
  by (simp add: grows_def)

lemma grows_ask: "ask conn r s = (a, s') \<Longrightarrow> grows s [(r, a)] [] s'"
  by (auto simp: ask_def grows_def Let_def)

lemma grows_print: "grows s evs ls s1 \<Longrightarrow> grows s evs (ls @ [l]) (print_line l s1)"
  by (simp add: grows_def print_line_def)

lemma grows_error: "grows s evs ls s1 \<Longrightarrow> grows s evs (ls @ [error_line op target msg]) (emit_error op target msg s1)"
  by (simp add: emit_error_def grows_print)

lemma plain_error_str [simp]: "plain_string (ied_error_str e)"
  by (cases e) (simp_all add: plain_def)

text \<open>A server that grants everything.\<close>

definition granting :: ied_connection where
  "granting h r = \<lparr>ia_err = IED_ERROR_OK, ia_bool = True, ia_int32 = 2, ia_uint32 = 0, ia_float = 0, ia_text = None,
     ia_value = None, ia_names = [], ia_object = Some (length h), ia_dataset = (0, None), ia_rcb = (None, False)\<rparr>"

end
