(* ===== verification/IedClient.thy ===== *)
theory IedClient
  imports IedCommon "HOL-Library.Sublist"
begin

text \<open>
  The IED client \<open>ied_client.c\<close>: a fixed sequence of directory, read, write and data set operations,
  each reported by a line, and an exit code that says whether all of them succeeded.
\<close>

section \<open>Lines\<close>

definition emit_names :: "string \<Rightarrow> string option \<Rightarrow> string list \<Rightarrow> session \<Rightarrow> session" where
  "emit_names op target names =
     print_line (ok_line op target [(''names'', bracketed (map quoted names))])"

definition emit_value :: "string \<Rightarrow> string \<Rightarrow> session \<Rightarrow> session" where
  "emit_value target text = print_line (ok_line ''read'' (Some target) [(''value'', text)])"

definition emit_bool :: "string \<Rightarrow> bool \<Rightarrow> session \<Rightarrow> session" where
  "emit_bool target v = emit_value target (truth v)"

definition emit_float :: "client_lib \<Rightarrow> string \<Rightarrow> u32 \<Rightarrow> session \<Rightarrow> session" where
  "emit_float L target v = emit_value target (float_g L v)"

definition emit_int :: "string \<Rightarrow> u32 \<Rightarrow> session \<Rightarrow> session" where
  "emit_int target v = emit_value target (dec_int (sint v))"

definition emit_string :: "string \<Rightarrow> string option \<Rightarrow> session \<Rightarrow> session" where
  "emit_string target v = emit_value target (quoted (case v of None \<Rightarrow> [] | Some t \<Rightarrow> t))"

definition emit_write_ok :: "string \<Rightarrow> session \<Rightarrow> session" where
  "emit_write_ok target = print_line (ok_line ''write'' (Some target) [])"

section \<open>Operations\<close>

text \<open>\<open>strlen(name) >= 9 && !strcmp(name + n - 9, "InteropLD")\<close>.\<close>

definition ends_in_InteropLD :: "string \<Rightarrow> bool" where
  "ends_in_InteropLD name \<longleftrightarrow> 9 \<le> length name \<and> drop (length name - 9) name = ''InteropLD''"

definition resolve_interop_ld :: "string list \<Rightarrow> nat \<Rightarrow> string option" where
  "resolve_interop_ld names out_len =
     (case find (\<lambda>name. name = ''InteropLD'') names of
        Some name \<Rightarrow> Some (snprintf_s out_len name)
      | None \<Rightarrow>
          (case find ends_in_InteropLD names of
             Some name \<Rightarrow> Some (snprintf_s out_len name)
           | None \<Rightarrow>
               (case names of
                  fallback # _ \<Rightarrow> Some (snprintf_s out_len fallback)
                | [] \<Rightarrow> None)))"

text \<open>The result, the contents of \<open>ld_out\<close>, which starts out empty, and the session.\<close>

definition op_get_server_directory :: "ied_connection \<Rightarrow> nat \<Rightarrow> session \<Rightarrow> bool \<times> string \<times> session" where
  "op_get_server_directory conn ld_len s =
     (let (a, s) = ask conn (GetServerDirectory False) s
      in if ia_err a \<noteq> IED_ERROR_OK then
           (False, [], emit_error ''get-server-directory'' None (ied_error_str (ia_err a)) s)
         else
           let s = emit_names ''get-server-directory'' None (ia_names a) s
           in case resolve_interop_ld (ia_names a) ld_len of
                None \<Rightarrow> (False, [], emit_error ''get-server-directory'' None ''no logical device found'' s)
              | Some ld \<Rightarrow> (True, ld, s))"

text \<open>A request, and what follows if it succeeds.\<close>

definition request_op ::
  "ied_connection \<Rightarrow> string \<Rightarrow> string \<Rightarrow> ied_request \<Rightarrow> (ied_answer \<Rightarrow> session \<Rightarrow> bool \<times> session) \<Rightarrow> session \<Rightarrow> bool \<times> session" where
  "request_op conn op target r success s =
     (let (a, s) = ask conn r s
      in if ia_err a \<noteq> IED_ERROR_OK then (False, emit_error op (Some target) (ied_error_str (ia_err a)) s)
         else success a s)"

definition op_get_ld_directory :: "ied_connection \<Rightarrow> string \<Rightarrow> session \<Rightarrow> bool \<times> session" where
  "op_get_ld_directory conn ld = request_op conn ''get-ld-directory'' ld (GetLogicalDeviceDirectory ld)
     (\<lambda>a s. (True, emit_names ''get-ld-directory'' (Some ld) (ia_names a) s))"

definition op_get_ln_directory :: "ied_connection \<Rightarrow> string \<Rightarrow> session \<Rightarrow> bool \<times> session" where
  "op_get_ln_directory conn ld_ln = request_op conn ''get-ln-directory'' ld_ln (GetLogicalNodeDirectory ld_ln False)
     (\<lambda>a s. (True, emit_names ''get-ln-directory'' (Some ld_ln) (ia_names a) s))"

definition fc_target :: "string \<Rightarrow> fc \<Rightarrow> string" where
  "fc_target ref c = snprintf_s 256 (ref @ ''['' @ fc_name c @ '']'')"

definition op_read_bool :: "ied_connection \<Rightarrow> string \<Rightarrow> fc \<Rightarrow> session \<Rightarrow> bool \<times> session" where
  "op_read_bool conn ref c = request_op conn ''read'' (fc_target ref c) (ReadBooleanValue ref c)
     (\<lambda>a s. (True, emit_bool (fc_target ref c) (ia_bool a) s))"

definition op_read_float :: "ied_connection \<Rightarrow> client_lib \<Rightarrow> string \<Rightarrow> fc \<Rightarrow> session \<Rightarrow> bool \<times> session" where
  "op_read_float conn L ref c = request_op conn ''read'' (fc_target ref c) (ReadFloatValue ref c)
     (\<lambda>a s. (True, emit_float L (fc_target ref c) (ia_float a) s))"

definition op_read_int :: "ied_connection \<Rightarrow> string \<Rightarrow> fc \<Rightarrow> session \<Rightarrow> bool \<times> session" where
  "op_read_int conn ref c = request_op conn ''read'' (fc_target ref c) (ReadInt32Value ref c)
     (\<lambda>a s. (True, emit_int (fc_target ref c) (ia_int32 a) s))"

definition op_read_dbpos :: "ied_connection \<Rightarrow> client_lib \<Rightarrow> string \<Rightarrow> fc \<Rightarrow> session \<Rightarrow> bool \<times> session" where
  "op_read_dbpos conn L ref c = request_op conn ''read'' (fc_target ref c) (ReadObject ref c)
     (\<lambda>a s. case ia_value a of
        Some (MBitString bs) \<Rightarrow> (True, emit_int (fc_target ref c) (dbpos L bs) s)
      | _ \<Rightarrow> (False, emit_error ''read'' (Some (fc_target ref c)) ''unexpected-type'' s))"

definition op_read_uint :: "ied_connection \<Rightarrow> string \<Rightarrow> fc \<Rightarrow> session \<Rightarrow> bool \<times> session" where
  "op_read_uint conn ref c = request_op conn ''read'' (fc_target ref c) (ReadUnsigned32Value ref c)
     (\<lambda>a s. (True, emit_value (fc_target ref c) (dec (unat (ia_uint32 a))) s))"

definition op_read_string :: "ied_connection \<Rightarrow> string \<Rightarrow> fc \<Rightarrow> session \<Rightarrow> bool \<times> session" where
  "op_read_string conn ref c = request_op conn ''read'' (fc_target ref c) (ReadStringValue ref c)
     (\<lambda>a s. (True, emit_string (fc_target ref c) (ia_text a) s))"

definition op_write_int :: "ied_connection \<Rightarrow> string \<Rightarrow> fc \<Rightarrow> int \<Rightarrow> session \<Rightarrow> bool \<times> session" where
  "op_write_int conn ref c v = request_op conn ''write'' (fc_target ref c) (WriteInt32Value ref c v)
     (\<lambda>a s. (True, emit_write_ok (fc_target ref c) s))"

text \<open>An element of a data set. \<open>MmsValue_getElement\<close> answers NULL behind the end.\<close>

fun dataset_value :: "client_lib \<Rightarrow> mms_value option \<Rightarrow> string" where
  "dataset_value L (Some (MBoolean b)) = truth b"
| "dataset_value L (Some (MInteger w)) = dec_int (sint (to_int32 L w))"
| "dataset_value L (Some (MUnsigned w)) = dec (unat w)"
| "dataset_value L (Some (MFloat32 f)) = float_g L f"
| "dataset_value L (Some (MFloat64 d)) = float_g L (f32_of_f64 L d)"
| "dataset_value L (Some (MVisibleString t)) = quoted t"
| "dataset_value L _ = ''null''"

definition element_at :: "mms_value option list option \<Rightarrow> nat \<Rightarrow> mms_value option" where
  "element_at ds_array i =
     (case ds_array of None \<Rightarrow> None | Some vs \<Rightarrow> if i < length vs then vs ! i else None)"

definition dataset_values :: "client_lib \<Rightarrow> int \<times> mms_value option list option \<Rightarrow> string list" where
  "dataset_values L ds = map (\<lambda>i. dataset_value L (element_at (snd ds) i)) [0..<nat (fst ds)]"

definition op_read_dataset :: "ied_connection \<Rightarrow> client_lib \<Rightarrow> string \<Rightarrow> session \<Rightarrow> bool \<times> session" where
  "op_read_dataset conn L ds_ref = request_op conn ''read-dataset'' ds_ref (ReadDataSetValues ds_ref)
     (\<lambda>a s. (True, print_line (ok_line ''read-dataset'' (Some ds_ref)
        [(''values'', bracketed (dataset_values L (ia_dataset a)))]) s))"

section \<open>The program\<close>

record client_opts =
  io_host :: string
  io_port :: int

definition client_defaults :: client_opts where
  "client_defaults = \<lparr>io_host = ''localhost'', io_port = 1102\<rparr>"

definition client_option :: "string \<Rightarrow> (string \<Rightarrow> client_opts \<Rightarrow> client_opts) option" where
  "client_option name =
     (if name = ''--host'' then Some (\<lambda>v opts. opts\<lparr>io_host := v\<rparr>)
      else if name = ''--port'' then Some (\<lambda>v opts. opts\<lparr>io_port := atoi v\<rparr>)
      else None)"

definition client_args :: "string list \<Rightarrow> client_opts" where
  "client_args argv = scan_args client_option (drop 1 argv) client_defaults"

text \<open>\<open>failed |= !op(...)\<close>, one operation after the other.\<close>

definition run_ops :: "(session \<Rightarrow> bool \<times> session) list \<Rightarrow> bool \<times> session \<Rightarrow> bool \<times> session" where
  "run_ops ops fs = foldl (\<lambda>(failed, s) f. let (ok, s) = f s in (failed \<or> \<not> ok, s)) fs ops"

text \<open>\<open>snprintf(ref, sizeof(ref), "%s...", ld)\<close>.\<close>

definition ref_of :: "string \<Rightarrow> string \<Rightarrow> string" where
  "ref_of ld name = snprintf_s 256 (ld @ name)"

definition client_ops :: "ied_connection \<Rightarrow> client_lib \<Rightarrow> string \<Rightarrow> (session \<Rightarrow> bool \<times> session) list" where
  "client_ops conn L ld =
     [op_get_ld_directory conn ld,
      op_get_ln_directory conn (ref_of ld ''/GGIO1''),
      op_read_bool conn (ref_of ld ''/GGIO1.SPS1.stVal'') IEC61850_FC_ST,
      op_read_float conn L (ref_of ld ''/MMXU1.TotW.mag.f'') IEC61850_FC_MX,
      op_read_dbpos conn L (ref_of ld ''/GGIO1.DPS1.stVal'') IEC61850_FC_ST,
      op_read_uint conn (ref_of ld ''/MMTR1.TotVAh.actVal'') IEC61850_FC_ST,
      op_read_int conn (ref_of ld ''/LLN0.Mod.ctlModel'') IEC61850_FC_CF,
      op_read_string conn (ref_of ld ''/LLN0.Mod.d'') IEC61850_FC_DC,
      op_write_int conn (ref_of ld ''/LLN0.Mod.stVal'') IEC61850_FC_ST 5,
      op_read_dataset conn L (ref_of ld ''/LLN0$dsInterop'')]"

text \<open>What follows the association: the exit code and the session.\<close>

definition client_sequence :: "ied_connection \<Rightarrow> client_lib \<Rightarrow> session \<Rightarrow> int \<times> session" where
  "client_sequence conn L s =
     (let s = print_line (ok_line ''associate'' None []) s;
          (ok, ld, s) = op_get_server_directory conn 128 s;
          ld = (if ld = [] then ''InteropLD'' else ld);
          (failed, s) = run_ops (client_ops conn L ld) (\<not> ok, s);
          (_, s) = ask conn IedClose s;
          s = print_line (ok_line ''conclude'' None []) s
      in (if failed then 3 else 0, s))"

definition client_main :: "string option \<Rightarrow> ied_connection \<Rightarrow> client_lib \<Rightarrow> string list \<Rightarrow> ied_run" where
  "client_main version conn L argv =
     (case jl_handle_meta_flags version argv ''libiec61850'' of
        Some t \<Rightarrow> Meta t
      | None \<Rightarrow>
          let opts = client_args argv
          in if bad_port (io_port opts) then Ran 1 session_start
             else
               let (a, s) = ask conn (IedConnect (io_host opts) (io_port opts)) session_start
               in if ia_err a \<noteq> IED_ERROR_OK then
                    Ran 2 (emit_error ''associate'' None (ied_error_str (ia_err a)) s)
                  else let (code, s) = client_sequence conn L s in Ran code s)"

section \<open>What an operation prints\<close>

text \<open>The texts of the server that are printed as they are, and the floats.\<close>

fun plain_value :: "client_lib \<Rightarrow> mms_value option \<Rightarrow> bool" where
  "plain_value L (Some (MVisibleString t)) = plain_string t"
| "plain_value L (Some (MFloat32 f)) = json_number (float_g L f)"
| "plain_value L (Some (MFloat64 d)) = json_number (float_g L (f32_of_f64 L d))"
| "plain_value L _ = True"

definition plain_answer :: "client_lib \<Rightarrow> ied_answer \<Rightarrow> bool" where
  "plain_answer L a \<longleftrightarrow> list_all plain_string (ia_names a) \<and> (case ia_text a of None \<Rightarrow> True | Some t \<Rightarrow> plain_string t) \<and>
     json_number (float_g L (ia_float a)) \<and>
     (case snd (ia_dataset a) of None \<Rightarrow> True | Some vs \<Rightarrow> list_all (plain_value L) vs)"

definition plain_server :: "client_lib \<Rightarrow> ied_connection \<Rightarrow> bool" where
  "plain_server L conn \<longleftrightarrow> (\<forall>h r. plain_answer L (conn h r))"

definition line_key :: "out_line \<Rightarrow> string \<times> string option" where
  "line_key l = (ol_op l, ol_target l)"

text \<open>From one session to another: lines with given operations and targets, and whether all succeeded.\<close>

definition reports ::
  "ied_connection \<Rightarrow> client_lib \<Rightarrow> session \<Rightarrow> (string \<times> string option) list \<Rightarrow> bool \<Rightarrow> session \<Rightarrow> bool" where
  "reports conn L s ks ok s' \<longleftrightarrow>
     (\<exists>evs ls. grows s evs ls s' \<and> map line_key ls = ks \<and> ok = list_all ol_ok ls \<and>
        (plain_server L conn \<and> list_all (\<lambda>k. pred_option plain_string (snd k)) ks \<longrightarrow> list_all json_out ls))"

lemma reports_trans:
  "reports conn L s ks ok s1 \<Longrightarrow> reports conn L s1 ks' ok' s2 \<Longrightarrow> reports conn L s (ks @ ks') (ok \<and> ok') s2"
  unfolding reports_def by (elim exE conjE, intro exI conjI, erule (1) grows_trans) auto

lemma reports_ask: "ask conn r s = (a, s1) \<Longrightarrow> reports conn L s [] True s1"
  unfolding reports_def by (intro exI conjI, erule grows_ask) simp_all

lemma reports_print:
  assumes "plain_server L conn \<and> pred_option plain_string (ol_target l) \<Longrightarrow> json_out l"
  shows "reports conn L s [line_key l] (ol_ok l) (print_line l s)"
  unfolding reports_def
  using assms by (intro exI [of _ "[]"] exI [of _ "[l]"]) (auto simp: grows_def print_line_def line_key_def)

lemma line_key_simps [simp]:
  "line_key (ok_line op target ms) = (op, target)" "line_key (error_line op target msg) = (op, target)"
  by (simp_all add: line_key_def)

lemma reports_error:
  "plain_string op \<Longrightarrow> plain_string msg \<Longrightarrow> reports conn L s [(op, target)] False (emit_error op target msg s)"
  using reports_print [of L conn "error_line op target msg" s] json_error_line [of op target msg]
  by (cases target) (auto simp: emit_error_def)

lemma reports_ok:
  assumes "plain_string op" "plain_server L conn \<Longrightarrow> list_all (\<lambda>(k, t). plain_string k \<and> json_syntax t) ms"
  shows "reports conn L s [(op, target)] True (print_line (ok_line op target ms) s)"
  using assms reports_print [of L conn "ok_line op target ms" s] json_ok_line [of op target ms]
  by (cases target) auto

lemma json_name_list: "list_all plain_string ns \<Longrightarrow> json_syntax (bracketed (map quoted ns))"
  by (rule json_bracketed) (auto simp: list_all_iff json_quoted)

lemma json_dataset_value: "plain_value L v \<Longrightarrow> json_syntax (dataset_value L v)"
  by (induction L v rule: dataset_value.induct)
    (simp_all add: json_truth json_quoted json_syntax.number json_syntax.literal)

lemma plain_answerD:
  assumes "ask conn r s = (a, s1)" "plain_server L conn"
  shows "plain_answer L a"
  using assms by (auto simp: ask_def Let_def plain_server_def)

lemma request_op_reports:
  assumes "request_op conn op target r success s = (b, s')" "plain_string op"
    "\<And>a t. ask conn r s = (a, t) \<Longrightarrow> reports conn L t [(op, Some target)] (fst (success a t)) (snd (success a t))"
  shows "reports conn L s [(op, Some target)] b s'"
proof -
  obtain a t where c: "ask conn r s = (a, t)" by force
  show ?thesis
  proof (cases "ia_err a = IED_ERROR_OK")
    case True
    with reports_trans [OF reports_ask [OF c] assms(3) [OF c]] assms(1) c show ?thesis by (simp add: request_op_def)
  next
    case False
    then show ?thesis
      using reports_trans [OF reports_ask [OF c] reports_error [OF assms(2), of "ied_error_str (ia_err a)"]] assms(1) c
      by (auto simp: request_op_def)
  qed
qed

text \<open>Every operation prints one line, with its target, and returns whether that line has ok true.\<close>

definition reporting :: "ied_connection \<Rightarrow> client_lib \<Rightarrow> string \<times> string option \<Rightarrow> (session \<Rightarrow> bool \<times> session) \<Rightarrow> bool" where
  "reporting conn L k f \<longleftrightarrow> (\<forall>s. reports conn L s [k] (fst (f s)) (snd (f s)))"

lemma reporting_request:
  assumes "plain_string op"
    "\<And>s a t. ask conn r s = (a, t) \<Longrightarrow> reports conn L t [(op, Some target)] (fst (success a t)) (snd (success a t))"
  shows "reporting conn L (op, Some target) (request_op conn op target r success)"
  unfolding reporting_def using request_op_reports [OF _ assms(1)] assms(2) by (metis prod.collapse)

lemmas client_op_defs =
  op_get_ld_directory_def op_get_ln_directory_def op_read_bool_def op_read_float_def op_read_int_def op_read_dbpos_def
  op_read_uint_def op_read_string_def op_write_int_def op_read_dataset_def

lemmas client_line_defs = emit_names_def emit_value_def emit_bool_def emit_float_def emit_int_def emit_string_def emit_write_ok_def

lemma ops_reporting:
  "reporting conn L (''get-ld-directory'', Some ld) (op_get_ld_directory conn ld)"
  "reporting conn L (''get-ln-directory'', Some ld) (op_get_ln_directory conn ld)"
  "reporting conn L (''read'', Some (fc_target ref c)) (op_read_bool conn ref c)"
  "reporting conn L (''read'', Some (fc_target ref c)) (op_read_float conn L ref c)"
  "reporting conn L (''read'', Some (fc_target ref c)) (op_read_int conn ref c)"
  "reporting conn L (''read'', Some (fc_target ref c)) (op_read_dbpos conn L ref c)"
  "reporting conn L (''read'', Some (fc_target ref c)) (op_read_uint conn ref c)"
  "reporting conn L (''read'', Some (fc_target ref c)) (op_read_string conn ref c)"
  "reporting conn L (''write'', Some (fc_target ref c)) (op_write_int conn ref c v)"
  unfolding client_op_defs client_line_defs
  by (rule reporting_request, simp add: plain_def,
      auto simp: plain_def plain_answer_def json_truth json_quoted json_syntax.number json_name_list
        dest!: plain_answerD intro!: reports_ok reports_error split: option.split mms_value.split)+

lemma json_dataset_values:
  assumes "case snd ds of None \<Rightarrow> True | Some vs \<Rightarrow> list_all (plain_value L) vs"
  shows "json_syntax (bracketed (dataset_values L ds))"
  using assms by (intro json_bracketed)
    (auto simp: dataset_values_def element_at_def list_all_iff json_syntax.literal intro!: json_dataset_value split: option.splits)

lemma dataset_reporting: "reporting conn L (''read-dataset'', Some ref) (op_read_dataset conn L ref)"
  unfolding op_read_dataset_def
  by (rule reporting_request) (auto simp: plain_def plain_answer_def json_dataset_values dest!: plain_answerD intro!: reports_ok)


section \<open>The logical device\<close>

lemma ends_in_suffix: "ends_in_InteropLD name \<longleftrightarrow> suffix ''InteropLD'' name"
proof
  assume e: "ends_in_InteropLD name"
  have "name = take (length name - 9) name @ drop (length name - 9) name" by simp
  with e show "suffix ''InteropLD'' name" unfolding suffix_def ends_in_InteropLD_def by metis
qed (auto simp: ends_in_InteropLD_def suffix_def)

lemma find_filter: "find P xs = (case filter P xs of [] \<Rightarrow> None | x # _ \<Rightarrow> Some x)"
  by (induction xs) simp_all

text \<open>The name the program goes on with: the exact one, one that ends in it, or the first.\<close>

definition preferred_ld :: "string list \<Rightarrow> string" where
  "preferred_ld names =
     hd (filter (\<lambda>n. n = ''InteropLD'') names @ filter (suffix ''InteropLD'') names @ names)"

lemma resolve_preferred:
  "resolve_interop_ld names len = (if names = [] then None else Some (snprintf_s len (preferred_ld names)))"
  unfolding resolve_interop_ld_def preferred_ld_def find_filter ends_in_suffix [abs_def]
  by (auto split: list.splits)

definition device_of :: "ied_answer \<Rightarrow> string" where
  "device_of a =
     (let ld = (if ia_err a \<noteq> IED_ERROR_OK \<or> ia_names a = [] then [] else take 127 (preferred_ld (ia_names a)))
      in if ld = [] then ''InteropLD'' else ld)"

lemma op_get_server_directory_reports:
  assumes "op_get_server_directory conn 128 s = (ok, ld, s')" "ask conn (GetServerDirectory False) s = (a, t)"
  shows "reports conn L s ((''get-server-directory'', None) #
      (if ia_err a = IED_ERROR_OK \<and> ia_names a = [] then [(''get-server-directory'', None)] else [])) ok s' \<and>
    (if ld = [] then ''InteropLD'' else ld) = device_of a"
proof -
  note r = reports_ask [OF assms(2), of L]
  have names: "reports conn L t [(''get-server-directory'', None)] True (emit_names ''get-server-directory'' None (ia_names a) t)"
    unfolding emit_names_def using plain_answerD [OF assms(2)]
    by (intro reports_ok) (auto simp: plain_def plain_answer_def intro: json_name_list)
  consider "ia_err a \<noteq> IED_ERROR_OK" | "ia_err a = IED_ERROR_OK" "ia_names a = []" | "ia_err a = IED_ERROR_OK" "ia_names a \<noteq> []"
    by blast
  then show ?thesis
  proof cases
    case 1
    with reports_trans [OF r reports_error [of "''get-server-directory''" "ied_error_str (ia_err a)"]] assms
    show ?thesis by (auto simp: op_get_server_directory_def device_of_def plain_def)
  next
    case 2
    with reports_trans [OF r reports_trans [OF names reports_error [of "''get-server-directory''" "''no logical device found''"]]] assms
    show ?thesis by (auto simp: op_get_server_directory_def device_of_def plain_def resolve_preferred)
  next
    case 3
    with reports_trans [OF r names] assms
    show ?thesis by (auto simp: op_get_server_directory_def device_of_def resolve_preferred snprintf_s_def Let_def)
  qed
qed

section \<open>The whole sequence\<close>

lemma run_ops_reports:
  "list_all2 (reporting conn L) ks fs \<Longrightarrow> run_ops fs (failed, s) = (failed', s') \<Longrightarrow>
   \<exists>ok. reports conn L s ks ok s' \<and> failed' = (failed \<or> \<not> ok)"
proof (induction arbitrary: failed s rule: list_all2_induct)
  case Nil
  then show ?case by (intro exI [of _ True]) (auto simp: run_ops_def reports_def intro: exI [of _ "[]"])
next
  case (Cons k ks f fs)
  obtain b t where f: "f s = (b, t)" by force
  with Cons(1) have "reports conn L s [k] b t" by (auto simp: reporting_def dest!: spec [of _ s])
  moreover obtain ok where "reports conn L t ks ok s'" "failed' = (failed \<or> \<not> b \<or> \<not> ok)"
    using Cons(3) [of "failed \<or> \<not> b" t] Cons(4) f by (auto simp: run_ops_def)
  ultimately show ?case using reports_trans by fastforce
qed

text \<open>The operations and targets behind the directory of the server.\<close>

definition client_keys :: "string \<Rightarrow> (string \<times> string option) list" where
  "client_keys ld =
     [(''get-ld-directory'', Some ld), (''get-ln-directory'', Some (ld @ ''/GGIO1'')),
      (''read'', Some (ld @ ''/GGIO1.SPS1.stVal[ST]'')), (''read'', Some (ld @ ''/MMXU1.TotW.mag.f[MX]'')),
      (''read'', Some (ld @ ''/GGIO1.DPS1.stVal[ST]'')), (''read'', Some (ld @ ''/MMTR1.TotVAh.actVal[ST]'')),
      (''read'', Some (ld @ ''/LLN0.Mod.ctlModel[CF]'')), (''read'', Some (ld @ ''/LLN0.Mod.d[DC]'')),
      (''write'', Some (ld @ ''/LLN0.Mod.stVal[ST]'')), (''read-dataset'', Some (ld @ ''/LLN0$dsInterop''))]"

lemma client_ops_reporting:
  assumes "length ld < 128"
  shows "list_all2 (reporting conn L) (client_keys ld) (client_ops conn L ld)"
proof -
  have t: "fc_target (ld @ name) c = ld @ name @ ''['' @ fc_name c @ '']''" if "length name < 30" for name c
  proof -
    have "length (fc_name c) = 2" by (cases c) simp_all
    with assms that show ?thesis by (simp add: fc_target_def)
  qed
  have r: "ref_of ld name = ld @ name" if "length name < 30" for name using assms that by (simp add: ref_of_def)
  have "client_keys ld =
     [(''get-ld-directory'', Some ld), (''get-ln-directory'', Some (ref_of ld ''/GGIO1'')),
      (''read'', Some (fc_target (ref_of ld ''/GGIO1.SPS1.stVal'') IEC61850_FC_ST)),
      (''read'', Some (fc_target (ref_of ld ''/MMXU1.TotW.mag.f'') IEC61850_FC_MX)),
      (''read'', Some (fc_target (ref_of ld ''/GGIO1.DPS1.stVal'') IEC61850_FC_ST)),
      (''read'', Some (fc_target (ref_of ld ''/MMTR1.TotVAh.actVal'') IEC61850_FC_ST)),
      (''read'', Some (fc_target (ref_of ld ''/LLN0.Mod.ctlModel'') IEC61850_FC_CF)),
      (''read'', Some (fc_target (ref_of ld ''/LLN0.Mod.d'') IEC61850_FC_DC)),
      (''write'', Some (fc_target (ref_of ld ''/LLN0.Mod.stVal'') IEC61850_FC_ST)),
      (''read-dataset'', Some (ref_of ld ''/LLN0$dsInterop''))]"
    by (simp add: client_keys_def t r)
  then show ?thesis by (simp add: client_ops_def ops_reporting dataset_reporting)
qed

lemma client_sequence_reports:
  assumes "client_sequence conn L s = (rc, s')"
  shows "\<exists>a t ok. ask conn (GetServerDirectory False) (print_line (ok_line ''associate'' None []) s) = (a, t) \<and>
    reports conn L s ([(''associate'', None), (''get-server-directory'', None)] @
      (if ia_err a = IED_ERROR_OK \<and> ia_names a = [] then [(''get-server-directory'', None)] else []) @
      client_keys (device_of a) @ [(''conclude'', None)]) ok s' \<and> rc = (if ok then 0 else 3)"
proof -
  let ?s = "print_line (ok_line ''associate'' None []) s"
  obtain a t where c: "ask conn (GetServerDirectory False) ?s = (a, t)" by force
  obtain ok0 ld0 s1 where d: "op_get_server_directory conn 128 ?s = (ok0, ld0, s1)" using prod_cases3 by blast
  note dir = op_get_server_directory_reports [OF d c, of L]
  have len: "length (device_of a) < 128" by (auto simp: device_of_def Let_def min_def)
  obtain failed s2 where ops: "run_ops (client_ops conn L (device_of a)) (\<not> ok0, s1) = (failed, s2)" by force
  obtain ok1 where ok1: "reports conn L s1 (client_keys (device_of a)) ok1 s2" "failed = (\<not> ok0 \<or> \<not> ok1)"
    using run_ops_reports [OF client_ops_reporting [OF len] ops] by blast
  obtain b s3 where cl: "ask conn IedClose s2 = (b, s3)" by force
  have s': "s' = print_line (ok_line ''conclude'' None []) s3" "rc = (if failed then 3 else 0)"
    using assms d dir ops cl by (simp_all add: client_sequence_def Let_def)
  have r0: "reports conn L s [(''associate'', None)] True ?s" by (rule reports_ok) (simp_all add: plain_def)
  have r4: "reports conn L s3 [(''conclude'', None)] True s'" unfolding s' by (rule reports_ok) (simp_all add: plain_def)
  have "reports conn L s ([(''associate'', None)] @ ((''get-server-directory'', None) #
      (if ia_err a = IED_ERROR_OK \<and> ia_names a = [] then [(''get-server-directory'', None)] else [])) @
      client_keys (device_of a) @ [] @ [(''conclude'', None)]) (True \<and> ok0 \<and> ok1 \<and> True \<and> True) s'"
    by (rule reports_trans [OF r0 reports_trans [OF conjunct1 [OF dir] reports_trans [OF ok1(1) reports_trans [OF reports_ask [OF cl] r4]]]])
  then show ?thesis using c ok1(2) s'(2) by (intro exI [of _ a] exI [of _ t] exI [of _ "ok0 \<and> ok1"]) simp
qed

lemma client_ran:
  assumes "client_main version conn L argv = Ran rc s" "rc \<noteq> 1" "rc \<noteq> 2"
  obtains a t where "ask conn (IedConnect (io_host (client_args argv)) (io_port (client_args argv))) session_start = (a, t)"
    "client_sequence conn L t = (rc, s)"
  using assms by (auto simp: client_main_def Let_def split: option.splits if_splits prod.splits)

text \<open>C28: The IED client keeps its output contract. After a successful association it prints, whatever the
  server answers, one line for each operation of the sequence, in order and with its target in
  full, and at the end conclude; an empty server directory adds one error line. All targets are in
  the logical device the server's directory offers: the one called InteropLD, else the first whose
  name ends so, else the first, cut at 127 characters, and InteropLD if there is none.\<close>

theorem client_contract:
  assumes "client_main version conn L argv = Ran rc s" "rc \<noteq> 1" "rc \<noteq> 2"
  shows "\<exists>a. a = conn [IedConnect (io_host (client_args argv)) (io_port (client_args argv))] (GetServerDirectory False) \<and>
    map (\<lambda>l. (ol_op l, ol_target l)) (ses_lines s) =
      [(''associate'', None), (''get-server-directory'', None)] @
      (if ia_err a = IED_ERROR_OK \<and> ia_names a = [] then [(''get-server-directory'', None)] else []) @
      client_keys (device_of a) @ [(''conclude'', None)]"
proof -
  obtain b t where c: "ask conn (IedConnect (io_host (client_args argv)) (io_port (client_args argv))) session_start = (b, t)"
    "client_sequence conn L t = (rc, s)" using assms by (rule client_ran)
  obtain a u ok where a: "ask conn (GetServerDirectory False) (print_line (ok_line ''associate'' None []) t) = (a, u)"
    "reports conn L t ([(''associate'', None), (''get-server-directory'', None)] @
      (if ia_err a = IED_ERROR_OK \<and> ia_names a = [] then [(''get-server-directory'', None)] else []) @
      client_keys (device_of a) @ [(''conclude'', None)]) ok s" using client_sequence_reports [OF c(2)] by blast
  have "a = conn [IedConnect (io_host (client_args argv)) (io_port (client_args argv))] (GetServerDirectory False)"
    "ses_lines t = []" using a(1) c(1) by (auto simp: ask_def Let_def session_start_def print_line_def)
  moreover have "line_key = (\<lambda>l. (ol_op l, ol_target l))" by (simp add: fun_eq_iff line_key_def)
  ultimately show ?thesis using a(2) by (intro exI [of _ a]) (auto simp: reports_def grows_def)
qed

text \<open>C29: The exit code tells whether all went well. After an association the client exits with 0 exactly
  if every line it printed has ok true, and otherwise with 3; every line is JSON when the device
  name and the texts the server sends have no quote, backslash or control character and its floats
  are numbers.\<close>

theorem client_exit_code:
  assumes "client_main version conn L argv = Ran rc s" "rc \<noteq> 1" "rc \<noteq> 2"
  shows "rc = (if list_all ol_ok (ses_lines s) then 0 else 3) \<and>
    (plain_server L conn \<longrightarrow> list_all (\<lambda>l. json_syntax (out_text l)) (ses_lines s))"
proof -
  obtain b t where c: "ask conn (IedConnect (io_host (client_args argv)) (io_port (client_args argv))) session_start = (b, t)"
    "client_sequence conn L t = (rc, s)" using assms by (rule client_ran)
  obtain a u ok where a: "ask conn (GetServerDirectory False) (print_line (ok_line ''associate'' None []) t) = (a, u)"
    "reports conn L t ([(''associate'', None), (''get-server-directory'', None)] @
      (if ia_err a = IED_ERROR_OK \<and> ia_names a = [] then [(''get-server-directory'', None)] else []) @
      client_keys (device_of a) @ [(''conclude'', None)]) ok s" "rc = (if ok then 0 else 3)"
    using client_sequence_reports [OF c(2)] by blast
  have l: "ses_lines t = []" using c(1) by (auto simp: ask_def Let_def session_start_def)
  have "plain_string (preferred_ld (ia_names a))" if "plain_server L conn" "ia_names a \<noteq> []"
  proof -
    have "preferred_ld (ia_names a) \<in> set (filter (\<lambda>n. n = ''InteropLD'') (ia_names a) @ filter (suffix ''InteropLD'') (ia_names a) @ ia_names a)"
      unfolding preferred_ld_def by (rule list.set_sel(1)) (use that in simp)
    then show ?thesis using plain_answerD [OF a(1) that(1)] by (auto simp: plain_answer_def list_all_iff)
  qed
  then have "plain_string (device_of a)" if "plain_server L conn"
    using that by (auto simp: device_of_def Let_def plain_string_def list_all_iff plain_def dest!: in_set_takeD)
  then have "list_all (\<lambda>k. pred_option plain_string (snd k)) ([(''associate'', None), (''get-server-directory'', None)] @
      (if ia_err a = IED_ERROR_OK \<and> ia_names a = [] then [(''get-server-directory'', None)] else []) @
      client_keys (device_of a) @ [(''conclude'', None)])" if "plain_server L conn"
    using that by (simp add: client_keys_def plain_def)
  then show ?thesis using a(2,3) l by (auto simp: reports_def grows_def json_out_def [abs_def])
qed


text \<open>A server with one logical device.\<close>

definition one_device :: ied_connection where
  "one_device h r = (granting h r)\<lparr>ia_names := [''IED1InteropLD''], ia_value := Some (MBitString [True, False])\<rparr>"

lemma one_device_run: "\<exists>rc s. client_main None one_device L [''ied-client''] = Ran rc s \<and> rc \<noteq> 1 \<and> rc \<noteq> 2"
proof -
  obtain a t where c: "ask one_device (IedConnect ''localhost'' 1102) session_start = (a, t)" by force
  then have "ia_err a = IED_ERROR_OK" by (auto simp: ask_def one_device_def granting_def Let_def)
  moreover obtain rc s where q: "client_sequence one_device L t = (rc, s)" by force
  moreover have "rc \<noteq> 1 \<and> rc \<noteq> 2" using client_sequence_reports [OF q] by (auto split: if_splits)
  moreover have "jl_handle_meta_flags None [''ied-client''] ''libiec61850'' = None" by (simp add: jl_handle_meta_flags_def)
  ultimately show ?thesis
    using c by (simp add: client_main_def client_args_def client_defaults_def bad_port_def)
qed

lemma one_device_opts: "client_args [''ied-client''] = client_defaults"
  by (simp add: client_args_def)

theorem client_contract_witness:
  "\<exists>rc s. client_main None one_device sample_client_lib [''ied-client''] = Ran rc s \<and>
     map (\<lambda>l. (ol_op l, ol_target l)) (ses_lines s) =
       [(''associate'', None), (''get-server-directory'', None)] @ client_keys ''IED1InteropLD'' @ [(''conclude'', None)]"
proof -
  obtain rc s where r: "client_main None one_device sample_client_lib [''ied-client''] = Ran rc s" "rc \<noteq> 1" "rc \<noteq> 2"
    using one_device_run by blast
  have "preferred_ld [''IED1InteropLD''] = ''IED1InteropLD''" by (simp add: preferred_ld_def)
  then have "device_of (one_device h r') = ''IED1InteropLD'' \<and> ia_names (one_device h r') \<noteq> []" for h r'
    by (simp add: device_of_def one_device_def granting_def)
  with client_contract [OF r] r show ?thesis by auto
qed

theorem client_exit_code_witness:
  "\<exists>rc s. client_main None one_device sample_client_lib [''ied-client''] = Ran rc s \<and>
     rc = (if list_all ol_ok (ses_lines s) then 0 else 3) \<and> list_all (\<lambda>l. json_syntax (out_text l)) (ses_lines s)"
proof -
  obtain rc s where r: "client_main None one_device sample_client_lib [''ied-client''] = Ran rc s" "rc \<noteq> 1" "rc \<noteq> 2"
    using one_device_run by blast
  have "plain_server sample_client_lib one_device"
    by (simp add: plain_server_def plain_answer_def one_device_def granting_def plain_def float_g_def
        sample_client_lib_def sample_text_lib_def sample_lib_def value_lib.defs text_lib.defs)
  with client_exit_code [OF r] r show ?thesis by blast
qed

end
