(* ===== verification/IedController.thy ===== *)
theory IedController
  imports IedCommon
begin

text \<open>
  The control client \<open>ied_controller.c\<close>: it reads the control model of one data object, selects it if
  the model asks for that, operates it, reads the status back and closes the connection.
\<close>

section \<open>The data objects\<close>

record do_config =
  dc_ctl_ref :: string
  dc_ctlmodel_ref :: string
  dc_stval_ref :: string
  dc_expected_ctlmodel :: int

definition DO_CONFIGS :: "do_config list" where
  "DO_CONFIGS =
     [\<lparr>dc_ctl_ref = ''InteropLD/GGIO1.SPCSO1'', dc_ctlmodel_ref = ''InteropLD/GGIO1.SPCSO1.ctlModel'',
       dc_stval_ref = ''InteropLD/GGIO1.SPCSO1.stVal'', dc_expected_ctlmodel = 1\<rparr>,
      \<lparr>dc_ctl_ref = ''InteropLD/GGIO1.SPCSO2'', dc_ctlmodel_ref = ''InteropLD/GGIO1.SPCSO2.ctlModel'',
       dc_stval_ref = ''InteropLD/GGIO1.SPCSO2.stVal'', dc_expected_ctlmodel = 2\<rparr>,
      \<lparr>dc_ctl_ref = ''InteropLD/GGIO1.SPCSO3'', dc_ctlmodel_ref = ''InteropLD/GGIO1.SPCSO3.ctlModel'',
       dc_stval_ref = ''InteropLD/GGIO1.SPCSO3.stVal'', dc_expected_ctlmodel = 4\<rparr>]"

text \<open>\<open>strrchr(ref, '.')\<close> and what follows the dot, or the whole reference.\<close>

definition last_component :: "string \<Rightarrow> string" where
  "last_component r = rev (takeWhile (\<lambda>c. c \<noteq> CHR ''.'') (rev r))"

definition find_config :: "string \<Rightarrow> do_config option" where
  "find_config do_name = find (\<lambda>cfg. do_name = last_component (dc_ctl_ref cfg)) DO_CONFIGS"

section \<open>Operations\<close>

definition op_read_ctlmodel :: "ied_connection \<Rightarrow> do_config \<Rightarrow> session \<Rightarrow> bool \<times> session" where
  "op_read_ctlmodel conn cfg s =
     (let (a, s) = ask conn (ReadInt32Value (dc_ctlmodel_ref cfg) IEC61850_FC_CF) s;
          target = snprintf_s 128 (dc_ctlmodel_ref cfg @ ''[CF]'')
      in if ia_err a \<noteq> IED_ERROR_OK then (False, emit_error ''read-ctlmodel'' (Some target) (ied_error_str (ia_err a)) s)
         else (True, print_line (ok_line ''read-ctlmodel'' (Some target) [(''value'', dec_int (sint (ia_int32 a)))]) s))"

definition applied_error :: "ied_error \<Rightarrow> string \<Rightarrow> string" where
  "applied_error err otherwise = (if err \<noteq> IED_ERROR_OK then ied_error_str err else otherwise)"

definition op_select :: "ied_connection \<Rightarrow> do_config \<Rightarrow> session \<Rightarrow> bool \<times> session" where
  "op_select conn cfg s =
     (let (c, s) = ask conn (ControlCreate (dc_ctl_ref cfg)) s
      in case ia_object c of
           None \<Rightarrow> (False, emit_error ''select'' (Some (dc_ctl_ref cfg)) ''failed to create ControlObjectClient'' s)
         | Some ctrl \<Rightarrow>
             let (ok, s) = ask conn (ControlSelect ctrl) s;
                 (err, s) = ask conn (ControlLastApplError ctrl) s;
                 (_, s) = ask conn (ControlDestroy ctrl) s
             in if \<not> ia_bool ok then
                  (False, emit_error ''select'' (Some (dc_ctl_ref cfg)) (applied_error (ia_err err) ''select returned false'') s)
                else (True, print_line (ok_line ''select'' (Some (dc_ctl_ref cfg)) []) s))"

text \<open>The end of both functions that operate: the object is destroyed and the result printed.\<close>

definition finish_operate :: "ied_connection \<Rightarrow> do_config \<Rightarrow> bool \<Rightarrow> nat \<Rightarrow> session \<Rightarrow> bool \<times> session" where
  "finish_operate conn cfg ctl_val ctrl s =
     (let (ok, s) = ask conn (ControlOperate ctrl ctl_val 0) s;
          (err, s) = ask conn (ControlLastApplError ctrl) s;
          (_, s) = ask conn (ControlDestroy ctrl) s
      in if \<not> ia_bool ok then
           (False, emit_error ''operate'' (Some (dc_ctl_ref cfg)) (applied_error (ia_err err) ''operate returned false'') s)
         else (True, print_line (ok_line ''operate'' (Some (dc_ctl_ref cfg)) [(''ctlval'', truth ctl_val)]) s))"

definition op_select_with_value :: "ied_connection \<Rightarrow> do_config \<Rightarrow> bool \<Rightarrow> session \<Rightarrow> bool \<times> session" where
  "op_select_with_value conn cfg ctl_val s =
     (let (c, s) = ask conn (ControlCreate (dc_ctl_ref cfg)) s
      in case ia_object c of
           None \<Rightarrow>
             (False, emit_error ''select-with-value'' (Some (dc_ctl_ref cfg)) ''failed to create ControlObjectClient'' s)
         | Some ctrl \<Rightarrow>
             let (ok, s) = ask conn (ControlSelectWithValue ctrl ctl_val) s;
                 (err, s) = ask conn (ControlLastApplError ctrl) s
             in if \<not> ia_bool ok then
                  let s = emit_error ''select-with-value'' (Some (dc_ctl_ref cfg))
                        (applied_error (ia_err err) ''selectWithValue returned false'') s;
                      (_, s) = ask conn (ControlDestroy ctrl) s
                  in (False, s)
                else
                  finish_operate conn cfg ctl_val ctrl
                    (print_line (ok_line ''select-with-value'' (Some (dc_ctl_ref cfg)) []) s))"

definition op_operate :: "ied_connection \<Rightarrow> do_config \<Rightarrow> bool \<Rightarrow> session \<Rightarrow> bool \<times> session" where
  "op_operate conn cfg ctl_val s =
     (let (c, s) = ask conn (ControlCreate (dc_ctl_ref cfg)) s
      in case ia_object c of
           None \<Rightarrow> (False, emit_error ''operate'' (Some (dc_ctl_ref cfg)) ''failed to create ControlObjectClient'' s)
         | Some ctrl \<Rightarrow> finish_operate conn cfg ctl_val ctrl s)"

definition op_read_stval :: "ied_connection \<Rightarrow> do_config \<Rightarrow> session \<Rightarrow> bool \<times> session" where
  "op_read_stval conn cfg s =
     (let (a, s) = ask conn (ReadBooleanValue (dc_stval_ref cfg) IEC61850_FC_ST) s;
          target = snprintf_s 128 (dc_stval_ref cfg @ ''[ST]'')
      in if ia_err a \<noteq> IED_ERROR_OK then (False, emit_error ''read-stval'' (Some target) (ied_error_str (ia_err a)) s)
         else (True, print_line (ok_line ''read-stval'' (Some target) [(''value'', truth (ia_bool a))]) s))"

section \<open>The program\<close>

record controller_opts =
  co_host :: string
  co_port :: int
  co_ctl_val :: bool
  co_do_name :: string

definition controller_defaults :: controller_opts where
  "controller_defaults = \<lparr>co_host = ''localhost'', co_port = 1102, co_ctl_val = True, co_do_name = ''SPCSO1''\<rparr>"

definition controller_option :: "string \<Rightarrow> (string \<Rightarrow> controller_opts \<Rightarrow> controller_opts) option" where
  "controller_option name =
     (if name = ''--host'' then Some (\<lambda>v opts. opts\<lparr>co_host := v\<rparr>)
      else if name = ''--port'' then Some (\<lambda>v opts. opts\<lparr>co_port := atoi v\<rparr>)
      else if name = ''--ctlval'' then Some (\<lambda>v opts. opts\<lparr>co_ctl_val := atoi v \<noteq> 0\<rparr>)
      else if name = ''--do'' then Some (\<lambda>v opts. opts\<lparr>co_do_name := v\<rparr>)
      else None)"

definition controller_args :: "string list \<Rightarrow> controller_opts" where
  "controller_args argv = scan_args controller_option (drop 1 argv) controller_defaults"

definition conclude :: "ied_connection \<Rightarrow> session \<Rightarrow> session" where
  "conclude conn s = (let (_, s) = ask conn IedClose s in print_line (ok_line ''conclude'' None []) s)"

text \<open>What follows the association.\<close>

definition control_sequence :: "ied_connection \<Rightarrow> do_config \<Rightarrow> bool \<Rightarrow> session \<Rightarrow> session" where
  "control_sequence conn cfg ctl_val s =
     (let (_, s) = op_read_ctlmodel conn cfg s;
          (selected, s) = (if dc_expected_ctlmodel cfg = 2 then op_select conn cfg s else (True, s))
      in if \<not> selected then conclude conn s
         else if dc_expected_ctlmodel cfg = 4 then
           let (_, s) = op_select_with_value conn cfg ctl_val s;
               (_, s) = op_read_stval conn cfg s
           in conclude conn s
         else
           let (_, s) = op_operate conn cfg ctl_val s;
               (_, s) = op_read_stval conn cfg s
           in conclude conn s)"

definition controller_main :: "string option \<Rightarrow> ied_connection \<Rightarrow> string list \<Rightarrow> ied_run" where
  "controller_main version conn argv =
     (case jl_handle_meta_flags version argv ''libiec61850'' of
        Some t \<Rightarrow> Meta t
      | None \<Rightarrow>
          let opts = controller_args argv
          in if bad_port (co_port opts) then Ran 1 session_start
             else case find_config (co_do_name opts) of
               None \<Rightarrow> Ran 1 session_start
             | Some cfg \<Rightarrow>
                 let (a, s) = ask conn (IedConnect (co_host opts) (co_port opts)) session_start
                 in if ia_err a \<noteq> IED_ERROR_OK then Ran 2 s
                    else Ran 0 (control_sequence conn cfg (co_ctl_val opts) s))"

section \<open>The control protocol\<close>

text \<open>
  What IEC 61850-7-2 asks of a client, as a machine over the requests and their answers: which
  control object is allocated, whether the data object is reserved by a select, which object and
  value a select-with-value was for, and whether the one operate has been made.
\<close>

record control_view =
  cv_live :: "nat option"
  cv_reserved :: bool
  cv_armed :: "(nat \<times> bool) option"
  cv_operated :: bool

definition control_idle :: control_view where
  "control_idle = \<lparr>cv_live = None, cv_reserved = False, cv_armed = None, cv_operated = False\<rparr>"

fun no_control :: "ied_request \<Rightarrow> bool" where
  "no_control (IedConnect host port) = True"
| "no_control (ReadInt32Value ref fc) = True"
| "no_control (ReadBooleanValue ref fc) = True"
| "no_control _ = False"

inductive control_step :: "int \<Rightarrow> string \<Rightarrow> control_view \<Rightarrow> ied_request \<times> ied_answer \<Rightarrow> control_view \<Rightarrow> bool"
  for model :: int and ref :: string where
  create: "cv_live v = None \<Longrightarrow> control_step model ref v (ControlCreate ref, a) (v\<lparr>cv_live := ia_object a\<rparr>)"
| select: "model = 2 \<Longrightarrow> cv_live v = Some h \<Longrightarrow>
    control_step model ref v (ControlSelect h, a) (v\<lparr>cv_reserved := ia_bool a\<rparr>)"
| select_with_value: "model = 4 \<Longrightarrow> cv_live v = Some h \<Longrightarrow>
    control_step model ref v (ControlSelectWithValue h b, a) (v\<lparr>cv_armed := (if ia_bool a then Some (h, b) else None)\<rparr>)"
| operate: "cv_live v = Some h \<Longrightarrow> \<not> cv_operated v \<Longrightarrow> (model = 2 \<longrightarrow> cv_reserved v) \<Longrightarrow>
    (model = 4 \<longrightarrow> cv_armed v = Some (h, b)) \<Longrightarrow>
    control_step model ref v (ControlOperate h b 0, a) (v\<lparr>cv_operated := True\<rparr>)"
| last_error: "cv_live v = Some h \<Longrightarrow> control_step model ref v (ControlLastApplError h, a) v"
| destroy: "cv_live v = Some h \<Longrightarrow>
    control_step model ref v (ControlDestroy h, a) (v\<lparr>cv_live := None, cv_armed := None\<rparr>)"
| close: "cv_live v = None \<Longrightarrow> control_step model ref v (IedClose, a) v"
| other: "no_control r \<Longrightarrow> control_step model ref v (r, a) v"

inductive_simps control_step_simps:
  "control_step model ref v (ControlCreate r, a) v'"
  "control_step model ref v (ControlSelect h, a) v'"
  "control_step model ref v (ControlSelectWithValue h b, a) v'"
  "control_step model ref v (ControlOperate h b t, a) v'"
  "control_step model ref v (ControlLastApplError h, a) v'"
  "control_step model ref v (ControlDestroy h, a) v'"
  "control_step model ref v (IedClose, a) v'"
  "control_step model ref v (ReadInt32Value r c, a) v'"
  "control_step model ref v (ReadBooleanValue r c, a) v'"
  "control_step model ref v (IedConnect host port, a) v'"

inductive control_trace ::
  "int \<Rightarrow> string \<Rightarrow> control_view \<Rightarrow> (ied_request \<times> ied_answer) list \<Rightarrow> control_view \<Rightarrow> bool"
  for model :: int and ref :: string where
  no_event: "control_trace model ref v [] v"
| event: "control_step model ref v e v1 \<Longrightarrow> control_trace model ref v1 es v2 \<Longrightarrow> control_trace model ref v (e # es) v2"

inductive_simps control_trace_simps [simp]:
  "control_trace model ref v [] v'"
  "control_trace model ref v (e # es) v'"

lemma control_trace_append:
  "control_trace model ref v es v1 \<Longrightarrow> control_trace model ref v1 es' v2 \<Longrightarrow> control_trace model ref v (es @ es') v2"
  by (induction rule: control_trace.induct) (auto intro: control_trace.intros)

text \<open>The values of the operates that were accepted, and the members of the lines that report one.\<close>

fun accepted :: "(ied_request \<times> ied_answer) list \<Rightarrow> bool list" where
  "accepted [] = []"
| "accepted ((ControlOperate h b t, a) # es) = (if ia_bool a then b # accepted es else accepted es)"
| "accepted (e # es) = accepted es"

fun operated :: "out_line list \<Rightarrow> (string \<times> string) list list" where
  "operated [] = []"
| "operated (l # ls) = (if ol_op l = ''operate'' \<and> ol_ok l then ol_more l # operated ls else operated ls)"

lemma accepted_append [simp]: "accepted (es @ es') = accepted es @ accepted es'"
  by (induction es rule: accepted.induct) simp_all

lemma operated_append [simp]: "operated (ls @ ls') = operated ls @ operated ls'"
  by (induction ls) simp_all

section \<open>What the operations do\<close>

text \<open>
  \<open>control_part\<close>: from one view of the protocol to another, printing lines of given operations and
  results, with an operate reported exactly when it was accepted, and with the value ordered.
\<close>

definition control_part ::
  "do_config \<Rightarrow> bool \<Rightarrow> control_view \<Rightarrow> session \<Rightarrow> (string \<times> bool) list \<Rightarrow> session \<Rightarrow> control_view \<Rightarrow> bool" where
  "control_part cfg ctl_val v s ops s' v' \<longleftrightarrow>
     (\<exists>evs ls. grows s evs ls s' \<and>
        control_trace (dc_expected_ctlmodel cfg) (dc_ctl_ref cfg) v evs v' \<and>
        map (\<lambda>l. (ol_op l, ol_ok l)) ls = ops \<and> list_all json_out ls \<and>
        set (accepted evs) \<subseteq> {ctl_val} \<and>
        operated ls = map (\<lambda>b. [(''ctlval'', truth b)]) (accepted evs))"

lemma control_part_trans:
  "control_part cfg ctl_val v s ops s1 v1 \<Longrightarrow> control_part cfg ctl_val v1 s1 ops' s2 v2 \<Longrightarrow>
   control_part cfg ctl_val v s (ops @ ops') s2 v2"
  unfolding control_part_def
  by (elim exE conjE, intro exI conjI, erule (1) grows_trans, erule (1) control_trace_append) auto

lemma grows_read:
  assumes "ask conn r s = (a, s1)"
  shows "grows s [(r, a)] [l] (print_line l s1)"
  using grows_print [OF grows_ask [OF assms], of l] by simp

definition plain_config :: "do_config \<Rightarrow> bool" where
  "plain_config cfg \<longleftrightarrow> plain_string (dc_ctl_ref cfg) \<and> plain_string (dc_ctlmodel_ref cfg) \<and> plain_string (dc_stval_ref cfg)"

lemma op_read_ctlmodel_part:
  assumes "op_read_ctlmodel conn cfg s = (b, s')" "plain_config cfg"
  shows "control_part cfg ctl_val v s [(''read-ctlmodel'', b)] s' v"
proof -
  obtain a s1 where c: "ask conn (ReadInt32Value (dc_ctlmodel_ref cfg) IEC61850_FC_CF) s = (a, s1)" by force
  show ?thesis
    using assms c grows_read [OF c] unfolding control_part_def op_read_ctlmodel_def Let_def plain_config_def
    by (intro exI [of _ "[(ReadInt32Value (dc_ctlmodel_ref cfg) IEC61850_FC_CF, a)]"])
      (fastforce simp: emit_error_def control_step_simps plain_def plain_string_take json_syntax.number
        intro!: json_error_line json_ok_line split: if_splits)
qed

lemma op_read_stval_part:
  assumes "op_read_stval conn cfg s = (b, s')" "plain_config cfg"
  shows "control_part cfg ctl_val v s [(''read-stval'', b)] s' v"
proof -
  obtain a s1 where c: "ask conn (ReadBooleanValue (dc_stval_ref cfg) IEC61850_FC_ST) s = (a, s1)" by force
  show ?thesis
    using assms c grows_read [OF c] unfolding control_part_def op_read_stval_def Let_def plain_config_def
    by (intro exI [of _ "[(ReadBooleanValue (dc_stval_ref cfg) IEC61850_FC_ST, a)]"])
      (fastforce simp: emit_error_def control_step_simps plain_def plain_string_take json_truth
        intro!: json_error_line json_ok_line split: if_splits)
qed

lemma conclude_part: "cv_live v = None \<Longrightarrow> control_part cfg ctl_val v s [(''conclude'', True)] (conclude conn s) v"
proof -
  assume v: "cv_live v = None"
  obtain a s1 where c: "ask conn IedClose s = (a, s1)" by force
  show ?thesis
    using v c grows_read [OF c] unfolding control_part_def conclude_def Let_def
    by (intro exI [of _ "[(IedClose, a)]"])
      (fastforce simp: control_step_simps plain_def intro!: json_ok_line)
qed

text \<open>One request without a line.\<close>

lemma ask_part:
  assumes "ask conn r s = (a, s1)" "control_step (dc_expected_ctlmodel cfg) (dc_ctl_ref cfg) v (r, a) v1"
    "accepted [(r, a)] = []"
  shows "control_part cfg ctl_val v s [] s1 v1"
  unfolding control_part_def
  using assms grows_ask [OF assms(1)] by (intro exI [of _ "[(r, a)]"] exI [of _ "[]"]) auto

lemma print_part:
  assumes "json_out l" "ol_op l = ''operate'' \<Longrightarrow> \<not> ol_ok l"
  shows "control_part cfg ctl_val v s [(ol_op l, ol_ok l)] (print_line l s) v"
  unfolding control_part_def
  using assms by (intro exI [of _ "[]"] exI [of _ "[l]"]) (auto simp: grows_def print_line_def)

lemma failure_part:
  assumes "plain_string op" "plain_config cfg" "plain_string msg"
  shows "control_part cfg ctl_val v s [(op, False)] (emit_error op (Some (dc_ctl_ref cfg)) msg s) v"
proof -
  have "json_out (error_line op (Some (dc_ctl_ref cfg)) msg)"
    by (rule json_error_line) (use assms in \<open>auto simp: plain_config_def\<close>)
  from print_part [OF this] show ?thesis by (simp add: emit_error_def)
qed

lemma success_part:
  assumes "plain_string op" "op \<noteq> ''operate''" "plain_config cfg"
  shows "control_part cfg ctl_val v s [(op, True)] (print_line (ok_line op (Some (dc_ctl_ref cfg)) []) s) v"
proof -
  have "json_out (ok_line op (Some (dc_ctl_ref cfg)) [])"
    by (rule json_ok_line) (use assms in \<open>auto simp: plain_config_def\<close>)
  from print_part [OF this] assms(2) show ?thesis by simp
qed

lemmas silent_then = control_part_trans [where ops = "[]", unfolded append_Nil]
  and then_silent = control_part_trans [where ops' = "[]", unfolded append_Nil2]

lemma plain_applied_error: "plain_string msg \<Longrightarrow> plain_string (applied_error err msg)"
  by (simp add: applied_error_def)


lemma finish_operate_part:
  assumes "finish_operate conn cfg ctl_val ctrl s = (b, s')" "plain_config cfg" "cv_live v = Some ctrl" "\<not> cv_operated v"
    "dc_expected_ctlmodel cfg = 2 \<longrightarrow> cv_reserved v" "dc_expected_ctlmodel cfg = 4 \<longrightarrow> cv_armed v = Some (ctrl, ctl_val)"
  shows "control_part cfg ctl_val v s [(''operate'', b)] s' (v\<lparr>cv_operated := True, cv_live := None, cv_armed := None\<rparr>)"
proof -
  let ?v = "v\<lparr>cv_operated := True\<rparr>"
  obtain ok s1 where c1: "ask conn (ControlOperate ctrl ctl_val 0) s = (ok, s1)" by force
  obtain err s2 where c2: "ask conn (ControlLastApplError ctrl) s1 = (err, s2)" by force
  obtain d s3 where c3: "ask conn (ControlDestroy ctrl) s2 = (d, s3)" by force
  have g: "grows s [(ControlOperate ctrl ctl_val 0, ok), (ControlLastApplError ctrl, err), (ControlDestroy ctrl, d)] [l] (print_line l s3)" for l
    using grows_trans [OF grows_ask [OF c1] grows_trans [OF grows_ask [OF c2] grows_read [OF c3]]] by simp
  have t: "control_trace (dc_expected_ctlmodel cfg) (dc_ctl_ref cfg) v
      [(ControlOperate ctrl ctl_val 0, ok), (ControlLastApplError ctrl, err), (ControlDestroy ctrl, d)]
      (v\<lparr>cv_operated := True, cv_live := None, cv_armed := None\<rparr>)"
    using assms by (simp add: control_step_simps)
  have "b = ia_bool ok \<and> (\<exists>l. s' = print_line l s3 \<and> json_out l \<and> ol_op l = ''operate'' \<and> ol_ok l = ia_bool ok \<and>
      (ia_bool ok \<longrightarrow> ol_more l = [(''ctlval'', truth ctl_val)]))"
    using assms(1,2) c1 c2 c3
    by (auto simp: finish_operate_def emit_error_def plain_config_def plain_def plain_applied_error json_truth
        intro!: json_error_line json_ok_line split: if_splits)
  then obtain l where "b = ia_bool ok" "s' = print_line l s3" "json_out l" "ol_op l = ''operate''" "ol_ok l = ia_bool ok"
      "ia_bool ok \<longrightarrow> ol_more l = [(''ctlval'', truth ctl_val)]" by blast
  with g t show ?thesis unfolding control_part_def
    by (intro exI [of _ "[(ControlOperate ctrl ctl_val 0, ok), (ControlLastApplError ctrl, err), (ControlDestroy ctrl, d)]"]
        exI [of _ "[l]"]) auto
qed


lemma op_select_part:
  assumes "op_select conn cfg s = (b, s')" "plain_config cfg" "dc_expected_ctlmodel cfg = 2"
  shows "control_part cfg ctl_val control_idle s [(''select'', b)] s' (control_idle\<lparr>cv_reserved := b\<rparr>)"
proof -
  let ?part = "control_part cfg ctl_val"
  obtain c s1 where c: "ask conn (ControlCreate (dc_ctl_ref cfg)) s = (c, s1)" by force
  have create: "?part control_idle s [] s1 (control_idle\<lparr>cv_live := ia_object c\<rparr>)"
    by (rule ask_part [OF c]) (simp_all add: control_step_simps control_idle_def)
  show ?thesis
  proof (cases "ia_object c")
    case None
    then have "s' = emit_error ''select'' (Some (dc_ctl_ref cfg)) ''failed to create ControlObjectClient'' s1" "\<not> b"
      using assms(1) c by (simp_all add: op_select_def)
    then show ?thesis
      using silent_then [OF create failure_part] None assms(2) by (simp add: plain_def control_idle_def)
  next
    case (Some h)
    obtain ok s2 where c2: "ask conn (ControlSelect h) s1 = (ok, s2)" by force
    obtain err s3 where c3: "ask conn (ControlLastApplError h) s2 = (err, s3)" by force
    obtain d s4 where c4: "ask conn (ControlDestroy h) s3 = (d, s4)" by force
    let ?v = "control_idle\<lparr>cv_live := Some h, cv_reserved := ia_bool ok\<rparr>"
    let ?w = "control_idle\<lparr>cv_reserved := ia_bool ok\<rparr>"
    have "?part (control_idle\<lparr>cv_live := ia_object c\<rparr>) s1 [] s2 ?v"
      by (rule ask_part [OF c2]) (simp_all add: control_step_simps assms Some)
    moreover have "?part ?v s2 [] s3 ?v" by (rule ask_part [OF c3]) (simp_all add: control_step_simps)
    moreover have "?part ?v s3 [] s4 ?w" by (rule ask_part [OF c4]) (simp_all add: control_step_simps control_idle_def)
    ultimately have selected: "?part control_idle s [] s4 ?w"
      by (blast intro: create silent_then)
    have "b = ia_bool ok \<and> ?part ?w s4 [(''select'', b)] s' ?w"
      using assms(1,2) c Some c2 c3 c4
      by (auto simp: op_select_def plain_def plain_applied_error intro!: failure_part success_part split: if_splits)
    with silent_then [OF selected, of "[(''select'', b)]" s' ?w] show ?thesis by auto
  qed
qed

lemma op_operate_part:
  assumes "op_operate conn cfg ctl_val s = (b, s')" "plain_config cfg" "cv_live v = None" "\<not> cv_operated v" "cv_armed v = None"
    "dc_expected_ctlmodel cfg = 2 \<longrightarrow> cv_reserved v" "dc_expected_ctlmodel cfg \<noteq> 4"
  shows "\<exists>v'. control_part cfg ctl_val v s [(''operate'', b)] s' v' \<and> cv_live v' = None"
proof -
  obtain c s1 where c: "ask conn (ControlCreate (dc_ctl_ref cfg)) s = (c, s1)" by force
  have create: "control_part cfg ctl_val v s [] s1 (v\<lparr>cv_live := ia_object c\<rparr>)"
    by (rule ask_part [OF c]) (simp_all add: control_step_simps assms)
  show ?thesis
  proof (cases "ia_object c")
    case None
    then have "s' = emit_error ''operate'' (Some (dc_ctl_ref cfg)) ''failed to create ControlObjectClient'' s1" "\<not> b"
      using assms(1) c by (simp_all add: op_operate_def)
    then show ?thesis
      using silent_then [OF create failure_part] None assms(2)
      by (intro exI [of _ "v\<lparr>cv_live := None\<rparr>"]) (simp add: plain_def)
  next
    case (Some h)
    then have "finish_operate conn cfg ctl_val h s1 = (b, s')" using assms(1) c by (simp add: op_operate_def)
    from silent_then [OF create finish_operate_part [OF this assms(2)]] assms Some
    show ?thesis by (intro exI [of _ "v\<lparr>cv_live := None, cv_operated := True, cv_live := None, cv_armed := None\<rparr>"]) simp
  qed
qed

lemma op_select_with_value_part:
  assumes "op_select_with_value conn cfg ctl_val s = (b, s')" "plain_config cfg" "dc_expected_ctlmodel cfg = 4"
  shows "\<exists>v' sel. control_part cfg ctl_val control_idle s
      ((''select-with-value'', sel) # (if sel then [(''operate'', b)] else [])) s' v' \<and> cv_live v' = None"
proof -
  let ?part = "control_part cfg ctl_val"
  obtain c s1 where c: "ask conn (ControlCreate (dc_ctl_ref cfg)) s = (c, s1)" by force
  have create: "?part control_idle s [] s1 (control_idle\<lparr>cv_live := ia_object c\<rparr>)"
    by (rule ask_part [OF c]) (simp_all add: control_step_simps control_idle_def)
  show ?thesis
  proof (cases "ia_object c")
    case None
    then have "s' = emit_error ''select-with-value'' (Some (dc_ctl_ref cfg)) ''failed to create ControlObjectClient'' s1"
      using assms(1) c by (simp add: op_select_with_value_def)
    then show ?thesis
      using silent_then [OF create failure_part] None assms(2)
      by (intro exI [of _ control_idle] exI [of _ False]) (simp add: plain_def control_idle_def)
  next
    case (Some h)
    obtain ok s2 where c2: "ask conn (ControlSelectWithValue h ctl_val) s1 = (ok, s2)" by force
    obtain err s3 where c3: "ask conn (ControlLastApplError h) s2 = (err, s3)" by force
    let ?v = "control_idle\<lparr>cv_live := Some h, cv_armed := if ia_bool ok then Some (h, ctl_val) else None\<rparr>"
    have "?part (control_idle\<lparr>cv_live := ia_object c\<rparr>) s1 [] s2 ?v"
      by (rule ask_part [OF c2]) (simp_all add: control_step_simps assms Some)
    moreover have "?part ?v s2 [] s3 ?v" by (rule ask_part [OF c3]) (simp_all add: control_step_simps)
    ultimately have selected: "?part control_idle s [] s3 ?v"
      by (blast intro: create silent_then)
    show ?thesis
    proof (cases "ia_bool ok")
      case True
      let ?s = "print_line (ok_line ''select-with-value'' (Some (dc_ctl_ref cfg)) []) s3"
      have p: "?part ?v s3 [(''select-with-value'', True)] ?s ?v"
        using assms(2) by (intro success_part) (simp_all add: plain_def)
      have "finish_operate conn cfg ctl_val h ?s = (b, s')"
        using assms(1) c Some c2 c3 True by (simp add: op_select_with_value_def)
      from finish_operate_part [OF this assms(2), of ?v] True assms(3)
      have "?part ?v ?s [(''operate'', b)] s' (?v\<lparr>cv_operated := True, cv_live := None, cv_armed := None\<rparr>)"
        by (simp add: control_idle_def)
      from silent_then [OF selected control_part_trans [OF p this]] show ?thesis
        by (intro exI [of _ "?v\<lparr>cv_operated := True, cv_live := None, cv_armed := None\<rparr>"] exI [of _ True]) simp
    next
      case False
      let ?s = "emit_error ''select-with-value'' (Some (dc_ctl_ref cfg))
          (applied_error (ia_err err) ''selectWithValue returned false'') s3"
      have s': "s' = snd (ask conn (ControlDestroy h) ?s)"
        using assms(1) c Some c2 c3 False by (simp add: op_select_with_value_def split: prod.splits)
      obtain d s5 where d: "ask conn (ControlDestroy h) ?s = (d, s5)" by force
      have "?part ?v s3 [(''select-with-value'', False)] ?s ?v"
        using assms(2) by (intro failure_part) (simp_all add: plain_def plain_applied_error)
      moreover have "?part ?v ?s [] s5 control_idle"
        by (rule ask_part [OF d]) (use False in \<open>simp_all add: control_step_simps control_idle_def\<close>)
      ultimately have "?part control_idle s [(''select-with-value'', False)] s5 control_idle"
        by (blast intro: silent_then [OF selected] then_silent)
      with s' d show ?thesis by (intro exI [of _ control_idle] exI [of _ False]) (simp add: control_idle_def)
    qed
  qed
qed


section \<open>The whole sequence\<close>

definition control_ops :: "int \<Rightarrow> bool \<Rightarrow> string list" where
  "control_ops model selected =
     (if model = 2 then [''read-ctlmodel'', ''select''] @ (if selected then [''operate'', ''read-stval''] else []) @ [''conclude'']
      else if model = 4 then
        [''read-ctlmodel'', ''select-with-value''] @ (if selected then [''operate''] else []) @ [''read-stval'', ''conclude'']
      else [''read-ctlmodel'', ''operate'', ''read-stval'', ''conclude''])"

text \<open>The end of a sequence, and a sequence that selects first.\<close>

lemma read_and_conclude_part:
  assumes "plain_config cfg" "cv_live v = None"
  shows "\<exists>c. control_part cfg ctl_val v t [(''read-stval'', c), (''conclude'', True)]
    (conclude conn (snd (op_read_stval conn cfg t))) v"
proof -
  obtain c t1 where r: "op_read_stval conn cfg t = (c, t1)" by force
  from control_part_trans [OF op_read_stval_part [OF r assms(1)] conclude_part [OF assms(2)]] r show ?thesis by fastforce
qed

lemma operate_and_conclude_part:
  assumes "plain_config cfg" "dc_expected_ctlmodel cfg \<noteq> 4" "cv_live v = None" "\<not> cv_operated v" "cv_armed v = None"
    "dc_expected_ctlmodel cfg = 2 \<longrightarrow> cv_reserved v" "op_operate conn cfg ctl_val s = (d, s')"
  shows "\<exists>e v'. control_part cfg ctl_val v s [(''operate'', d), (''read-stval'', e), (''conclude'', True)]
    (conclude conn (snd (op_read_stval conn cfg s'))) v' \<and> cv_live v' = None"
proof -
  obtain v' where v': "control_part cfg ctl_val v s [(''operate'', d)] s' v'" "cv_live v' = None"
    using op_operate_part [OF assms(7,1), of v] assms(2-6) by auto
  obtain e where "control_part cfg ctl_val v' s' [(''read-stval'', e), (''conclude'', True)]
      (conclude conn (snd (op_read_stval conn cfg s'))) v'"
    using read_and_conclude_part [OF assms(1) v'(2)] by blast
  from control_part_trans [OF v'(1) this] v'(2) show ?thesis by auto
qed

lemma select_sequence_part:
  assumes "plain_config cfg" "dc_expected_ctlmodel cfg = 2" "op_read_ctlmodel conn cfg s = (b, s1)"
  shows "\<exists>ops v. control_part cfg ctl_val control_idle s ops (control_sequence conn cfg ctl_val s) v \<and> cv_live v = None \<and>
    map fst ops = control_ops 2 (snd (ops ! 1))"
proof -
  let ?part = "control_part cfg ctl_val"
  obtain d s2 where sel: "op_select conn cfg s1 = (d, s2)" by force
  let ?v = "control_idle\<lparr>cv_reserved := d\<rparr>"
  have p: "?part control_idle s [(''read-ctlmodel'', b), (''select'', d)] s2 ?v"
    using control_part_trans [OF op_read_ctlmodel_part [OF assms(3,1)] op_select_part [OF sel assms(1,2)]] by simp
  show ?thesis
  proof (cases d)
    case True
    obtain e s3 where o: "op_operate conn cfg ctl_val s2 = (e, s3)" by force
    obtain c v where v: "?part ?v s2 [(''operate'', e), (''read-stval'', c), (''conclude'', True)]
        (conclude conn (snd (op_read_stval conn cfg s3))) v" "cv_live v = None"
      using operate_and_conclude_part [OF assms(1) _ _ _ _ _ o, of ?v] assms(2) True by (auto simp: control_idle_def)
    from control_part_trans [OF p v(1)] True assms(2,3) sel o v(2) show ?thesis
      by (intro exI [of _ "[(''read-ctlmodel'', b), (''select'', d), (''operate'', e), (''read-stval'', c), (''conclude'', True)]"]
          exI [of _ v]) (simp add: control_sequence_def control_ops_def case_prod_unfold)
  next
    case False
    have "cv_live ?v = None" by (simp add: control_idle_def)
    from control_part_trans [OF p conclude_part [OF this]] False assms(2,3) sel show ?thesis
      by (intro exI [of _ "[(''read-ctlmodel'', b), (''select'', d), (''conclude'', True)]"] exI [of _ ?v])
        (simp add: control_sequence_def control_ops_def control_idle_def)
  qed
qed

lemma control_sequence_part:
  assumes "plain_config cfg"
  shows "\<exists>ops v. control_part cfg ctl_val control_idle s ops (control_sequence conn cfg ctl_val s) v \<and> cv_live v = None \<and>
    map fst ops = control_ops (dc_expected_ctlmodel cfg) (snd (ops ! 1))"
proof -
  let ?part = "control_part cfg ctl_val"
  obtain b s1 where m: "op_read_ctlmodel conn cfg s = (b, s1)" by force
  have p1: "?part control_idle s [(''read-ctlmodel'', b)] s1 control_idle" by (rule op_read_ctlmodel_part [OF m assms])
  consider "dc_expected_ctlmodel cfg = 2" | "dc_expected_ctlmodel cfg = 4" | "dc_expected_ctlmodel cfg \<noteq> 2" "dc_expected_ctlmodel cfg \<noteq> 4"
    by blast
  then show ?thesis
  proof cases
    case 1
    from select_sequence_part [OF assms 1 m] 1 show ?thesis by simp
  next
    case 2
    obtain d s2 where sel: "op_select_with_value conn cfg ctl_val s1 = (d, s2)" by force
    obtain v c where v: "?part control_idle s1 ((''select-with-value'', c) # (if c then [(''operate'', d)] else [])) s2 v" "cv_live v = None"
      using op_select_with_value_part [OF sel assms 2] by blast
    obtain e where "?part v s2 [(''read-stval'', e), (''conclude'', True)] (conclude conn (snd (op_read_stval conn cfg s2))) v"
      using read_and_conclude_part [OF assms v(2)] by blast
    from control_part_trans [OF p1 control_part_trans [OF v(1) this]] 2 m sel v(2) show ?thesis
      by (intro exI [of _ "[(''read-ctlmodel'', b)] @ ((''select-with-value'', c) # (if c then [(''operate'', d)] else [])) @
          [(''read-stval'', e), (''conclude'', True)]"] exI [of _ v])
        (simp add: control_sequence_def control_ops_def case_prod_unfold)
  next
    case 3
    obtain d s2 where o: "op_operate conn cfg ctl_val s1 = (d, s2)" by force
    obtain e v where v: "?part control_idle s1 [(''operate'', d), (''read-stval'', e), (''conclude'', True)]
        (conclude conn (snd (op_read_stval conn cfg s2))) v" "cv_live v = None"
      using operate_and_conclude_part [OF assms 3(2) _ _ _ _ o, of control_idle] 3(1) by (auto simp: control_idle_def)
    from control_part_trans [OF p1 v(1)] 3 m o v(2) show ?thesis
      by (intro exI [of _ "[(''read-ctlmodel'', b), (''operate'', d), (''read-stval'', e), (''conclude'', True)]"] exI [of _ v])
        (simp add: control_sequence_def control_ops_def case_prod_unfold)
  qed
qed

lemma find_config_plain: "find_config name = Some cfg \<Longrightarrow> plain_config cfg \<and> dc_expected_ctlmodel cfg \<in> {1, 2, 4}"
  by (auto simp: find_config_def DO_CONFIGS_def plain_config_def plain_def split: if_splits)

lemma controller_ran:
  assumes "controller_main version conn argv = Ran 0 s"
  obtains cfg a t where "find_config (co_do_name (controller_args argv)) = Some cfg"
    "ask conn (IedConnect (co_host (controller_args argv)) (co_port (controller_args argv))) session_start = (a, t)"
    "s = control_sequence conn cfg (co_ctl_val (controller_args argv)) t"
  using assms by (auto simp: controller_main_def Let_def split: option.splits if_splits prod.splits)

lemma controller_part:
  assumes "controller_main version conn argv = Ran 0 s"
  shows "\<exists>cfg ops v. find_config (co_do_name (controller_args argv)) = Some cfg \<and>
    control_part cfg (co_ctl_val (controller_args argv)) control_idle session_start ops s v \<and> cv_live v = None \<and>
    map fst ops = control_ops (dc_expected_ctlmodel cfg) (snd (ops ! 1))"
proof -
  obtain cfg a t where c: "find_config (co_do_name (controller_args argv)) = Some cfg"
    "ask conn (IedConnect (co_host (controller_args argv)) (co_port (controller_args argv))) session_start = (a, t)"
    "s = control_sequence conn cfg (co_ctl_val (controller_args argv)) t" using assms by (rule controller_ran)
  have "control_part cfg (co_ctl_val (controller_args argv)) control_idle session_start [] t control_idle"
    by (rule ask_part [OF c(2)]) (simp_all add: control_step_simps)
  then show ?thesis
    using control_sequence_part [of cfg "co_ctl_val (controller_args argv)" t conn] find_config_plain [OF c(1)] c silent_then by blast
qed

text \<open>C21: The controller keeps the control protocol. Whatever the server answers, the requests of a run
  follow IEC 61850-7-2 for the control model of the data object: an operate is made at most once,
  never before a successful select where the model is select-before-operate, and for enhanced
  security only through the very object, and with the very value, of a successful
  select-with-value; no control object is used before it is created or after it is destroyed, and
  none is left when the connection is closed.\<close>

theorem controller_protocol:
  assumes "controller_main version conn argv = Ran 0 s"
  shows "\<exists>cfg v. find_config (co_do_name (controller_args argv)) = Some cfg \<and>
    control_trace (dc_expected_ctlmodel cfg) (dc_ctl_ref cfg) control_idle (ses_log s) v \<and> cv_live v = None"
  using controller_part [OF assms] unfolding control_part_def
  by (auto simp: grows_def session_start_def)

text \<open>C22: The controller's lines tell the truth. A run prints one line for each operation of the sequence
  of the data object's model, in order, leaving out only what a refused select rules out, and
  closes with conclude; an operate is reported with ok true exactly when the server accepted it.
  The value it reports is the one that was operated: the boolean that \<open>atoi\<close> makes of the last
  \<open>--ctlval\<close>, true unless it is 0, and the default without one. That is not what
  docs/contract.md says of \<open>--ctlval true\<close>, which \<open>atoi\<close> makes 0 and which so operates with
  false. Every line is JSON.\<close>

theorem controller_reports:
  assumes "controller_main version conn argv = Ran 0 s"
  shows "\<exists>cfg. find_config (co_do_name (controller_args argv)) = Some cfg \<and>
    map ol_op (ses_lines s) = control_ops (dc_expected_ctlmodel cfg) (ol_ok (ses_lines s ! 1)) \<and>
    operated (ses_lines s) = map (\<lambda>b. [(''ctlval'', truth b)]) (accepted (ses_log s)) \<and>
    set (accepted (ses_log s)) \<subseteq> {co_ctl_val (controller_args argv)} \<and>
    list_all (\<lambda>l. json_syntax (out_text l)) (ses_lines s)"
proof -
  obtain cfg ops v evs ls where c: "find_config (co_do_name (controller_args argv)) = Some cfg"
    "grows session_start evs ls s" "map (\<lambda>l. (ol_op l, ol_ok l)) ls = ops" "list_all json_out ls"
    "set (accepted evs) \<subseteq> {co_ctl_val (controller_args argv)}"
    "operated ls = map (\<lambda>b. [(''ctlval'', truth b)]) (accepted evs)"
    "map fst ops = control_ops (dc_expected_ctlmodel cfg) (snd (ops ! 1))"
    using controller_part [OF assms] unfolding control_part_def by blast
  have "1 < length (control_ops m b)" for m b by (simp add: control_ops_def)
  then have "1 < length (map fst ops)" unfolding c(7) .
  then have "1 < length ls" using c(3) by auto
  then have "snd (ops ! 1) = ol_ok (ls ! 1)" using c(3) by auto
  moreover have "map fst ops = map ol_op ls" using c(3) by auto
  ultimately show ?thesis
    using c by (auto simp: grows_def session_start_def json_out_def list_all_iff)
qed


definition control_argv :: "string list" where
  "control_argv = [''ied-controller'', ''--do'', ''SPCSO2'', ''--ctlval'', ''0'']"

lemma atoi_0: "atoi ''0'' = 0"
  by (simp add: atoi_def strtol_def num_subject_def strip_sign_def strip_base_def isspace_def is_digit_def digit_val_def
      read_base_def of_digits_def)

lemma control_argv_opts:
  "controller_args control_argv = controller_defaults\<lparr>co_do_name := ''SPCSO2'', co_ctl_val := False\<rparr>"
  by (simp add: controller_args_def control_argv_def controller_option_def controller_defaults_def atoi_0)

lemma granting_run: "\<exists>s. controller_main None granting control_argv = Ran 0 s \<and> accepted (ses_log s) = [False]"
proof -
  have "jl_handle_meta_flags None control_argv ''libiec61850'' = None"
    by (simp add: jl_handle_meta_flags_def control_argv_def)
  moreover have "find_config ''SPCSO2'' = Some (DO_CONFIGS ! 1)"
    by (simp add: find_config_def DO_CONFIGS_def last_component_def)
  moreover have "dc_expected_ctlmodel (DO_CONFIGS ! 1) = 2" by (simp add: DO_CONFIGS_def)
  ultimately show ?thesis
    by (simp add: controller_main_def control_argv_opts controller_defaults_def bad_port_def ask_def granting_def session_start_def
        control_sequence_def op_read_ctlmodel_def op_select_def op_operate_def finish_operate_def op_read_stval_def conclude_def
        print_line_def Let_def)
qed

theorem controller_protocol_witness:
  "\<exists>s cfg v. controller_main None granting control_argv = Ran 0 s \<and> find_config ''SPCSO2'' = Some cfg \<and>
     accepted (ses_log s) = [False] \<and>
     control_trace (dc_expected_ctlmodel cfg) (dc_ctl_ref cfg) control_idle (ses_log s) v \<and> cv_live v = None"
proof -
  obtain s where s: "controller_main None granting control_argv = Ran 0 s" "accepted (ses_log s) = [False]" using granting_run by blast
  from controller_protocol [OF s(1)] s show ?thesis by (auto simp: control_argv_opts)
qed

theorem controller_reports_witness:
  "\<exists>s cfg. controller_main None granting control_argv = Ran 0 s \<and> find_config ''SPCSO2'' = Some cfg \<and>
     map ol_op (ses_lines s) = control_ops (dc_expected_ctlmodel cfg) (ol_ok (ses_lines s ! 1)) \<and>
     operated (ses_lines s) = [[(''ctlval'', ''false'')]] \<and> list_all (\<lambda>l. json_syntax (out_text l)) (ses_lines s)"
proof -
  obtain s where s: "controller_main None granting control_argv = Ran 0 s" "accepted (ses_log s) = [False]" using granting_run by blast
  from controller_reports [OF s(1)] s show ?thesis by (auto simp: control_argv_opts truth_def)
qed

text \<open>
  The documentation writes \<open>--ctlval true\<close>; \<open>atoi\<close> reads that as 0, and the data object is switched off.
\<close>

lemma ctlval_true_operates_false: "\<not> co_ctl_val (controller_args [''ied-controller'', ''--ctlval'', ''true''])"
proof -
  have "atoi ''true'' = 0"
    by (simp add: atoi_def strtol_def num_subject_def strip_sign_def strip_base_def isspace_def is_digit_def digit_val_def)
  then show ?thesis by (simp add: controller_args_def controller_option_def controller_defaults_def)
qed

end
