(* ===== verification/IedReporter.thy ===== *)
theory IedReporter
  imports IedCommon
begin

text \<open>
  The report client \<open>ied_reporter.c\<close>: it enables the unbuffered report control block, writes the data
  point that triggers a report, waits for the report, prints it and disables the block again. The
  library calls \<open>reportCallback\<close> from another thread; the reports it has handled by the time the
  wait ends are a parameter, and each handling of a report is one step.
\<close>

section \<open>Reports\<close>

definition RCB_REF :: string where
  "RCB_REF = ''InteropLD/LLN0.RP.urcb01''"

definition RCB_RPTID :: string where
  "RCB_RPTID = ''interop_urcb01''"

definition SPS1_REF :: string where
  "SPS1_REF = ''InteropLD/GGIO1.SPS1.stVal''"

definition DS_SIZE :: nat where
  "DS_SIZE = 2"

datatype reason =
    IEC61850_REASON_NOT_INCLUDED | IEC61850_REASON_DATA_CHANGE | IEC61850_REASON_QUALITY_CHANGE
  | IEC61850_REASON_DATA_UPDATE | IEC61850_REASON_INTEGRITY | IEC61850_REASON_GI | REASON_OTHER int

fun reason_str :: "reason \<Rightarrow> string" where
  "reason_str IEC61850_REASON_DATA_CHANGE = ''data-change''"
| "reason_str IEC61850_REASON_QUALITY_CHANGE = ''quality-change''"
| "reason_str IEC61850_REASON_DATA_UPDATE = ''data-update''"
| "reason_str IEC61850_REASON_INTEGRITY = ''integrity''"
| "reason_str IEC61850_REASON_GI = ''gi''"
| "reason_str _ = ''unknown''"

text \<open>\<open>ied_reporter.c\<close> has its own \<open>ied_error_str\<close>, which does not know one of the codes.\<close>

definition reporter_error_str :: "ied_error \<Rightarrow> string" where
  "reporter_error_str e =
     (if e = IED_ERROR_OBJECT_ACCESS_UNSUPPORTED then ''unknown-error'' else ied_error_str e)"

text \<open>A report as the library decodes it: \<open>ClientReport_getRptId\<close>, \<open>_getSeqNum\<close>, \<open>_getDataSetValues\<close>, \<open>_getReasonForInclusion\<close>.\<close>

record client_report =
  cr_rpt_id :: "string option"
  cr_seq_num :: u32
  cr_values :: "mms_value option"
  cr_reason :: "nat \<Rightarrow> reason"

text \<open>\<open>rs_rpt_id\<close> is the C string in the array \<open>rptID\<close>; \<open>rs_reasons\<close> the first \<open>reason_count\<close> entries of \<open>reasons\<close>.\<close>

record report_state =
  rs_received :: bool
  rs_rpt_id :: string
  rs_seq_num :: u32
  rs_inclusion :: "bool list"
  rs_val0 :: bool
  rs_val0_present :: bool
  rs_val1 :: u32
  rs_val1_present :: bool
  rs_reasons :: "reason list"

text \<open>\<open>memset(&state, 0, sizeof(state))\<close>.\<close>

definition report_state_zero :: report_state where
  "report_state_zero = \<lparr>rs_received = False, rs_rpt_id = [], rs_seq_num = 0, rs_inclusion = replicate DS_SIZE False,
     rs_val0 = False, rs_val0_present = False, rs_val1 = 0, rs_val1_present = False, rs_reasons = []\<rparr>"

text \<open>The elements of the data set values, none for another type.\<close>

fun dataset_elements :: "mms_value option \<Rightarrow> mms_value option list" where
  "dataset_elements (Some (MStructure vs)) = vs"
| "dataset_elements (Some (MArray vs)) = vs"
| "dataset_elements _ = []"

text \<open>One turn of the loop of \<open>reportCallback\<close>.\<close>

definition store_member :: "client_lib \<Rightarrow> nat \<Rightarrow> mms_value option \<Rightarrow> report_state \<Rightarrow> report_state" where
  "store_member L i mval st =
     (case mval of
        Some (MBoolean b) \<Rightarrow> if i = 0 then st\<lparr>rs_val0 := b, rs_val0_present := True\<rparr> else st
      | Some (MInteger w) \<Rightarrow> if i = 1 then st\<lparr>rs_val1 := to_int32 L w, rs_val1_present := True\<rparr> else st
      | _ \<Rightarrow> st)"

definition report_member :: "client_lib \<Rightarrow> client_report \<Rightarrow> nat \<Rightarrow> report_state \<Rightarrow> report_state" where
  "report_member L r i st =
     (let elements = dataset_elements (cr_values r);
          n = min (length elements) DS_SIZE;
          reason = cr_reason r i;
          included = (reason \<noteq> IEC61850_REASON_NOT_INCLUDED);
          st = st\<lparr>rs_inclusion := (rs_inclusion st)[i := included]\<rparr>;
          st = (if included \<and> length (rs_reasons st) < DS_SIZE then st\<lparr>rs_reasons := rs_reasons st @ [reason]\<rparr> else st)
      in if \<not> included \<or> i \<ge> n then st else store_member L i (elements ! i) st)"

definition report_callback :: "client_lib \<Rightarrow> client_report \<Rightarrow> report_state \<Rightarrow> report_state" where
  "report_callback L r st =
     (let st = st\<lparr>rs_rpt_id := take 127 (c_str (case cr_rpt_id r of None \<Rightarrow> [] | Some t \<Rightarrow> t)), rs_seq_num := cr_seq_num r,
              rs_reasons := []\<rparr>;
          st = foldl (\<lambda>st i. report_member L r i st) st [0..<DS_SIZE]
      in st\<lparr>rs_received := True\<rparr>)"

section \<open>The line of a report\<close>

definition report_values :: "report_state \<Rightarrow> string list" where
  "report_values st =
     (if rs_inclusion st ! 0 then [if rs_val0_present st then truth (rs_val0 st) else ''null''] else []) @
     (if rs_inclusion st ! 1 then [if rs_val1_present st then dec_int (sint (rs_val1 st)) else ''null''] else [])"

definition report_line :: "report_state \<Rightarrow> out_line" where
  "report_line st = ok_line ''receive-report'' None
     [(''rptID'', quoted (rs_rpt_id st)), (''seqNum'', dec (unat (rs_seq_num st))),
      (''inclusion'', bracketed (map truth (rs_inclusion st))),
      (''values'', bracketed (report_values st)),
      (''reasons'', bracketed (map (\<lambda>r. quoted (reason_str r)) (rs_reasons st)))]"

section \<open>The program\<close>

record reporter_opts =
  ro_host :: string
  ro_port :: int
  ro_initial :: bool

definition reporter_defaults :: reporter_opts where
  "reporter_defaults = \<lparr>ro_host = ''localhost'', ro_port = 1102, ro_initial = True\<rparr>"

definition reporter_option :: "string \<Rightarrow> (string \<Rightarrow> reporter_opts \<Rightarrow> reporter_opts) option" where
  "reporter_option name =
     (if name = ''--host'' then Some (\<lambda>v opts. opts\<lparr>ro_host := v\<rparr>)
      else if name = ''--port'' then Some (\<lambda>v opts. opts\<lparr>ro_port := atoi v\<rparr>)
      else if name = ''--sps1-initial'' then Some (\<lambda>v opts. opts\<lparr>ro_initial := (atoi v \<noteq> 0)\<rparr>)
      else None)"

definition reporter_args :: "string list \<Rightarrow> reporter_opts" where
  "reporter_args argv = scan_args reporter_option (drop 1 argv) reporter_defaults"

definition close_connection :: "ied_connection \<Rightarrow> session \<Rightarrow> session" where
  "close_connection conn s = snd (ask conn IedClose s)"

text \<open>A request whose outcome is printed with its target.\<close>

definition reported_request :: "ied_connection \<Rightarrow> string \<Rightarrow> string \<Rightarrow> ied_request \<Rightarrow> session \<Rightarrow> bool \<times> session" where
  "reported_request conn op target r s =
     (let (a, s) = ask conn r s
      in if ia_err a \<noteq> IED_ERROR_OK then (False, emit_error op (Some target) (reporter_error_str (ia_err a)) s)
         else (True, print_line (ok_line op (Some target) []) s))"

text \<open>\<open>woken\<close>: \<open>sem_timedwait\<close> returned 0.\<close>

definition wait_report :: "client_lib \<Rightarrow> client_report list \<Rightarrow> bool \<Rightarrow> session \<Rightarrow> session" where
  "wait_report L reports woken s =
     (let st = foldl (\<lambda>st r. report_callback L r st) report_state_zero reports
      in if woken \<and> rs_received st then print_line (report_line st) s
         else emit_error ''receive-report'' None ''timeout-waiting-for-dchg-report'' s)"

text \<open>What follows the enabling of the block.\<close>

definition report_exchange ::
  "ied_connection \<Rightarrow> client_lib \<Rightarrow> client_report list \<Rightarrow> bool \<Rightarrow> bool \<Rightarrow> session \<Rightarrow> session" where
  "report_exchange conn L reports woken initial s =
     (let (_, s) = reported_request conn ''write'' (SPS1_REF @ ''[ST]'')
            (WriteBooleanValue SPS1_REF IEC61850_FC_ST (\<not> initial)) s;
          s = wait_report L reports woken s;
          (_, s) = reported_request conn ''disable-rcb'' RCB_REF (SetRCBValues False True) s;
          (_, s) = ask conn DestroyRCB s;
          s = close_connection conn s
      in print_line (ok_line ''conclude'' None []) s)"

text \<open>What follows the association.\<close>

definition report_sequence ::
  "ied_connection \<Rightarrow> client_lib \<Rightarrow> client_report list \<Rightarrow> bool \<Rightarrow> bool \<Rightarrow> session \<Rightarrow> session" where
  "report_sequence conn L reports woken initial s =
     (let (a, s) = ask conn (GetRCBValues RCB_REF) s
      in if ia_err a \<noteq> IED_ERROR_OK then
           close_connection conn (emit_error ''get-rcb'' (Some RCB_REF) (reporter_error_str (ia_err a)) s)
         else
           let s = print_line (ok_line ''get-rcb'' (Some RCB_REF)
                 [(''rptID'', quoted (case fst (ia_rcb a) of None \<Rightarrow> [] | Some t \<Rightarrow> t)), (''rptEna'', truth (snd (ia_rcb a)))]) s;
               (_, s) = ask conn (InstallReportHandler RCB_REF RCB_RPTID) s;
               (enabled, s) = reported_request conn ''enable-rcb'' RCB_REF (SetRCBValues True True) s
           in if enabled then report_exchange conn L reports woken initial s
              else close_connection conn (snd (ask conn DestroyRCB s)))"

definition reporter_main ::
  "string option \<Rightarrow> ied_connection \<Rightarrow> client_lib \<Rightarrow> client_report list \<Rightarrow> bool \<Rightarrow> string list \<Rightarrow> ied_run" where
  "reporter_main version conn L reports woken argv =
     (case jl_handle_meta_flags version argv ''libiec61850'' of
        Some t \<Rightarrow> Meta t
      | None \<Rightarrow>
          let opts = reporter_args argv
          in if bad_port (ro_port opts) then Ran 1 session_start
             else
               let (a, s) = ask conn (IedConnect (ro_host opts) (ro_port opts)) session_start
               in if ia_err a \<noteq> IED_ERROR_OK then Ran 2 s
                  else Ran 0 (report_sequence conn L reports woken (ro_initial opts) s))"

section \<open>What is printed of reports\<close>

text \<open>
  What a report carries of the two members: a boolean of the first, an integer of the second, when
  the member is included and the report has a value of that type for it.
\<close>

definition carries :: "client_report \<Rightarrow> nat \<Rightarrow> mms_value option" where
  "carries r i =
     (let elements = dataset_elements (cr_values r)
      in if cr_reason r i \<noteq> IEC61850_REASON_NOT_INCLUDED \<and> i < length elements then elements ! i else None)"

definition carried_bool :: "client_report \<Rightarrow> bool option" where
  "carried_bool r = (case carries r 0 of Some (MBoolean b) \<Rightarrow> Some b | _ \<Rightarrow> None)"

definition carried_int :: "client_lib \<Rightarrow> client_report \<Rightarrow> u32 option" where
  "carried_int L r = (case carries r 1 of Some (MInteger w) \<Rightarrow> Some (to_int32 L w) | _ \<Rightarrow> None)"

text \<open>The last value there is.\<close>

fun latest :: "'a option list \<Rightarrow> 'a option" where
  "latest [] = None"
| "latest (x # xs) = (case latest xs of None \<Rightarrow> x | Some y \<Rightarrow> Some y)"

lemma latest_snoc: "latest (xs @ [x]) = (case x of None \<Rightarrow> latest xs | Some y \<Rightarrow> Some y)"
  by (induction xs) (auto split: option.splits)

definition included :: "client_report \<Rightarrow> reason list" where
  "included r = filter (\<lambda>c. c \<noteq> IEC61850_REASON_NOT_INCLUDED) [cr_reason r 0, cr_reason r 1]"

definition present :: "bool \<Rightarrow> 'a \<Rightarrow> 'a option" where
  "present p x = (if p then Some x else None)"

lemma store_member_simps:
  "rs_inclusion (store_member L i v st) = rs_inclusion st" "rs_reasons (store_member L i v st) = rs_reasons st"
  "rs_rpt_id (store_member L i v st) = rs_rpt_id st" "rs_seq_num (store_member L i v st) = rs_seq_num st"
  by (auto simp: store_member_def split: option.splits mms_value.splits)

lemma report_member_simps:
  "rs_inclusion (report_member L r i st) = (rs_inclusion st)[i := cr_reason r i \<noteq> IEC61850_REASON_NOT_INCLUDED]"
  "rs_reasons (report_member L r i st) = (if cr_reason r i \<noteq> IEC61850_REASON_NOT_INCLUDED \<and> length (rs_reasons st) < 2
     then rs_reasons st @ [cr_reason r i] else rs_reasons st)"
  "rs_rpt_id (report_member L r i st) = rs_rpt_id st" "rs_seq_num (report_member L r i st) = rs_seq_num st"
  by (simp_all add: report_member_def Let_def store_member_simps DS_SIZE_def)

definition value0 :: "report_state \<Rightarrow> bool option" where
  "value0 st = present (rs_val0_present st) (rs_val0 st)"

definition value1 :: "report_state \<Rightarrow> u32 option" where
  "value1 st = present (rs_val1_present st) (rs_val1 st)"

lemma store_member_values:
  "value0 (store_member L i v st) = (case v of Some (MBoolean b) \<Rightarrow> if i = 0 then Some b else value0 st | _ \<Rightarrow> value0 st)"
  "value1 (store_member L i v st) =
     (case v of Some (MInteger w) \<Rightarrow> if i = 1 then Some (to_int32 L w) else value1 st | _ \<Rightarrow> value1 st)"
  by (auto simp: store_member_def value0_def value1_def present_def split: option.splits mms_value.splits)

lemma report_member_values:
  "value0 (report_member L r 0 st) = (case carried_bool r of None \<Rightarrow> value0 st | Some b \<Rightarrow> Some b)"
  "value1 (report_member L r 0 st) = value1 st"
  "value0 (report_member L r 1 st) = value0 st"
  "value1 (report_member L r 1 st) = (case carried_int L r of None \<Rightarrow> value1 st | Some i \<Rightarrow> Some i)"
proof -
  have v: "value0 (st\<lparr>rs_inclusion := x\<rparr>) = value0 st" "value0 (st\<lparr>rs_reasons := y\<rparr>) = value0 st"
    "value1 (st\<lparr>rs_inclusion := x\<rparr>) = value1 st" "value1 (st\<lparr>rs_reasons := y\<rparr>) = value1 st" for st x y
    by (simp_all add: value0_def value1_def)
  show "value0 (report_member L r 0 st) = (case carried_bool r of None \<Rightarrow> value0 st | Some b \<Rightarrow> Some b)"
    by (simp add: report_member_def Let_def store_member_values v carried_bool_def carries_def DS_SIZE_def min_def
        split: option.split mms_value.split)
  show "value1 (report_member L r 0 st) = value1 st"
    by (simp add: report_member_def Let_def store_member_values v split: option.split mms_value.split)
  show "value0 (report_member L r 1 st) = value0 st"
    by (simp add: report_member_def Let_def store_member_values v split: option.split mms_value.split)
  show "value1 (report_member L r 1 st) = (case carried_int L r of None \<Rightarrow> value1 st | Some i \<Rightarrow> Some i)"
    by (simp add: report_member_def Let_def store_member_values v carried_int_def carries_def DS_SIZE_def min_def
        split: option.split mms_value.split)
qed

lemma report_callback_eq:
  "report_callback L r st =
     (report_member L r 1 (report_member L r 0 (st\<lparr>rs_rpt_id := take 127 (c_str (case cr_rpt_id r of None \<Rightarrow> [] | Some t \<Rightarrow> t)),
        rs_seq_num := cr_seq_num r, rs_reasons := []\<rparr>)))\<lparr>rs_received := True\<rparr>"
proof -
  have "[0..<DS_SIZE] = [0, 1]" by (simp add: DS_SIZE_def upt_rec)
  then show ?thesis by (simp add: report_callback_def)
qed

lemma report_callback_fields:
  assumes "length (rs_inclusion st) = 2"
  shows "rs_received (report_callback L r st)"
    "rs_rpt_id (report_callback L r st) = take 127 (c_str (case cr_rpt_id r of None \<Rightarrow> [] | Some t \<Rightarrow> t))"
    "rs_seq_num (report_callback L r st) = cr_seq_num r"
    "rs_inclusion (report_callback L r st) =
       [cr_reason r 0 \<noteq> IEC61850_REASON_NOT_INCLUDED, cr_reason r 1 \<noteq> IEC61850_REASON_NOT_INCLUDED]"
    "rs_reasons (report_callback L r st) = included r"
proof -
  obtain x y where "rs_inclusion st = [x, y]" using assms by (auto simp: length_Suc_conv numeral_2_eq_2)
  then show "rs_received (report_callback L r st)"
    "rs_rpt_id (report_callback L r st) = take 127 (c_str (case cr_rpt_id r of None \<Rightarrow> [] | Some t \<Rightarrow> t))"
    "rs_seq_num (report_callback L r st) = cr_seq_num r"
    "rs_inclusion (report_callback L r st) =
       [cr_reason r 0 \<noteq> IEC61850_REASON_NOT_INCLUDED, cr_reason r 1 \<noteq> IEC61850_REASON_NOT_INCLUDED]"
    "rs_reasons (report_callback L r st) = included r"
    by (simp_all add: report_callback_eq report_member_simps included_def)
qed

lemma report_callback_values:
  "value0 (report_callback L r st) = (case carried_bool r of None \<Rightarrow> value0 st | Some b \<Rightarrow> Some b)"
  "value1 (report_callback L r st) = (case carried_int L r of None \<Rightarrow> value1 st | Some i \<Rightarrow> Some i)"
proof -
  have v: "value0 (st\<lparr>rs_rpt_id := t, rs_seq_num := n, rs_reasons := y\<rparr>) = value0 st" "value0 (st\<lparr>rs_received := b\<rparr>) = value0 st"
    "value1 (st\<lparr>rs_rpt_id := t, rs_seq_num := n, rs_reasons := y\<rparr>) = value1 st" "value1 (st\<lparr>rs_received := b\<rparr>) = value1 st" for st t n y b
    by (simp_all add: value0_def value1_def)
  show "value0 (report_callback L r st) = (case carried_bool r of None \<Rightarrow> value0 st | Some b \<Rightarrow> Some b)"
    "value1 (report_callback L r st) = (case carried_int L r of None \<Rightarrow> value1 st | Some i \<Rightarrow> Some i)"
    by (simp_all only: report_callback_eq v report_member_values)
qed

definition after_reports :: "client_lib \<Rightarrow> client_report list \<Rightarrow> report_state" where
  "after_reports L reports = foldl (\<lambda>st r. report_callback L r st) report_state_zero reports"

lemma after_reports_inv:
  "length (rs_inclusion (after_reports L rs)) = 2 \<and>
   value0 (after_reports L rs) = latest (map carried_bool rs) \<and>
   value1 (after_reports L rs) = latest (map (carried_int L) rs)"
proof (induction rs rule: rev_induct)
  case Nil
  then show ?case by (simp add: after_reports_def report_state_zero_def DS_SIZE_def value0_def value1_def present_def)
next
  case (snoc r rs)
  have "after_reports L (rs @ [r]) = report_callback L r (after_reports L rs)" by (simp add: after_reports_def)
  then show ?case
    using snoc report_callback_fields(4) [of "after_reports L rs" L r] by (simp add: report_callback_values latest_snoc split: option.split)
qed

text \<open>C23: The report line shows the last report. After any number of reports the identifier (its first 127
  characters), the sequence number, the inclusion and the reasons printed are those of the last
  one; one value is printed for each member included, and it is the latest value of the member's
  type that any report so far carried for it, or null.\<close>

theorem report_line_latest:
  "report_line (foldl (\<lambda>st r. report_callback L r st) report_state_zero (rs @ [r])) =
     ok_line ''receive-report'' None
       [(''rptID'', quoted (take 127 (c_str (case cr_rpt_id r of None \<Rightarrow> [] | Some t \<Rightarrow> t)))),
        (''seqNum'', dec (unat (cr_seq_num r))),
        (''inclusion'', bracketed (map (\<lambda>i. truth (cr_reason r i \<noteq> IEC61850_REASON_NOT_INCLUDED)) [0, 1])),
        (''values'', bracketed
          ((if cr_reason r 0 \<noteq> IEC61850_REASON_NOT_INCLUDED
            then [case latest (map carried_bool (rs @ [r])) of None \<Rightarrow> ''null'' | Some b \<Rightarrow> truth b] else []) @
           (if cr_reason r 1 \<noteq> IEC61850_REASON_NOT_INCLUDED
            then [case latest (map (carried_int L) (rs @ [r])) of None \<Rightarrow> ''null'' | Some i \<Rightarrow> dec_int (sint i)] else []))),
        (''reasons'', bracketed (map (\<lambda>c. quoted (reason_str c)) (included r)))]"
proof -
  let ?st = "after_reports L (rs @ [r])"
  have eq: "?st = report_callback L r (after_reports L rs)" by (simp add: after_reports_def)
  have len: "length (rs_inclusion (after_reports L rs)) = 2" using after_reports_inv by blast
  note f = report_callback_fields [OF len, of L r, folded eq]
  have v0: "(if rs_val0_present ?st then truth (rs_val0 ?st) else ''null'') =
      (case latest (map carried_bool (rs @ [r])) of None \<Rightarrow> ''null'' | Some b \<Rightarrow> truth b)"
    using after_reports_inv [of L "rs @ [r]"] by (auto simp: value0_def present_def split: option.splits if_splits)
  have v1: "(if rs_val1_present ?st then dec_int (sint (rs_val1 ?st)) else ''null'') =
      (case latest (map (carried_int L) (rs @ [r])) of None \<Rightarrow> ''null'' | Some i \<Rightarrow> dec_int (sint i))"
    using after_reports_inv [of L "rs @ [r]"] by (auto simp: value1_def present_def split: option.splits if_splits)
  show ?thesis
    unfolding after_reports_def [symmetric] report_line_def report_values_def v0 v1 f
    by (simp add: One_nat_def [symmetric] del: One_nat_def)
qed

text \<open>
  A value of an earlier report is printed as one of the last report, when the last report includes
  the member but carries no value of its type.
\<close>

definition stale_reports :: "client_report list" where
  "stale_reports =
     [\<lparr>cr_rpt_id = None, cr_seq_num = 0, cr_values = Some (MStructure [Some (MBoolean True), None]),
       cr_reason = (\<lambda>_. IEC61850_REASON_GI)\<rparr>,
      \<lparr>cr_rpt_id = None, cr_seq_num = 1, cr_values = None, cr_reason = (\<lambda>_. IEC61850_REASON_DATA_CHANGE)\<rparr>]"

lemma stale_value_printed:
  "report_values (foldl (\<lambda>st r. report_callback L r st) report_state_zero stale_reports) = [''true'', ''null'']"
proof -
  have "[0..<DS_SIZE] = [0, 1]" by (simp add: DS_SIZE_def upt_rec)
  then show ?thesis
    by (simp add: stale_reports_def report_callback_def report_member_def store_member_def report_values_def
        report_state_zero_def DS_SIZE_def truth_def numeral_2_eq_2)
qed

section \<open>A session\<close>

definition plain_texts :: "ied_connection \<Rightarrow> client_report list \<Rightarrow> bool" where
  "plain_texts conn reports \<longleftrightarrow>
     (\<forall>h r t. fst (ia_rcb (conn h r)) = Some t \<longrightarrow> plain_string t) \<and>
     (\<forall>r t. r \<in> set reports \<longrightarrow> cr_rpt_id r = Some t \<longrightarrow> plain_string (c_str t))"

lemma plain_reporter_error [simp]: "plain_string (reporter_error_str e)"
  by (simp add: reporter_error_str_def plain_def)

lemma plain_refs: "plain_string RCB_REF" "plain_string (SPS1_REF @ ''[ST]'')"
  by (simp_all add: RCB_REF_def SPS1_REF_def plain_def)

lemma ask_answer: "ask conn r s = (a, t) \<Longrightarrow> a = conn (map fst (ses_log s)) r"
  by (simp add: ask_def Let_def)

lemma json_report_line:
  assumes "plain_string (rs_rpt_id st)"
  shows "json_out (report_line st)"
  unfolding report_line_def
proof (rule json_ok_line)
  have "json_syntax t" if "t \<in> set (report_values st)" for t
    using that by (auto simp: report_values_def json_truth json_syntax.number json_syntax.literal split: if_splits)
  moreover have "plain_string (reason_str c)" for c by (cases c) (simp_all add: plain_def)
  ultimately show "list_all (\<lambda>(k, t). plain_string k \<and> json_syntax t)
     [(''rptID'', quoted (rs_rpt_id st)), (''seqNum'', dec (unat (rs_seq_num st))),
      (''inclusion'', bracketed (map truth (rs_inclusion st))), (''values'', bracketed (report_values st)),
      (''reasons'', bracketed (map (\<lambda>r. quoted (reason_str r)) (rs_reasons st)))]"
    using assms by (auto simp: plain_def json_syntax.number json_quoted json_truth intro!: json_bracketed)
qed (simp_all add: plain_def)

lemma plain_after_reports:
  "(\<And>r t. r \<in> set rs \<Longrightarrow> cr_rpt_id r = Some t \<Longrightarrow> plain_string (c_str t)) \<Longrightarrow> plain_string (rs_rpt_id (after_reports L rs))"
proof (induction rs rule: rev_induct)
  case Nil
  then show ?case by (simp add: after_reports_def report_state_zero_def)
next
  case (snoc r rs)
  have "rs_rpt_id (after_reports L (rs @ [r])) = take 127 (c_str (case cr_rpt_id r of None \<Rightarrow> [] | Some t \<Rightarrow> t))"
    using report_callback_fields(2) [of "after_reports L rs" L r] after_reports_inv [of L rs] by (simp add: after_reports_def)
  moreover have "plain_string (c_str t)" if "cr_rpt_id r = Some t" for t using that snoc.prems [of r t] by simp
  ultimately show ?case by (auto simp: plain_string_def list_all_iff c_str_def dest!: in_set_takeD split: option.splits)
qed

lemma wait_report_prints:
  "\<exists>l. wait_report L reports woken s = print_line l s \<and> ol_op l = ''receive-report'' \<and> (plain_texts conn reports \<longrightarrow> json_out l)"
proof (cases "woken \<and> rs_received (after_reports L reports)")
  case True
  have "json_out (report_line (after_reports L reports))" if "plain_texts conn reports"
    by (rule json_report_line [OF plain_after_reports]) (use that in \<open>auto simp: plain_texts_def\<close>)
  moreover have "wait_report L reports woken s = print_line (report_line (after_reports L reports)) s"
    using True unfolding wait_report_def after_reports_def Let_def by (rule if_P)
  moreover have "ol_op (report_line (after_reports L reports)) = ''receive-report''" by (simp add: report_line_def)
  ultimately show ?thesis by blast
next
  case False
  then have "wait_report L reports woken s = print_line (error_line ''receive-report'' None ''timeout-waiting-for-dchg-report'') s"
    unfolding wait_report_def after_reports_def Let_def emit_error_def by (rule if_not_P)
  moreover have "json_out (error_line ''receive-report'' None ''timeout-waiting-for-dchg-report'')"
    by (rule json_error_line) (simp_all add: plain_def)
  ultimately show ?thesis by (metis line_simps(1))
qed

lemma reported_request_grows:
  assumes "reported_request conn op target r s = (b, s')" "plain_string op" "plain_string target"
  shows "\<exists>a l. grows s [(r, a)] [l] s' \<and> b = (ia_err a = IED_ERROR_OK) \<and> ol_op l = op \<and> ol_ok l = b \<and> json_out l"
proof -
  obtain a s1 where c: "ask conn r s = (a, s1)" by force
  have "json_out (error_line op (Some target) (reporter_error_str (ia_err a)))"
    by (rule json_error_line) (use assms in auto)
  moreover have "json_out (ok_line op (Some target) [])" by (rule json_ok_line) (use assms in auto)
  ultimately show ?thesis
    using assms(1) c grows_print [OF grows_ask [OF c]]
    by (fastforce simp: reported_request_def emit_error_def split: if_splits)
qed


lemma report_exchange_part:
  "\<exists>evs ls. grows s evs ls (report_exchange conn L reports woken initial s) \<and>
     map fst evs = [WriteBooleanValue SPS1_REF IEC61850_FC_ST (\<not> initial), SetRCBValues False True, DestroyRCB, IedClose] \<and>
     map ol_op ls = [''write'', ''receive-report'', ''disable-rcb'', ''conclude''] \<and>
     (plain_texts conn reports \<longrightarrow> list_all json_out ls)"
proof -
  let ?w = "WriteBooleanValue SPS1_REF IEC61850_FC_ST (\<not> initial)"
  obtain w s4 where r4: "reported_request conn ''write'' (SPS1_REF @ ''[ST]'') ?w s = (w, s4)" by force
  obtain e4 l4 where g4: "grows s [(?w, e4)] [l4] s4" "ol_op l4 = ''write''" "json_out l4"
    using reported_request_grows [OF r4] plain_refs by (auto simp: plain_def)
  obtain l5 where l5: "wait_report L reports woken s4 = print_line l5 s4" "ol_op l5 = ''receive-report''"
    "plain_texts conn reports \<longrightarrow> json_out l5" using wait_report_prints by blast
  obtain x s6 where r6: "reported_request conn ''disable-rcb'' RCB_REF (SetRCBValues False True) (print_line l5 s4) = (x, s6)" by force
  obtain e6 l6 where g6: "grows (print_line l5 s4) [(SetRCBValues False True, e6)] [l6] s6" "ol_op l6 = ''disable-rcb''" "json_out l6"
    using reported_request_grows [OF r6] plain_refs by (auto simp: plain_def)
  obtain d s7 where c7: "ask conn DestroyRCB s6 = (d, s7)" by force
  obtain c s8 where c8: "ask conn IedClose s7 = (c, s8)" by force
  let ?e = "ok_line ''conclude'' None []"
  have "json_out ?e" by (rule json_ok_line) (simp_all add: plain_def)
  moreover have "report_exchange conn L reports woken initial s = print_line ?e s8"
    using r4 l5(1) r6 c7 c8 by (simp add: report_exchange_def close_connection_def Let_def)
  moreover note tail = grows_trans [OF g6(1) grows_trans [OF grows_ask [OF c7] grows_print [OF grows_ask [OF c8], of ?e]]]
  have "grows s [(?w, e4), (SetRCBValues False True, e6), (DestroyRCB, d), (IedClose, c)] [l4, l5, l6, ?e] (print_line ?e s8)"
    using grows_trans [OF grows_print [OF g4(1), of l5] tail] by simp
  ultimately show ?thesis
    using g4 l5 g6 by (intro exI [of _ "[(?w, e4), (SetRCBValues False True, e6), (DestroyRCB, d), (IedClose, c)]"]
        exI [of _ "[l4, l5, l6, ?e]"]) simp
qed

text \<open>The requests and the operations of a session, by whether the block was read and enabled.\<close>

definition session_requests :: "bool \<Rightarrow> bool \<Rightarrow> bool \<Rightarrow> ied_request list" where
  "session_requests initial got enabled =
     [GetRCBValues RCB_REF] @
     (if got then [InstallReportHandler RCB_REF RCB_RPTID, SetRCBValues True True] @
        (if enabled then [WriteBooleanValue SPS1_REF IEC61850_FC_ST (\<not> initial), SetRCBValues False True] else []) @ [DestroyRCB]
      else []) @ [IedClose]"

definition session_ops :: "bool \<Rightarrow> bool \<Rightarrow> string list" where
  "session_ops got enabled =
     [''get-rcb''] @ (if got then [''enable-rcb''] @
       (if enabled then [''write'', ''receive-report'', ''disable-rcb'', ''conclude''] else []) else [])"

lemma get_rcb_line:
  assumes "ask conn (GetRCBValues RCB_REF) s = (a, s1)" "plain_texts conn reports"
  shows "json_out (ok_line ''get-rcb'' (Some RCB_REF)
    [(''rptID'', quoted (case fst (ia_rcb a) of None \<Rightarrow> [] | Some t \<Rightarrow> t)), (''rptEna'', truth (snd (ia_rcb a)))])"
proof (rule json_ok_line)
  have "plain_string (case fst (ia_rcb a) of None \<Rightarrow> [] | Some t \<Rightarrow> t)"
    using assms(2) ask_answer [OF assms(1)] by (simp add: plain_texts_def split: option.split)
  then show "list_all (\<lambda>(k, t). plain_string k \<and> json_syntax t)
      [(''rptID'', quoted (case fst (ia_rcb a) of None \<Rightarrow> [] | Some t \<Rightarrow> t)), (''rptEna'', truth (snd (ia_rcb a)))]"
    by (simp add: plain_def json_quoted json_truth)
qed (use plain_refs in \<open>auto simp: plain_def\<close>)

lemma report_sequence_part:
  "\<exists>evs ls got enabled. grows s evs ls (report_sequence conn L reports woken initial s) \<and>
     map fst evs = session_requests initial got enabled \<and> map ol_op ls = session_ops got enabled \<and>
     got = ol_ok (ls ! 0) \<and> (got \<longrightarrow> enabled = ol_ok (ls ! 1)) \<and> (plain_texts conn reports \<longrightarrow> list_all json_out ls)"
proof -
  obtain a s1 where c1: "ask conn (GetRCBValues RCB_REF) s = (a, s1)" by force
  note g1 = grows_ask [OF c1]
  show ?thesis
  proof (cases "ia_err a = IED_ERROR_OK")
    case False
    let ?l = "error_line ''get-rcb'' (Some RCB_REF) (reporter_error_str (ia_err a))"
    obtain c t where c2: "ask conn IedClose (print_line ?l s1) = (c, t)" by force
    have "grows s ([(GetRCBValues RCB_REF, a)] @ [(IedClose, c)]) (([] @ [?l]) @ []) t"
      by (rule grows_trans [OF grows_print [OF g1] grows_ask [OF c2]])
    moreover have "json_out ?l" by (rule json_error_line) (use plain_refs in \<open>auto simp: plain_def\<close>)
    moreover have "report_sequence conn L reports woken initial s = t"
      using False c1 c2 by (simp add: report_sequence_def emit_error_def close_connection_def)
    ultimately show ?thesis
      by (intro exI [of _ "[(GetRCBValues RCB_REF, a), (IedClose, c)]"] exI [of _ "[?l]"] exI [of _ False])
        (simp add: session_requests_def session_ops_def)
  next
    case True
    let ?l = "ok_line ''get-rcb'' (Some RCB_REF)
        [(''rptID'', quoted (case fst (ia_rcb a) of None \<Rightarrow> [] | Some t \<Rightarrow> t)), (''rptEna'', truth (snd (ia_rcb a)))]"
    obtain i s2 where c2: "ask conn (InstallReportHandler RCB_REF RCB_RPTID) (print_line ?l s1) = (i, s2)" by force
    obtain enabled s3 where r3: "reported_request conn ''enable-rcb'' RCB_REF (SetRCBValues True True) s2 = (enabled, s3)" by force
    obtain e3 l3 where g3: "grows s2 [(SetRCBValues True True, e3)] [l3] s3" "ol_op l3 = ''enable-rcb''" "ol_ok l3 = enabled" "json_out l3"
      using reported_request_grows [OF r3] plain_refs by (auto simp: plain_def)
    have g: "grows s [(GetRCBValues RCB_REF, a), (InstallReportHandler RCB_REF RCB_RPTID, i), (SetRCBValues True True, e3)] [?l, l3] s3"
      using grows_trans [OF grows_print [OF g1] grows_trans [OF grows_ask [OF c2] g3(1)]] by simp
    have "\<exists>evs ls. grows s3 evs ls (report_sequence conn L reports woken initial s) \<and>
        map fst evs = drop 3 (session_requests initial True enabled) \<and> map ol_op ls = drop 2 (session_ops True enabled) \<and>
        (plain_texts conn reports \<longrightarrow> list_all json_out ls)"
    proof (cases enabled)
      case False
      obtain d s4 where c4: "ask conn DestroyRCB s3 = (d, s4)" by force
      obtain c t where c5: "ask conn IedClose s4 = (c, t)" by force
      have "report_sequence conn L reports woken initial s = t"
        using True c1 c2 r3 c4 c5 False by (simp add: report_sequence_def close_connection_def Let_def)
      then show ?thesis using grows_trans [OF grows_ask [OF c4] grows_ask [OF c5]] False
        by (intro exI [of _ "[(DestroyRCB, d), (IedClose, c)]"] exI [of _ "[]"]) (simp add: session_requests_def session_ops_def)
    next
      case on: True
      have "report_sequence conn L reports woken initial s = report_exchange conn L reports woken initial s3"
        using True c1 c2 r3 on by (simp add: report_sequence_def Let_def)
      then show ?thesis using report_exchange_part [of s3 conn L reports woken initial] on
        by (simp add: session_requests_def session_ops_def)
    qed
    then obtain evs ls where t: "grows s3 evs ls (report_sequence conn L reports woken initial s)"
      "map fst evs = drop 3 (session_requests initial True enabled)" "map ol_op ls = drop 2 (session_ops True enabled)"
      "plain_texts conn reports \<longrightarrow> list_all json_out ls" by blast
    show ?thesis
      using grows_trans [OF g t(1)] t(2-4) g3 get_rcb_line [OF c1]
      by (intro exI [of _ "[(GetRCBValues RCB_REF, a), (InstallReportHandler RCB_REF RCB_RPTID, i), (SetRCBValues True True, e3)] @ evs"]
          exI [of _ "[?l, l3] @ ls"] exI [of _ True] exI [of _ enabled]) (auto simp: session_requests_def session_ops_def)
  qed
qed

text \<open>C24: What the reporter asks of the server, and in which order. Whatever the server answers and
  whatever reports come, a run that has associated reads the control block, installs its handler and
  then asks to enable the block; exactly if that was accepted it writes the negated initial value
  and later asks to disable the block, also when the write failed or no report came, but does not
  look at whether the block was enabled before; it releases its copy of the block, if it has one,
  and closes the connection last. It prints one line for each of these operations, in order, up to
  conclude; but after a failed get-rcb or enable-rcb that line is the last, there is none for
  conclude, and the exit code is 0 as in every other case. Every line is JSON if the identifiers the
  server sends have no quote, backslash or control character.\<close>

theorem reporter_session:
  assumes "reporter_main version conn L reports woken argv = Ran 0 s"
  shows "\<exists>got enabled.
    map fst (ses_log s) = IedConnect (ro_host (reporter_args argv)) (ro_port (reporter_args argv)) #
      session_requests (ro_initial (reporter_args argv)) got enabled \<and>
    map ol_op (ses_lines s) = session_ops got enabled \<and>
    got = ol_ok (ses_lines s ! 0) \<and> (got \<longrightarrow> enabled = ol_ok (ses_lines s ! 1)) \<and>
    (plain_texts conn reports \<longrightarrow> list_all (\<lambda>l. json_syntax (out_text l)) (ses_lines s))"
proof -
  obtain a t where c: "ask conn (IedConnect (ro_host (reporter_args argv)) (ro_port (reporter_args argv))) session_start = (a, t)"
    "s = report_sequence conn L reports woken (ro_initial (reporter_args argv)) t"
    using assms by (auto simp: reporter_main_def Let_def split: option.splits if_splits prod.splits)
  obtain evs ls got enabled where p: "grows t evs ls s" "map fst evs = session_requests (ro_initial (reporter_args argv)) got enabled"
    "map ol_op ls = session_ops got enabled" "got = ol_ok (ls ! 0)" "got \<longrightarrow> enabled = ol_ok (ls ! 1)"
    "plain_texts conn reports \<longrightarrow> list_all json_out ls"
    using report_sequence_part unfolding c(2) by blast
  have "ses_log s = (IedConnect (ro_host (reporter_args argv)) (ro_port (reporter_args argv)), a) # evs" "ses_lines s = ls"
    using grows_trans [OF grows_ask [OF c(1)] p(1)] by (simp_all add: grows_def session_start_def)
  with p show ?thesis by (intro exI [of _ got] exI [of _ enabled]) (simp add: json_out_def [abs_def])
qed


definition reporter_argv :: "string list" where
  "reporter_argv = [''ied-reporter'', ''--host'', ''ied'']"

lemma reporter_argv_opts: "reporter_args reporter_argv = reporter_defaults\<lparr>ro_host := ''ied''\<rparr>"
  by (simp add: reporter_args_def reporter_argv_def reporter_option_def reporter_defaults_def)

theorem reporter_session_witness:
  "\<exists>s got enabled. reporter_main None granting sample_client_lib stale_reports True reporter_argv = Ran 0 s \<and>
     map fst (ses_log s) = IedConnect ''ied'' 1102 # session_requests True got enabled \<and>
     map ol_op (ses_lines s) = session_ops got enabled \<and> list_all (\<lambda>l. json_syntax (out_text l)) (ses_lines s)"
proof -
  obtain a t where c: "ask granting (IedConnect ''ied'' 1102) session_start = (a, t)" by force
  then have "ia_err a = IED_ERROR_OK" by (auto simp: ask_def granting_def Let_def)
  moreover have "jl_handle_meta_flags None reporter_argv ''libiec61850'' = None"
    by (simp add: jl_handle_meta_flags_def reporter_argv_def)
  ultimately have s: "reporter_main None granting sample_client_lib stale_reports True reporter_argv =
      Ran 0 (report_sequence granting sample_client_lib stale_reports True True t)"
    using c by (simp add: reporter_main_def reporter_argv_opts reporter_defaults_def bad_port_def)
  have "plain_texts granting stale_reports" by (simp add: plain_texts_def granting_def stale_reports_def)
  moreover obtain got enabled where
      "map fst (ses_log (report_sequence granting sample_client_lib stale_reports True True t)) = IedConnect ''ied'' 1102 # session_requests True got enabled"
      "map ol_op (ses_lines (report_sequence granting sample_client_lib stale_reports True True t)) = session_ops got enabled"
      "plain_texts granting stale_reports \<longrightarrow>
        list_all (\<lambda>l. json_syntax (out_text l)) (ses_lines (report_sequence granting sample_client_lib stale_reports True True t))"
    using reporter_session [OF s] by (auto simp: reporter_argv_opts reporter_defaults_def)
  ultimately show ?thesis using s
    by (intro exI [of _ "report_sequence granting sample_client_lib stale_reports True True t"] exI [of _ got] exI [of _ enabled]) simp
qed

end
