(* ===== verification/IedServer.thy ===== *)
theory IedServer
  imports IedCommon
begin

text \<open>
  The IED server \<open>ied_server.c\<close>: it serves a data model the build generates from the ICD file, with
  initial values, a write policy and handlers that carry a control over to the status value. The
  generated model is a parameter. So is what the library does with requests: it calls the
  registered handlers and writes attributes, as the policy allows, in any order.
\<close>

section \<open>The server\<close>

text \<open>
  The attributes of the generated model are known by their symbols, \<open>iedModel_<LD>_<LN>_<DO>_<DA>\<close>,
  here without the prefix. \<open>attribute_ref\<close> is the reference of the standard for a symbol.
\<close>

datatype attr_value =
    AInt32 int
  | AUnsigned nat
  | ABoolean bool
  | AVisibleString string
  | ADbpos nat
  | AFloat u32
  | AOther mms_value


definition attribute_ref :: "string \<Rightarrow> string" where
  "attribute_ref symbol =
     takeWhile (\<lambda>c. c \<noteq> CHR ''_'') symbol @ ''/'' @
     map (\<lambda>c. if c = CHR ''_'' then CHR ''.'' else c) (drop 1 (dropWhile (\<lambda>c. c \<noteq> CHR ''_'') symbol))"

datatype handler = Spcso1_Handler | Spcso2_Handler | Spcso3_Handler

text \<open>The functional constraints the write policy names, and any other: MX, CO and so on.\<close>

datatype access_fc = Access_CF | Access_DC | Access_SP | Access_ST | Access_Other

text \<open>
  The generated model, by reference: the attributes with the values they are created with (their
  \<open>stVal\<close>, \<open>q\<close>, \<open>t\<close>, \<open>Oper\<close>, \<open>SBO\<close> and so on) and the functional constraint of each.
\<close>

record ied_model =
  im_values :: "string \<rightharpoonup> attr_value"
  im_fc :: "string \<Rightarrow> access_fc"

text \<open>The values by reference, the functional constraints that may be written, the handlers by symbol, whether it listens.\<close>

record ied_server =
  es_model :: ied_model
  es_values :: "string \<rightharpoonup> attr_value"
  es_allowed :: "access_fc list"
  es_handlers :: "(string \<times> handler) list"
  es_port :: "int option"


definition update_attribute :: "string \<Rightarrow> attr_value \<Rightarrow> ied_server \<Rightarrow> ied_server" where
  "update_attribute symbol v s = s\<lparr>es_values := (es_values s)(attribute_ref symbol \<mapsto> v)\<rparr>"


section \<open>Control handlers\<close>

text \<open>\<open>CONTROL_RESULT_OK\<close> is the only result; \<open>action\<close> is not looked at.\<close>

definition store_control :: "string \<Rightarrow> mms_value option \<Rightarrow> bool \<Rightarrow> ied_server \<Rightarrow> ied_server outcome" where
  "store_control symbol value test s =
     (case value of
        Some v \<Rightarrow>
          if \<not> test then
            bind_outcome (MmsValue_getBoolean v) (\<lambda>ctl_val. Returns (update_attribute symbol (ABoolean ctl_val) s))
          else Returns s
      | None \<Rightarrow> Returns s)"

definition spcso1_control_handler :: "mms_value option \<Rightarrow> bool \<Rightarrow> ied_server \<Rightarrow> ied_server outcome" where
  "spcso1_control_handler = store_control ''InteropLD_GGIO1_SPCSO1_stVal''"









section \<open>The program\<close>






section \<open>The values\<close>






section \<open>The attributes follow the requests\<close>














text \<open>Without a boolean the handler reads the value as one it is not.\<close>

lemma control_value_unchecked: "spcso1_control_handler (Some (MInteger 1)) False s = Undefined"
  by (simp add: spcso1_control_handler_def store_control_def)

end
