(* ===== verification/MmsServer.thy ===== *)
theory MmsServer
  imports Fixture JsonLines
begin

text \<open>
  The MMS server command, \<open>mms_server.c\<close>: the write handler libiec61850 calls for every write
  request but one of an index range, the reports that writing \<open>report-trigger\<close> sends, the two journal readers, the file
  store and the start-up of \<open>main\<close>. A domain is known by its name. The value cache maps a
  domain and an item to a value; a pointer into a cached value is the item it belongs to and
  the indices that lead to the element.
\<close>

section \<open>Values and pointers into them\<close>

fun elements :: "mms_value \<Rightarrow> mms_value option list option" where
  "elements (MArray vs) = Some vs"
| "elements (MStructure vs) = Some vs"
| "elements _ = None"

text \<open>\<open>MmsValue_getElement\<close> answers NULL for a value without elements and outside the bounds.\<close>

definition MmsValue_getElement :: "mms_value \<Rightarrow> int \<Rightarrow> mms_value option" where
  "MmsValue_getElement v i =
     (case elements v of
        None \<Rightarrow> None
      | Some vs \<Rightarrow> if 0 \<le> i \<and> i < int (length vs) then vs ! nat i else None)"

fun value_at :: "mms_value \<Rightarrow> nat list \<Rightarrow> mms_value option" where
  "value_at v [] = Some v"
| "value_at v (i # p) =
     (case MmsValue_getElement v (int i) of None \<Rightarrow> None | Some w \<Rightarrow> value_at w p)"

definition with_elements :: "mms_value \<Rightarrow> mms_value option list \<Rightarrow> mms_value" where
  "with_elements v vs = (case v of MArray _ \<Rightarrow> MArray vs | MStructure _ \<Rightarrow> MStructure vs | _ \<Rightarrow> v)"

text \<open>The value after the element at a place was changed.\<close>

fun put_at :: "mms_value \<Rightarrow> nat list \<Rightarrow> mms_value \<Rightarrow> mms_value" where
  "put_at v [] w = w"
| "put_at v (i # p) w =
     (case (elements v, MmsValue_getElement v (int i)) of
        (Some vs, Some u) \<Rightarrow> with_elements v (vs[i := Some (put_at u p w)])
      | _ \<Rightarrow> v)"

text \<open>A value with its contents blanked: its type, and those of its elements.\<close>

fun skeleton :: "mms_value \<Rightarrow> mms_value" where
  "skeleton (MBoolean _) = MBoolean False"
| "skeleton (MInteger _) = MInteger 0"
| "skeleton (MUnsigned _) = MUnsigned 0"
| "skeleton (MFloat32 _) = MFloat32 0"
| "skeleton (MFloat64 _) = MFloat64 0"
| "skeleton (MVisibleString _) = MVisibleString []"
| "skeleton (MMmsString _) = MMmsString []"
| "skeleton (MOctetString _) = MOctetString []"
| "skeleton (MBitString _) = MBitString []"
| "skeleton (MUtcTime _) = MUtcTime []"
| "skeleton (MBinaryTime _) = MBinaryTime []"
| "skeleton (MArray vs) = MArray (map (map_option skeleton) vs)"
| "skeleton (MStructure vs) = MStructure (map (map_option skeleton) vs)"
| "skeleton (MDataAccessError _) = MDataAccessError 0"
| "skeleton MOther = MOther"

section \<open>The library\<close>

type_synonym cache = "string \<times> string \<Rightarrow> mms_value option"

text \<open>
  \<open>cache_find\<close>: \<open>MmsServer_getValueFromCache\<close>, the item and the place of the value found.
  \<open>update_value\<close>: \<open>MmsValue_update\<close>, its answer and the value it leaves, which a failed update of
  an array or structure may have changed in part. \<open>encode_value\<close>: the octets
  \<open>MmsValue_encodeMmsData\<close> writes.
\<close>

record server_lib =
  cache_find :: "cache \<Rightarrow> string \<Rightarrow> string \<Rightarrow> (string \<times> nat list) option"
  update_value :: "mms_value \<Rightarrow> mms_value \<Rightarrow> bool \<times> mms_value"
  encode_value :: "mms_value \<Rightarrow> u8 list"

text \<open>
  What the server relies on: a lookup finds the item itself or an element of an item named
  before a \<open>$\<close>, and an update keeps the type.
\<close>

definition cache_find_ok :: "server_lib \<Rightarrow> bool" where
  "cache_find_ok S \<longleftrightarrow>
     (\<forall>c dn item k p. cache_find S c dn item = Some (k, p) \<longrightarrow>
        (item = k \<or> (\<exists>r. item = k @ CHR ''$'' # r)) \<and>
        (\<exists>v. c (dn, k) = Some v \<and> value_at v p \<noteq> None))"

definition update_ok :: "server_lib \<Rightarrow> bool" where
  "update_ok S \<longleftrightarrow> (\<forall>v w. skeleton (snd (update_value S v w)) = skeleton v)"

section \<open>State\<close>

record write_entry =
  we_domain :: string
  we_var :: string
  we_writable :: bool

text \<open>\<open>ms_domains\<close> are the names in \<open>g_device\<close>; \<open>ms_sent\<close> the reports sent, the connection first.\<close>

record mms_server =
  ms_entries :: "write_entry list"
  ms_domains :: "string list"
  ms_reports :: "report_def list"
  ms_cache :: cache
  ms_sent :: "(nat \<times> string \<times> mms_value list) list"

section \<open>Information reports\<close>

definition find_domain :: "mms_server \<Rightarrow> string \<Rightarrow> string option" where
  "find_domain s name = find (\<lambda>d. d = name) (ms_domains s)"

definition split_ref :: "string \<Rightarrow> nat \<Rightarrow> nat \<Rightarrow> (string \<times> string) option" where
  "split_ref ref dom_len item_len =
     (case dropWhile (\<lambda>c. c \<noteq> CHR ''/'') ref of
        [] \<Rightarrow> None
      | slash # item \<Rightarrow>
          let dn = takeWhile (\<lambda>c. c \<noteq> CHR ''/'') ref
          in if length dn \<ge> dom_len \<or> length item \<ge> item_len then None else Some (dn, item))"

definition cached_value :: "server_lib \<Rightarrow> mms_server \<Rightarrow> string \<Rightarrow> string \<Rightarrow> mms_value option" where
  "cached_value S s dn item =
     (case cache_find S (ms_cache s) dn item of
        None \<Rightarrow> None
      | Some (k, p) \<Rightarrow> Option.bind (ms_cache s (dn, k)) (\<lambda>v. value_at v p))"

fun report_values :: "server_lib \<Rightarrow> mms_server \<Rightarrow> string list \<Rightarrow> mms_value list" where
  "report_values S s [] = []"
| "report_values S s (ref # refs) =
     (case split_ref ref 65 65 of
        None \<Rightarrow> report_values S s refs
      | Some (dn, item) \<Rightarrow>
          (case Option.bind (find_domain s dn) (\<lambda>d. cached_value S s d item) of
             None \<Rightarrow> report_values S s refs
           | Some v \<Rightarrow> v # report_values S s refs))"

fun send_reports_loop :: "server_lib \<Rightarrow> nat \<Rightarrow> report_def list \<Rightarrow> mms_server \<Rightarrow> mms_server" where
  "send_reports_loop S conn [] s = s"
| "send_reports_loop S conn (rd # rds) s =
     (case rp_vmd_list rd of
        None \<Rightarrow> send_reports_loop S conn rds s
      | Some vmd_list \<Rightarrow>
          send_reports_loop S conn rds
            (s\<lparr>ms_sent := ms_sent s @ [(conn, vmd_list, report_values S s (rp_variables rd))]\<rparr>))"

definition send_reports :: "server_lib \<Rightarrow> nat \<Rightarrow> mms_server \<Rightarrow> mms_server" where
  "send_reports S conn s = send_reports_loop S conn (ms_reports s) s"

section \<open>Writing\<close>

text \<open>The codes of \<open>MmsDataAccessError\<close> that the handler answers (ISO 9506-2, with -1 for success).\<close>

datatype access_result = SUCCESS | OBJECT_ACCESS_DENIED | OBJECT_UNDEFINED | INVALID_ADDRESS | TYPE_INCONSISTENT

definition REPORT_TRIGGER :: string where
  "REPORT_TRIGGER = ''report-trigger''"

text \<open>The item up to the \<open>$\<close> of a component.\<close>

definition base_name :: "string \<Rightarrow> string" where
  "base_name var_id = takeWhile (\<lambda>c. c \<noteq> CHR ''$'') (snprintf_s 130 var_id)"

definition write_cached ::
  "server_lib \<Rightarrow> nat \<Rightarrow> mms_server \<Rightarrow> string \<Rightarrow> string \<Rightarrow> string \<times> nat list \<Rightarrow> mms_value \<Rightarrow> mms_value \<Rightarrow>
   access_result \<times> mms_server" where
  "write_cached S conn s dn base at cached value =
     (let (k, p) = at; (ok, after) = update_value S cached value;
          s' = s\<lparr>ms_cache := (ms_cache s)((dn, k) \<mapsto> put_at (the (ms_cache s (dn, k))) p after)\<rparr>
      in if \<not> ok then (TYPE_INCONSISTENT, s')
         else if base = REPORT_TRIGGER then (SUCCESS, send_reports S conn s')
         else (SUCCESS, s'))"

definition write_handler ::
  "server_lib \<Rightarrow> mms_server \<Rightarrow> string \<Rightarrow> string \<Rightarrow> int \<Rightarrow> mms_value \<Rightarrow> nat \<Rightarrow> access_result \<times> mms_server" where
  "write_handler S s dn var_id array_idx value conn =
     (let base = base_name var_id
      in case find (\<lambda>e. we_domain e = dn \<and> we_var e = base) (ms_entries s) of
           None \<Rightarrow> (OBJECT_UNDEFINED, s)
         | Some e \<Rightarrow>
             if \<not> we_writable e then (OBJECT_ACCESS_DENIED, s)
             else
               (case cache_find S (ms_cache s) dn var_id of
                  None \<Rightarrow> (OBJECT_UNDEFINED, s)
                | Some (k, p) \<Rightarrow>
                    let cached = the (value_at (the (ms_cache s (dn, k))) p)
                    in if array_idx \<ge> 0 then
                         (case MmsValue_getElement cached array_idx of
                            None \<Rightarrow> (INVALID_ADDRESS, s)
                          | Some elem \<Rightarrow> write_cached S conn s dn base (k, p @ [nat array_idx]) elem value)
                       else write_cached S conn s dn base (k, p) cached value))"

section \<open>Journals\<close>

text \<open>The calls of the two callbacks: an entry or the end, a datum or the end of the data.\<close>

datatype log_call =
    EntryCall u64 u64 bool
  | DataCall "string option" "u8 list" int u8 bool

text \<open>\<open>entry_callback\<close> answers from the calls before; a callback may be missing.\<close>

record log_client =
  entry_callback :: "(log_call list \<Rightarrow> bool) option"
  data_callback :: bool

definition emit_entry :: "server_lib \<Rightarrow> log_client \<Rightarrow> journal_entry \<Rightarrow> log_call list \<Rightarrow> log_call list outcome" where
  "emit_entry S C e log =
     (let log' = (if entry_callback C = None then log else log @ [EntryCall (time_ms e) (entry_id e) True]);
          buf = encode_value S (je_value e)
      in if (case entry_callback C of None \<Rightarrow> False | Some cb \<Rightarrow> \<not> cb log') then Returns log'
         else if length buf > 256 then Undefined
         else Returns (log' @ (if data_callback C
           then [DataCall (Some (je_tag e)) buf (int (length buf)) (reason_code e) True, DataCall None [] 0 0 False]
           else [])))"

definition end_entries :: "log_client \<Rightarrow> log_call list \<Rightarrow> log_call list" where
  "end_entries C log = (if entry_callback C = None then log else log @ [EntryCall 0 0 False])"

fun entries_loop ::
  "server_lib \<Rightarrow> log_client \<Rightarrow> u64 \<Rightarrow> u64 \<Rightarrow> journal_entry list \<Rightarrow> log_call list \<Rightarrow> log_call list outcome" where
  "entries_loop S C start stop [] log = Returns log"
| "entries_loop S C start stop (e # es) log =
     bind_outcome (if time_ms e \<ge> start \<and> time_ms e \<le> stop then emit_entry S C e log else Returns log)
       (entries_loop S C start stop es)"

definition mem_get_entries :: "server_lib \<Rightarrow> log_client \<Rightarrow> journal_def \<Rightarrow> u64 \<Rightarrow> u64 \<Rightarrow> log_call list outcome" where
  "mem_get_entries S C j start stop =
     bind_outcome (entries_loop S C start stop (jn_entries j) []) (\<lambda>log. Returns (end_entries C log))"

fun after_loop ::
  "server_lib \<Rightarrow> log_client \<Rightarrow> u64 \<Rightarrow> u64 \<Rightarrow> bool \<Rightarrow> journal_entry list \<Rightarrow> log_call list \<Rightarrow> log_call list outcome" where
  "after_loop S C start after found [] log = Returns log"
| "after_loop S C start after found (e # es) log =
     bind_outcome (if found \<and> time_ms e \<ge> start then emit_entry S C e log else Returns log)
       (after_loop S C start after (found \<or> entry_id e = after) es)"

definition mem_get_entries_after ::
  "server_lib \<Rightarrow> log_client \<Rightarrow> journal_def \<Rightarrow> u64 \<Rightarrow> u64 \<Rightarrow> log_call list outcome" where
  "mem_get_entries_after S C j start after =
     bind_outcome (after_loop S C start after False (jn_entries j) []) (\<lambda>log. Returns (end_entries C log))"

section \<open>An update keeps the type\<close>

lemma getType_skeleton [simp]: "MmsValue_getType (skeleton v) = MmsValue_getType v"
  by (cases v) simp_all

lemma skeleton_eq_type: "skeleton v = skeleton w \<Longrightarrow> MmsValue_getType v = MmsValue_getType w"
  by (metis getType_skeleton)

lemma scalar_ok_skeleton: "scalar_ok t (skeleton v) = scalar_ok t v"
proof (cases t)
  case (TFloat e n)
  then show ?thesis by (cases v) (simp_all add: scalar_ok_def)
qed (simp_all add: scalar_ok_def)

lemma conforms_skeleton: "conforms t (skeleton v) = conforms t v"
proof (cases t)
  case (TArray e n)
  then show ?thesis
    by (cases v) (auto simp: conforms_def list.pred_map o_def scalar_ok_skeleton list_all_iff option.map_sel)
next
  case (TStructure cs)
  have "(w \<noteq> None \<and> scalar_ok t' (the (map_option skeleton w))) = (w \<noteq> None \<and> scalar_ok t' (the w))" for w t'
    by (cases w) (simp_all add: scalar_ok_skeleton)
  with TStructure show ?thesis by (cases v) (simp_all add: conforms_def list_all2_map2)
qed (simp_all add: conforms_def scalar_ok_skeleton)

lemma skeleton_put_at:
  "value_at v p = Some u \<Longrightarrow> skeleton w = skeleton u \<Longrightarrow> skeleton (put_at v p w) = skeleton v"
proof (induction v p w rule: put_at.induct)
  case (2 v i p w)
  from 2(2) obtain vs x where x: "elements v = Some vs" "MmsValue_getElement v (int i) = Some x" "value_at x p = Some u"
    by (auto simp: MmsValue_getElement_def split: option.splits)
  then have i: "i < length vs" "vs ! i = Some x" by (auto simp: MmsValue_getElement_def split: if_splits)
  have "skeleton (put_at x p w) = skeleton x" using 2(1) x 2(3) by blast
  then have "map (map_option skeleton) (vs[i := Some (put_at x p w)]) = map (map_option skeleton) vs"
    using i by (simp add: map_update list_update_same_conv)
  with x(1,2) show ?case by (cases v) (simp_all add: with_elements_def)
qed simp

lemma value_at_append: "value_at v (p @ q) = Option.bind (value_at v p) (\<lambda>w. value_at w q)"
  by (induction v p rule: value_at.induct) (auto split: option.splits)

section \<open>What a write changes\<close>

definition keys_plain :: "cache \<Rightarrow> bool" where
  "keys_plain c \<longleftrightarrow> (\<forall>dn k. c (dn, k) \<noteq> None \<longrightarrow> CHR ''$'' \<notin> set k \<and> length k < 130)"

lemma base_name_key:
  assumes "CHR ''$'' \<notin> set k" "length k < 130" "item = k \<or> (\<exists>r. item = k @ CHR ''$'' # r)"
  shows "base_name item = k"
proof -
  have k: "takeWhile (\<lambda>c. c \<noteq> CHR ''$'') k = k" using assms(1) by (auto simp: takeWhile_eq_all_conv)
  from assms(3) show ?thesis
  proof
    assume "item = k"
    then show ?thesis using assms(2) k by (simp add: base_name_def)
  next
    assume "\<exists>r. item = k @ CHR ''$'' # r"
    then obtain r where r: "item = k @ CHR ''$'' # r" by blast
    have "take 129 item = k @ take (129 - length k) (CHR ''$'' # r)" using assms(2) r by simp
    then show ?thesis
      using assms(1,2) by (cases "129 - length k") (auto simp: base_name_def snprintf_s_def takeWhile_append k)
  qed
qed

lemma send_reports_loop_spec:
  "send_reports_loop S conn rds s =
     s\<lparr>ms_sent := ms_sent s @ map (\<lambda>rd. (conn, the (rp_vmd_list rd), report_values S s (rp_variables rd)))
        (filter (\<lambda>rd. rp_vmd_list rd \<noteq> None) rds)\<rparr>"
proof -
  have cv: "cached_value S (s\<lparr>ms_sent := x\<rparr>) dn item = cached_value S s dn item" for s x dn item
    by (simp add: cached_value_def split: option.splits)
  have rv: "report_values S (s\<lparr>ms_sent := x\<rparr>) refs = report_values S s refs" for s x refs
    by (induction refs) (simp_all add: find_domain_def cv cong: option.case_cong)
  show ?thesis by (induction rds arbitrary: s) (auto simp: rv split: option.splits)
qed

lemma send_reports_fields [simp]:
  "ms_cache (send_reports S conn s) = ms_cache s" "ms_entries (send_reports S conn s) = ms_entries s"
  "ms_domains (send_reports S conn s) = ms_domains s" "ms_reports (send_reports S conn s) = ms_reports s"
  by (simp_all add: send_reports_def send_reports_loop_spec)

text \<open>The handler either answers an error and changes nothing, or updates one place of one value.\<close>

lemma write_handler_cases:
  assumes "write_handler S s dn var_id idx value conn = (r, s')" "cache_find_ok S"
  obtains "r \<in> {OBJECT_UNDEFINED, OBJECT_ACCESS_DENIED, INVALID_ADDRESS}" "s' = s"
  | e k p v cached ok new where "find (\<lambda>e. we_domain e = dn \<and> we_var e = base_name var_id) (ms_entries s) = Some e"
      "we_writable e" "var_id = k \<or> (\<exists>t. var_id = k @ CHR ''$'' # t)" "ms_cache s (dn, k) = Some v"
      "value_at v p = Some cached" "update_value S cached value = (ok, new)"
      "r = (if ok then SUCCESS else TYPE_INCONSISTENT)"
      "s' = (let s1 = s\<lparr>ms_cache := (ms_cache s)((dn, k) \<mapsto> put_at v p new)\<rparr>
             in if ok \<and> base_name var_id = REPORT_TRIGGER then send_reports S conn s1 else s1)"
proof (cases "find (\<lambda>e. we_domain e = dn \<and> we_var e = base_name var_id) (ms_entries s)")
  case None
  with assms that(1) show thesis by (simp add: write_handler_def)
next
  case e: (Some e)
  show thesis
  proof (cases "\<not> we_writable e \<or> cache_find S (ms_cache s) dn var_id = None")
    case True
    with assms(1) e have "r \<in> {OBJECT_UNDEFINED, OBJECT_ACCESS_DENIED, INVALID_ADDRESS} \<and> s' = s"
      by (auto simp: write_handler_def Let_def split: if_splits)
    with that(1) show thesis by blast
  next
    case False
    then obtain k p where k: "cache_find S (ms_cache s) dn var_id = Some (k, p)" "we_writable e" by auto
    with assms(2) obtain v w where v: "var_id = k \<or> (\<exists>t. var_id = k @ CHR ''$'' # t)" "ms_cache s (dn, k) = Some v"
      "value_at v p = Some w" unfolding cache_find_ok_def by blast
    note updated = that(2)
    have cached: thesis if "value_at v q = Some c" "(r, s') = write_cached S conn s dn (base_name var_id) (k, q) c value" for q c
    proof -
      obtain ok new where u: "update_value S c value = (ok, new)" by force
      with that(2) v show thesis
        by (intro updated [OF e k(2) v(1,2) that(1) u]) (auto simp: write_cached_def Let_def split: if_splits)
    qed
    show thesis
    proof (cases "idx \<ge> 0")
      case True
      show thesis
      proof (cases "MmsValue_getElement w idx")
        case None
        with assms that(1) e k v True show thesis by (simp add: write_handler_def Let_def)
      next
        case (Some x)
        with v True have "value_at v (p @ [nat idx]) = Some x" by (simp add: value_at_append)
        then show thesis using assms e k v True Some by (intro cached) (auto simp: write_handler_def Let_def)
      qed
    next
      case False
      then show thesis using assms e k v by (intro cached [OF v(3)]) (simp add: write_handler_def Let_def)
    qed
  qed
qed

lemma write_changes:
  assumes "write_handler S s dn var_id idx value conn = (r, s')" "cache_find_ok S" "keys_plain (ms_cache s)"
    and "ms_cache s' key \<noteq> ms_cache s key"
  shows "key = (dn, base_name var_id) \<and> \<lparr>we_domain = dn, we_var = base_name var_id, we_writable = True\<rparr> \<in> set (ms_entries s)"
  using assms(1,2)
proof (cases rule: write_handler_cases)
  case 1
  with assms(4) show ?thesis by simp
next
  case (2 e k p v cached ok new)
  have "base_name var_id = k" using assms(3) 2(3,4) by (intro base_name_key) (auto simp: keys_plain_def)
  moreover have "e \<in> set (ms_entries s)" "we_domain e = dn" "we_var e = base_name var_id"
    using 2(1) by (auto simp: find_Some_iff)
  moreover from this 2(2) have "e = \<lparr>we_domain = dn, we_var = base_name var_id, we_writable = True\<rparr>"
    by (intro write_entry.equality) simp_all
  ultimately show ?thesis using assms(4) 2(8) by (auto simp: Let_def split: if_splits)
qed

text \<open>C35: A write changes the variable it names and no other. As long as no variable's name has a
  \<open>$\<close> or more than 129 characters, an item of the cache that differs afterwards is the one the
  request addresses, and its entry is writable; an answer other than success or an inconsistent type
  means that nothing changed at all; reports go out only on success, for the trigger variable; the
  tables stay as they are.\<close>

theorem writes_isolated:
  assumes "write_handler S s dn var_id idx value conn = (r, s')" "cache_find_ok S" "keys_plain (ms_cache s)"
  shows "(\<forall>key. ms_cache s' key \<noteq> ms_cache s key \<longrightarrow>
       key = (dn, base_name var_id) \<and> \<lparr>we_domain = dn, we_var = base_name var_id, we_writable = True\<rparr> \<in> set (ms_entries s)) \<and>
     (r \<noteq> SUCCESS \<and> r \<noteq> TYPE_INCONSISTENT \<longrightarrow> s' = s) \<and>
     (ms_sent s' \<noteq> ms_sent s \<longrightarrow> r = SUCCESS \<and> base_name var_id = REPORT_TRIGGER) \<and>
     ms_entries s' = ms_entries s \<and> ms_domains s' = ms_domains s \<and> ms_reports s' = ms_reports s"
  using assms(1,2)
proof (cases rule: write_handler_cases)
  case 1
  then show ?thesis by auto
next
  case (2 e k p v cached ok new)
  then show ?thesis using write_changes [OF assms] by (auto simp: Let_def)
qed

definition sample_server_lib :: server_lib where
  "sample_server_lib = \<lparr>
     cache_find = (\<lambda>c dn item. if c (dn, item) = None then None else Some (item, [])),
     update_value = (\<lambda>v w. if skeleton w = skeleton v then (True, w) else (False, v)),
     encode_value = (\<lambda>v. [])\<rparr>"

lemma sample_server_lib_ok: "cache_find_ok sample_server_lib" "update_ok sample_server_lib"
  by (auto simp: cache_find_ok_def update_ok_def sample_server_lib_def)

definition sample_server :: mms_server where
  "sample_server = \<lparr>
     ms_entries = [\<lparr>we_domain = ''d'', we_var = ''report-trigger'', we_writable = True\<rparr>,
       \<lparr>we_domain = ''d'', we_var = ''x'', we_writable = False\<rparr>],
     ms_domains = [''d''],
     ms_reports = [\<lparr>rp_vmd_list = Some ''l'', rp_variables = [''d/x'', ''nowhere'', ''d/report-trigger'']\<rparr>,
       \<lparr>rp_vmd_list = None, rp_variables = [''d/x'']\<rparr>],
     ms_cache = [(''d'', ''report-trigger'') \<mapsto> MInteger 0, (''d'', ''x'') \<mapsto> MBoolean True],
     ms_sent = []\<rparr>"

lemma sample_server_triggered:
  "write_handler sample_server_lib sample_server ''d'' ''report-trigger'' (- 1) (MInteger 1) 7 =
     (SUCCESS, sample_server\<lparr>ms_cache := [(''d'', ''report-trigger'') \<mapsto> MInteger 1, (''d'', ''x'') \<mapsto> MBoolean True],
        ms_sent := [(7, ''l'', [MBoolean True, MInteger 1])]\<rparr>)"
  by (simp add: write_handler_def base_name_def snprintf_s_def sample_server_def sample_server_lib_def write_cached_def
      REPORT_TRIGGER_def send_reports_def split_ref_def find_domain_def cached_value_def Let_def fun_eq_iff)

lemma sample_server_plain: "keys_plain (ms_cache sample_server)"
  by (auto simp: keys_plain_def sample_server_def split: if_splits)

theorem writes_isolated_witness:
  "ms_cache (snd (write_handler sample_server_lib sample_server ''d'' ''report-trigger'' (- 1) (MInteger 1) 7)) (''d'', ''x'') =
     Some (MBoolean True)"
proof -
  have "base_name ''report-trigger'' = ''report-trigger''" by (simp add: base_name_def snprintf_s_def)
  note isolated = writes_isolated [OF sample_server_triggered sample_server_lib_ok(1) sample_server_plain, unfolded this]
  have "(''d'', ''x'') \<noteq> (''d'', ''report-trigger'')" by simp
  then have "ms_cache (snd (write_handler sample_server_lib sample_server ''d'' ''report-trigger'' (- 1) (MInteger 1) 7)) (''d'', ''x'') =
      ms_cache sample_server (''d'', ''x'')"
    using isolated unfolding sample_server_triggered snd_conv by blast
  then show ?thesis by (simp add: sample_server_def)
qed

text \<open>C37: Writing the trigger sends the reports. A successful write of \<open>report-trigger\<close> sends to the
  writing connection every report of the fixture that has a list name, in the fixture's order, each
  with the values its variables have after the write; a reference that is malformed or finds no value
  is left out. Nothing else sends reports.\<close>

theorem report_trigger_sends:
  assumes "write_handler S s dn var_id idx value conn = (r, s')" "cache_find_ok S"
  shows "ms_sent s' = ms_sent s @
     (if r = SUCCESS \<and> base_name var_id = REPORT_TRIGGER
      then map (\<lambda>rd. (conn, the (rp_vmd_list rd),
             List.map_filter (\<lambda>ref. Option.bind (split_ref ref 65 65) (\<lambda>(d, item).
               Option.bind (find_domain s' d) (\<lambda>d. cached_value S s' d item))) (rp_variables rd)))
           (filter (\<lambda>rd. rp_vmd_list rd \<noteq> None) (ms_reports s))
      else [])"
proof -
  have rv: "report_values S t refs = List.map_filter (\<lambda>ref. Option.bind (split_ref ref 65 65) (\<lambda>(d, item).
      Option.bind (find_domain t d) (\<lambda>d. cached_value S t d item))) refs" for t refs
    by (induction refs) (auto simp: List.map_filter_simps split: option.splits)
  have sent: "report_values S (send_reports S conn t) refs = report_values S t refs" for t refs
  proof -
    have "cached_value S (send_reports S conn t) d item = cached_value S t d item" for d item
      by (simp add: cached_value_def split: option.splits)
    then show ?thesis by (simp add: rv find_domain_def)
  qed
  from assms show ?thesis
  proof (cases rule: write_handler_cases)
    case 1
    then show ?thesis by auto
  next
    case (2 e k p v cached ok new)
    show ?thesis
    proof (cases "ok \<and> base_name var_id = REPORT_TRIGGER")
      case True
      let ?t = "s\<lparr>ms_cache := (ms_cache s)((dn, k) \<mapsto> put_at v p new)\<rparr>"
      have "s' = send_reports S conn ?t" using 2(8) True by simp
      moreover have "ms_sent (send_reports S conn ?t) = ms_sent s @
          map (\<lambda>rd. (conn, the (rp_vmd_list rd), report_values S ?t (rp_variables rd)))
            (filter (\<lambda>rd. rp_vmd_list rd \<noteq> None) (ms_reports s))"
        by (simp add: send_reports_def send_reports_loop_spec)
      ultimately have "ms_sent s' = ms_sent s @
          map (\<lambda>rd. (conn, the (rp_vmd_list rd), report_values S s' (rp_variables rd)))
            (filter (\<lambda>rd. rp_vmd_list rd \<noteq> None) (ms_reports s))"
        by (simp only: sent)
      moreover have "r = SUCCESS" using 2(7) True by simp
      ultimately show ?thesis using True by (simp only: rv simp_thms if_True)
    next
      case False
      with 2(7,8) show ?thesis by (auto simp: Let_def)
    qed
  qed
qed

theorem report_trigger_sends_witness:
  "map (\<lambda>(conn, name, vs). (conn, name))
     (ms_sent (snd (write_handler sample_server_lib sample_server ''d'' ''report-trigger'' (- 1) (MInteger 1) 7))) =
     [(7, ''l'')]"
proof -
  obtain r s' where w: "write_handler sample_server_lib sample_server ''d'' ''report-trigger'' (- 1) (MInteger 1) 7 = (r, s')"
    by force
  have "base_name ''report-trigger'' = REPORT_TRIGGER" by (simp add: base_name_def snprintf_s_def REPORT_TRIGGER_def)
  moreover have "r = SUCCESS" using w sample_server_triggered by simp
  moreover have "ms_reports sample_server = [\<lparr>rp_vmd_list = Some ''l'', rp_variables = [''d/x'', ''nowhere'', ''d/report-trigger'']\<rparr>,
       \<lparr>rp_vmd_list = None, rp_variables = [''d/x'']\<rparr>]" "ms_sent sample_server = []"
    by (simp_all add: sample_server_def)
  ultimately show ?thesis
    using report_trigger_sends [OF w sample_server_lib_ok(1)] unfolding w snd_conv by (simp only: simp_thms if_True) simp
qed

section \<open>Journals\<close>

definition entry_calls :: "server_lib \<Rightarrow> journal_entry \<Rightarrow> log_call list" where
  "entry_calls S e = [EntryCall (time_ms e) (entry_id e) True,
     DataCall (Some (je_tag e)) (encode_value S (je_value e)) (int (length (encode_value S (je_value e)))) (reason_code e) True,
     DataCall None [] 0 0 False]"

text \<open>The journal service of the library: both callbacks are there and it takes every entry.\<close>

definition taking_all :: log_client where
  "taking_all = \<lparr>entry_callback = Some (\<lambda>_. True), data_callback = True\<rparr>"

definition fits_buffer :: "server_lib \<Rightarrow> journal_def \<Rightarrow> bool" where
  "fits_buffer S j \<longleftrightarrow> (\<forall>e \<in> set (jn_entries j). length (encode_value S (je_value e)) \<le> 256)"

lemma emit_entry_taken:
  "length (encode_value S (je_value e)) \<le> 256 \<Longrightarrow> emit_entry S taking_all e log = Returns (log @ entry_calls S e)"
  by (simp add: emit_entry_def taking_all_def entry_calls_def Let_def)

lemma entries_loop_taken:
  "(\<And>e. e \<in> set es \<Longrightarrow> length (encode_value S (je_value e)) \<le> 256) \<Longrightarrow>
   entries_loop S taking_all start stop es log =
     Returns (log @ concat (map (entry_calls S) (filter (\<lambda>e. start \<le> time_ms e \<and> time_ms e \<le> stop) es)))"
  by (induction es arbitrary: log) (auto simp: emit_entry_taken)

lemma after_loop_found:
  "(\<And>e. e \<in> set es \<Longrightarrow> length (encode_value S (je_value e)) \<le> 256) \<Longrightarrow>
   after_loop S taking_all start i True es log =
     Returns (log @ concat (map (entry_calls S) (filter (\<lambda>e. start \<le> time_ms e) es)))"
  by (induction es arbitrary: log) (auto simp: emit_entry_taken)

lemma after_loop_skip:
  "i \<notin> entry_id ` set pre \<Longrightarrow> after_loop S C start i False (pre @ es) log = after_loop S C start i False es log"
  by (induction pre) auto

text \<open>C36: Reading a journal and resuming it delivers every entry once. Take a journal whose values each
  encode to at most 256 octets, the size of the buffer of \<open>emit_entry\<close>, which does not check it, and
  a client that takes every entry. Read from a time on, the journal yields its entries of that time
  and later in its order, to the end of a time range those in the range, and then the end; asked to
  start after the number of an entry that no earlier entry has, the server yields exactly the rest of
  that reading, and only the end when no entry has the number.\<close>

theorem journal_resume:
  assumes "fits_buffer S j" "jn_entries j = pre @ e # post" "entry_id e \<notin> entry_id ` set pre"
    and "i \<notin> entry_id ` set (jn_entries j)"
  shows "mem_get_entries S taking_all j start (- 1) =
       Returns (concat (map (entry_calls S) (filter (\<lambda>e. start \<le> time_ms e) (pre @ [e]))) @
         concat (map (entry_calls S) (filter (\<lambda>e. start \<le> time_ms e) post)) @ [EntryCall 0 0 False]) \<and>
     mem_get_entries_after S taking_all j start (entry_id e) =
       Returns (concat (map (entry_calls S) (filter (\<lambda>e. start \<le> time_ms e) post)) @ [EntryCall 0 0 False]) \<and>
     mem_get_entries_after S taking_all j start i = Returns [EntryCall 0 0 False] \<and>
     mem_get_entries S taking_all j start stop =
       Returns (concat (map (entry_calls S) (filter (\<lambda>e. start \<le> time_ms e \<and> time_ms e \<le> stop) (jn_entries j))) @
         [EntryCall 0 0 False])"
proof -
  have fits: "\<And>x. x \<in> set (jn_entries j) \<Longrightarrow> length (encode_value S (je_value x)) \<le> 256"
    using assms(1) by (simp add: fits_buffer_def)
  have [simp]: "x \<le> - 1" for x :: u64 by (rule word_n1_ge)
  have ends: "end_entries taking_all log = log @ [EntryCall 0 0 False]" for log
    by (simp add: end_entries_def taking_all_def)
  have skip: "after_loop S taking_all start i False (jn_entries j) [] = Returns []"
    using after_loop_skip [OF assms(4), of S taking_all start "[]" "[]"] by simp
  have "after_loop S taking_all start (entry_id e) False (e # post) [] =
      Returns (concat (map (entry_calls S) (filter (\<lambda>e. start \<le> time_ms e) post)))"
    using after_loop_found [of post S start "entry_id e" "[]"] fits assms(2) by simp
  then have "after_loop S taking_all start (entry_id e) False (jn_entries j) [] =
      Returns (concat (map (entry_calls S) (filter (\<lambda>e. start \<le> time_ms e) post)))"
    using after_loop_skip [OF assms(3), of S taking_all start "e # post" "[]"] assms(2) by simp
  moreover have "entries_loop S taking_all start stop (jn_entries j) [] =
      Returns (concat (map (entry_calls S) (filter (\<lambda>e. start \<le> time_ms e \<and> time_ms e \<le> stop) (jn_entries j))))" for stop
    using fits by (simp add: entries_loop_taken)
  ultimately show ?thesis
    using skip by (simp add: mem_get_entries_def mem_get_entries_after_def ends) (simp add: assms(2))
qed

theorem journal_resume_witness:
  "mem_get_entries_after sample_server_lib taking_all
     \<lparr>jn_name = ''log'', jn_entries = map (\<lambda>n. \<lparr>entry_id = n, time_ms = 1000 * n, je_tag = ''t'', je_value = MInteger n, reason_code = 1\<rparr>) [1, 2, 3]\<rparr> 0 2 =
     Returns [EntryCall 3000 3 True, DataCall (Some ''t'') [] 0 1 True, DataCall None [] 0 0 False, EntryCall 0 0 False]"
  using journal_resume [of sample_server_lib
      "\<lparr>jn_name = ''log'', jn_entries = map (\<lambda>n. \<lparr>entry_id = n, time_ms = 1000 * n, je_tag = ''t'', je_value = MInteger n, reason_code = 1\<rparr>) [1, 2, 3]\<rparr>"
      "[\<lparr>entry_id = 1, time_ms = 1000, je_tag = ''t'', je_value = MInteger 1, reason_code = 1\<rparr>]"
      "\<lparr>entry_id = 2, time_ms = 2000, je_tag = ''t'', je_value = MInteger 2, reason_code = 1\<rparr>"
      "[\<lparr>entry_id = 3, time_ms = 3000, je_tag = ''t'', je_value = MInteger 3, reason_code = 1\<rparr>]" 9 0]
  by (simp add: fits_buffer_def sample_server_lib_def entry_calls_def)

section \<open>The file store\<close>

text \<open>\<open>fs_ok\<close> tells from the calls before whether a call succeeds; for \<open>mkdir\<close>, also when the directory exists.\<close>

datatype fs_call = Mkdir string | Fopen string | Fwrite string "u8 list" | Utimes string u64

type_synonym fs_env = "fs_call list \<Rightarrow> fs_call \<Rightarrow> bool"

text \<open>The characters before and from \<open>p\<close>.\<close>

fun mkdirs_loop :: "fs_env \<Rightarrow> string \<Rightarrow> string \<Rightarrow> fs_call list \<Rightarrow> bool \<times> fs_call list" where
  "mkdirs_loop fs front [] calls = (True, calls)"
| "mkdirs_loop fs front (p # rest) calls =
     (if p = CHR ''/'' then
        (if fs calls (Mkdir front) then mkdirs_loop fs (front @ [p]) rest (calls @ [Mkdir front])
         else (False, calls @ [Mkdir front]))
      else mkdirs_loop fs (front @ [p]) rest calls)"

text \<open>The path is never empty: it begins with the file store's directory.\<close>

definition mkdirs :: "fs_env \<Rightarrow> string \<Rightarrow> fs_call list \<Rightarrow> bool \<times> fs_call list" where
  "mkdirs fs path calls = mkdirs_loop fs (take 1 path) (drop 1 path) calls"

definition write_file :: "fs_env \<Rightarrow> string \<Rightarrow> file_def \<Rightarrow> fs_call list \<Rightarrow> bool \<times> fs_call list" where
  "write_file fs dir fd calls =
     (let path = snprintf_s 1024 (dir @ fd_name fd); (made, calls) = mkdirs fs path calls
      in if \<not> made then (False, calls)
         else if \<not> fs calls (Fopen path) then (False, calls @ [Fopen path])
         else
           let opened = calls @ [Fopen path]; w = Fwrite path (fd_data fd);
               written = (if fd_size fd > 0 then opened @ [w] else opened)
           in if fd_size fd > 0 \<and> \<not> fs opened w then (False, written)
              else (True, if last_modified_ms fd \<noteq> 0
                          then written @ [Utimes path (last_modified_ms fd div 1000)] else written))"

fun populate_filestore :: "fs_env \<Rightarrow> file_def list \<Rightarrow> string \<Rightarrow> fs_call list \<Rightarrow> bool \<times> fs_call list" where
  "populate_filestore fs [] dir calls = (True, calls)"
| "populate_filestore fs (fd # fds) dir calls =
     (let (ok, calls) = write_file fs dir fd calls
      in if ok then populate_filestore fs fds dir calls else (False, calls))"

section \<open>The device model\<close>

record mms_domain =
  md_name :: string
  md_vars :: "mms_spec list"
  md_journals :: "(string \<times> journal_def option) list"

definition clone_spec :: "mms_spec \<Rightarrow> mms_spec" where
  "clone_spec src = Spec (spec_name src) (spec_type src)"

text \<open>The storage of the first journal of a name.\<close>

fun set_storage :: "string \<Rightarrow> journal_def \<Rightarrow> (string \<times> journal_def option) list \<Rightarrow> (string \<times> journal_def option) list" where
  "set_storage name j [] = []"
| "set_storage name j ((n, storage) # js) =
     (if n = name then (n, Some j) # js else (n, storage) # set_storage name j js)"

definition build_domain :: "domain_def \<Rightarrow> mms_domain" where
  "build_domain dd =
     \<lparr>md_name = dm_name dd,
      md_vars = map (\<lambda>v. clone_spec (vd_spec v)) (dm_vars dd),
      md_journals = foldl (\<lambda>js j. set_storage (jn_name j) j (js @ [(jn_name j, None)])) [] (dm_journals dd)\<rparr>"

definition build_device :: "fixture_def \<Rightarrow> mms_domain list" where
  "build_device f = map build_domain (fx_domains f)"

section \<open>Start-up\<close>

record server_opts =
  so_fixture :: "string option"
  so_port :: int
  so_filestore :: "string option"

definition server_defaults :: server_opts where
  "server_defaults = \<lparr>so_fixture = None, so_port = 1102, so_filestore = None\<rparr>"

definition server_option :: "server_opts \<Rightarrow> string \<times> string \<Rightarrow> server_opts" where
  "server_option opts a =
     (case a of (arg, next_arg) \<Rightarrow>
        if arg = ''--fixture'' then opts\<lparr>so_fixture := Some next_arg\<rparr>
        else if arg = ''--port'' then opts\<lparr>so_port := atoi next_arg\<rparr>
        else if arg = ''--filestore'' then opts\<lparr>so_filestore := Some next_arg\<rparr>
        else opts)"

text \<open>Every argument but the last is looked at, the values of options too.\<close>

definition parse_args :: "string list \<Rightarrow> server_opts" where
  "parse_args argv = foldl server_option server_defaults (zip (drop 1 argv) (drop 2 argv))"

definition register_var :: "string \<Rightarrow> write_entry list \<times> cache \<Rightarrow> var_def \<Rightarrow> write_entry list \<times> cache" where
  "register_var dn reg vd =
     (fst reg @ [\<lparr>we_domain = dn, we_var = vd_name vd, we_writable = vd_writable vd\<rparr>],
      (snd reg)((dn, vd_name vd) \<mapsto> vd_value vd))"

definition register_vars :: "fixture_def \<Rightarrow> write_entry list \<times> cache" where
  "register_vars f = foldl (\<lambda>reg dd. foldl (register_var (dm_name dd)) reg (dm_vars dd)) ([], Map.empty) (fx_domains f)"

text \<open>
  What the system answers: the parsed fixture file, the directory \<open>mkdtemp\<close> makes, the file system,
  whether the server runs on a port, and the version variable.
\<close>

record server_system =
  sy_fixture :: "string \<Rightarrow> json option"
  sy_mkdtemp :: "string option"
  sy_files :: fs_env
  sy_running :: "int \<Rightarrow> bool"
  sy_version :: "string option"

datatype server_result =
    Exits int
  | Serves fixture_def mms_server "fs_call list" string

definition filestore :: "server_system \<Rightarrow> string option \<Rightarrow> (string \<times> fs_call list) option" where
  "filestore sys filestore_arg =
     (case filestore_arg of
        Some d \<Rightarrow> Some (snprintf_s 512 (d @ ''/''), [Mkdir d])
      | None \<Rightarrow> map_option (\<lambda>tmpl. (snprintf_s 512 (tmpl @ ''/''), [])) (sy_mkdtemp sys))"

definition server_start :: "server_system \<Rightarrow> server_opts \<Rightarrow> fixture_def \<Rightarrow> server_result" where
  "server_start sys opts f =
     (case filestore sys (so_filestore opts) of
        None \<Rightarrow> Exits 1
      | Some (dir, made) \<Rightarrow>
          let (ok, calls) = populate_filestore (sy_files sys) (fx_files f) dir made;
              (entries, cached) = register_vars f
          in if \<not> ok then Exits 1
             else if \<not> sy_running sys (so_port opts) then Exits 1
             else Serves f
               \<lparr>ms_entries = entries, ms_domains = map md_name (build_device f),
                ms_reports = fx_reports f, ms_cache = cached, ms_sent = []\<rparr>
               calls
               (jl_ready (sy_version sys) (snprintf_s 64 (''0.0.0.0:'' @ dec_int (so_port opts)))
                  (fixture_revision f) ''libiec61850'' (Some [])))"

definition server_main :: "value_lib \<Rightarrow> server_system \<Rightarrow> string list \<Rightarrow> server_result outcome" where
  "server_main L sys argv =
     (if jl_handle_meta_flags (sy_version sys) argv ''libiec61850'' \<noteq> None then Returns (Exits 0)
      else
        let opts = parse_args argv;
            fixture_path = (case so_fixture opts of None \<Rightarrow> ''/fixtures/mms/interop.json'' | Some p \<Rightarrow> p)
        in bind_outcome (fixture_load L (sy_fixture sys fixture_path)) (\<lambda>fix_opt. case fix_opt of
             None \<Rightarrow> Returns (Exits 3)
           | Some f \<Rightarrow> Returns (server_start sys opts f)))"

text \<open>
  What \<open>libiec61850\<close> does with a write of an index range: it updates elements of an array in the cache
  and does not call the handler. Which elements it updates is its own matter; the array at the place
  \<open>p\<close> of the item \<open>key\<close> keeps its type.
\<close>

definition range_write :: "mms_server \<Rightarrow> string \<times> string \<Rightarrow> nat list \<Rightarrow> mms_value \<Rightarrow> mms_server" where
  "range_write s key p w = s\<lparr>ms_cache := (ms_cache s)(key \<mapsto> put_at (the (ms_cache s key)) p w)\<rparr>"

text \<open>
  The states the server passes through: it starts with one and handles write requests; the library
  writes index ranges on its own.
\<close>

inductive served :: "server_lib \<Rightarrow> mms_server \<Rightarrow> mms_server \<Rightarrow> bool" for S s0 where
  started: "served S s0 s0"
| written: "served S s0 s \<Longrightarrow> write_handler S s dn var_id idx value conn = (r, s') \<Longrightarrow> served S s0 s'"
| ranged: "served S s0 s \<Longrightarrow> ms_cache s key = Some v \<Longrightarrow> value_at v p = Some (MArray vs) \<Longrightarrow>
    skeleton w = skeleton (MArray vs) \<Longrightarrow> served S s0 (range_write s key p w)"

section \<open>The files of the fixture\<close>

text \<open>The part of a path before each \<open>/\<close> but one at the beginning.\<close>

definition directories :: "string \<Rightarrow> string list" where
  "directories path = map (\<lambda>i. take i path) (filter (\<lambda>i. path ! i = CHR ''/'') [1..<length path])"

definition file_calls :: "string \<Rightarrow> file_def \<Rightarrow> fs_call list" where
  "file_calls dir fd =
     (let path = snprintf_s 1024 (dir @ fd_name fd)
      in map Mkdir (directories path) @ [Fopen path] @
         (if fd_size fd > 0 then [Fwrite path (fd_data fd)] else []) @
         (if last_modified_ms fd \<noteq> 0 then [Utimes path (last_modified_ms fd div 1000)] else []))"

text \<open>All these calls succeed, one after the other; the time of a file need not be set.\<close>

fun all_succeed :: "fs_env \<Rightarrow> fs_call list \<Rightarrow> fs_call list \<Rightarrow> bool" where
  "all_succeed fs before [] \<longleftrightarrow> True"
| "all_succeed fs before (c # cs) \<longleftrightarrow>
     ((case c of Utimes _ _ \<Rightarrow> True | _ \<Rightarrow> fs before c) \<and> all_succeed fs (before @ [c]) cs)"

lemma all_succeed_append [simp]:
  "all_succeed fs before (xs @ ys) \<longleftrightarrow> all_succeed fs before xs \<and> all_succeed fs (before @ xs) ys"
  by (induction xs arbitrary: before) simp_all

lemma mkdirs_loop_spec:
  "mkdirs_loop fs front rest calls = (ok, calls') \<Longrightarrow>
   ok = all_succeed fs calls (map Mkdir ds) \<and> (ok \<longrightarrow> calls' = calls @ map Mkdir ds)"
  if "ds = map (\<lambda>i. take i (front @ rest)) (filter (\<lambda>i. (front @ rest) ! i = CHR ''/'') [length front..<length (front @ rest)])"
  using that
proof (induction fs front rest calls arbitrary: ds rule: mkdirs_loop.induct)
  case (2 fs front p rest calls)
  have up: "[length front..<Suc (length front + length rest)] = length front # [Suc (length front)..<Suc (length front + length rest)]"
    by (rule upt_conv_Cons) simp
  let ?ds = "map (\<lambda>i. take i ((front @ [p]) @ rest))
    (filter (\<lambda>i. ((front @ [p]) @ rest) ! i = CHR ''/'') [length (front @ [p])..<length ((front @ [p]) @ rest)])"
  have ds: "ds = (if p = CHR ''/'' then front # ?ds else ?ds)"
    using "2.prems"(2) by (simp add: up del: upt_Suc)
  show ?case
  proof (cases "p = CHR ''/''")
    case True
    show ?thesis
    proof (cases "fs calls (Mkdir front)")
      case ok: True
      from "2.IH"(1) [OF True ok _ refl] "2.prems"(1) True ok ds show ?thesis by simp
    next
      case False
      with "2.prems"(1) True ds show ?thesis by simp
    qed
  next
    case False
    from "2.IH"(2) [OF False _ refl] "2.prems"(1) False ds show ?thesis by simp
  qed
qed simp

lemma mkdirs_spec:
  assumes "mkdirs fs path calls = (ok, calls')"
  shows "ok = all_succeed fs calls (map Mkdir (directories path)) \<and> (ok \<longrightarrow> calls' = calls @ map Mkdir (directories path))"
proof (cases path)
  case Nil
  with assms show ?thesis by (simp add: mkdirs_def directories_def)
next
  case (Cons c r)
  with assms show ?thesis by (intro mkdirs_loop_spec [where front = "[c]" and rest = r]) (simp_all add: mkdirs_def directories_def)
qed

lemma write_file_spec:
  assumes "write_file fs dir fd calls = (ok, calls')"
  shows "ok = all_succeed fs calls (file_calls dir fd) \<and> (ok \<longrightarrow> calls' = calls @ file_calls dir fd)"
proof -
  let ?path = "snprintf_s 1024 (dir @ fd_name fd)"
  obtain made calls1 where m: "mkdirs fs ?path calls = (made, calls1)" by force
  from mkdirs_spec [OF m] assms m show ?thesis
    by (cases made) (auto simp: write_file_def file_calls_def Let_def split: if_splits)
qed

text \<open>The file store gets the files of the fixture. Populating it succeeds exactly if these calls
  succeed: for every file in the fixture's order, its directories from the outermost in, the file,
  its octets if it has any; then these are the calls made, and a modification time that is not zero
  was set to its whole second.\<close>

theorem filestore_populated:
  "fst (populate_filestore fs fds dir calls) = all_succeed fs calls (concat (map (file_calls dir) fds)) \<and>
   (fst (populate_filestore fs fds dir calls) \<longrightarrow>
      snd (populate_filestore fs fds dir calls) = calls @ concat (map (file_calls dir) fds))"
proof (induction fds arbitrary: calls)
  case (Cons fd fds)
  obtain ok calls1 where "write_file fs dir fd calls = (ok, calls1)" by force
  with write_file_spec [OF this] Cons.IH [of calls1] show ?case by (cases ok) simp_all
qed simp

theorem filestore_populated_witness:
  "snd (populate_filestore (\<lambda>_ _. True)
     [\<lparr>fd_name = ''a/b'', fd_data = [1, 2], fd_size = 2, last_modified_ms = 1500\<rparr>] ''/x/'' []) =
     [Mkdir ''/x'', Mkdir ''/x/a'', Fopen ''/x/a/b'', Fwrite ''/x/a/b'' [1, 2], Utimes ''/x/a/b'' 1]"
proof -
  let ?f = "\<lparr>fd_name = ''a/b'', fd_data = [1, 2], fd_size = 2, last_modified_ms = 1500\<rparr>"
  have "directories ''/x/a/b'' = [''/x'', ''/x/a'']" by (simp add: directories_def upt_rec)
  then have "concat (map (file_calls ''/x/'') [?f]) =
      [Mkdir ''/x'', Mkdir ''/x/a'', Fopen ''/x/a/b'', Fwrite ''/x/a/b'' [1, 2], Utimes ''/x/a/b'' 1]"
    by (simp add: file_calls_def snprintf_s_def Let_def)
  with filestore_populated [of "\<lambda>_ _. True" "[?f]" "''/x/''" "[]"] show ?thesis
    by (simp del: populate_filestore.simps)
qed

section \<open>The variables served\<close>

definition all_vars :: "fixture_def \<Rightarrow> (string \<times> var_def) list" where
  "all_vars f = concat (map (\<lambda>d. map (Pair (dm_name d)) (dm_vars d)) (fx_domains f))"

definition var_key :: "string \<times> var_def \<Rightarrow> string \<times> string" where
  "var_key x = (fst x, vd_name (snd x))"

definition var_entry :: "string \<times> var_def \<Rightarrow> write_entry" where
  "var_entry x = \<lparr>we_domain = fst x, we_var = vd_name (snd x), we_writable = vd_writable (snd x)\<rparr>"

text \<open>The members of a JSON object are distinct; names have no \<open>$\<close> and fit the handler's buffer.\<close>

definition names_ok :: "fixture_def \<Rightarrow> bool" where
  "names_ok f \<longleftrightarrow> distinct (map var_key (all_vars f)) \<and>
     list_all (\<lambda>x. CHR ''$'' \<notin> set (vd_name (snd x)) \<and> length (vd_name (snd x)) < 130) (all_vars f)"

lemma register_domain:
  "foldl (register_var dn) (es, c) vs =
     (es @ map (\<lambda>v. var_entry (dn, v)) vs, c ++ map_of (rev (map (\<lambda>v. (var_key (dn, v), vd_value v)) vs)))"
  by (induction vs arbitrary: es c) (simp_all add: register_var_def var_entry_def var_key_def)

lemma register_vars_spec:
  "register_vars f = (map var_entry (all_vars f), map_of (rev (map (\<lambda>x. (var_key x, vd_value (snd x))) (all_vars f))))"
proof -
  have "foldl (\<lambda>reg dd. foldl (register_var (dm_name dd)) reg (dm_vars dd)) (es, c) ds =
      (es @ map var_entry (concat (map (\<lambda>d. map (Pair (dm_name d)) (dm_vars d)) ds)),
       c ++ map_of (rev (map (\<lambda>x. (var_key x, vd_value (snd x))) (concat (map (\<lambda>d. map (Pair (dm_name d)) (dm_vars d)) ds)))))"
    for ds es c
  proof (induction ds arbitrary: es c)
    case (Cons d ds)
    show ?case by (simp add: register_domain Cons.IH o_def)
  qed simp
  from this [of "[]" Map.empty "fx_domains f"] show ?thesis by (simp add: register_vars_def all_vars_def)
qed

text \<open>
  A variable whose value no client can change: it is not writable, and it is no array, of which index
  ranges are written all the same.
\<close>

definition fixed_var :: "var_def \<Rightarrow> bool" where
  "fixed_var v \<longleftrightarrow> \<not> vd_writable v \<and> (case spec_type (vd_spec v) of TArray _ _ \<Rightarrow> False | _ \<Rightarrow> True)"

lemma scalar_no_array: "scalar_ok t v \<Longrightarrow> elements v = None"
  by (cases v; cases t) (simp_all add: scalar_ok_def)

text \<open>A value of another type has no array in it.\<close>

lemma no_array_in:
  assumes "conforms t v" "case t of TArray _ _ \<Rightarrow> False | _ \<Rightarrow> True" "value_at v p = Some (MArray vs)"
  shows False
proof (cases t)
  case (TStructure cs)
  then obtain ws where v: "v = MStructure ws" and ws:
    "list_all2 (\<lambda>c v. spec_name c \<noteq> None \<and> v \<noteq> None \<and> scalar_ok (spec_type c) (the v)) cs ws"
    using assms(1) by (cases v) (simp_all add: conforms_def)
  with assms(3) obtain i q where p: "p = i # q" by (cases p) simp_all
  then obtain x where x: "MmsValue_getElement v (int i) = Some x" "value_at x q = Some (MArray vs)"
    using assms(3) by (auto split: option.splits)
  then have i: "i < length ws" "ws ! i = Some x" using v by (auto simp: MmsValue_getElement_def split: if_splits)
  with ws have "scalar_ok (spec_type (cs ! i)) x" by (auto simp: list_all2_conv_all_nth)
  then have "elements x = None" by (rule scalar_no_array)
  with x(2) show False by (cases q) (auto simp: MmsValue_getElement_def)
next
  case (TArray e n)
  with assms(2) show False by simp
qed (use assms scalar_no_array [of t v] in \<open>cases p; auto simp: conforms_def MmsValue_getElement_def split: option.splits\<close>)+

text \<open>The state invariant: every variable has its entry and a value of its type, the initial one if it is fixed.\<close>

definition server_inv :: "fixture_def \<Rightarrow> mms_server \<Rightarrow> bool" where
  "server_inv f s \<longleftrightarrow>
     ms_entries s = map var_entry (all_vars f) \<and>
     dom (ms_cache s) = var_key ` set (all_vars f) \<and>
     (\<forall>x \<in> set (all_vars f). conforms (spec_type (vd_spec (snd x))) (the (ms_cache s (var_key x))) \<and>
        (fixed_var (snd x) \<longrightarrow> ms_cache s (var_key x) = Some (vd_value (snd x))))"

lemma server_inv_start:
  assumes "fixture_load L root = Returns (Some f)" "names_ok f"
    and "s = \<lparr>ms_entries = fst (register_vars f), ms_domains = ds, ms_reports = rs, ms_cache = snd (register_vars f), ms_sent = sent\<rparr>"
    and typed: "\<And>d v. d \<in> set (fx_domains f) \<Longrightarrow> v \<in> set (dm_vars d) \<Longrightarrow> conforms (spec_type (vd_spec v)) (vd_value v)"
  shows "server_inv f s"
proof -
  have "distinct (map fst (rev (map (\<lambda>x. (var_key x, vd_value (snd x))) (all_vars f))))"
    using assms(2) by (simp add: names_ok_def o_def rev_map [symmetric])
  then have "map_of (rev (map (\<lambda>x. (var_key x, vd_value (snd x))) (all_vars f))) (var_key x) = Some (vd_value (snd x))"
    if "x \<in> set (all_vars f)" for x
    using that by (intro map_of_is_SomeI) auto
  then have c: "ms_cache s (var_key x) = Some (vd_value (snd x))" if "x \<in> set (all_vars f)" for x
    using that assms(3) by (simp add: register_vars_spec)
  have "conforms (spec_type (vd_spec (snd x))) (vd_value (snd x))" if "x \<in> set (all_vars f)" for x
    using that typed by (auto simp: all_vars_def)
  with c show ?thesis
    using assms(3) by (simp add: server_inv_def register_vars_spec dom_map_of_conv_image_fst image_image)
qed

lemma server_inv_write:
  assumes "server_inv f s" "names_ok f" "cache_find_ok S" "update_ok S"
    and w: "write_handler S s dn var_id idx value conn = (r, s')"
  shows "server_inv f s'"
proof -
  note inv = assms(1) [unfolded server_inv_def]
  have keys: "ms_cache s key \<noteq> None \<longleftrightarrow> key \<in> var_key ` set (all_vars f)" for key
    using inv by (auto simp: dom_def)
  have plain: "keys_plain (ms_cache s)"
    unfolding keys_plain_def
  proof (intro allI impI)
    fix dn k
    assume "ms_cache s (dn, k) \<noteq> None"
    then obtain x where "x \<in> set (all_vars f)" "vd_name (snd x) = k" using keys by (auto simp: var_key_def)
    with assms(2) show "CHR ''$'' \<notin> set k \<and> length k < 130" by (auto simp: names_ok_def list_all_iff)
  qed
  have entry: "vd_writable (snd x)" if "x \<in> set (all_vars f)"
    "\<lparr>we_domain = fst (var_key x), we_var = snd (var_key x), we_writable = True\<rparr> \<in> set (ms_entries s)" for x
  proof -
    from that(2) inv obtain y where y: "y \<in> set (all_vars f)" "var_key y = var_key x" "vd_writable (snd y)"
      by (auto simp: var_entry_def var_key_def)
    moreover have "inj_on var_key (set (all_vars f))" using assms(2) by (simp add: names_ok_def distinct_map)
    ultimately have "y = x" using that(1) by (blast dest: inj_onD)
    with y show ?thesis by simp
  qed
  note change = write_changes [OF w assms(3) plain]
  from w assms(3) show ?thesis
  proof (cases rule: write_handler_cases)
    case 1
    with assms(1) show ?thesis by simp
  next
    case (2 e k p v cached ok new)
    let ?c = "(ms_cache s)((dn, k) \<mapsto> put_at v p new)"
    have s': "ms_cache s' = ?c" "ms_entries s' = ms_entries s" using 2(8) by (simp_all add: Let_def)
    have "skeleton new = skeleton cached" using assms(4) 2(6) unfolding update_ok_def by (metis snd_conv)
    with 2(5) have skel: "skeleton (put_at v p new) = skeleton v" by (rule skeleton_put_at)
    have "dom ?c = dom (ms_cache s)" using 2(4) by auto
    moreover have "conforms (spec_type (vd_spec (snd x))) (the (?c (var_key x))) \<and>
        (fixed_var (snd x) \<longrightarrow> ?c (var_key x) = Some (vd_value (snd x)))" if x: "x \<in> set (all_vars f)" for x
    proof
      show "conforms (spec_type (vd_spec (snd x))) (the (?c (var_key x)))"
        using inv x skel 2(4) conforms_skeleton [of _ "put_at v p new"] conforms_skeleton [of _ v]
        by (cases "var_key x = (dn, k)") auto
      show "fixed_var (snd x) \<longrightarrow> ?c (var_key x) = Some (vd_value (snd x))"
      proof
        assume ro: "fixed_var (snd x)"
        have "?c (var_key x) = ms_cache s (var_key x)"
          using change [of "var_key x"] entry [OF x] ro [unfolded fixed_var_def] s' by (metis fst_conv snd_conv)
        with inv x ro show "?c (var_key x) = Some (vd_value (snd x))" by auto
      qed
    qed
    ultimately show ?thesis using inv s' by (simp add: server_inv_def)
  qed
qed

lemma server_inv_range:
  assumes inv: "server_inv f s" and "ms_cache s key = Some v" "value_at v p = Some (MArray vs)" "skeleton w = skeleton (MArray vs)"
  shows "server_inv f (range_write s key p w)"
proof -
  let ?c = "(ms_cache s)(key \<mapsto> put_at v p w)"
  have s': "ms_cache (range_write s key p w) = ?c" "ms_entries (range_write s key p w) = ms_entries s"
    using assms(2) by (simp_all add: range_write_def)
  have skel: "skeleton (put_at v p w) = skeleton v" using assms(3,4) by (rule skeleton_put_at)
  have "dom ?c = dom (ms_cache s)" using assms(2) by auto
  moreover have "conforms (spec_type (vd_spec (snd x))) (the (?c (var_key x))) \<and>
      (fixed_var (snd x) \<longrightarrow> ?c (var_key x) = Some (vd_value (snd x)))" if x: "x \<in> set (all_vars f)" for x
  proof (cases "var_key x = key")
    case True
    have v: "conforms (spec_type (vd_spec (snd x))) v"
      using inv x assms(2) True by (auto simp: server_inv_def)
    then have "\<not> fixed_var (snd x)" using no_array_in [OF v _ assms(3)] by (auto simp: fixed_var_def)
    moreover have "conforms (spec_type (vd_spec (snd x))) (put_at v p w)"
      using v skel conforms_skeleton by metis
    ultimately show ?thesis using True by simp
  next
    case False
    with inv x show ?thesis by (simp add: server_inv_def)
  qed
  ultimately show ?thesis using inv s' by (simp add: server_inv_def)
qed

lemma served_inv:
  "served S s0 s \<Longrightarrow> server_inv f s0 \<Longrightarrow> names_ok f \<Longrightarrow> cache_find_ok S \<Longrightarrow> update_ok S \<Longrightarrow> server_inv f s"
  by (induction rule: served.induct) (blast intro: server_inv_write server_inv_range)+

lemma server_main_serves:
  assumes "server_main L sys argv = Returns (Serves f s0 calls line)"
  obtains root where "fixture_load L root = Returns (Some f)"
    "s0 = \<lparr>ms_entries = fst (register_vars f), ms_domains = map md_name (build_device f),
       ms_reports = fx_reports f, ms_cache = snd (register_vars f), ms_sent = []\<rparr>"
proof -
  from assms obtain root fx opts where fx: "fixture_load L root = Returns (Some fx)"
    "server_start sys opts fx = Serves f s0 calls line"
    by (auto simp: server_main_def Let_def split: if_splits option.splits)
  then obtain dir made where "filestore sys (so_filestore opts) = Some (dir, made)"
    by (cases "filestore sys (so_filestore opts)") (auto simp: server_start_def)
  with fx(2) have "f = fx" "s0 = \<lparr>ms_entries = fst (register_vars fx), ms_domains = map md_name (build_device fx),
       ms_reports = fx_reports fx, ms_cache = snd (register_vars fx), ms_sent = []\<rparr>"
    by (auto simp: server_start_def Let_def case_prod_beta split: if_splits)
  with fx(1) that show thesis by blast
qed

text \<open>C34: The server serves the fixture, whatever is written to it. After any sequence of requests to
  a server that has started, each a write the handler answers or a write of an index range, which the
  library applies to the cache without the handler, every variable of the fixture still has a value
  of its specified type; one that is neither writable nor an array has the value of the fixture; no
  other value is in the cache. So the write permission of an array protects it from the handler's
  writes only. Assumed: variable names are distinct in their domain, have no \<open>$\<close> and fewer than 130
  characters; the library looks up an item under its name or that of the variable before a \<open>$\<close>, and
  an update keeps the type and the number of elements.\<close>

theorem served_variables:
  assumes "server_main L sys argv = Returns (Serves f s0 calls line)" "names_ok f" "cache_find_ok S" "update_ok S"
    and "served S s0 s" "d \<in> set (fx_domains f)" "v \<in> set (dm_vars d)"
  shows "(\<exists>w. ms_cache s (dm_name d, vd_name v) = Some w \<and> conforms (spec_type (vd_spec v)) w \<and>
       (fixed_var v \<longrightarrow> w = vd_value v)) \<and>
     (\<forall>key. ms_cache s key \<noteq> None \<longrightarrow>
        (\<exists>d \<in> set (fx_domains f). \<exists>v \<in> set (dm_vars d). key = (dm_name d, vd_name v)))"
proof -
  obtain root where start: "fixture_load L root = Returns (Some f)"
    "s0 = \<lparr>ms_entries = fst (register_vars f), ms_domains = map md_name (build_device f),
       ms_reports = fx_reports f, ms_cache = snd (register_vars f), ms_sent = []\<rparr>"
    using assms(1) by (rule server_main_serves)
  have "server_inv f s0"
    by (rule server_inv_start [OF start(1) assms(2) start(2)]) (use loaded_conforms [OF start(1)] in blast)
  from served_inv [OF assms(5) this assms(2-4)] have inv: "server_inv f s" .
  let ?x = "(dm_name d, v)"
  have x: "?x \<in> set (all_vars f)" "var_key ?x = (dm_name d, vd_name v)"
    using assms(6,7) by (auto simp: all_vars_def var_key_def)
  from inv have keys: "dom (ms_cache s) = var_key ` set (all_vars f)" by (simp add: server_inv_def)
  with x have "(dm_name d, vd_name v) \<in> dom (ms_cache s)" by (metis imageI)
  then obtain w where w: "ms_cache s (dm_name d, vd_name v) = Some w" by blast
  with inv x have "conforms (spec_type (vd_spec v)) w \<and> (fixed_var v \<longrightarrow> w = vd_value v)"
    by (fastforce simp: server_inv_def)
  moreover have "\<exists>d \<in> set (fx_domains f). \<exists>v \<in> set (dm_vars d). key = (dm_name d, vd_name v)"
    if "ms_cache s key \<noteq> None" for key
  proof -
    from that keys have "key \<in> var_key ` set (all_vars f)" by blast
    then show ?thesis by (auto simp: all_vars_def var_key_def) blast
  qed
  ultimately show ?thesis using w by blast
qed

definition sample_loaded :: fixture_def where
  "sample_loaded = (case fixture_load sample_lib (Some sample_fixture) of Returns (Some f) \<Rightarrow> f)"

definition sample_system :: server_system where
  "sample_system = \<lparr>sy_fixture = (\<lambda>_. Some sample_fixture), sy_mkdtemp = Some ''/tmp/mms-filestore-1'',
     sy_files = (\<lambda>_ _. True), sy_running = (\<lambda>_. True), sy_version = None\<rparr>"

lemma sample_server_starts:
  "\<exists>s0 calls line. server_main sample_lib sample_system [''mms-server''] = Returns (Serves sample_loaded s0 calls line)"
  by (auto simp: server_main_def jl_handle_meta_flags_def parse_args_def server_defaults_def sample_system_def
      server_start_def filestore_def sample_loaded_def sample_fixture_loaded Let_def case_prod_beta)

text \<open>The array \<open>a\<close> of the fixture is not writable, and yet a write of the index range of its first element changes it.\<close>

lemma readonly_array_written:
  assumes "server_main sample_lib sample_system [''mms-server''] = Returns (Serves sample_loaded s0 calls line)"
  shows "\<exists>s. served sample_server_lib s0 s \<and>
    ms_cache s0 (''interop'', ''a'') = Some (MArray [Some (MBoolean True), Some (MBoolean False)]) \<and>
    ms_cache s (''interop'', ''a'') = Some (MArray [Some (MBoolean False), Some (MBoolean False)])"
proof -
  have s0: "s0 = \<lparr>ms_entries = fst (register_vars sample_loaded), ms_domains = map md_name (build_device sample_loaded),
       ms_reports = fx_reports sample_loaded, ms_cache = snd (register_vars sample_loaded), ms_sent = []\<rparr>"
    using assms by (rule server_main_serves)
  have a: "ms_cache s0 (''interop'', ''a'') = Some (MArray [Some (MBoolean True), Some (MBoolean False)])"
    by (simp add: s0 register_vars_spec all_vars_def var_key_def sample_loaded_def sample_fixture_loaded)
  let ?w = "MArray [Some (MBoolean False), Some (MBoolean False)]"
  have "served sample_server_lib s0 (range_write s0 (''interop'', ''a'') [] ?w)"
    by (rule served.ranged [OF served.started a, of _ "[Some (MBoolean True), Some (MBoolean False)]"]) simp_all
  moreover have "ms_cache (range_write s0 (''interop'', ''a'') [] ?w) (''interop'', ''a'') = Some ?w"
    by (simp add: range_write_def a)
  ultimately show ?thesis using a by blast
qed

theorem served_variables_witness:
  "\<exists>s0 calls line. server_main sample_lib sample_system [''mms-server''] = Returns (Serves sample_loaded s0 calls line) \<and>
     ms_cache (snd (write_handler sample_server_lib s0 ''interop'' ''n'' (- 1) (MInteger 9) 0)) (''interop'', ''s'') =
       Some (MStructure [Some (MVisibleString ''x''), Some (MBitString [False, True])])"
proof -
  obtain s0 calls line where m: "server_main sample_lib sample_system [''mms-server''] = Returns (Serves sample_loaded s0 calls line)"
    using sample_server_starts by blast
  let ?s = "\<lparr>vd_name = ''s'', vd_spec = Spec (Some ''s'') (TStructure [Spec (Some (''comp'' @ dec 0)) (TVisibleString (- 1)),
        Spec (Some ''b'') (TBitString (- 1))]),
      vd_value = MStructure [Some (MVisibleString ''x''), Some (MBitString [False, True])], vd_writable = False\<rparr>"
  have names: "names_ok sample_loaded"
    by (simp add: sample_loaded_def sample_fixture_loaded names_ok_def all_vars_def var_key_def)
  have dv: "\<exists>d. d \<in> set (fx_domains sample_loaded) \<and> ?s \<in> set (dm_vars d) \<and> dm_name d = ''interop''"
    by (simp add: sample_loaded_def sample_fixture_loaded)
  have fixed: "fixed_var ?s" by (simp add: fixed_var_def)
  obtain r s' where w: "write_handler sample_server_lib s0 ''interop'' ''n'' (- 1) (MInteger 9) 0 = (r, s')" by force
  have "served sample_server_lib s0 s'" by (rule served.written [OF served.started w])
  with dv fixed served_variables [OF m names sample_server_lib_ok] have "ms_cache s' (''interop'', ''s'') = Some (vd_value ?s)"
    by fastforce
  with m w show ?thesis by (metis snd_conv var_def.select_convs(3))
qed

end
