(* ===== verification/MmsServices.thy ===== *)
theory MmsServices
  imports JsonText
begin

text \<open>
  The service sequence of the MMS client command, \<open>mms_client_services.c\<close>. The connection is a
  parameter: it answers every request from the requests before it. A line of output is its
  operation, its target, whether it succeeded and the members after these. The requests made, the
  lines printed and the local variables the requests store into are the state.
\<close>

section \<open>Requests and answers\<close>

datatype mms_request =
    Connect string int
  | GetServerStatus bool
  | GetDomainJournals string
  | GetVMDVariableNames
  | GetDomainVariableNames string
  | GetVariableAccessAttributes string string
  | ReadArrayElements string string nat nat
  | ReadVariableComponent string string string
  | WriteArrayElements string string nat nat mms_value
  | WriteVariableComponent string string string mms_value
  | ReadVariable string string
  | WriteVariable string string mms_value
  | DefineNamedVariableList "string option" string "(string \<times> string) list"
  | GetDomainVariableListNames string
  | ReadNamedVariableListDirectory "string option" string
  | ReadNamedVariableListValues "string option" string bool
  | WriteNamedVariableList bool "string option" string "mms_value list"
  | DeleteNamedVariableList "string option" string
  | DefineListAssociationSpecific string "(string \<times> string) list"
  | GetListNamesAssociationSpecific
  | ReadListDirectoryAssociationSpecific string
  | ReadListValuesAssociationSpecific string bool
  | DeleteListAssociationSpecific string
  | GetFileDirectory "string option" "string option"
  | FileOpen string nat
  | FileRead int
  | FileClose int
  | FileDelete string
  | FileRename string string
  | ObtainFile string string
  | ReadJournalTimeRange string string mms_value mms_value
  | ReadJournalStartAfter string string mms_value mms_value
  | Abort
  | Identify
  | GetDomainNames
  | ReadMultipleVariables string "string list"
  | WriteMultipleVariables string "string list" "mms_value list"
  | Conclude

record journal_read =
  jr_id :: "mms_value option"
  jr_time :: "mms_value option"
  jr_variables :: "(string option \<times> mms_value option) list"

text \<open>
  What a call returns and stores, each field for the calls that have it. None in \<open>an_err\<close>,
  \<open>an_flag\<close>, \<open>an_status\<close>, \<open>an_size\<close> and \<open>an_modified\<close> leaves the caller's variable alone. A list of
  access results is there whenever no error is reported.
\<close>

record answer =
  an_err :: "mms_error option"
  an_result :: bool
  an_value :: "mms_value option"
  an_names :: "string list option"
  an_specs :: "(string option \<times> string) list option"
  an_type :: "type_desc option"
  an_flag :: "bool option"
  an_dae :: int
  an_results :: "mms_value option list"
  an_status :: "(int \<times> int) option"
  an_files :: "(string \<times> u32 \<times> u64) list"
  an_frsm :: int
  an_size :: "u32 option"
  an_modified :: "u64 option"
  an_data :: "u8 list list"
  an_journal :: "journal_read list option"
  an_identity :: "(string option \<times> string option \<times> string option) option"

type_synonym connection = "mms_request list \<Rightarrow> mms_request \<Rightarrow> answer"

section \<open>Lines of output\<close>

record svc_line =
  ln_op :: string
  ln_target :: string
  ln_ok :: bool
  ln_more :: "(string \<times> string) list"

definition line_text :: "svc_line \<Rightarrow> string" where
  "line_text l =
     ''{\"operation\":'' @ sb_string (Some (ln_op l)) @ '',\"target\":'' @ sb_string (Some (ln_target l)) @
     '',\"ok\":'' @ (if ln_ok l then ''true'' else ''false'') @
     concat (map (\<lambda>(k, t). '',\"'' @ k @ ''\":'' @ t) (ln_more l)) @ ''}''"

text \<open>\<open>cl_err\<close> and \<open>cl_flag\<close> are the local \<open>err\<close> and the local \<open>deletable\<close> or \<open>more\<close>;
  \<open>cl_naps\<close> counts the naps of 50 ms.\<close>

record client =
  cl_calls :: "mms_request list"
  cl_err :: mms_error
  cl_flag :: bool
  cl_lines :: "svc_line list"
  cl_naps :: nat

definition call :: "connection \<Rightarrow> mms_request \<Rightarrow> client \<Rightarrow> answer \<times> client" where
  "call conn r s =
     (let a = conn (cl_calls s) r
      in (a, s\<lparr>cl_calls := cl_calls s @ [r],
               cl_err := (case an_err a of None \<Rightarrow> cl_err s | Some e \<Rightarrow> e),
               cl_flag := (case an_flag a of None \<Rightarrow> cl_flag s | Some f \<Rightarrow> f)\<rparr>))"

definition emit_line :: "svc_line \<Rightarrow> client \<Rightarrow> client" where
  "emit_line l s = s\<lparr>cl_lines := cl_lines s @ [l]\<rparr>"

definition emit_ok :: "string \<Rightarrow> string \<Rightarrow> client \<Rightarrow> client" where
  "emit_ok op target = emit_line \<lparr>ln_op = op, ln_target = target, ln_ok = True, ln_more = []\<rparr>"

definition emit_fail :: "string \<Rightarrow> string \<Rightarrow> string \<Rightarrow> client \<Rightarrow> client" where
  "emit_fail op target reason =
     emit_line \<lparr>ln_op = op, ln_target = target, ln_ok = False, ln_more = [(''error'', sb_string (Some reason))]\<rparr>"

definition emit_text :: "string \<Rightarrow> string \<Rightarrow> string \<Rightarrow> client \<Rightarrow> client" where
  "emit_text op target t =
     emit_line \<lparr>ln_op = op, ln_target = target, ln_ok = True, ln_more = [(''value'', t)]\<rparr>"

definition emit_value :: "text_lib \<Rightarrow> string \<Rightarrow> string \<Rightarrow> mms_value option \<Rightarrow> client \<Rightarrow> client" where
  "emit_value L op target v = emit_text op target (sb_value L v)"

definition emit_names :: "string \<Rightarrow> string list \<Rightarrow> client \<Rightarrow> client" where
  "emit_names target names =
     emit_line \<lparr>ln_op = ''get-name-list'', ln_target = target, ln_ok = True, ln_more = [(''names'', sb_names names)]\<rparr>"

definition emit_read :: "text_lib \<Rightarrow> string \<Rightarrow> string \<Rightarrow> mms_error \<Rightarrow> mms_value option \<Rightarrow> client \<Rightarrow> client" where
  "emit_read L op target err v =
     (if err \<noteq> MMS_ERROR_NONE \<or> v = None then emit_fail op target (mms_err_name err)
      else (case v of
          Some (MDataAccessError e) \<Rightarrow> emit_fail op target (dae_name e)
        | _ \<Rightarrow> emit_value L op target v))"

definition emit_write :: "string \<Rightarrow> string \<Rightarrow> mms_error \<Rightarrow> int \<Rightarrow> client \<Rightarrow> client" where
  "emit_write op target err dae =
     (if err = MMS_ERROR_NONE \<and> dae = DATA_ACCESS_ERROR_SUCCESS then emit_ok op target
      else if dae \<ge> 0 then emit_fail op target (dae_name dae)
      else emit_fail op target (mms_err_name err))"

definition access_failure :: "mms_value option list \<Rightarrow> string option" where
  "access_failure results =
     foldl (\<lambda>failure r. case r of
         Some (MDataAccessError e) \<Rightarrow> if e \<noteq> DATA_ACCESS_ERROR_SUCCESS then Some (dae_name e) else failure
       | _ \<Rightarrow> failure) None results"

definition emit_access_results :: "string \<Rightarrow> string \<Rightarrow> mms_error \<Rightarrow> mms_value option list \<Rightarrow> client \<Rightarrow> client" where
  "emit_access_results op target err results =
     (if err \<noteq> MMS_ERROR_NONE then emit_fail op target (mms_err_name err)
      else (case access_failure results of
          Some failure \<Rightarrow> emit_fail op target failure
        | None \<Rightarrow> emit_ok op target))"

section \<open>Information reports\<close>

definition report_target :: "string option \<Rightarrow> string \<Rightarrow> bool \<Rightarrow> string" where
  "report_target domain_name name is_list =
     snprintf_s 160 ((if is_list then ''list:'' else ''var:'') @
       (case domain_name of None \<Rightarrow> [] | Some d \<Rightarrow> d @ ''/'') @ name)"

text \<open>The lines so far and \<open>g_report_count\<close>.\<close>

definition report_handler ::
  "text_lib \<Rightarrow> string option \<Rightarrow> string \<Rightarrow> mms_value option \<Rightarrow> bool \<Rightarrow> client \<times> int \<Rightarrow> client \<times> int" where
  "report_handler L domain_name name value is_list st =
     (emit_value L ''information-report'' (report_target domain_name name is_list) value (fst st), snd st + 1)"

section \<open>The recurring steps\<close>

definition member_specs :: "(string \<times> string) list" where
  "member_specs = [(''interop'', ''boolean''), (''interop'', ''integer'')]"

definition int_value :: "int \<Rightarrow> mms_value" where
  "int_value i = MInteger (word_of_int i)"

definition read_step :: "connection \<Rightarrow> text_lib \<Rightarrow> string \<Rightarrow> string \<Rightarrow> mms_request \<Rightarrow> client \<Rightarrow> client" where
  "read_step conn L op target r s = (let (a, s) = call conn r s in emit_read L op target (cl_err s) (an_value a) s)"

definition write_step :: "connection \<Rightarrow> string \<Rightarrow> string \<Rightarrow> mms_request \<Rightarrow> client \<Rightarrow> client" where
  "write_step conn op target r s = (let (a, s) = call conn r s in emit_write op target (cl_err s) (an_dae a) s)"

definition names_step :: "connection \<Rightarrow> string \<Rightarrow> mms_request \<Rightarrow> client \<Rightarrow> client" where
  "names_step conn target r s =
     (let (a, s) = call conn r s
      in case an_names a of
           Some names \<Rightarrow>
             if cl_err s \<noteq> MMS_ERROR_NONE then emit_fail ''get-name-list'' target (mms_err_name (cl_err s)) s
             else emit_names target names s
         | None \<Rightarrow> emit_fail ''get-name-list'' target (mms_err_name (cl_err s)) s)"

definition done_step :: "connection \<Rightarrow> string \<Rightarrow> string \<Rightarrow> mms_request \<Rightarrow> client \<Rightarrow> client" where
  "done_step conn op target r s =
     (let (a, s) = call conn r s
      in if cl_err s \<noteq> MMS_ERROR_NONE then emit_fail op target (mms_err_name (cl_err s)) s else emit_ok op target s)"

definition delete_step :: "connection \<Rightarrow> string \<Rightarrow> mms_request \<Rightarrow> client \<Rightarrow> client" where
  "delete_step conn target r s =
     (let (a, s) = call conn r s
      in if an_result a \<and> cl_err s = MMS_ERROR_NONE then emit_ok ''delete-nvl'' target s
         else emit_fail ''delete-nvl'' target (mms_err_name (cl_err s)) s)"

definition write_list_step :: "connection \<Rightarrow> string \<Rightarrow> mms_request \<Rightarrow> client \<Rightarrow> client" where
  "write_list_step conn target r s =
     (let (a, s) = call conn r s in emit_access_results ''write-nvl'' target (cl_err s) (an_results a) s)"

definition member_ref :: "string option \<times> string \<Rightarrow> string" where
  "member_ref v = snprintf_s 160 ((case fst v of None \<Rightarrow> [] | Some d \<Rightarrow> d @ ''/'') @ snd v)"

definition emit_nvl_directory ::
  "string \<Rightarrow> mms_error \<Rightarrow> (string option \<times> string) list option \<Rightarrow> bool \<Rightarrow> client \<Rightarrow> client" where
  "emit_nvl_directory target err specs deletable =
     (case specs of
        None \<Rightarrow> emit_fail ''get-nvl-attrs'' target (mms_err_name err)
      | Some vs \<Rightarrow>
          if err \<noteq> MMS_ERROR_NONE then emit_fail ''get-nvl-attrs'' target (mms_err_name err)
          else emit_text ''get-nvl-attrs'' target
            (''{\"deletable\":'' @ (if deletable then ''true'' else ''false'') @ '',\"variables\":['' @
             commas (map (\<lambda>v. sb_string (Some (member_ref v))) vs) @ '']}''))"

definition directory_step :: "connection \<Rightarrow> string \<Rightarrow> mms_request \<Rightarrow> client \<Rightarrow> client" where
  "directory_step conn target r s =
     (let (a, s) = call conn r s in emit_nvl_directory target (cl_err s) (an_specs a) (cl_flag s) s)"

text \<open>A service's local variables, and its steps one after the other.\<close>

definition no_error :: "client \<Rightarrow> client" where
  "no_error s = s\<lparr>cl_err := MMS_ERROR_NONE\<rparr>"

definition locals :: "client \<Rightarrow> client" where
  "locals s = s\<lparr>cl_err := MMS_ERROR_NONE, cl_flag := False\<rparr>"

definition run_steps :: "(client \<Rightarrow> client) list \<Rightarrow> client \<Rightarrow> client" where
  "run_steps steps s = foldl (\<lambda>s f. f s) s steps"

section \<open>The services without loops of requests\<close>

definition status_step :: "connection \<Rightarrow> string \<Rightarrow> bool \<Rightarrow> client \<Rightarrow> client" where
  "status_step conn target extended s =
     (let (a, s) = call conn (GetServerStatus extended) s;
          (logical, physical) = (case an_status a of None \<Rightarrow> (- 1, - 1) | Some lp \<Rightarrow> lp)
      in if cl_err s \<noteq> MMS_ERROR_NONE then emit_fail ''status'' target (mms_err_name (cl_err s)) s
         else emit_text ''status'' target
           (''{\"logical\":'' @ dec_int logical @ '',\"physical\":'' @ dec_int physical @ ''}'') s)"

definition svc_status :: "connection \<Rightarrow> client \<Rightarrow> client" where
  "svc_status conn = run_steps [locals, status_step conn [] False, status_step conn ''extended'' True]"

definition svc_name_lists :: "connection \<Rightarrow> client \<Rightarrow> client" where
  "svc_name_lists conn = run_steps
     [locals,
      names_step conn ''interop/journals'' (GetDomainJournals ''interop''),
      names_step conn ''vmd/variables'' GetVMDVariableNames,
      no_error,
      names_step conn ''unknown-domain/variables'' (GetDomainVariableNames ''unknown-domain'')]"

definition type_step :: "connection \<Rightarrow> string \<Rightarrow> client \<Rightarrow> client" where
  "type_step conn item s =
     (let target = snprintf_s 64 (''interop/'' @ item);
          (a, s) = call conn (GetVariableAccessAttributes ''interop'' item) (no_error s)
      in case an_type a of
           Some d \<Rightarrow>
             if cl_err s \<noteq> MMS_ERROR_NONE then emit_fail ''get-var-access-attr'' target (mms_err_name (cl_err s)) s
             else emit_line \<lparr>ln_op = ''get-var-access-attr'', ln_target = target, ln_ok = True,
               ln_more = [(''type'', ''\"'' @ spec_type_name (desc_type d) @ ''\"''), (''value'', sb_spec d)]\<rparr> s
         | None \<Rightarrow> emit_fail ''get-var-access-attr'' target (mms_err_name (cl_err s)) s)"

definition svc_type_specs :: "connection \<Rightarrow> client \<Rightarrow> client" where
  "svc_type_specs conn = run_steps [type_step conn ''array-rw'', type_step conn ''structure-rw'']"

definition svc_alternate_access :: "connection \<Rightarrow> text_lib \<Rightarrow> client \<Rightarrow> client" where
  "svc_alternate_access conn L = run_steps
     [locals,
      read_step conn L ''read-array-elements'' ''interop/array[1:4]'' (ReadArrayElements ''interop'' ''array'' 1 3),
      read_step conn L ''read-array-elements'' ''interop/array[2]'' (ReadArrayElements ''interop'' ''array'' 2 0),
      read_step conn L ''read-component'' ''interop/structure-rw$count''
        (ReadVariableComponent ''interop'' ''structure-rw'' ''count''),
      write_step conn ''write-array-elements'' ''interop/array-rw[1]''
        (WriteArrayElements ''interop'' ''array-rw'' 1 0 (int_value 21)),
      write_step conn ''write-array-elements'' ''interop/array-rw[2:4]''
        (WriteArrayElements ''interop'' ''array-rw'' 2 2 (MArray [Some (int_value 33), Some (int_value 44)])),
      write_step conn ''write-component'' ''interop/structure-rw$count''
        (WriteVariableComponent ''interop'' ''structure-rw'' ''count'' (int_value 99)),
      read_step conn L ''read'' ''interop/array-rw'' (ReadVariable ''interop'' ''array-rw''),
      read_step conn L ''read'' ''interop/structure-rw'' (ReadVariable ''interop'' ''structure-rw'')]"

definition svc_named_variable_lists :: "connection \<Rightarrow> text_lib \<Rightarrow> client \<Rightarrow> client" where
  "svc_named_variable_lists conn L = run_steps
     [locals,
      done_step conn ''define-nvl'' ''interop/svclist'' (DefineNamedVariableList (Some ''interop'') ''svclist'' member_specs),
      names_step conn ''interop/nvl'' (GetDomainVariableListNames ''interop''),
      directory_step conn ''interop/svclist'' (ReadNamedVariableListDirectory (Some ''interop'') ''svclist''),
      read_step conn L ''read-nvl'' ''interop/svclist?spec'' (ReadNamedVariableListValues (Some ''interop'') ''svclist'' True),
      write_list_step conn ''interop/svclist''
        (WriteNamedVariableList False (Some ''interop'') ''svclist'' [MBoolean True, int_value 77]),
      read_step conn L ''read-nvl'' ''interop/svclist'' (ReadNamedVariableListValues (Some ''interop'') ''svclist'' False),
      delete_step conn ''interop/svclist'' (DeleteNamedVariableList (Some ''interop'') ''svclist''),
      done_step conn ''define-nvl'' ''vmd/vmdlist'' (DefineNamedVariableList None ''vmdlist'' member_specs),
      directory_step conn ''vmd/vmdlist'' (ReadNamedVariableListDirectory None ''vmdlist''),
      read_step conn L ''read-nvl'' ''vmd/vmdlist'' (ReadNamedVariableListValues None ''vmdlist'' False),
      delete_step conn ''vmd/vmdlist'' (DeleteNamedVariableList None ''vmdlist''),
      directory_step conn ''vmd/interop-report'' (ReadNamedVariableListDirectory None ''interop-report''),
      read_step conn L ''read-nvl'' ''vmd/interop-report'' (ReadNamedVariableListValues None ''interop-report'' False),
      done_step conn ''define-nvl'' ''aa/aalist'' (DefineListAssociationSpecific ''aalist'' member_specs),
      names_step conn ''aa/nvl'' GetListNamesAssociationSpecific,
      directory_step conn ''aa/aalist'' (ReadListDirectoryAssociationSpecific ''aalist''),
      read_step conn L ''read-nvl'' ''aa/aalist'' (ReadListValuesAssociationSpecific ''aalist'' False),
      write_list_step conn ''aa/aalist''
        (WriteNamedVariableList True None ''aalist'' [MBoolean True, int_value (- 123)]),
      delete_step conn ''aa/aalist'' (DeleteListAssociationSpecific ''aalist'')]"

section \<open>Files\<close>

definition dir_entry :: "string \<times> u32 \<times> u64 \<Rightarrow> string" where
  "dir_entry f =
     (case f of (filename, sz, modified) \<Rightarrow>
        ''{\"name\":'' @ sb_string (Some filename) @ '',\"size\":'' @ dec (unat sz) @
        '',\"lastModified\":'' @ dec (unat modified) @ ''}'')"

text \<open>\<open>dir_handler\<close>: the last name and the entries printed.\<close>

definition dir_handler :: "string \<times> string list \<Rightarrow> string \<times> u32 \<times> u64 \<Rightarrow> string \<times> string list" where
  "dir_handler dc f = (snprintf_s 256 (fst f), snd dc @ [dir_entry f])"

partial_function (option) directory_loop ::
  "connection \<Rightarrow> string option \<Rightarrow> string \<Rightarrow> string \<times> string list \<Rightarrow> client \<Rightarrow> (string list \<times> client) option" where
  "directory_loop conn spec after dc s =
     (let (a, s) = call conn (GetFileDirectory spec (if after = [] then None else Some after)) s;
          dc = foldl dir_handler dc (an_files a);
          more_follows = an_result a
      in if more_follows \<and> after = fst dc then Some (snd dc, s)
         else if more_follows \<and> cl_err s = MMS_ERROR_NONE then directory_loop conn spec (snprintf_s 256 (fst dc)) dc s
         else Some (snd dc, s))"

definition file_directory :: "connection \<Rightarrow> string option \<Rightarrow> string \<Rightarrow> client \<Rightarrow> client option" where
  "file_directory conn spec target s =
     map_option (\<lambda>(entries, s').
         (if cl_err s' \<noteq> MMS_ERROR_NONE then emit_fail ''file-directory'' target (mms_err_name (cl_err s')) s'
          else emit_text ''file-directory'' target (''['' @ commas entries @ '']'') s')\<lparr>cl_err := cl_err s\<rparr>)
       (directory_loop conn spec [] ([], []) (no_error s))"

record byte_buf =
  bb_data :: "u8 list"
  bb_cap :: nat

definition file_read_handler :: "byte_buf \<Rightarrow> u8 list \<Rightarrow> byte_buf" where
  "file_read_handler b buffer =
     (let n = length (bb_data b) + length buffer
      in \<lparr>bb_data = bb_data b @ buffer, bb_cap = (if n > bb_cap b then n * 2 else bb_cap b)\<rparr>)"

definition fnv1a64 :: "u8 list \<Rightarrow> u64" where
  "fnv1a64 d = foldl (\<lambda>h b. (h XOR ucast b) * 0x100000001b3) 0xcbf29ce484222325 d"

partial_function (option) file_read_loop ::
  "connection \<Rightarrow> int \<Rightarrow> byte_buf \<Rightarrow> client \<Rightarrow> (byte_buf \<times> client) option" where
  "file_read_loop conn frsm b s =
     (let (a, s) = call conn (FileRead frsm) s;
          b = foldl file_read_handler b (an_data a)
      in if an_result a \<and> cl_err s = MMS_ERROR_NONE then file_read_loop conn frsm b s else Some (b, s))"

definition file_value :: "u32 \<Rightarrow> u64 \<Rightarrow> byte_buf \<Rightarrow> string" where
  "file_value sz modified b =
     ''{\"size\":'' @ dec (unat sz) @ '',\"lastModified\":'' @ dec (unat modified) @
     '',\"length\":'' @ dec (length (bb_data b)) @ '',\"fnv1a\":\"'' @ hex_pad 16 (unat (fnv1a64 (bb_data b))) @ ''\"'' @
     (if length (bb_data b) \<le> 256 then '',\"data\":'' @ sb_hex (bb_data b) else []) @ ''}''"

definition file_read :: "connection \<Rightarrow> string \<Rightarrow> nat \<Rightarrow> string \<Rightarrow> client \<Rightarrow> client option" where
  "file_read conn name position target s =
     (let (a, s1) = call conn (FileOpen name position) (no_error s)
      in if cl_err s1 \<noteq> MMS_ERROR_NONE
         then Some ((emit_fail ''file-read'' target (mms_err_name (cl_err s1)) s1)\<lparr>cl_err := cl_err s\<rparr>)
         else
           let sz = (case an_size a of None \<Rightarrow> 0 | Some n \<Rightarrow> n);
               modified = (case an_modified a of None \<Rightarrow> 0 | Some t \<Rightarrow> t)
           in map_option (\<lambda>(b, s2).
                let s3 = (if cl_err s2 \<noteq> MMS_ERROR_NONE
                          then emit_fail ''file-read'' target (mms_err_name (cl_err s2)) s2
                          else emit_text ''file-read'' target (file_value sz modified b) s2)
                in (done_step conn ''file-close'' target (FileClose (an_frsm a)) (no_error s3))\<lparr>cl_err := cl_err s\<rparr>)
              (file_read_loop conn (an_frsm a) \<lparr>bb_data = [], bb_cap = 0\<rparr> s1))"

text \<open>Steps that may not return, one after the other.\<close>

fun run_options :: "(client \<Rightarrow> client option) list \<Rightarrow> client \<Rightarrow> client option" where
  "run_options [] s = Some s"
| "run_options (f # fs) s = Option.bind (f s) (run_options fs)"

definition svc_files :: "connection \<Rightarrow> client \<Rightarrow> client option" where
  "svc_files conn = run_options
     [Some \<circ> locals,
      file_directory conn None [],
      file_directory conn (Some ''COMTRADE'') ''COMTRADE'',
      file_directory conn (Some (''COMTRADE'' @ [CHR 0x5C])) (''COMTRADE'' @ [CHR 0x5C]),
      file_read conn ''REC01.CFG'' 0 ''REC01.CFG'',
      file_read conn ''REC01.DAT'' 4 ''REC01.DAT@4'',
      file_read conn ''LARGE.BIN'' 0 ''LARGE.BIN'',
      file_read conn ''NOTIME.TXT'' 0 ''NOTIME.TXT'',
      file_read conn ''NO-SUCH.FILE'' 0 ''NO-SUCH.FILE'',
      Some \<circ> done_step conn ''file-delete'' ''DELETE.ME'' (FileDelete ''DELETE.ME''),
      Some \<circ> no_error,
      Some \<circ> done_step conn ''file-rename'' ''RENAME.ME->RENAMED.ME'' (FileRename ''RENAME.ME'' ''RENAMED.ME''),
      Some \<circ> no_error,
      Some \<circ> done_step conn ''obtain-file'' ''REC01.CFG->OBTAINED.CFG'' (ObtainFile ''REC01.CFG'' ''OBTAINED.CFG''),
      file_directory conn None ''after-changes'']"

section \<open>Journals\<close>

definition journal_variable :: "text_lib \<Rightarrow> string option \<times> mms_value option \<Rightarrow> string" where
  "journal_variable L v = ''{\"tag\":'' @ sb_string (fst v) @ '',\"value\":'' @ sb_value L (snd v) @ ''}''"

definition journal_entry_text :: "text_lib \<Rightarrow> journal_read \<Rightarrow> string" where
  "journal_entry_text L je =
     ''{\"id\":'' @ sb_value L (jr_id je) @ '',\"time\":'' @ sb_value L (jr_time je) @ '',\"variables\":['' @
     commas (map (journal_variable L) (jr_variables je)) @ '']}''"

definition emit_journal ::
  "text_lib \<Rightarrow> string \<Rightarrow> mms_error \<Rightarrow> journal_read list option \<Rightarrow> bool \<Rightarrow> client \<Rightarrow> client" where
  "emit_journal L target err entries more_follows =
     (case entries of
        None \<Rightarrow> emit_fail ''read-journal'' target (mms_err_name err)
      | Some es \<Rightarrow>
          if err \<noteq> MMS_ERROR_NONE then emit_fail ''read-journal'' target (mms_err_name err)
          else emit_text ''read-journal'' target
            (''{\"moreFollows\":'' @ (if more_follows then ''true'' else ''false'') @ '',\"entries\":['' @
             commas (map (journal_entry_text L) es) @ '']}''))"

definition journal_step :: "connection \<Rightarrow> text_lib \<Rightarrow> string \<Rightarrow> mms_request \<Rightarrow> client \<Rightarrow> client" where
  "journal_step conn L target r s =
     (let (a, s) = call conn r s in emit_journal L target (cl_err s) (an_journal a) (cl_flag s) s)"

definition binary_time :: "text_lib \<Rightarrow> u64 \<Rightarrow> mms_value" where
  "binary_time L ms = MBinaryTime (bintime_of_ms L ms)"

definition svc_journals :: "connection \<Rightarrow> text_lib \<Rightarrow> client \<Rightarrow> client" where
  "svc_journals conn L =
     (let t1 = 1704067201000; t4 = 1704067204000
      in run_steps
        [locals,
         journal_step conn L ''interop/log1''
           (ReadJournalTimeRange ''interop'' ''log1'' (binary_time L t1) (binary_time L t4)),
         no_error,
         journal_step conn L ''interop/log1@after-2''
           (ReadJournalStartAfter ''interop'' ''log1'' (binary_time L (t1 + 1000)) (MOctetString [2, 0, 0, 0, 0, 0, 0, 0])),
         no_error,
         journal_step conn L ''interop/nolog''
           (ReadJournalTimeRange ''interop'' ''nolog'' (binary_time L t1) (binary_time L t4))])"

section \<open>Waiting for reports\<close>

text \<open>\<open>counts k\<close> is what \<open>report_count\<close> returns the \<open>k\<close>-th time; the result is the number of naps and \<open>quiet\<close>.\<close>

function wait_loop :: "(nat \<Rightarrow> int) \<Rightarrow> int \<Rightarrow> nat \<Rightarrow> nat \<Rightarrow> nat \<Rightarrow> int \<Rightarrow> nat \<times> nat" where
  "wait_loop counts before k waited quiet lst =
     (if waited < 3000 \<and> quiet < 300 then
        let n = counts (Suc k)
        in if n \<noteq> lst then wait_loop counts before (Suc k) (waited + 50) 0 n
           else if n > before then wait_loop counts before (Suc k) (waited + 50) (quiet + 50) lst
           else wait_loop counts before (Suc k) (waited + 50) quiet lst
      else (k, quiet))"
  by pat_completeness auto
termination
  by (relation "measure (\<lambda>(counts, before, k, waited, quiet, lst). 3000 - waited)") auto

declare wait_loop.simps [simp del]

definition wait_reports :: "(nat \<Rightarrow> int) \<Rightarrow> nat \<times> nat" where
  "wait_reports counts = wait_loop counts (counts 0) 0 0 0 (counts 0)"

definition nap_step :: "(nat \<Rightarrow> int) \<Rightarrow> client \<Rightarrow> client" where
  "nap_step counts s = s\<lparr>cl_naps := cl_naps s + fst (wait_reports counts)\<rparr>"

definition svc_reports :: "connection \<Rightarrow> text_lib \<Rightarrow> (nat \<Rightarrow> int) \<Rightarrow> client \<Rightarrow> client" where
  "svc_reports conn L counts = run_steps
     [locals,
      write_step conn ''write'' ''interop/report-trigger'' (WriteVariable ''interop'' ''report-trigger'' (int_value 1)),
      nap_step counts,
      read_step conn L ''read'' ''interop/boolean#after-reports'' (ReadVariable ''interop'' ''boolean'')]"

section \<open>Entry points\<close>

definition run_services :: "connection \<Rightarrow> text_lib \<Rightarrow> (nat \<Rightarrow> int) \<Rightarrow> client \<Rightarrow> client option" where
  "run_services conn L counts = run_options
     [Some \<circ> svc_status conn, Some \<circ> svc_name_lists conn, Some \<circ> svc_type_specs conn,
      Some \<circ> svc_alternate_access conn L, Some \<circ> svc_named_variable_lists conn L, svc_files conn,
      Some \<circ> svc_journals conn L, Some \<circ> svc_reports conn L counts]"

text \<open>\<open>lost1\<close> and \<open>lost2\<close> are the two readings of \<open>lost\<close>, which another thread sets.\<close>

definition run_server_abort :: "connection \<Rightarrow> string \<Rightarrow> int \<Rightarrow> bool \<Rightarrow> bool \<Rightarrow> client \<Rightarrow> client" where
  "run_server_abort conn host port lost1 lost2 s =
     (let (_, s) = call conn (Connect host port) (locals s)
      in if cl_err s \<noteq> MMS_ERROR_NONE then emit_fail ''server-abort'' [] (mms_err_name (cl_err s)) s
         else
           let (_, s) = call conn (WriteVariable ''interop'' ''report-trigger'' (int_value (- 1))) s
           in if lost1 \<and> cl_err s \<noteq> MMS_ERROR_NONE then emit_ok ''server-abort'' [] s
              else if \<not> lost2 then emit_fail ''server-abort'' [] ''connection-not-lost'' s
              else emit_fail ''server-abort'' [] ''write-succeeded'' s)"

definition run_abort :: "connection \<Rightarrow> text_lib \<Rightarrow> string \<Rightarrow> int \<Rightarrow> client \<Rightarrow> client" where
  "run_abort conn L host port s =
     (let (_, s) = call conn (Connect host port) (locals s)
      in if cl_err s \<noteq> MMS_ERROR_NONE then emit_fail ''abort'' [] (mms_err_name (cl_err s)) s
         else done_step conn ''abort'' [] Abort
           (no_error (read_step conn L ''read'' ''interop/boolean#before-abort'' (ReadVariable ''interop'' ''boolean'') s)))"

section \<open>The lines are JSON\<close>

definition json_line :: "svc_line \<Rightarrow> bool" where
  "json_line l \<longleftrightarrow> json_syntax (line_text l)"

lemma json_line:
  assumes "list_all (\<lambda>(k, t). list_all plain k \<and> json_syntax t) (ln_more l)"
  shows "json_line l"
proof -
  have "line_text l = object_text ([(''operation'', sb_string (Some (ln_op l))), (''target'', sb_string (Some (ln_target l))),
      (''ok'', if ln_ok l then ''true'' else ''false'')] @ ln_more l)"
    by (simp add: line_text_def object_text_def commas_Cons case_prod_unfold o_def)
  moreover have "json_syntax \<dots>"
    using assms by (intro json_object_text) (simp add: plain_def json_syntax.text_string json_bool del: if_split)
  ultimately show ?thesis by (simp add: json_line_def)
qed

text \<open>The values in an answer print as JSON.\<close>

definition answer_prints :: "text_lib \<Rightarrow> answer \<Rightarrow> bool" where
  "answer_prints L a \<longleftrightarrow> floats_print L (an_value a) \<and>
     (case an_journal a of
        None \<Rightarrow> True
      | Some js \<Rightarrow> list_all (\<lambda>j. floats_print L (jr_id j) \<and> floats_print L (jr_time j) \<and>
          list_all (\<lambda>v. floats_print L (snd v)) (jr_variables j)) js)"

definition answers_print :: "text_lib \<Rightarrow> connection \<Rightarrow> bool" where
  "answers_print L conn \<longleftrightarrow> (\<forall>h r. answer_prints L (conn h r))"

section \<open>What a step prints\<close>

definition contract_key :: "svc_line \<Rightarrow> string \<times> string" where
  "contract_key l = (ln_op l, ln_target l)"

text \<open>The operation and target of lines, without the closing of files.\<close>

definition keys :: "svc_line list \<Rightarrow> (string \<times> string) list" where
  "keys ls = filter (\<lambda>k. fst k \<noteq> ''file-close'') (map contract_key ls)"

definition added :: "connection \<Rightarrow> text_lib \<Rightarrow> (string \<times> string) list \<Rightarrow> client \<Rightarrow> client \<Rightarrow> bool" where
  "added conn L ks s s' \<longleftrightarrow>
     (\<exists>ls. cl_lines s' = cl_lines s @ ls \<and> keys ls = ks \<and> (answers_print L conn \<longrightarrow> list_all json_line ls))"

lemma added_refl: "cl_lines s' = cl_lines s \<Longrightarrow> added conn L [] s s'"
  by (simp add: added_def keys_def)

lemma added_trans: "added conn L ks s s1 \<Longrightarrow> added conn L ks' s1 s2 \<Longrightarrow> added conn L (ks @ ks') s s2"
  unfolding added_def by (fastforce simp: keys_def)

lemma added_line:
  assumes "cl_lines s' = cl_lines s @ [l]" "keys [l] = ks" "answers_print L conn \<Longrightarrow> json_line l"
  shows "added conn L ks s s'"
  using assms by (auto simp: added_def)

lemma call_lines [simp]: "call conn r s = (a, s') \<Longrightarrow> cl_lines s' = cl_lines s"
  by (auto simp: call_def Let_def)

lemma call_prints: "call conn r s = (a, s') \<Longrightarrow> answers_print L conn \<Longrightarrow> answer_prints L a"
  by (auto simp: call_def Let_def answers_print_def)

lemma key_line:
  "op \<noteq> ''file-close'' \<Longrightarrow> keys [\<lparr>ln_op = op, ln_target = target, ln_ok = ok, ln_more = ms\<rparr>] = [(op, target)]"
  by (simp add: keys_def contract_key_def)

lemma added_fail:
  "op \<noteq> ''file-close'' \<Longrightarrow> cl_lines t = cl_lines s \<Longrightarrow> added conn L [(op, target)] s (emit_fail op target reason t)"
  by (rule added_line [where l = "\<lparr>ln_op = op, ln_target = target, ln_ok = False, ln_more = [(''error'', sb_string (Some reason))]\<rparr>"])
    (auto simp: emit_fail_def emit_line_def key_line plain_def json_syntax.text_string intro!: json_line)

lemma added_ok:
  "op \<noteq> ''file-close'' \<Longrightarrow> cl_lines t = cl_lines s \<Longrightarrow> added conn L [(op, target)] s (emit_ok op target t)"
  by (rule added_line [where l = "\<lparr>ln_op = op, ln_target = target, ln_ok = True, ln_more = []\<rparr>"])
    (auto simp: emit_ok_def emit_line_def key_line intro!: json_line)

lemma added_text:
  "op \<noteq> ''file-close'' \<Longrightarrow> cl_lines t = cl_lines s \<Longrightarrow> (answers_print L conn \<Longrightarrow> json_syntax v) \<Longrightarrow>
   added conn L [(op, target)] s (emit_text op target v t)"
  by (rule added_line [where l = "\<lparr>ln_op = op, ln_target = target, ln_ok = True, ln_more = [(''value'', v)]\<rparr>"])
    (auto simp: emit_text_def emit_line_def key_line plain_def intro!: json_line)

lemma json_names: "json_syntax (sb_names ns)"
  unfolding sb_names_def by (rule json_syntax_array_map) (simp add: json_syntax.text_string)

lemma added_read:
  assumes "op \<noteq> ''file-close''" "cl_lines t = cl_lines s" "answers_print L conn \<Longrightarrow> floats_print L v"
  shows "added conn L [(op, target)] s (emit_read L op target err v t)"
proof -
  have "added conn L [(op, target)] s (emit_value L op target v t)"
    unfolding emit_value_def using assms by (intro added_text) (auto intro: json_syntax_value)
  then show ?thesis
    using added_fail [OF assms(1,2)] by (auto simp: emit_read_def split: option.splits mms_value.splits)
qed

lemma read_step_adds: "op \<noteq> ''file-close'' \<Longrightarrow> added conn L [(op, target)] s (read_step conn L op target r s)"
  by (cases "call conn r s") (auto simp: read_step_def answer_prints_def dest: call_prints intro!: added_read)

lemma write_step_adds: "op \<noteq> ''file-close'' \<Longrightarrow> added conn L [(op, target)] s (write_step conn op target r s)"
  by (cases "call conn r s") (auto simp: write_step_def emit_write_def intro!: added_fail added_ok)

lemma names_step_adds: "added conn L [(''get-name-list'', target)] s (names_step conn target r s)"
proof -
  obtain a t where c: "call conn r s = (a, t)" by force
  have "added conn L [(''get-name-list'', target)] s (emit_names target ns t)" for ns
    by (rule added_line [where l = "\<lparr>ln_op = ''get-name-list'', ln_target = target, ln_ok = True, ln_more = [(''names'', sb_names ns)]\<rparr>"])
      (use c in \<open>auto simp: emit_names_def emit_line_def key_line plain_def json_names intro!: json_line\<close>)
  with c show ?thesis by (auto simp: names_step_def Let_def intro!: added_fail split: option.splits)
qed

lemma done_step_adds: "op \<noteq> ''file-close'' \<Longrightarrow> added conn L [(op, target)] s (done_step conn op target r s)"
  by (cases "call conn r s") (auto simp: done_step_def Let_def intro!: added_fail added_ok)

lemma delete_step_adds: "added conn L [(''delete-nvl'', target)] s (delete_step conn target r s)"
  by (cases "call conn r s") (auto simp: delete_step_def Let_def intro!: added_fail added_ok)

lemma write_list_step_adds: "added conn L [(''write-nvl'', target)] s (write_list_step conn target r s)"
  by (cases "call conn r s")
    (auto simp: write_list_step_def emit_access_results_def intro!: added_fail added_ok split: option.splits)

lemma directory_step_adds: "added conn L [(''get-nvl-attrs'', target)] s (directory_step conn target r s)"
proof -
  obtain a t where c: "call conn r s = (a, t)" by force
  have "json_syntax (object_text [(''deletable'', if d then ''true'' else ''false''),
      (''variables'', ''['' @ commas (map (\<lambda>v. sb_string (Some (member_ref v))) vs) @ '']'')])" for d vs
  proof (rule json_object_text)
    have "json_syntax (''['' @ commas (map (\<lambda>v. sb_string (Some (member_ref v))) vs) @ '']'')"
      by (intro json_syntax_array_map json_syntax.text_string) simp
    then show "list_all (\<lambda>(k, t). list_all plain k \<and> json_syntax t) [(''deletable'', if d then ''true'' else ''false''),
        (''variables'', ''['' @ commas (map (\<lambda>v. sb_string (Some (member_ref v))) vs) @ '']'')]"
      by (simp add: plain_def json_bool del: if_split)
  qed
  then have "added conn L [(''get-nvl-attrs'', target)] s (emit_text ''get-nvl-attrs'' target
      (''{\"deletable\":'' @ (if d then ''true'' else ''false'') @ '',\"variables\":['' @
       commas (map (\<lambda>v. sb_string (Some (member_ref v))) vs) @ '']}'') t)" for d vs
    using c by (intro added_text) (simp_all add: object_text_def)
  with c show ?thesis
    by (cases "an_specs a"; cases "cl_err t = MMS_ERROR_NONE")
      (simp_all add: directory_step_def emit_nvl_directory_def added_fail del: if_split)
qed

lemma status_step_adds: "added conn L [(''status'', target)] s (status_step conn target e s)"
proof -
  obtain a t where c: "call conn (GetServerStatus e) s = (a, t)" by force
  have "json_syntax (object_text [(''logical'', dec_int l), (''physical'', dec_int p)])" for l p
    by (rule json_object_text) (simp add: plain_def json_syntax.number)
  then have "added conn L [(''status'', target)] s (emit_text ''status'' target
      (''{\"logical\":'' @ dec_int l @ '',\"physical\":'' @ dec_int p @ ''}'') t)" for l p
    using c by (intro added_text) (simp_all add: object_text_def)
  with c show ?thesis by (auto simp: status_step_def Let_def intro!: added_fail split: prod.splits)
qed

lemma type_step_adds: "added conn L [(''get-var-access-attr'', snprintf_s 64 (''interop/'' @ item))] s (type_step conn item s)"
proof -
  let ?target = "snprintf_s 64 (''interop/'' @ item)"
  obtain a t where c: "call conn (GetVariableAccessAttributes ''interop'' item) (no_error s) = (a, t)" by force
  then have t: "cl_lines t = cl_lines s" by (simp add: no_error_def)
  have "added conn L [(''get-var-access-attr'', ?target)] s (emit_line \<lparr>ln_op = ''get-var-access-attr'', ln_target = ?target, ln_ok = True,
      ln_more = [(''type'', ''\"'' @ spec_type_name (desc_type d) @ ''\"''), (''value'', sb_spec d)]\<rparr> t)" for d
    by (rule added_line [OF _ key_line])
      (use t json_string_type_name in \<open>auto simp: emit_line_def plain_def json_syntax_spec intro!: json_line json_syntax.text_string\<close>)
  with c t show ?thesis by (auto simp: type_step_def Let_def intro!: added_fail split: option.splits)
qed

lemma journal_step_adds: "added conn L [(''read-journal'', target)] s (journal_step conn L target r s)"
proof -
  obtain a t where c: "call conn r s = (a, t)" by force
  have variable: "json_syntax (journal_variable L v)" if "floats_print L (snd v)" for v
  proof -
    have "json_syntax (object_text [(''tag'', sb_string (fst v)), (''value'', sb_value L (snd v))])"
      using that by (intro json_object_text) (simp add: plain_def json_syntax.text_string json_syntax_value)
    then show ?thesis by (simp add: object_text_def journal_variable_def)
  qed
  have entry: "json_syntax (journal_entry_text L j)"
    if "floats_print L (jr_id j)" "floats_print L (jr_time j)" "list_all (\<lambda>v. floats_print L (snd v)) (jr_variables j)" for j
  proof -
    have "json_syntax (''['' @ commas (map (journal_variable L) (jr_variables j)) @ '']'')"
      using that(3) by (intro json_syntax_array_map) (auto simp: list_all_iff variable)
    then have "json_syntax (object_text [(''id'', sb_value L (jr_id j)), (''time'', sb_value L (jr_time j)),
        (''variables'', ''['' @ commas (map (journal_variable L) (jr_variables j)) @ '']'')])"
      using that(1,2) by (intro json_object_text) (simp add: plain_def json_syntax_value)
    then show ?thesis by (simp add: object_text_def journal_entry_text_def)
  qed
  have "json_syntax (''{\"moreFollows\":'' @ (if m then ''true'' else ''false'') @ '',\"entries\":['' @
      commas (map (journal_entry_text L) es) @ '']}'')" if "answer_prints L a" "an_journal a = Some es" for m es
  proof -
    have "json_syntax (''['' @ commas (map (journal_entry_text L) es) @ '']'')"
      using that by (intro json_syntax_array_map) (auto simp: answer_prints_def list_all_iff intro!: entry)
    then have "json_syntax (object_text [(''moreFollows'', if m then ''true'' else ''false''),
        (''entries'', ''['' @ commas (map (journal_entry_text L) es) @ '']'')])"
      by (intro json_object_text) (simp add: plain_def json_bool del: if_split)
    then show ?thesis by (simp add: object_text_def)
  qed
  then have "added conn L [(''read-journal'', target)] s (emit_text ''read-journal'' target
      (''{\"moreFollows\":'' @ (if m then ''true'' else ''false'') @ '',\"entries\":['' @
       commas (map (journal_entry_text L) es) @ '']}'') t)" if "an_journal a = Some es" for m es
    using c that call_prints [OF c] by (intro added_text) simp_all
  with c show ?thesis
    by (cases "an_journal a"; cases "cl_err t = MMS_ERROR_NONE")
      (simp_all add: journal_step_def emit_journal_def added_fail del: if_split)
qed

section \<open>What the file services print\<close>

lemma call_calls: "call conn r s = (a, s') \<Longrightarrow> cl_calls s' = cl_calls s @ [r] \<and> a = conn (cl_calls s) r"
  by (auto simp: call_def Let_def)

lemma json_dir_entry: "json_syntax (dir_entry f)"
proof (cases f)
  case (fields name sz modified)
  have "json_syntax (object_text [(''name'', sb_string (Some name)), (''size'', dec (unat sz)),
      (''lastModified'', dec (unat modified))])"
    by (rule json_object_text) (simp add: plain_def json_syntax.text_string json_syntax.number)
  then show ?thesis by (simp add: fields dir_entry_def object_text_def)
qed

lemma dir_handlers: "foldl dir_handler dc fs = (foldl (\<lambda>l f. snprintf_s 256 (fst f)) (fst dc) fs, snd dc @ map dir_entry fs)"
  by (induction fs arbitrary: dc) (simp_all add: dir_handler_def)

lemma directory_loop_lines:
  assumes "directory_loop conn spec after dc s = Some y"
  shows "list_all json_syntax (snd dc) \<longrightarrow> cl_lines (snd y) = cl_lines s \<and> list_all json_syntax (fst y)"
proof (rule directory_loop.raw_induct [where P = "\<lambda>conn spec after dc s y.
    list_all json_syntax (snd dc) \<longrightarrow> cl_lines (snd y) = cl_lines s \<and> list_all json_syntax (fst y)", OF _ assms])
  fix loop :: "connection \<Rightarrow> string option \<Rightarrow> string \<Rightarrow> string \<times> string list \<Rightarrow> client \<Rightarrow> (string list \<times> client) option"
  fix conn spec after dc s y
  assume IH: "\<And>conn spec after dc s y. loop conn spec after dc s = Some y \<Longrightarrow>
      list_all json_syntax (snd dc) \<longrightarrow> cl_lines (snd y) = cl_lines s \<and> list_all json_syntax (fst y)"
    and body: "(let (a, s) = call conn (GetFileDirectory spec (if after = [] then None else Some after)) s;
          dc = foldl dir_handler dc (an_files a); more_follows = an_result a
      in if more_follows \<and> after = fst dc then Some (snd dc, s)
         else if more_follows \<and> cl_err s = MMS_ERROR_NONE then loop conn spec (snprintf_s 256 (fst dc)) dc s
         else Some (snd dc, s)) = Some y"
  obtain a t where c: "call conn (GetFileDirectory spec (if after = [] then None else Some after)) s = (a, t)" by force
  let ?dc = "foldl dir_handler dc (an_files a)"
  have "list_all json_syntax (snd dc) \<Longrightarrow> list_all json_syntax (snd ?dc)"
    by (auto simp: dir_handlers list_all_iff json_dir_entry)
  then show "list_all json_syntax (snd dc) \<longrightarrow> cl_lines (snd y) = cl_lines s \<and> list_all json_syntax (fst y)"
    using body c call_lines [OF c] IH [of conn spec "snprintf_s 256 (fst ?dc)" ?dc t y] by (auto simp: Let_def split: if_splits)
qed

lemma file_directory_adds:
  assumes "file_directory conn spec target s = Some s'"
  shows "added conn L [(''file-directory'', target)] s s'"
proof -
  from assms obtain es t where t: "directory_loop conn spec [] ([], []) (no_error s) = Some (es, t)"
    "s' = (if cl_err t \<noteq> MMS_ERROR_NONE then emit_fail ''file-directory'' target (mms_err_name (cl_err t)) t
          else emit_text ''file-directory'' target (''['' @ commas es @ '']'') t)\<lparr>cl_err := cl_err s\<rparr>"
    by (auto simp: file_directory_def)
  have l: "cl_lines t = cl_lines s" "list_all json_syntax es"
    using directory_loop_lines [OF t(1)] by (simp_all add: no_error_def)
  have "json_syntax (''['' @ commas es @ '']'')" using l(2) by (intro json_syntax.array) (simp add: list_all_iff)
  then have "added conn L [(''file-directory'', target)] s (emit_text ''file-directory'' target (''['' @ commas es @ '']'') t)"
    using l by (intro added_text) simp_all
  moreover have "added conn L [(''file-directory'', target)] s (emit_fail ''file-directory'' target (mms_err_name (cl_err t)) t)"
    using l by (intro added_fail) simp_all
  ultimately show ?thesis unfolding t(2) added_def by (simp split: if_splits)
qed

lemma file_read_loop_lines:
  assumes "file_read_loop conn frsm b s = Some y"
  shows "cl_lines (snd y) = cl_lines s"
proof (rule file_read_loop.raw_induct [where P = "\<lambda>conn frsm b s y. cl_lines (snd y) = cl_lines s", OF _ assms])
  fix loop :: "connection \<Rightarrow> int \<Rightarrow> byte_buf \<Rightarrow> client \<Rightarrow> (byte_buf \<times> client) option"
  fix conn frsm b s y
  assume IH: "\<And>conn frsm b s y. loop conn frsm b s = Some y \<Longrightarrow> cl_lines (snd y) = cl_lines s"
    and body: "(let (a, s) = call conn (FileRead frsm) s; b = foldl file_read_handler b (an_data a)
      in if an_result a \<and> cl_err s = MMS_ERROR_NONE then loop conn frsm b s else Some (b, s)) = Some y"
  obtain a t where c: "call conn (FileRead frsm) s = (a, t)" by force
  with body IH [of conn frsm _ t y] show "cl_lines (snd y) = cl_lines s"
    by (auto simp: Let_def split: if_splits)
qed

lemma json_file_value: "json_syntax (file_value sz modified b)"
proof -
  have "json_string (''\"'' @ hex_pad 16 (unat (fnv1a64 (bb_data b))) @ ''\"'')" by (intro json_string_plain plain_hex_pad)
  then have "json_syntax (object_text ([(''size'', dec (unat sz)), (''lastModified'', dec (unat modified)),
      (''length'', dec (length (bb_data b))), (''fnv1a'', ''\"'' @ hex_pad 16 (unat (fnv1a64 (bb_data b))) @ ''\"'')] @
      (if length (bb_data b) \<le> 256 then [(''data'', sb_hex (bb_data b))] else [])))"
    by (intro json_object_text) (simp add: plain_def json_syntax.number json_syntax.text_string)
  then show ?thesis by (cases "length (bb_data b) \<le> 256") (simp_all add: object_text_def file_value_def commas_Cons)
qed

lemma file_close_adds: "added conn L [] s (done_step conn ''file-close'' target r s)"
proof -
  obtain a t where c: "call conn r s = (a, t)" by force
  have "added conn L [] s (emit_fail ''file-close'' target reason t)" for reason
    by (rule added_line [where l = "\<lparr>ln_op = ''file-close'', ln_target = target, ln_ok = False, ln_more = [(''error'', sb_string (Some reason))]\<rparr>"])
      (use c in \<open>auto simp: emit_fail_def emit_line_def keys_def contract_key_def plain_def json_syntax.text_string intro!: json_line\<close>)
  moreover have "added conn L [] s (emit_ok ''file-close'' target t)"
    by (rule added_line [where l = "\<lparr>ln_op = ''file-close'', ln_target = target, ln_ok = True, ln_more = []\<rparr>"])
      (use c in \<open>auto simp: emit_ok_def emit_line_def keys_def contract_key_def intro!: json_line\<close>)
  ultimately show ?thesis using c by (simp add: done_step_def Let_def)
qed

lemma added_same_lines: "added conn L ks s t \<Longrightarrow> cl_lines t' = cl_lines t \<Longrightarrow> added conn L ks s t'"
  by (simp add: added_def)

lemma file_read_adds:
  assumes "file_read conn name position target s = Some s'"
  shows "added conn L [(''file-read'', target)] s s'"
proof -
  obtain a s1 where c: "call conn (FileOpen name position) (no_error s) = (a, s1)" by force
  then have s1: "cl_lines s1 = cl_lines s" by (simp add: no_error_def)
  show ?thesis
  proof (cases "cl_err s1 = MMS_ERROR_NONE")
    case False
    with assms c have "s' = (emit_fail ''file-read'' target (mms_err_name (cl_err s1)) s1)\<lparr>cl_err := cl_err s\<rparr>"
      by (simp add: file_read_def)
    with s1 show ?thesis by (auto intro: added_same_lines [OF added_fail])
  next
    case True
    with assms c obtain b s2 sz modified where l: "file_read_loop conn (an_frsm a) \<lparr>bb_data = [], bb_cap = 0\<rparr> s1 = Some (b, s2)"
      "s' = (done_step conn ''file-close'' target (FileClose (an_frsm a))
         (no_error (if cl_err s2 \<noteq> MMS_ERROR_NONE then emit_fail ''file-read'' target (mms_err_name (cl_err s2)) s2
            else emit_text ''file-read'' target (file_value sz modified b) s2)))\<lparr>cl_err := cl_err s\<rparr>"
      by (auto simp: file_read_def Let_def)
    let ?s3 = "if cl_err s2 \<noteq> MMS_ERROR_NONE then emit_fail ''file-read'' target (mms_err_name (cl_err s2)) s2
            else emit_text ''file-read'' target (file_value sz modified b) s2"
    have "cl_lines s2 = cl_lines s" using file_read_loop_lines [OF l(1)] s1 by simp
    then have "added conn L [(''file-read'', target)] s ?s3"
      by (auto intro!: added_fail added_text json_file_value)
    then have "added conn L [(''file-read'', target)] s (no_error ?s3)"
      by (rule added_same_lines) (simp add: no_error_def)
    from added_trans [OF this file_close_adds [of conn L "no_error ?s3" target "FileClose (an_frsm a)"]]
    have "added conn L [(''file-read'', target)] s (done_step conn ''file-close'' target (FileClose (an_frsm a)) (no_error ?s3))"
      by simp
    then show ?thesis unfolding l(2) by (rule added_same_lines) simp
  qed
qed

section \<open>The output contract\<close>

lemma added_locals: "added conn L [] s (locals s)" "added conn L [] s (no_error s)" "added conn L [] s (nap_step counts s)"
  by (auto simp: locals_def no_error_def nap_step_def intro!: added_refl)

lemma run_steps_adds:
  "list_all2 (\<lambda>f k. \<forall>s. added conn L k s (f s)) fs ks \<Longrightarrow> added conn L (concat ks) s (run_steps fs s)"
proof (induction arbitrary: s rule: list_all2_induct)
  case Nil
  then show ?case by (simp add: run_steps_def added_refl)
next
  case (Cons f fs k ks)
  then have "added conn L k s (f s)" "added conn L (concat ks) (f s) (run_steps fs (f s))" by simp_all
  from added_trans [OF this] show ?case by (simp add: run_steps_def)
qed

lemma run_options_adds:
  "list_all2 (\<lambda>f k. \<forall>s s'. f s = Some s' \<longrightarrow> added conn L k s s') fs ks \<Longrightarrow> run_options fs s = Some s' \<Longrightarrow>
   added conn L (concat ks) s s'"
proof (induction arbitrary: s rule: list_all2_induct)
  case Nil
  then show ?case by (simp add: added_refl)
next
  case (Cons f fs k ks)
  from Cons(4) obtain t where t: "f s = Some t" "run_options fs t = Some s'" by (auto simp: bind_eq_Some_conv)
  with Cons(1) have "added conn L k s t" by blast
  from added_trans [OF this Cons(3) [OF t(2)]] show ?case by simp
qed

lemmas step_adds =
  added_locals read_step_adds write_step_adds names_step_adds done_step_adds delete_step_adds
  write_list_step_adds directory_step_adds status_step_adds journal_step_adds

definition contract :: "(string \<times> string) list" where
  "contract = [(''status'', []), (''status'', ''extended''),
     (''get-name-list'', ''interop/journals''), (''get-name-list'', ''vmd/variables''),
     (''get-name-list'', ''unknown-domain/variables''),
     (''get-var-access-attr'', ''interop/array-rw''), (''get-var-access-attr'', ''interop/structure-rw''),
     (''read-array-elements'', ''interop/array[1:4]''), (''read-array-elements'', ''interop/array[2]''),
     (''read-component'', ''interop/structure-rw$count''),
     (''write-array-elements'', ''interop/array-rw[1]''), (''write-array-elements'', ''interop/array-rw[2:4]''),
     (''write-component'', ''interop/structure-rw$count''),
     (''read'', ''interop/array-rw''), (''read'', ''interop/structure-rw''),
     (''define-nvl'', ''interop/svclist''), (''get-name-list'', ''interop/nvl''),
     (''get-nvl-attrs'', ''interop/svclist''), (''read-nvl'', ''interop/svclist?spec''),
     (''write-nvl'', ''interop/svclist''), (''read-nvl'', ''interop/svclist''), (''delete-nvl'', ''interop/svclist''),
     (''define-nvl'', ''vmd/vmdlist''), (''get-nvl-attrs'', ''vmd/vmdlist''), (''read-nvl'', ''vmd/vmdlist''),
     (''delete-nvl'', ''vmd/vmdlist''), (''get-nvl-attrs'', ''vmd/interop-report''), (''read-nvl'', ''vmd/interop-report''),
     (''define-nvl'', ''aa/aalist''), (''get-name-list'', ''aa/nvl''), (''get-nvl-attrs'', ''aa/aalist''),
     (''read-nvl'', ''aa/aalist''), (''write-nvl'', ''aa/aalist''), (''delete-nvl'', ''aa/aalist''),
     (''file-directory'', []), (''file-directory'', ''COMTRADE''), (''file-directory'', ''COMTRADE'' @ [CHR 0x5C]),
     (''file-read'', ''REC01.CFG''), (''file-read'', ''REC01.DAT@4''), (''file-read'', ''LARGE.BIN''),
     (''file-read'', ''NOTIME.TXT''), (''file-read'', ''NO-SUCH.FILE''),
     (''file-delete'', ''DELETE.ME''), (''file-rename'', ''RENAME.ME->RENAMED.ME''),
     (''obtain-file'', ''REC01.CFG->OBTAINED.CFG''), (''file-directory'', ''after-changes''),
     (''read-journal'', ''interop/log1''), (''read-journal'', ''interop/log1@after-2''), (''read-journal'', ''interop/nolog''),
     (''write'', ''interop/report-trigger''), (''read'', ''interop/boolean#after-reports'')]"

lemma svc_status_adds: "added conn L (take 2 contract) s (svc_status conn s)"
proof -
  have "added conn L (concat [[], [(''status'', [])], [(''status'', ''extended'')]]) s (svc_status conn s)"
    unfolding svc_status_def by (rule run_steps_adds) (simp add: step_adds)
  then show ?thesis by (simp add: contract_def)
qed

lemma svc_name_lists_adds: "added conn L (take 3 (drop 2 contract)) s (svc_name_lists conn s)"
proof -
  have "added conn L (concat [[], [(''get-name-list'', ''interop/journals'')], [(''get-name-list'', ''vmd/variables'')], [],
      [(''get-name-list'', ''unknown-domain/variables'')]]) s (svc_name_lists conn s)"
    unfolding svc_name_lists_def by (rule run_steps_adds) (simp add: step_adds)
  then show ?thesis by (simp add: contract_def)
qed

lemma svc_type_specs_adds: "added conn L (take 2 (drop 5 contract)) s (svc_type_specs conn s)"
proof -
  have "added conn L (concat [[(''get-var-access-attr'', snprintf_s 64 (''interop/'' @ ''array-rw''))],
      [(''get-var-access-attr'', snprintf_s 64 (''interop/'' @ ''structure-rw''))]]) s (svc_type_specs conn s)"
    unfolding svc_type_specs_def by (rule run_steps_adds) (simp only: list_all2_Cons list_all2_Nil type_step_adds simp_thms)
  then show ?thesis by (simp add: contract_def)
qed

lemma svc_alternate_access_adds: "added conn L (take 8 (drop 7 contract)) s (svc_alternate_access conn L s)"
proof -
  have "added conn L (concat ([] # map (\<lambda>k. [k]) (take 8 (drop 7 contract)))) s (svc_alternate_access conn L s)"
    unfolding svc_alternate_access_def by (rule run_steps_adds) (simp add: contract_def step_adds)
  then show ?thesis by simp
qed

lemma svc_named_variable_lists_adds: "added conn L (take 19 (drop 15 contract)) s (svc_named_variable_lists conn L s)"
proof -
  have "added conn L (concat ([] # map (\<lambda>k. [k]) (take 19 (drop 15 contract)))) s (svc_named_variable_lists conn L s)"
    unfolding svc_named_variable_lists_def by (rule run_steps_adds) (simp add: contract_def step_adds)
  then show ?thesis by simp
qed

lemma svc_journals_adds: "added conn L (take 3 (drop 46 contract)) s (svc_journals conn L s)"
proof -
  have "added conn L (concat [[], [(''read-journal'', ''interop/log1'')], [], [(''read-journal'', ''interop/log1@after-2'')], [],
      [(''read-journal'', ''interop/nolog'')]]) s (svc_journals conn L s)"
    unfolding svc_journals_def Let_def by (rule run_steps_adds) (simp add: step_adds)
  then show ?thesis by (simp add: contract_def)
qed

lemma svc_reports_adds: "added conn L (drop 49 contract) s (svc_reports conn L counts s)"
proof -
  have "added conn L (concat [[], [(''write'', ''interop/report-trigger'')], [], [(''read'', ''interop/boolean#after-reports'')]]) s
      (svc_reports conn L counts s)"
    unfolding svc_reports_def by (rule run_steps_adds) (simp add: step_adds)
  then show ?thesis by (simp add: contract_def)
qed

lemma svc_files_adds:
  assumes "svc_files conn s = Some s'"
  shows "added conn L (take 12 (drop 34 contract)) s s'"
proof -
  let ?k = "\<lambda>op target. [(op, target) :: string \<times> string]"
  have "added conn L (concat [[], ?k ''file-directory'' [], ?k ''file-directory'' ''COMTRADE'', ?k ''file-directory'' (''COMTRADE'' @ [CHR 0x5C]),
      ?k ''file-read'' ''REC01.CFG'', ?k ''file-read'' ''REC01.DAT@4'', ?k ''file-read'' ''LARGE.BIN'', ?k ''file-read'' ''NOTIME.TXT'',
      ?k ''file-read'' ''NO-SUCH.FILE'', ?k ''file-delete'' ''DELETE.ME'', [], ?k ''file-rename'' ''RENAME.ME->RENAMED.ME'', [],
      ?k ''obtain-file'' ''REC01.CFG->OBTAINED.CFG'', ?k ''file-directory'' ''after-changes'']) s s'"
    by (rule run_options_adds [OF _ assms [unfolded svc_files_def]])
      (auto simp: step_adds intro: file_directory_adds file_read_adds)
  then show ?thesis by (simp add: contract_def)
qed

lemma run_services_adds:
  assumes "run_services conn L counts s = Some s'"
  shows "added conn L contract s s'"
proof -
  have "added conn L (concat [take 2 contract, take 3 (drop 2 contract), take 2 (drop 5 contract), take 8 (drop 7 contract),
      take 19 (drop 15 contract), take 12 (drop 34 contract), take 3 (drop 46 contract), drop 49 contract]) s s'"
    by (rule run_options_adds [OF _ assms [unfolded run_services_def]])
      (auto simp: svc_status_adds svc_name_lists_adds svc_type_specs_adds svc_alternate_access_adds
        svc_named_variable_lists_adds svc_journals_adds svc_reports_adds intro: svc_files_adds)
  moreover have "concat [take 2 contract, take 3 (drop 2 contract), take 2 (drop 5 contract), take 8 (drop 7 contract),
      take 19 (drop 15 contract), take 12 (drop 34 contract), take 3 (drop 46 contract), drop 49 contract] = contract"
    by (simp add: contract_def)
  ultimately show ?thesis by simp
qed

text \<open>The client keeps its output contract. Whatever the server answers, a run that returns has
  added one line for each of the 51 operations of the sequence, with its operation and target and in
  that order; the only other lines are those that close a file.\<close>

theorem services_contract:
  assumes "run_services conn L counts s = Some s'"
  shows "\<exists>ls. cl_lines s' = cl_lines s @ ls \<and> length contract = 51 \<and>
    filter (\<lambda>k. fst k \<noteq> ''file-close'') (map (\<lambda>l. (ln_op l, ln_target l)) ls) = contract"
proof -
  have key: "contract_key = (\<lambda>l. (ln_op l, ln_target l))" by (simp add: fun_eq_iff contract_key_def)
  have "length contract = 51" by (simp add: contract_def)
  with run_services_adds [OF assms] show ?thesis unfolding added_def keys_def key by blast
qed

text \<open>Every line is JSON. When no value the server sends holds a float that prints as no number, each
  line a run prints is a JSON text by the grammar of RFC 8259, and has no control character that
  would end it early, whatever names, tags and texts the server sends.\<close>

theorem services_json:
  assumes "run_services conn L counts s = Some s'" "answers_print L conn"
  shows "\<exists>ls. cl_lines s' = cl_lines s @ ls \<and>
    list_all (\<lambda>l. json_syntax (line_text l) \<and> list_all (\<lambda>c. 0x20 \<le> code c) (line_text l)) ls"
proof -
  obtain ls where "cl_lines s' = cl_lines s @ ls" "list_all json_line ls"
    using run_services_adds [OF assms(1)] assms(2) by (auto simp: added_def)
  then show ?thesis
    using json_syntax_one_line by (intro exI [of _ ls]) (fastforce simp: json_line_def list_all_iff)
qed

section \<open>Returning\<close>

text \<open>A server that has said for the last time that more follows.\<close>

definition stops_after :: "nat \<Rightarrow> connection \<Rightarrow> bool" where
  "stops_after N conn \<longleftrightarrow> (\<forall>h r. N \<le> length h \<longrightarrow> \<not> an_result (conn h r))"

text \<open>
  The interface of the loops that repeat a request while more follows: one round makes the request,
  and unless it was the last one the loop goes on from where the answer leads.
\<close>

locale request_loop =
  fixes conn :: connection
    and loop :: "'x \<Rightarrow> client \<Rightarrow> 'y option"
    and request :: "'x \<Rightarrow> mms_request"
    and continue :: "'x \<Rightarrow> answer \<Rightarrow> 'x"
  assumes last_round: "call conn (request x) s = (a, t) \<Longrightarrow> \<not> an_result a \<Longrightarrow> loop x s \<noteq> None"
    and next_round: "call conn (request x) s = (a, t) \<Longrightarrow> loop (continue x a) t \<noteq> None \<Longrightarrow> loop x s \<noteq> None"
begin

lemma returns:
  assumes "stops_after N conn"
  shows "loop x s \<noteq> None"
proof (induction "N - length (cl_calls s)" arbitrary: x s rule: less_induct)
  case less
  obtain a t where c: "call conn (request x) s = (a, t)" by force
  have t: "cl_calls t = cl_calls s @ [request x]" "a = conn (cl_calls s) (request x)" using call_calls [OF c] by simp_all
  show ?case
  proof (cases "an_result a")
    case False
    with c show ?thesis by (rule last_round)
  next
    case True
    with t assms have "length (cl_calls s) < N" unfolding stops_after_def by (metis not_le)
    with t have "N - length (cl_calls t) < N - length (cl_calls s)" by simp
    then have "loop (continue x a) t \<noteq> None" by (rule less)
    with c show ?thesis by (rule next_round)
  qed
qed

end

definition directory_request :: "string option \<Rightarrow> string \<times> string \<times> string list \<Rightarrow> mms_request" where
  "directory_request spec x = GetFileDirectory spec (if fst x = [] then None else Some (fst x))"

definition directory_continue :: "string \<times> string \<times> string list \<Rightarrow> answer \<Rightarrow> string \<times> string \<times> string list" where
  "directory_continue x a = (let dc = foldl dir_handler (snd x) (an_files a) in (snprintf_s 256 (fst dc), dc))"

interpretation listing: request_loop conn "\<lambda>x. directory_loop conn spec (fst x) (snd x)" "directory_request spec" directory_continue
  by unfold_locales
    (subst directory_loop.simps, auto simp: directory_request_def directory_continue_def Let_def)+

interpretation transfer: request_loop conn "\<lambda>b. file_read_loop conn frsm b" "\<lambda>_. FileRead frsm"
    "\<lambda>b a. foldl file_read_handler b (an_data a)"
  by unfold_locales (subst file_read_loop.simps, auto simp: Let_def)+

lemma run_options_returns: "(\<And>f s. f \<in> set fs \<Longrightarrow> \<exists>s'. f s = Some s') \<Longrightarrow> \<exists>s'. run_options fs s = Some s'"
proof (induction fs arbitrary: s)
  case (Cons f fs)
  obtain t where "f s = Some t" using Cons.prems [of f s] by auto
  with Cons show ?case by simp
qed simp

lemma svc_files_returns:
  assumes "stops_after N conn"
  shows "\<exists>s'. svc_files conn s = Some s'"
proof -
  have d: "\<exists>s'. file_directory conn spec target s = Some s'" for spec target s
    using listing.returns [OF assms, of spec "([], [], [])" "no_error s"] by (auto simp: file_directory_def)
  have r: "\<exists>s'. file_read conn name position target s = Some s'" for name position target s
  proof -
    obtain a t where "call conn (FileOpen name position) (no_error s) = (a, t)" by force
    then show ?thesis
      using transfer.returns [OF assms, of "an_frsm a" "\<lparr>bb_data = [], bb_cap = 0\<rparr>" t]
      by (auto simp: file_read_def Let_def)
  qed
  show ?thesis unfolding svc_files_def by (rule run_options_returns) (auto simp: d r)
qed

text \<open>The sequence ends. If from some number of requests on the server no longer says that more
  follows, no listing or transfer of a file goes on for ever and all services run to the end.\<close>

theorem services_return:
  assumes "stops_after N conn"
  shows "\<exists>s'. run_services conn L counts s = Some s'"
  unfolding run_services_def by (rule run_options_returns) (auto simp: svc_files_returns [OF assms])

section \<open>The wait for reports\<close>

lemma wait_loop_inv:
  "wait_loop counts before k waited quiet lst = (k', quiet') \<Longrightarrow>
   waited = 50 * k \<Longrightarrow> k \<le> 60 \<Longrightarrow> lst = counts k \<Longrightarrow> quiet = 50 * q \<Longrightarrow> q \<le> 6 \<Longrightarrow> q \<le> k \<Longrightarrow>
   (\<forall>i \<le> q. counts (k - i) = counts k) \<Longrightarrow> (0 < q \<longrightarrow> before < counts k) \<Longrightarrow>
   k' \<le> 60 \<and> (k' < 60 \<longrightarrow> 6 \<le> k' \<and> quiet' = 300 \<and> before < counts k' \<and> (\<forall>i \<le> 6. counts (k' - i) = counts k'))"
proof (induction counts before k waited quiet lst arbitrary: q rule: wait_loop.induct)
  case (1 counts before k waited quiet lst)
  show ?case
  proof (cases "waited < 3000 \<and> quiet < 300")
    case False
    with "1.prems"(1) have "k' = k" "quiet' = quiet"
      by (simp_all only: wait_loop.simps [of counts before k waited quiet lst] if_False prod.inject)
    with False "1.prems" show ?thesis by (auto simp: not_less)
  next
    case go: True
    then have k: "Suc k \<le> 60" "q < 6" using "1.prems"(2,5) by simp_all
    show ?thesis
    proof (cases "counts (Suc k) = lst")
      case False
      with go "1.prems"(1) have "wait_loop counts before (Suc k) (waited + 50) 0 (counts (Suc k)) = (k', quiet')"
        by (simp add: wait_loop.simps [of counts before k] Let_def)
      from "1.IH"(1) [OF go refl False this, of 0] "1.prems"(2) k(1) show ?thesis by simp
    next
      case same: True
      show ?thesis
      proof (cases "counts (Suc k) > before")
        case True
        with go same "1.prems"(1) have w: "wait_loop counts before (Suc k) (waited + 50) (quiet + 50) lst = (k', quiet')"
          by (simp add: wait_loop.simps [of counts before k] Let_def)
        have "\<forall>i \<le> Suc q. counts (Suc k - i) = counts (Suc k)"
        proof (intro allI impI)
          fix i assume "i \<le> Suc q"
          then show "counts (Suc k - i) = counts (Suc k)"
            using "1.prems"(4,8) same by (cases i) auto
        qed
        with "1.IH"(2) [OF go refl _ True w, of "Suc q"] "1.prems" k same True show ?thesis by simp
      next
        case False
        with go same "1.prems"(1) have w: "wait_loop counts before (Suc k) (waited + 50) quiet lst = (k', quiet')"
          by (simp add: wait_loop.simps [of counts before k] Let_def)
        have "q = 0" using False same "1.prems"(4,9) by simp
        with "1.IH"(3) [OF go refl _ False w, of 0] "1.prems" k same show ?thesis by simp
      qed
    qed
  qed
qed

text \<open>C32: The wait for reports is bounded and not cut short. It takes at most 60 naps of 50 ms. When
  it ends before that, reports have come since the trigger was written, and the number of reports
  was the same at the last seven readings, 300 ms apart; so without any report it takes the full
  three seconds.\<close>

theorem wait_bounded:
  "fst (wait_reports counts) \<le> 60 \<and>
   (60 \<le> fst (wait_reports counts) \<or>
      6 \<le> fst (wait_reports counts) \<and> counts 0 < counts (fst (wait_reports counts)) \<and>
      list_all (\<lambda>i. counts (fst (wait_reports counts) - i) = counts (fst (wait_reports counts))) [0..<7])"
proof -
  obtain k q where w: "wait_loop counts (counts 0) 0 0 0 (counts 0) = (k, q)" by force
  have "k \<le> 60 \<and> (k < 60 \<longrightarrow> 6 \<le> k \<and> q = 300 \<and> counts 0 < counts k \<and> (\<forall>i \<le> 6. counts (k - i) = counts k))"
    by (rule wait_loop_inv [OF w, of 0]) simp_all
  then show ?thesis by (auto simp: wait_reports_def w list_all_iff)
qed

section \<open>Other facts\<close>

text \<open>The buffer of a file never holds more than was allocated.\<close>

lemma file_read_handler_fits: "length (bb_data b) \<le> bb_cap b \<Longrightarrow>
  length (bb_data (file_read_handler b buffer)) \<le> bb_cap (file_read_handler b buffer) \<and>
  bb_data (file_read_handler b buffer) = bb_data b @ buffer"
  by (simp add: file_read_handler_def Let_def)

text \<open>A server that answers every request with an error, and one that answers nothing else.\<close>

definition failing_server :: connection where
  "failing_server h r = \<lparr>an_err = Some SERVICE_OTHER, an_result = False, an_value = None, an_names = None,
     an_specs = None, an_type = None, an_flag = None, an_dae = 3, an_results = [], an_status = None, an_files = [],
     an_frsm = 0, an_size = None, an_modified = None, an_data = [], an_journal = None, an_identity = None\<rparr>"

definition fresh_client :: client where
  "fresh_client = \<lparr>cl_calls = [], cl_err = MMS_ERROR_NONE, cl_flag = False, cl_lines = [], cl_naps = 0\<rparr>"

lemma failing_server_stops: "stops_after 0 failing_server"
  by (simp add: stops_after_def failing_server_def)

theorem services_return_witness:
  "\<exists>s'. run_services failing_server sample_text_lib (\<lambda>_. 0) fresh_client = Some s'"
  by (rule services_return [OF failing_server_stops])

lemma failing_server_run: "\<exists>s'. run_services failing_server sample_text_lib (\<lambda>_. 0) fresh_client = Some s'"
  unfolding run_services_def by (rule run_options_returns) (auto simp: svc_files_returns [OF failing_server_stops])

theorem services_contract_witness:
  "\<exists>s'. run_services failing_server sample_text_lib (\<lambda>_. 0) fresh_client = Some s' \<and>
     filter (\<lambda>k. fst k \<noteq> ''file-close'') (map (\<lambda>l. (ln_op l, ln_target l)) (cl_lines s')) = contract"
proof -
  obtain s' where s': "run_services failing_server sample_text_lib (\<lambda>_. 0) fresh_client = Some s'" using failing_server_run by blast
  with services_contract [OF s'] show ?thesis by (auto simp: fresh_client_def)
qed

theorem services_json_witness:
  "\<exists>s'. run_services failing_server sample_text_lib (\<lambda>_. 0) fresh_client = Some s' \<and>
     list_all (\<lambda>l. json_syntax (line_text l) \<and> list_all (\<lambda>c. 0x20 \<le> code c) (line_text l)) (cl_lines s')"
proof -
  obtain s' where s': "run_services failing_server sample_text_lib (\<lambda>_. 0) fresh_client = Some s'" using failing_server_run by blast
  have "answers_print sample_text_lib failing_server" by (simp add: answers_print_def answer_prints_def failing_server_def)
  from services_json [OF s' this] s' show ?thesis by (auto simp: fresh_client_def)
qed

end
