(* ===== verification/MmsClient.thy ===== *)
theory MmsClient
  imports JsonLines MmsServices OutLine
begin

text \<open>
  The MMS client command \<open>mms_client.c\<close>: four connections, the first with the full sequence of
  operations, \<open>run_services\<close> of \<open>mms_client_services.c\<close> among them. Its own lines are \<open>out_line\<close>s;
  those of the services keep their form. A value that is decoded with an accessor documented for
  another type is \<open>Undefined\<close>; a sequence of services that does not end is None. A run is what the
  main thread does; \<open>client_stdout\<close> weaves its calls of stdio with those of \<open>report_handler\<close>, which
  the connection's thread makes, as the mutex of \<open>emit_line\<close> allows.
\<close>

section \<open>A run\<close>

datatype mms_out = Own out_line | Service svc_line

text \<open>\<open>cl_err\<close> of the client is the local \<open>mmsError\<close>; \<open>mr_reporting\<close>: the report handler has been installed.\<close>

record mms_run =
  mr_client :: client
  mr_out :: "mms_out list"
  mr_reporting :: bool

definition ask_mms :: "connection \<Rightarrow> mms_request \<Rightarrow> mms_run \<Rightarrow> answer \<times> mms_run" where
  "ask_mms conn r s = (let (a, c) = call conn r (mr_client s) in (a, s\<lparr>mr_client := c\<rparr>))"

definition own_line :: "out_line \<Rightarrow> mms_run \<Rightarrow> mms_run" where
  "own_line l s = s\<lparr>mr_out := mr_out s @ [Own l]\<rparr>"

definition mms_err :: "mms_run \<Rightarrow> mms_error" where
  "mms_err s = cl_err (mr_client s)"

definition clear_error :: "mms_run \<Rightarrow> mms_run" where
  "clear_error s = s\<lparr>mr_client := no_error (mr_client s)\<rparr>"

text \<open>A call into the services: \<open>cl_lines\<close> holds what it prints, which is moved to the output.\<close>

definition in_service :: "mms_run \<Rightarrow> client" where
  "in_service s = (mr_client s)\<lparr>cl_lines := []\<rparr>"

definition service_lines :: "client \<Rightarrow> mms_run \<Rightarrow> mms_run" where
  "service_lines c s = s\<lparr>mr_client := c, mr_out := mr_out s @ map Service (cl_lines c)\<rparr>"

section \<open>Lines\<close>

definition jl_ok :: "string \<Rightarrow> mms_run \<Rightarrow> mms_run" where
  "jl_ok op = own_line (ok_line op None [])"

definition jl_ok_target :: "string \<Rightarrow> string \<Rightarrow> mms_run \<Rightarrow> mms_run" where
  "jl_ok_target op target = own_line (ok_line op (Some target) [])"

definition jl_fail :: "string \<Rightarrow> string \<Rightarrow> mms_run \<Rightarrow> mms_run" where
  "jl_fail op error = own_line (error_line op None error)"

definition jl_fail_target :: "string \<Rightarrow> string \<Rightarrow> string \<Rightarrow> mms_run \<Rightarrow> mms_run" where
  "jl_fail_target op target error = own_line (error_line op (Some target) error)"

definition or_empty_text :: "string option \<Rightarrow> string" where
  "or_empty_text t = (case t of None \<Rightarrow> [] | Some t \<Rightarrow> t)"

definition jl_identify :: "string option \<Rightarrow> string option \<Rightarrow> string option \<Rightarrow> mms_run \<Rightarrow> mms_run" where
  "jl_identify vendor model revision = own_line (ok_line ''identify'' None
     [(''value'', object_text [(''vendor'', quoted (or_empty_text vendor)), (''model'', quoted (or_empty_text model)),
        (''revision'', quoted (or_empty_text revision))])])"

definition jl_namelist :: "string option \<Rightarrow> string list \<Rightarrow> mms_run \<Rightarrow> mms_run" where
  "jl_namelist target names = own_line (ok_line ''get-name-list''
     (case target of Some t \<Rightarrow> if t \<noteq> [] then Some t else None | None \<Rightarrow> None)
     [(''names'', bracketed (map quoted names))])"

definition read_line :: "string \<Rightarrow> string \<Rightarrow> out_line" where
  "read_line target text = ok_line ''read'' (Some target) [(''value'', text)]"

definition jl_read_string_text :: "string \<Rightarrow> string" where
  "jl_read_string_text v = concat (map (\<lambda>c. if c = CHR 0x22 \<or> c = CHR 0x5C then [CHR 0x5C, c] else [c]) v)"

definition jl_var_access_attr :: "string \<Rightarrow> string \<Rightarrow> mms_run \<Rightarrow> mms_run" where
  "jl_var_access_attr target type_name =
     own_line (ok_line ''get-var-access-attr'' (Some target) [(''type'', quoted type_name)])"

text \<open>The values the readers print, as texts.\<close>

definition text_bool :: "client_lib \<Rightarrow> mms_value \<Rightarrow> string outcome" where
  "text_bool L v = bind_outcome (MmsValue_getBoolean v) (\<lambda>b. Returns (truth b))"

definition text_int :: "client_lib \<Rightarrow> mms_value \<Rightarrow> string outcome" where
  "text_int L v = bind_outcome (MmsValue_toInt32 L v) (\<lambda>i. Returns (dec_int (sint i)))"

definition text_uint :: "client_lib \<Rightarrow> mms_value \<Rightarrow> string outcome" where
  "text_uint L v = bind_outcome (MmsValue_toUint32 L v) (\<lambda>i. Returns (dec (unat i)))"

definition text_float :: "client_lib \<Rightarrow> mms_value \<Rightarrow> string outcome" where
  "text_float L v = bind_outcome (MmsValue_toFloat L v) (\<lambda>f. Returns (float_g L f))"

definition text_string :: "client_lib \<Rightarrow> mms_value \<Rightarrow> string outcome" where
  "text_string L v = Returns (quoted (jl_read_string_text (or_empty_text (MmsValue_toString v))))"

definition text_bytes :: "client_lib \<Rightarrow> mms_value \<Rightarrow> string outcome" where
  "text_bytes L v = bind_outcome (MmsValue_getOctets v) (\<lambda>bs. Returns (quoted (concat (map (\<lambda>b. hex_pad 2 (unat b)) bs))))"

definition text_bits :: "client_lib \<Rightarrow> mms_value \<Rightarrow> string outcome" where
  "text_bits L v = bind_outcome (MmsValue_getBits v) (\<lambda>bs. Returns (quoted (map (\<lambda>b. if b then CHR ''1'' else CHR ''0'') bs)))"

definition text_utctime :: "client_lib \<Rightarrow> mms_value \<Rightarrow> string outcome" where
  "text_utctime L v = bind_outcome (MmsValue_getUtcTimeInMs L v) (\<lambda>ms. Returns (dec (unat ms)))"

text \<open>\<open>elem ? MmsValue_toInt32(elem) : 0\<close>.\<close>

definition element_int :: "client_lib \<Rightarrow> mms_value option \<Rightarrow> string outcome" where
  "element_int L e = (case e of None \<Rightarrow> Returns ''0'' | Some v \<Rightarrow> text_int L v)"

fun map_outcome :: "('a \<Rightarrow> 'b outcome) \<Rightarrow> 'a list \<Rightarrow> 'b list outcome" where
  "map_outcome f [] = Returns []"
| "map_outcome f (x # xs) = bind_outcome (f x) (\<lambda>y. bind_outcome (map_outcome f xs) (\<lambda>ys. Returns (y # ys)))"

definition text_array_ints :: "client_lib \<Rightarrow> mms_value \<Rightarrow> string outcome" where
  "text_array_ints L v = bind_outcome (MmsValue_elements v) (\<lambda>vs.
     bind_outcome (map_outcome (element_int L) vs) (\<lambda>ts. Returns (bracketed ts)))"

definition text_structure_bool_int :: "client_lib \<Rightarrow> mms_value \<Rightarrow> string outcome" where
  "text_structure_bool_int L v = bind_outcome (MmsValue_elements v) (\<lambda>vs.
     let e0 = (if 0 < length vs then vs ! 0 else None); e1 = (if 1 < length vs then vs ! 1 else None)
     in bind_outcome (case e0 of None \<Rightarrow> Returns ''false'' | Some e \<Rightarrow> text_bool L e) (\<lambda>t0.
        bind_outcome (element_int L e1) (\<lambda>t1. Returns (bracketed [t0, t1]))))"

text \<open>An element of a list of values: only four types have a text.\<close>

fun values_element :: "client_lib \<Rightarrow> mms_value option \<Rightarrow> string" where
  "values_element L (Some (MBoolean b)) = truth b"
| "values_element L (Some (MInteger w)) = dec_int (sint (to_int32 L w))"
| "values_element L (Some (MUnsigned w)) = dec (unat w)"
| "values_element L (Some (MFloat32 f)) = float_g L f"
| "values_element L (Some (MFloat64 d)) = float_g L (f32_of_f64 L d)"
| "values_element L _ = ''null''"

definition jl_values_array :: "client_lib \<Rightarrow> string \<Rightarrow> string \<Rightarrow> mms_value \<Rightarrow> mms_run \<Rightarrow> mms_run outcome" where
  "jl_values_array L op target arr s = bind_outcome (MmsValue_elements arr) (\<lambda>vs.
     Returns (own_line (ok_line op (Some target) [(''values'', bracketed (map (values_element L) vs))]) s))"

section \<open>Errors\<close>

fun mms_error_str :: "mms_error \<Rightarrow> string" where
  "mms_error_str MMS_ERROR_NONE = ''none''"
| "mms_error_str CONNECTION_LOST = ''connection-lost''"
| "mms_error_str SERVICE_TIMEOUT = ''service-timeout''"
| "mms_error_str _ = ''mms-error''"

text \<open>\<open>dae_str\<close> is a copy of \<open>dae_name\<close> of \<open>mms_client_services.c\<close>.\<close>

definition dae_str :: "int \<Rightarrow> string" where
  "dae_str e = dae_name e"

definition check_read_val :: "mms_value option \<Rightarrow> string \<Rightarrow> mms_run \<Rightarrow> mms_value option \<times> mms_run" where
  "check_read_val val target s =
     (case val of
        None \<Rightarrow> (None, jl_fail_target ''read'' target (mms_error_str (mms_err s)) s)
      | Some v \<Rightarrow>
          if mms_err s \<noteq> MMS_ERROR_NONE then (None, jl_fail_target ''read'' target (mms_error_str (mms_err s)) s)
          else (case v of
              MDataAccessError e \<Rightarrow> (None, jl_fail_target ''read'' target (dae_str e) s)
            | _ \<Rightarrow> (Some v, s)))"

definition emit_write_result :: "string \<Rightarrow> int \<Rightarrow> mms_run \<Rightarrow> mms_run" where
  "emit_write_result target dae s =
     (if dae = DATA_ACCESS_ERROR_SUCCESS \<and> mms_err s = MMS_ERROR_NONE then jl_ok_target ''write'' target s
      else if 0 \<le> dae \<and> dae \<le> 11 then jl_fail_target ''write'' target (dae_str dae) s
      else jl_fail_target ''write'' target (mms_error_str (mms_err s)) s)"

fun spec_type_str :: "mms_type \<Rightarrow> string" where
  "spec_type_str MMS_BOOLEAN = ''boolean''"
| "spec_type_str MMS_INTEGER = ''integer''"
| "spec_type_str MMS_UNSIGNED = ''unsigned''"
| "spec_type_str MMS_FLOAT = ''float32''"
| "spec_type_str MMS_VISIBLE_STRING = ''visible-string''"
| "spec_type_str MMS_OCTET_STRING = ''octet-string''"
| "spec_type_str MMS_BIT_STRING = ''bit-string''"
| "spec_type_str MMS_UTC_TIME = ''utc-time''"
| "spec_type_str MMS_ARRAY = ''array''"
| "spec_type_str MMS_STRUCTURE = ''structure''"
| "spec_type_str _ = ''unknown''"

section \<open>Steps\<close>

text \<open>A read of a variable, decoded by \<open>text\<close>.\<close>

definition read_step_of ::
  "connection \<Rightarrow> string \<Rightarrow> (mms_value \<Rightarrow> string outcome) \<Rightarrow> mms_run \<Rightarrow> mms_run outcome" where
  "read_step_of conn item text s =
     (let target = ''interop/'' @ item;
          (a, s) = ask_mms conn (ReadVariable ''interop'' item) s
      in if mms_err s \<noteq> MMS_ERROR_NONE then Returns (jl_fail_target ''read'' target (mms_error_str (mms_err s)) s)
         else (case an_value a of
             None \<Rightarrow> Returns (jl_fail_target ''read'' target (mms_error_str (mms_err s)) s)
           | Some v \<Rightarrow> bind_outcome (text v) (\<lambda>t. Returns (own_line (read_line target t) s))))"

definition write_step_of :: "connection \<Rightarrow> string \<Rightarrow> string \<Rightarrow> mms_value \<Rightarrow> mms_run \<Rightarrow> mms_run outcome" where
  "write_step_of conn item target v s =
     (let (a, s) = ask_mms conn (WriteVariable ''interop'' item v) s in Returns (emit_write_result target (an_dae a) s))"

definition identify_step :: "connection \<Rightarrow> mms_run \<Rightarrow> mms_run outcome" where
  "identify_step conn s =
     (let (a, s) = ask_mms conn Identify s
      in if mms_err s \<noteq> MMS_ERROR_NONE then Returns (jl_fail ''identify'' (mms_error_str (mms_err s)) s)
         else (case an_identity a of
             None \<Rightarrow> Returns (jl_fail ''identify'' (mms_error_str (mms_err s)) s)
           | Some (vendor, model, revision) \<Rightarrow> Returns (jl_identify vendor model revision s)))"

definition domains_step :: "connection \<Rightarrow> mms_run \<Rightarrow> mms_run outcome" where
  "domains_step conn s =
     (let (a, s) = ask_mms conn GetDomainNames s
      in if mms_err s \<noteq> MMS_ERROR_NONE then Returns (jl_fail ''get-name-list'' (mms_error_str (mms_err s)) s)
         else (case an_names a of
             None \<Rightarrow> Returns (jl_fail ''get-name-list'' (mms_error_str (mms_err s)) s)
           | Some names \<Rightarrow> Returns (jl_namelist None names s)))"

definition variables_step :: "connection \<Rightarrow> mms_run \<Rightarrow> mms_run outcome" where
  "variables_step conn s =
     (let (a, s) = ask_mms conn (GetDomainVariableNames ''interop'') s
      in if mms_err s \<noteq> MMS_ERROR_NONE then Returns (jl_fail_target ''get-name-list'' ''interop'' (mms_error_str (mms_err s)) s)
         else (case an_names a of
             None \<Rightarrow> Returns (jl_fail_target ''get-name-list'' ''interop'' (mms_error_str (mms_err s)) s)
           | Some names \<Rightarrow> Returns (jl_namelist (Some ''interop'') names s)))"

definition attributes_step :: "connection \<Rightarrow> mms_run \<Rightarrow> mms_run outcome" where
  "attributes_step conn s =
     (let (a, s) = ask_mms conn (GetVariableAccessAttributes ''interop'' ''boolean'') s
      in if mms_err s \<noteq> MMS_ERROR_NONE then
           Returns (jl_fail_target ''get-var-access-attr'' ''interop/boolean'' (mms_error_str (mms_err s)) s)
         else (case an_type a of
             None \<Rightarrow> Returns (jl_fail_target ''get-var-access-attr'' ''interop/boolean'' (mms_error_str (mms_err s)) s)
           | Some d \<Rightarrow> Returns (jl_var_access_attr ''interop/boolean'' (spec_type_str (desc_type d)) s)))"

text \<open>A read of several values in one request.\<close>

definition values_step :: "connection \<Rightarrow> client_lib \<Rightarrow> string \<Rightarrow> string \<Rightarrow> mms_request \<Rightarrow> mms_run \<Rightarrow> mms_run outcome" where
  "values_step conn L op target r s =
     (let (a, s) = ask_mms conn r s
      in if mms_err s \<noteq> MMS_ERROR_NONE then Returns (jl_fail_target op target (mms_error_str (mms_err s)) s)
         else (case an_value a of
             None \<Rightarrow> Returns (jl_fail_target op target (mms_error_str (mms_err s)) s)
           | Some arr \<Rightarrow> jl_values_array L op target arr s))"

text \<open>\<open>ok\<close> after the loop over the access results; a NULL result is a success.\<close>

definition all_accessed :: "mms_value option list \<Rightarrow> bool" where
  "all_accessed results = list_all (\<lambda>rv. case rv of
     Some (MDataAccessError e) \<Rightarrow> e = DATA_ACCESS_ERROR_SUCCESS | _ \<Rightarrow> True) results"

definition write_multiple_step :: "connection \<Rightarrow> mms_run \<Rightarrow> mms_run outcome" where
  "write_multiple_step conn s =
     (let (a, s) = ask_mms conn (WriteMultipleVariables ''interop'' [''boolean'', ''integer''] [MBoolean False, int_value 0]) s
      in if mms_err s \<noteq> MMS_ERROR_NONE then Returns (jl_fail_target ''write-multiple'' ''interop'' (mms_error_str (mms_err s)) s)
         else if all_accessed (an_results a) then Returns (jl_ok_target ''write-multiple'' ''interop'' s)
         else Returns (jl_fail_target ''write-multiple'' ''interop'' ''partial-failure'' s))"

definition define_nvl_step :: "connection \<Rightarrow> mms_run \<Rightarrow> mms_run outcome" where
  "define_nvl_step conn s =
     (let (_, s) = ask_mms conn (DefineNamedVariableList (Some ''interop'') ''testlist'' member_specs) s
      in if mms_err s \<noteq> MMS_ERROR_NONE then
           Returns (jl_fail_target ''define-nvl'' ''interop/testlist'' (mms_error_str (mms_err s)) s)
         else Returns (jl_ok_target ''define-nvl'' ''interop/testlist'' s))"

definition delete_nvl_step :: "connection \<Rightarrow> mms_run \<Rightarrow> mms_run outcome" where
  "delete_nvl_step conn s =
     (let (a, s) = ask_mms conn (DeleteNamedVariableList (Some ''interop'') ''testlist'') s
      in if mms_err s \<noteq> MMS_ERROR_NONE \<or> \<not> an_result a then
           Returns (jl_fail_target ''delete-nvl'' ''interop/testlist'' (mms_error_str (mms_err s)) s)
         else Returns (jl_ok_target ''delete-nvl'' ''interop/testlist'' s))"

text \<open>A read that is to fail.\<close>

definition negative_read_step :: "connection \<Rightarrow> string \<Rightarrow> string \<Rightarrow> mms_run \<Rightarrow> mms_run outcome" where
  "negative_read_step conn domain_name item s =
     (let target = domain_name @ ''/'' @ item;
          (a, s) = ask_mms conn (ReadVariable domain_name item) s;
          (val, s) = check_read_val (an_value a) target s;
          s = (if val = None then s else jl_ok_target ''read'' target s)
      in Returns (clear_error s))"

section \<open>The sequence\<close>

definition phase_1a_names :: "connection \<Rightarrow> (mms_run \<Rightarrow> mms_run outcome) list" where
  "phase_1a_names conn = [identify_step conn, domains_step conn, variables_step conn]"

definition read_boolean :: "connection \<Rightarrow> client_lib \<Rightarrow> mms_run \<Rightarrow> mms_run outcome" where
  "read_boolean conn L = read_step_of conn ''boolean'' (text_bool L)"

definition phase_1a :: "connection \<Rightarrow> client_lib \<Rightarrow> (mms_run \<Rightarrow> mms_run outcome) list" where
  "phase_1a conn L =
     [read_step_of conn ''integer'' (text_int L),
      read_step_of conn ''float32'' (text_float L),
      write_step_of conn ''float32'' ''interop/float32'' (MFloat32 0x42C60000),
      read_step_of conn ''float32'' (text_float L),
      write_step_of conn ''octet-string'' ''interop/octet-string'' (MOctetString [0xde, 0xad]),
      read_boolean conn L]"

definition phase_1c_scalars :: "connection \<Rightarrow> client_lib \<Rightarrow> (mms_run \<Rightarrow> mms_run outcome) list" where
  "phase_1c_scalars conn L =
     [read_step_of conn ''unsigned'' (text_uint L),
      read_step_of conn ''visible-string'' (text_string L),
      write_step_of conn ''visible-string'' ''interop/visible-string'' (MVisibleString ''hello''),
      read_step_of conn ''visible-string'' (text_string L),
      read_step_of conn ''octet-string'' (text_bytes L),
      read_step_of conn ''bit-string'' (text_bits L),
      read_step_of conn ''utc-time'' (text_utctime L),
      read_step_of conn ''array'' (text_array_ints L),
      read_step_of conn ''structure'' (text_structure_bool_int L)]"

definition phase_1c_model :: "connection \<Rightarrow> client_lib \<Rightarrow> (mms_run \<Rightarrow> mms_run outcome) list" where
  "phase_1c_model conn L =
     [attributes_step conn,
      values_step conn L ''read-multiple'' ''interop'' (ReadMultipleVariables ''interop'' [''boolean'', ''integer'']),
      write_multiple_step conn,
      define_nvl_step conn,
      values_step conn L ''read-nvl'' ''interop/testlist'' (ReadNamedVariableListValues (Some ''interop'') ''testlist'' False),
      delete_nvl_step conn]"

definition phase_1c_negative :: "connection \<Rightarrow> (mms_run \<Rightarrow> mms_run outcome) list" where
  "phase_1c_negative conn =
     [negative_read_step conn ''unknown-domain'' ''boolean'',
      negative_read_step conn ''interop'' ''nonexistent'',
      write_step_of conn ''integer'' ''interop/integer-wrong-type'' (MBoolean True)]"

fun run_checked :: "(mms_run \<Rightarrow> mms_run outcome) list \<Rightarrow> mms_run \<Rightarrow> mms_run outcome" where
  "run_checked [] s = Returns s"
| "run_checked (f # fs) s = bind_outcome (f s) (run_checked fs)"

definition operations :: "connection \<Rightarrow> client_lib \<Rightarrow> bool \<Rightarrow> (mms_run \<Rightarrow> mms_run outcome) list" where
  "operations conn L full_sequence =
     (if full_sequence then
        phase_1a_names conn @ [read_boolean conn L] @ phase_1a conn L @ phase_1c_scalars conn L @ phase_1c_model conn L @
        phase_1c_negative conn
      else [read_boolean conn L])"

definition conclude_step :: "connection \<Rightarrow> mms_run \<Rightarrow> mms_run" where
  "conclude_step conn s =
     (let (_, s) = ask_mms conn Conclude s
      in if mms_err s \<noteq> MMS_ERROR_NONE then jl_fail ''conclude'' (mms_error_str (mms_err s)) s else jl_ok ''conclude'' s)"

definition services_install_report_handler :: "mms_run \<Rightarrow> mms_run" where
  "services_install_report_handler s = s\<lparr>mr_reporting := True\<rparr>"

text \<open>
  \<open>created\<close>: \<open>MmsConnection_create\<close> did not answer NULL. \<open>counts\<close>: the readings of the report
  counter, as in \<open>run_services\<close>. The result is \<open>rc\<close>. What the report handler prints once it is
  installed is added by \<open>client_stdout\<close>.
\<close>

definition run_sequence ::
  "connection \<Rightarrow> client_lib \<Rightarrow> (nat \<Rightarrow> int) \<Rightarrow> bool \<Rightarrow> string \<Rightarrow> int \<Rightarrow> bool \<Rightarrow> mms_run \<Rightarrow> (int \<times> mms_run) outcome option" where
  "run_sequence conn L counts created host port full_sequence s =
     (if \<not> created then Some (Returns (1, s))
      else
        let s = (if full_sequence then services_install_report_handler (clear_error s) else clear_error s);
            (_, s) = ask_mms conn (Connect host port) s
        in if mms_err s \<noteq> MMS_ERROR_NONE then Some (Returns (2, s))
           else (case run_checked (operations conn L full_sequence) s of
               Undefined \<Rightarrow> Some Undefined
             | Returns s \<Rightarrow>
                 if full_sequence then
                   map_option (\<lambda>c. Returns (0, conclude_step conn (clear_error (service_lines c s))))
                     (run_services conn (text_lib.truncate L) counts (in_service s))
                 else Some (Returns (0, conclude_step conn s))))"

section \<open>The program\<close>

record mms_client_opts =
  mo_host :: string
  mo_port :: int

definition mms_client_option :: "mms_client_opts \<Rightarrow> string \<times> string \<Rightarrow> mms_client_opts" where
  "mms_client_option opts a =
     (let opts = (if fst a = ''--host'' then opts\<lparr>mo_host := snd a\<rparr> else opts)
      in if fst a = ''--port'' then opts\<lparr>mo_port := atoi (snd a)\<rparr> else opts)"

text \<open>\<open>for (i = 1; i < argc - 1; i++)\<close>, with \<open>argv[i]\<close> and \<open>argv[i + 1]\<close>.\<close>

definition mms_client_args :: "string list \<Rightarrow> mms_client_opts" where
  "mms_client_args argv = foldl mms_client_option \<lparr>mo_host = ''127.0.0.1'', mo_port = 1102\<rparr> (zip (drop 1 argv) (drop 2 argv))"

definition mms_run_start :: mms_run where
  "mms_run_start = \<lparr>mr_client = \<lparr>cl_calls = [], cl_err = MMS_ERROR_NONE, cl_flag = False, cl_lines = [], cl_naps = 0\<rparr>, mr_out = [],
     mr_reporting = False\<rparr>"

datatype mms_main = Flags string | Finished int mms_run

text \<open>The third and fourth connection.\<close>

definition abort_connections :: "connection \<Rightarrow> client_lib \<Rightarrow> string \<Rightarrow> int \<Rightarrow> bool \<Rightarrow> bool \<Rightarrow> mms_run \<Rightarrow> mms_run" where
  "abort_connections conn L host port lost1 lost2 s =
     (let s = service_lines (run_abort conn (text_lib.truncate L) host port (in_service s)) s
      in service_lines (run_server_abort conn host port lost1 lost2 (in_service s)) s)"

text \<open>
  \<open>created1\<close>, \<open>created2\<close>: whether the first two connections were allocated; \<open>lost1\<close>, \<open>lost2\<close>: the
  readings of \<open>lost\<close> in \<open>run_server_abort\<close>.
\<close>

definition mms_client_main ::
  "string option \<Rightarrow> connection \<Rightarrow> client_lib \<Rightarrow> (nat \<Rightarrow> int) \<Rightarrow> bool \<Rightarrow> bool \<Rightarrow> bool \<Rightarrow> bool \<Rightarrow> string list \<Rightarrow> mms_main outcome option" where
  "mms_client_main version conn L counts created1 created2 lost1 lost2 argv =
     (case jl_handle_meta_flags version argv ''libiec61850'' of
        Some t \<Rightarrow> Some (Returns (Flags t))
      | None \<Rightarrow>
          let opts = mms_client_args argv; host = mo_host opts; port = mo_port opts
          in Option.bind (run_sequence conn L counts created1 host port True mms_run_start) (\<lambda>first.
             case first of
               Undefined \<Rightarrow> Some Undefined
             | Returns (rc, s) \<Rightarrow>
                 if rc \<noteq> 0 then Some (Returns (Finished rc s))
                 else Option.bind (run_sequence conn L counts created2 host port False s) (\<lambda>second.
                   case second of
                     Undefined \<Rightarrow> Some Undefined
                   | Returns (rc, s) \<Rightarrow>
                       if rc \<noteq> 0 then Some (Returns (Finished rc s))
                       else
                         Some (Returns (Finished 0 (abort_connections conn L host port lost1 lost2 s))))))"

section \<open>What a step prints\<close>

fun out_key :: "mms_out \<Rightarrow> string \<times> string" where
  "out_key (Own l) = (ol_op l, or_empty_text (ol_target l))"
| "out_key (Service l) = (ln_op l, ln_target l)"

fun mms_out_text :: "mms_out \<Rightarrow> string" where
  "mms_out_text (Own l) = out_text l"
| "mms_out_text (Service l) = line_text l"

text \<open>Without the lines that close a file.\<close>

definition out_keys :: "mms_out list \<Rightarrow> (string \<times> string) list" where
  "out_keys os = filter (\<lambda>k. fst k \<noteq> ''file-close'') (map out_key os)"

text \<open>What the server sends that is printed as it is: no control character, and in names no quote or backslash.\<close>

fun printable :: "client_lib \<Rightarrow> mms_value option \<Rightarrow> bool" where
  "printable L (Some (MFloat32 f)) = json_number (float_g L f)"
| "printable L (Some (MFloat64 d)) = json_number (float_g L (f32_of_f64 L d))"
| "printable L (Some (MVisibleString t)) = list_all (\<lambda>c. 0x20 \<le> code c) t"
| "printable L (Some (MMmsString t)) = list_all (\<lambda>c. 0x20 \<le> code c) t"
| "printable L (Some (MArray vs)) = list_all (printable L) vs"
| "printable L (Some (MStructure vs)) = list_all (printable L) vs"
| "printable L _ = True"

definition printable_answer :: "client_lib \<Rightarrow> answer \<Rightarrow> bool" where
  "printable_answer L a \<longleftrightarrow> printable L (an_value a) \<and>
     (case an_names a of None \<Rightarrow> True | Some names \<Rightarrow> list_all plain_string names) \<and>
     (case an_identity a of None \<Rightarrow> True | Some (v, m, r) \<Rightarrow> list_all (\<lambda>t. plain_string (or_empty_text t)) [v, m, r])"

definition printable_server :: "client_lib \<Rightarrow> connection \<Rightarrow> bool" where
  "printable_server L conn \<longleftrightarrow> (\<forall>h r. printable_answer L (conn h r)) \<and> answers_print (text_lib.truncate L) conn"

definition prints :: "connection \<Rightarrow> client_lib \<Rightarrow> mms_run \<Rightarrow> (string \<times> string) list \<Rightarrow> mms_run \<Rightarrow> bool" where
  "prints conn L s ks s' \<longleftrightarrow>
     (\<exists>os. mr_out s' = mr_out s @ os \<and> out_keys os = ks \<and>
        (printable_server L conn \<longrightarrow> list_all (\<lambda>o'. json_syntax (mms_out_text o')) os))"

lemma prints_refl: "mr_out s' = mr_out s \<Longrightarrow> prints conn L s [] s'"
  by (simp add: prints_def out_keys_def)

lemma prints_trans: "prints conn L s ks s1 \<Longrightarrow> prints conn L s1 ks' s2 \<Longrightarrow> prints conn L s (ks @ ks') s2"
  unfolding prints_def
  by (elim exE conjE, rule_tac x = "os @ osa" in exI) (simp add: out_keys_def)

lemma prints_from: "prints conn L s ks t \<Longrightarrow> mr_out s0 = mr_out s \<Longrightarrow> prints conn L s0 ks t"
  by (simp add: prints_def)

lemma prints_own:
  assumes "ol_op l \<noteq> ''file-close''" "printable_server L conn \<Longrightarrow> json_out l"
  shows "prints conn L s [(ol_op l, or_empty_text (ol_target l))] (own_line l s)"
  unfolding prints_def
  using assms by (intro exI [of _ "[Own l]"]) (auto simp: own_line_def out_keys_def json_out_def)

lemma or_empty_simps [simp]: "or_empty_text None = []" "or_empty_text (Some t) = t"
  by (simp_all add: or_empty_text_def)

lemma prints_ok:
  assumes "plain_string op" "op \<noteq> ''file-close''" "\<And>t. target = Some t \<Longrightarrow> plain_string t"
    "printable_server L conn \<Longrightarrow> list_all (\<lambda>(k, t). plain_string k \<and> json_syntax t) ms"
  shows "prints conn L s [(op, or_empty_text target)] (own_line (ok_line op target ms) s)"
proof -
  have "json_out (ok_line op target ms)" if "printable_server L conn"
    by (rule json_ok_line) (use assms that in blast)+
  from prints_own [OF _ this] assms(2) show ?thesis by simp
qed

lemma prints_error:
  assumes "plain_string op" "op \<noteq> ''file-close''" "\<And>t. target = Some t \<Longrightarrow> plain_string t" "plain_string msg"
  shows "prints conn L s [(op, or_empty_text target)] (own_line (error_line op target msg) s)"
proof -
  have "json_out (error_line op target msg)" by (rule json_error_line) (use assms in blast)+
  from prints_own [OF _ this] assms(2) show ?thesis by simp
qed

lemma ask_mms_simps:
  assumes "ask_mms conn r s = (a, t)"
  shows "mr_out t = mr_out s" "a = conn (cl_calls (mr_client s)) r" "cl_calls (mr_client t) = cl_calls (mr_client s) @ [r]"
    "cl_lines (mr_client t) = cl_lines (mr_client s)"
proof -
  obtain b c where bc: "call conn r (mr_client s) = (b, c)" by force
  then have "a = b" "t = s\<lparr>mr_client := c\<rparr>" using assms by (simp_all add: ask_mms_def)
  with call_calls [OF bc] call_lines [OF bc] show "mr_out t = mr_out s" "a = conn (cl_calls (mr_client s)) r"
    "cl_calls (mr_client t) = cl_calls (mr_client s) @ [r]" "cl_lines (mr_client t) = cl_lines (mr_client s)" by simp_all
qed

lemma plain_mms_error [simp]: "plain_string (mms_error_str e)"
  by (cases e) (simp_all add: plain_def)

lemma plain_dae [simp]: "plain_string (dae_str e)"
  by (simp add: dae_str_def dae_name_def plain_def)

lemma plain_spec_type [simp]: "plain_string (spec_type_str t)"
  by (cases t) (simp_all add: plain_def)

lemma printable_serverD:
  "ask_mms conn r s = (a, t) \<Longrightarrow> printable_server L conn \<Longrightarrow> printable_answer L a"
  using ask_mms_simps(2) by (metis printable_server_def)

section \<open>The readers\<close>

text \<open>
  The interface of the functions that decode a value for its line: they have a result for the
  values expected of the variable, and the result is JSON.
\<close>

locale reader =
  fixes L :: client_lib
    and decode :: "mms_value \<Rightarrow> string outcome"
    and expected :: "mms_value \<Rightarrow> bool"
  assumes decode_defined: "expected v \<Longrightarrow> \<exists>t. decode v = Returns t"
    and decode_json: "printable L (Some v) \<Longrightarrow> decode v = Returns t \<Longrightarrow> json_syntax t"
begin

lemma read_prints:
  assumes "read_step_of conn item decode s = Returns s'" "plain_string item"
  shows "prints conn L s [(''read'', ''interop/'' @ item)] s'"
proof -
  let ?target = "''interop/'' @ item"
  obtain a t where c: "ask_mms conn (ReadVariable ''interop'' item) s = (a, t)" by force
  have fail: "prints conn L s [(''read'', ?target)] (jl_fail_target ''read'' ?target (mms_error_str e) t)" for e
    unfolding jl_fail_target_def
    using prints_from [OF prints_error [of "''read''" "Some ?target" "mms_error_str e" conn L t]] ask_mms_simps(1) [OF c] assms(2)
    by (simp add: plain_def)
  show ?thesis
  proof (cases "mms_err t = MMS_ERROR_NONE \<and> (\<exists>v. an_value a = Some v)")
    case True
    then obtain v where v: "mms_err t = MMS_ERROR_NONE" "an_value a = Some v" by blast
    then obtain u where u: "decode v = Returns u" "s' = own_line (read_line ?target u) t"
      using assms(1) c by (auto simp: read_step_of_def Let_def)
    have "json_syntax u" if "printable_server L conn"
      using printable_serverD [OF c that] v(2) decode_json [OF _ u(1)] by (simp add: printable_answer_def)
    then show ?thesis
      using prints_from [OF prints_ok [of "''read''" "Some ?target" L conn "[(''value'', u)]" t]] ask_mms_simps(1) [OF c] assms(2) u(2)
      by (simp add: read_line_def plain_def)
  next
    case False
    then have "s' = jl_fail_target ''read'' ?target (mms_error_str (mms_err t)) t"
      using assms(1) c by (auto simp: read_step_of_def Let_def split: if_splits option.splits)
    then show ?thesis using fail by simp
  qed
qed

lemma read_defined:
  assumes "\<And>h v. an_value (conn h (ReadVariable ''interop'' item)) = Some v \<Longrightarrow> expected v"
  shows "\<exists>s'. read_step_of conn item decode s = Returns s'"
proof -
  obtain a t where c: "ask_mms conn (ReadVariable ''interop'' item) s = (a, t)" by force
  have "expected v" if "an_value a = Some v" for v using assms that ask_mms_simps(2) [OF c] by blast
  then show ?thesis using c decode_defined by (fastforce simp: read_step_of_def Let_def split: option.split)
qed

end

lemma json_quoted_string:
  assumes "list_all (\<lambda>c. 0x20 \<le> code c) v"
  shows "json_syntax (quoted (jl_read_string_text v))"
proof -
  have "list_all json_unit (map (\<lambda>c. if c = CHR 0x22 \<or> c = CHR 0x5C then [CHR 0x5C, c] else [c]) v)"
    using assms by (auto simp: list_all_iff json_unit_def)
  then have "json_string (quoted (jl_read_string_text v))"
    unfolding json_string_def quoted_def jl_read_string_text_def by blast
  then show ?thesis by (rule json_syntax.text_string)
qed

lemma json_element_int: "element_int L e = Returns t \<Longrightarrow> json_syntax t"
  using json_number_dec(1) [of 0]
  by (cases e) (auto simp: element_int_def text_int_def json_syntax.number dec_def to_digits.simps [of 10 0] digit_char_0)

lemma map_outcome_all: "map_outcome f xs = Returns ys \<Longrightarrow> y \<in> set ys \<Longrightarrow> \<exists>x. f x = Returns y"
  by (induction xs arbitrary: ys) auto

text \<open>An integer or an unsigned, as \<open>MmsValue_toInt32\<close> wants it, or no element.\<close>

fun int_element :: "mms_value option \<Rightarrow> bool" where
  "int_element None = True"
| "int_element (Some (MInteger _)) = True"
| "int_element (Some (MUnsigned _)) = True"
| "int_element _ = False"

lemma element_int_defined: "int_element e \<Longrightarrow> \<exists>t. element_int L e = Returns t"
  by (induction e rule: int_element.induct) (simp_all add: element_int_def text_int_def)

lemma map_outcome_defined: "(\<And>x. x \<in> set xs \<Longrightarrow> \<exists>y. f x = Returns y) \<Longrightarrow> \<exists>ys. map_outcome f xs = Returns ys"
proof (induction xs)
  case (Cons x xs)
  then obtain y ys where "f x = Returns y" "map_outcome f xs = Returns ys" by fastforce
  then show ?case by simp
qed simp

text \<open>The type the code expects of each variable it decodes.\<close>

fun expected_value :: "string \<Rightarrow> mms_value \<Rightarrow> bool" where
  "expected_value item v \<longleftrightarrow>
     (if item = ''boolean'' then MmsValue_getType v = MMS_BOOLEAN
      else if item = ''integer'' \<or> item = ''unsigned'' then int_element (Some v)
      else if item = ''float32'' then MmsValue_getType v = MMS_FLOAT
      else if item = ''octet-string'' then MmsValue_getType v = MMS_OCTET_STRING
      else if item = ''bit-string'' then MmsValue_getType v = MMS_BIT_STRING
      else if item = ''utc-time'' then MmsValue_getType v = MMS_UTC_TIME
      else if item = ''array'' then (case MmsValue_elements v of Returns vs \<Rightarrow> list_all int_element vs | Undefined \<Rightarrow> False)
      else if item = ''structure'' then
        (case MmsValue_elements v of
           Returns vs \<Rightarrow> length vs = 2 \<and> (vs ! 0 = None \<or> (\<exists>b \<in> {True, False}. vs ! 0 = Some (MBoolean b))) \<and> int_element (vs ! 1)
         | Undefined \<Rightarrow> False)
      else True)"

declare expected_value.simps [simp del]

lemmas reader_defs =
  text_bool_def text_int_def text_uint_def text_float_def text_string_def text_bytes_def text_bits_def text_utctime_def
  text_array_ints_def text_structure_bool_int_def

lemma text_bool_defined: "MmsValue_getType v = MMS_BOOLEAN \<Longrightarrow> \<exists>t. text_bool L v = Returns t"
  by (cases v) (simp_all add: text_bool_def)

interpretation bool_reader: reader L "text_bool L" "expected_value ''boolean''"
  by unfold_locales (simp add: expected_value.simps text_bool_defined, auto simp: text_bool_def json_truth)

interpretation int_reader: reader L "text_int L" "expected_value ''integer''"
  by unfold_locales (auto simp: expected_value.simps reader_defs json_syntax.number elim: int_element.elims)

interpretation uint_reader: reader L "text_uint L" "expected_value ''unsigned''"
  by unfold_locales (auto simp: expected_value.simps reader_defs json_syntax.number elim: int_element.elims)

lemma text_float_json: "printable L (Some v) \<Longrightarrow> text_float L v = Returns t \<Longrightarrow> json_syntax t"
  by (cases v) (auto simp: text_float_def json_syntax.number)

lemma text_float_defined: "MmsValue_getType v = MMS_FLOAT \<Longrightarrow> \<exists>t. text_float L v = Returns t"
  by (cases v) (simp_all add: text_float_def)

interpretation float_reader: reader L "text_float L" "expected_value ''float32''"
  by unfold_locales (simp_all add: expected_value.simps text_float_defined text_float_json)

lemma text_string_json: "printable L (Some v) \<Longrightarrow> text_string L v = Returns t \<Longrightarrow> json_syntax t"
  by (cases v) (auto simp: text_string_def json_quoted_string)

interpretation string_reader: reader L "text_string L" "expected_value ''visible-string''"
  by unfold_locales (simp add: text_string_def, rule text_string_json)

lemma text_bytes_defined: "MmsValue_getType v = MMS_OCTET_STRING \<Longrightarrow> \<exists>t. text_bytes L v = Returns t"
  by (cases v) (simp_all add: text_bytes_def)

lemma text_bytes_json: "text_bytes L v = Returns t \<Longrightarrow> json_syntax t"
proof -
  have "plain_string (concat (map (\<lambda>b. hex_pad 2 (unat b)) bs))" for bs :: "u8 list"
    using plain_hex_pad by (fastforce simp: plain_string_def list_all_iff)
  then show "text_bytes L v = Returns t \<Longrightarrow> json_syntax t" by (auto simp: text_bytes_def intro: json_quoted)
qed

interpretation bytes_reader: reader L "text_bytes L" "expected_value ''octet-string''"
  by unfold_locales (simp add: expected_value.simps text_bytes_defined, rule text_bytes_json)

lemma text_bits_defined: "MmsValue_getType v = MMS_BIT_STRING \<Longrightarrow> \<exists>t. text_bits L v = Returns t"
  by (cases v) (simp_all add: text_bits_def)

lemma text_bits_json: "text_bits L v = Returns t \<Longrightarrow> json_syntax t"
  by (auto simp: text_bits_def plain_string_def list_all_iff plain_def intro!: json_quoted)

interpretation bits_reader: reader L "text_bits L" "expected_value ''bit-string''"
  by unfold_locales (simp add: expected_value.simps text_bits_defined, rule text_bits_json)

lemma text_utctime_defined: "MmsValue_getType v = MMS_UTC_TIME \<Longrightarrow> \<exists>t. text_utctime L v = Returns t"
  by (cases v) (simp_all add: text_utctime_def)

interpretation utctime_reader: reader L "text_utctime L" "expected_value ''utc-time''"
  by unfold_locales (simp add: expected_value.simps text_utctime_defined, auto simp: text_utctime_def json_syntax.number)

lemma json_element_ints: "map_outcome (element_int L) vs = Returns ts \<Longrightarrow> json_syntax (bracketed ts)"
  by (rule json_bracketed) (blast dest: map_outcome_all json_element_int)

lemma text_array_json: "text_array_ints L v = Returns t \<Longrightarrow> json_syntax t"
  by (auto simp: text_array_ints_def json_element_ints)

lemma text_array_defined: "expected_value ''array'' v \<Longrightarrow> \<exists>t. text_array_ints L v = Returns t"
  using map_outcome_defined [of _ "element_int L"] element_int_defined
  by (cases "MmsValue_elements v") (auto simp: expected_value.simps text_array_ints_def list_all_iff)

interpretation array_reader: reader L "text_array_ints L" "expected_value ''array''"
  by unfold_locales (rule text_array_defined, assumption, rule text_array_json)

lemma json_pair: "json_syntax t0 \<Longrightarrow> json_syntax t1 \<Longrightarrow> json_syntax (bracketed [t0, t1])"
  by (rule json_bracketed) auto

lemma json_first_bool: "(case e of None \<Rightarrow> Returns ''false'' | Some e \<Rightarrow> text_bool L e) = Returns t \<Longrightarrow> json_syntax t"
  by (auto simp: text_bool_def bind_outcome_Returns json_truth json_syntax.literal split: option.splits)

lemma text_structure_json: "text_structure_bool_int L v = Returns t \<Longrightarrow> json_syntax t"
  unfolding text_structure_bool_int_def Let_def bind_outcome_Returns
  by (elim exE conjE) (use json_pair json_first_bool json_element_int in fastforce)

lemma text_structure_defined: "expected_value ''structure'' v \<Longrightarrow> \<exists>t. text_structure_bool_int L v = Returns t"
  using element_int_defined
  by (cases "MmsValue_elements v") (auto simp: expected_value.simps text_structure_bool_int_def Let_def text_bool_def)

interpretation structure_reader: reader L "text_structure_bool_int L" "expected_value ''structure''"
  by unfold_locales (rule text_structure_defined, assumption, rule text_structure_json)

section \<open>What the other steps print\<close>

text \<open>A step prints one line, whatever the server answers.\<close>

definition prints_line :: "connection \<Rightarrow> client_lib \<Rightarrow> (mms_run \<Rightarrow> mms_run outcome) \<Rightarrow> string \<times> string \<Rightarrow> bool" where
  "prints_line conn L f k \<longleftrightarrow> (\<forall>s s'. f s = Returns s' \<longrightarrow> prints conn L s [k] s')"

lemma prints_lineI: "(\<And>s s'. f s = Returns s' \<Longrightarrow> prints conn L s [k] s') \<Longrightarrow> prints_line conn L f k"
  by (simp add: prints_line_def)

lemmas jl_defs =
  jl_ok_def jl_ok_target_def jl_fail_def jl_fail_target_def jl_identify_def jl_namelist_def jl_var_access_attr_def read_line_def

lemma asked_prints:
  assumes "ask_mms conn r s = (a, t)" "s' = own_line l t" "op \<noteq> ''file-close''" "ol_op l = op" "or_empty_text (ol_target l) = target"
    "printable_server L conn \<Longrightarrow> json_out l"
  shows "prints conn L s [(op, target)] s'"
  using prints_from [OF prints_own [of l L conn t]] ask_mms_simps(1) [OF assms(1)] assms(2-) by simp

lemma asked_ok:
  assumes "ask_mms conn r s = (a, t)" "plain_string op" "op \<noteq> ''file-close''" "plain_string target"
  shows "prints conn L s [(op, target)] (jl_ok_target op target t)"
  unfolding jl_defs by (rule asked_prints [OF assms(1) refl]) (use assms in \<open>auto intro!: json_ok_line\<close>)

lemma asked_fail:
  assumes "ask_mms conn r s = (a, t)" "plain_string op" "op \<noteq> ''file-close''" "plain_string target" "plain_string msg"
  shows "prints conn L s [(op, target)] (jl_fail_target op target msg t)"
  unfolding jl_defs by (rule asked_prints [OF assms(1) refl]) (use assms in \<open>auto intro!: json_error_line\<close>)

lemma asked_fail_plain:
  assumes "ask_mms conn r s = (a, t)" "plain_string op" "op \<noteq> ''file-close''" "plain_string msg"
  shows "prints conn L s [(op, [])] (jl_fail op msg t)"
  unfolding jl_defs by (rule asked_prints [OF assms(1) refl]) (use assms in \<open>auto intro!: json_error_line\<close>)

lemma write_line: "plain_string target \<Longrightarrow> prints_line conn L (write_step_of conn item target v) (''write'', target)"
  by (rule prints_lineI)
    (auto simp: write_step_of_def emit_write_result_def plain_def asked_ok asked_fail split: prod.splits)

lemma json_object_of_strings: "list_all (\<lambda>(k, t). plain_string k \<and> json_syntax t) ms \<Longrightarrow> json_syntax (object_text ms)"
  by (rule json_object_text) (auto simp: plain_string_def list_all_iff)

lemma identify_line: "prints_line conn L (identify_step conn) (''identify'', [])"
proof (rule prints_lineI)
  fix s s' assume s': "identify_step conn s = Returns s'"
  obtain a t where c: "ask_mms conn Identify s = (a, t)" by force
  have f: "prints conn L s [(''identify'', [])] (jl_fail ''identify'' (mms_error_str e) t)" for e
    by (rule asked_fail_plain [OF c]) (simp_all add: plain_def)
  have "prints conn L s [(''identify'', [])] (jl_identify v m r t)" if "an_identity a = Some (v, m, r)" for v m r
  unfolding jl_identify_def
  proof (rule asked_prints [OF c refl])
    let ?l = "ok_line ''identify'' None [(''value'', object_text [(''vendor'', quoted (or_empty_text v)), (''model'', quoted (or_empty_text m)),
        (''revision'', quoted (or_empty_text r))])]"
    assume "printable_server L conn"
    from printable_serverD [OF c this] that show "json_out ?l"
      by (intro json_ok_line) (simp_all add: printable_answer_def plain_def json_object_of_strings json_quoted)
  qed simp_all
  with f [of MMS_ERROR_NONE] f [of "mms_err t"] s' c show "prints conn L s [(''identify'', [])] s'"
    by (auto simp: identify_step_def split: if_splits option.splits prod.splits)
qed

lemma names_printed:
  assumes "ask_mms conn r s = (a, t)" "an_names a = Some names" "or_empty_text target = tg" "plain_string tg"
  shows "prints conn L s [(''get-name-list'', tg)] (jl_namelist target names t)"
unfolding jl_namelist_def
proof (rule asked_prints [OF assms(1) refl])
  let ?target = "case target of Some t \<Rightarrow> if t \<noteq> [] then Some t else None | None \<Rightarrow> None"
  let ?l = "ok_line ''get-name-list'' ?target [(''names'', bracketed (map quoted names))]"
  show "or_empty_text (ol_target ?l) = tg" using assms(3) by (auto split: option.split)
  assume "printable_server L conn"
  from printable_serverD [OF assms(1) this] assms(2) have "list_all plain_string names" by (simp add: printable_answer_def)
  then have "json_syntax (bracketed (map quoted names))" by (intro json_bracketed) (auto simp: list_all_iff json_quoted)
  with assms(3,4) show "json_out ?l" by (intro json_ok_line) (auto simp: plain_def split: option.splits if_splits)
qed simp_all

lemma domains_line: "prints_line conn L (domains_step conn) (''get-name-list'', [])"
  by (rule prints_lineI)
    (auto simp: domains_step_def plain_def asked_fail_plain names_printed split: prod.splits if_splits option.splits)

lemma variables_line: "prints_line conn L (variables_step conn) (''get-name-list'', ''interop'')"
  by (rule prints_lineI)
    (auto simp: variables_step_def plain_def asked_fail names_printed split: prod.splits if_splits option.splits)

lemma attributes_line: "prints_line conn L (attributes_step conn) (''get-var-access-attr'', ''interop/boolean'')"
proof (rule prints_lineI)
  fix s s' assume s': "attributes_step conn s = Returns s'"
  obtain a t where c: "ask_mms conn (GetVariableAccessAttributes ''interop'' ''boolean'') s = (a, t)" by force
  let ?k = "(''get-var-access-attr'', ''interop/boolean'')"
  have f: "prints conn L s [?k] (jl_fail_target ''get-var-access-attr'' ''interop/boolean'' (mms_error_str e) t)" for e
    by (rule asked_fail [OF c]) (simp_all add: plain_def)
  have "prints conn L s [?k] (jl_var_access_attr ''interop/boolean'' (spec_type_str d) t)" for d
    unfolding jl_var_access_attr_def
    by (rule asked_prints [OF c refl]) (auto simp: plain_def json_quoted intro!: json_ok_line)
  with f [of MMS_ERROR_NONE] f [of "mms_err t"] s' c show "prints conn L s [?k] s'"
    by (auto simp: attributes_step_def split: if_splits option.splits)
qed

lemma json_values_element: "printable L v \<Longrightarrow> json_syntax (values_element L v)"
  by (induction L v rule: values_element.induct)
    (simp_all add: json_truth json_syntax.number json_syntax.literal)

lemma printable_elements: "MmsValue_elements v = Returns vs \<Longrightarrow> printable L (Some v) \<Longrightarrow> list_all (printable L) vs"
  by (cases v) simp_all

lemma values_line:
  assumes "plain_string op" "op \<noteq> ''file-close''" "plain_string target"
  shows "prints_line conn L (values_step conn L op target r) (op, target)"
proof (rule prints_lineI)
  fix s s' assume s': "values_step conn L op target r s = Returns s'"
  obtain a t where c: "ask_mms conn r s = (a, t)" by force
  have f: "prints conn L s [(op, target)] (jl_fail_target op target (mms_error_str e) t)" for e
    by (rule asked_fail [OF c]) (simp_all add: assms)
  have v: "prints conn L s [(op, target)] (own_line (ok_line op (Some target) [(''values'', bracketed (map (values_element L) vs))]) t)"
    if "an_value a = Some v" "MmsValue_elements v = Returns vs" for v vs
  proof (rule asked_prints [OF c refl])
    assume "printable_server L conn"
    from printable_serverD [OF c this] that(1) have "printable L (Some v)" by (simp add: printable_answer_def)
    with printable_elements [OF that(2)] have "json_syntax (bracketed (map (values_element L) vs))"
      by (intro json_bracketed) (auto simp: list_all_iff json_values_element)
    with assms show "json_out (ok_line op (Some target) [(''values'', bracketed (map (values_element L) vs))])"
      by (intro json_ok_line) (simp_all add: plain_def)
  qed (simp_all add: assms)
  with f [of MMS_ERROR_NONE] f [of "mms_err t"] s' c show "prints conn L s [(op, target)] s'"
    by (auto simp: values_step_def jl_values_array_def split: if_splits option.splits)
qed

lemma write_multiple_line: "prints_line conn L (write_multiple_step conn) (''write-multiple'', ''interop'')"
  by (rule prints_lineI)
    (auto simp: write_multiple_step_def plain_def asked_ok asked_fail split: prod.splits if_splits)

lemma define_nvl_line: "prints_line conn L (define_nvl_step conn) (''define-nvl'', ''interop/testlist'')"
  by (rule prints_lineI)
    (auto simp: define_nvl_step_def plain_def asked_ok asked_fail split: prod.splits if_splits)

lemma delete_nvl_line: "prints_line conn L (delete_nvl_step conn) (''delete-nvl'', ''interop/testlist'')"
  by (rule prints_lineI)
    (auto simp: delete_nvl_step_def plain_def asked_ok asked_fail split: prod.splits if_splits)

lemma prints_same: "prints conn L s ks t \<Longrightarrow> mr_out t' = mr_out t \<Longrightarrow> prints conn L s ks t'"
  by (simp add: prints_def)

lemma clear_error_out [simp]: "mr_out (clear_error s) = mr_out s"
  by (simp add: clear_error_def)

lemma check_read_val_cases:
  assumes "check_read_val v target t = (w, u)"
  shows "w = None \<and> (\<exists>m. plain_string m \<and> u = jl_fail_target ''read'' target m t) \<or> w \<noteq> None \<and> u = t"
proof -
  have f: "\<exists>m. plain_string m \<and> jl_fail_target ''read'' target m' t = jl_fail_target ''read'' target m t" if "plain_string m'" for m'
    using that by blast
  show ?thesis
    using assms f [OF plain_mms_error] f [OF plain_dae]
    by (cases "v = None \<or> mms_err t \<noteq> MMS_ERROR_NONE"; cases "the v") (auto simp: check_read_val_def split: option.splits)
qed

lemma negative_read_line:
  assumes "plain_string (domain_name @ ''/'' @ item)"
  shows "prints_line conn L (negative_read_step conn domain_name item) (''read'', domain_name @ ''/'' @ item)"
proof (rule prints_lineI)
  let ?target = "domain_name @ ''/'' @ item"
  fix s s' assume s': "negative_read_step conn domain_name item s = Returns s'"
  obtain a t where c: "ask_mms conn (ReadVariable domain_name item) s = (a, t)" by force
  have f: "prints conn L s [(''read'', ?target)] (jl_fail_target ''read'' ?target m t)" if "plain_string m" for m
    by (rule asked_fail [OF c]) (use that assms in \<open>simp_all add: plain_def\<close>)
  have k: "prints conn L s [(''read'', ?target)] (jl_ok_target ''read'' ?target t)"
    by (rule asked_ok [OF c]) (use assms in \<open>simp_all add: plain_def\<close>)
  obtain w u where w: "check_read_val (an_value a) ?target t = (w, u)" by force
  then have "s' = clear_error (if w = None then u else jl_ok_target ''read'' ?target u)"
    using s' c by (cases w) (simp_all add: negative_read_step_def)
  moreover have "w = None \<and> (\<exists>m. plain_string m \<and> u = jl_fail_target ''read'' ?target m t) \<or> w \<noteq> None \<and> u = t"
    by (rule check_read_val_cases [OF w])
  ultimately show "prints conn L s [(''read'', ?target)] s'"
    using prints_same [OF f clear_error_out] prints_same [OF k clear_error_out] by auto
qed

lemma conclude_prints: "prints conn L s [(''conclude'', [])] (conclude_step conn s)"
proof -
  obtain a t where c: "ask_mms conn Conclude s = (a, t)" by force
  have "prints conn L s [(''conclude'', [])] (jl_fail ''conclude'' (mms_error_str e) t)" for e
    by (rule asked_fail_plain [OF c]) (simp_all add: plain_def)
  moreover have "prints conn L s [(''conclude'', [])] (jl_ok ''conclude'' t)"
    unfolding jl_ok_def
    by (rule asked_prints [OF c refl]) (auto simp: plain_def intro!: json_ok_line)
  ultimately show ?thesis using c by (simp add: conclude_step_def)
qed

section \<open>What the sequence prints\<close>

text \<open>The operation and target of each line of \<open>run_sequence\<close>, before those of the services.\<close>

definition operation_keys :: "bool \<Rightarrow> (string \<times> string) list" where
  "operation_keys full_sequence =
     (if full_sequence then
        [(''identify'', []), (''get-name-list'', []), (''get-name-list'', ''interop''),
         (''read'', ''interop/boolean''), (''read'', ''interop/integer''), (''read'', ''interop/float32''),
         (''write'', ''interop/float32''), (''read'', ''interop/float32''), (''write'', ''interop/octet-string''),
         (''read'', ''interop/boolean''),
         (''read'', ''interop/unsigned''), (''read'', ''interop/visible-string''), (''write'', ''interop/visible-string''),
         (''read'', ''interop/visible-string''), (''read'', ''interop/octet-string''), (''read'', ''interop/bit-string''),
         (''read'', ''interop/utc-time''), (''read'', ''interop/array''), (''read'', ''interop/structure''),
         (''get-var-access-attr'', ''interop/boolean''), (''read-multiple'', ''interop''), (''write-multiple'', ''interop''),
         (''define-nvl'', ''interop/testlist''), (''read-nvl'', ''interop/testlist''), (''delete-nvl'', ''interop/testlist''),
         (''read'', ''unknown-domain/boolean''), (''read'', ''interop/nonexistent''), (''write'', ''interop/integer-wrong-type'')]
      else [(''read'', ''interop/boolean'')])"

lemma run_checked_prints:
  "list_all2 (prints_line conn L) fs ks \<Longrightarrow> run_checked fs s = Returns s' \<Longrightarrow> prints conn L s ks s'"
proof (induction arbitrary: s rule: list_all2_induct)
  case Nil
  then show ?case by (simp add: prints_refl)
next
  case (Cons f fs k ks)
  then obtain t where t: "f s = Returns t" "run_checked fs t = Returns s'" by auto
  with Cons(1) have "prints conn L s [k] t" by (simp add: prints_line_def)
  from prints_trans [OF this Cons(3) [OF t(2)]] show ?case by simp
qed

lemma boolean_line: "prints_line conn L (read_boolean conn L) (''read'', ''interop/boolean'')"
  unfolding read_boolean_def
  by (rule prints_lineI) (use bool_reader.read_prints [of conn "''boolean''"] in \<open>simp add: plain_def\<close>)

lemma reader_lines:
  "prints_line conn L (read_step_of conn ''integer'' (text_int L)) (''read'', ''interop/integer'')"
  "prints_line conn L (read_step_of conn ''float32'' (text_float L)) (''read'', ''interop/float32'')"
  "prints_line conn L (read_step_of conn ''unsigned'' (text_uint L)) (''read'', ''interop/unsigned'')"
  "prints_line conn L (read_step_of conn ''visible-string'' (text_string L)) (''read'', ''interop/visible-string'')"
  "prints_line conn L (read_step_of conn ''octet-string'' (text_bytes L)) (''read'', ''interop/octet-string'')"
  "prints_line conn L (read_step_of conn ''bit-string'' (text_bits L)) (''read'', ''interop/bit-string'')"
  "prints_line conn L (read_step_of conn ''utc-time'' (text_utctime L)) (''read'', ''interop/utc-time'')"
  "prints_line conn L (read_step_of conn ''array'' (text_array_ints L)) (''read'', ''interop/array'')"
  "prints_line conn L (read_step_of conn ''structure'' (text_structure_bool_int L)) (''read'', ''interop/structure'')"
  by (rule prints_lineI, drule int_reader.read_prints float_reader.read_prints uint_reader.read_prints string_reader.read_prints
      bytes_reader.read_prints bits_reader.read_prints utctime_reader.read_prints array_reader.read_prints structure_reader.read_prints;
      simp add: plain_def)+

lemma negative_lines:
  "prints_line conn L (negative_read_step conn ''unknown-domain'' ''boolean'') (''read'', ''unknown-domain/boolean'')"
  "prints_line conn L (negative_read_step conn ''interop'' ''nonexistent'') (''read'', ''interop/nonexistent'')"
  using negative_read_line [of "''unknown-domain''" "''boolean''"] negative_read_line [of "''interop''" "''nonexistent''"]
  by (simp_all add: plain_def)

lemmas line_steps =
  identify_line domains_line variables_line boolean_line reader_lines write_line attributes_line values_line
  write_multiple_line define_nvl_line delete_nvl_line negative_lines

lemma operations_lines: "list_all2 (prints_line conn L) (operations conn L full) (operation_keys full)"
  by (simp add: operations_def operation_keys_def phase_1a_names_def phase_1a_def phase_1c_scalars_def phase_1c_model_def
      phase_1c_negative_def line_steps plain_def)

lemma keys_service: "out_keys (map Service ls) = keys ls"
  by (simp add: out_keys_def keys_def contract_key_def [abs_def] o_def)

lemma service_prints: "added conn (text_lib.truncate L) ks (in_service s) c \<Longrightarrow> prints conn L s ks (service_lines c s)"
  by (auto simp: added_def prints_def in_service_def service_lines_def keys_service printable_server_def json_line_def list_all_iff)

text \<open>What the connection that ends with an abort prints: its read only when it was connected.\<close>

definition abort_keys :: "(string \<times> string) list \<Rightarrow> bool" where
  "abort_keys ks \<longleftrightarrow> ks \<in> {[(''abort'', [])], [(''read'', ''interop/boolean#before-abort''), (''abort'', [])]}"

lemma run_abort_adds: "\<exists>ks. abort_keys ks \<and> added conn L ks s (run_abort conn L host port s)"
proof -
  let ?r = "(''read'', ''interop/boolean#before-abort'')" and ?a = "(''abort'', [])"
  obtain a t where c: "call conn (Connect host port) (locals s) = (a, t)" by force
  have t: "cl_lines t = cl_lines s" using call_lines [OF c] by (simp add: locals_def)
  have f: "added conn L [?a] s (emit_fail ''abort'' [] m t)" for m by (rule added_fail) (simp_all add: t)
  let ?u = "read_step conn L ''read'' ''interop/boolean#before-abort'' (ReadVariable ''interop'' ''boolean'') t"
  have "added conn L [?r] t ?u" by (rule read_step_adds) simp
  moreover have "added conn L [?a] (no_error ?u) (done_step conn ''abort'' [] Abort (no_error ?u))" by (rule done_step_adds) simp
  ultimately have "added conn L ([] @ ([?r] @ ([] @ [?a]))) s (done_step conn ''abort'' [] Abort (no_error ?u))"
    by (intro added_trans [OF added_refl [of t s]] added_trans [OF _ added_trans [OF added_locals(2)]]) (simp_all add: t)
  with f c show ?thesis by (auto simp: run_abort_def abort_keys_def)
qed

lemma run_server_abort_adds: "added conn L [(''server-abort'', [])] s (run_server_abort conn host port lost1 lost2 s)"
proof -
  obtain a t where c: "call conn (Connect host port) (locals s) = (a, t)" by force
  obtain b u where d: "call conn (WriteVariable ''interop'' ''report-trigger'' (int_value (- 1))) t = (b, u)" by force
  have "cl_lines t = cl_lines s" using call_lines [OF c] by (simp add: locals_def)
  moreover from this have "cl_lines u = cl_lines s" using call_lines [OF d] by simp
  ultimately show ?thesis using c d by (auto simp: run_server_abort_def intro!: added_fail added_ok)
qed

lemma run_sequence_prints:
  assumes "run_sequence conn L counts created host port full s = Some (Returns (rc, s'))"
  shows "rc = 0 \<and> prints conn L s (operation_keys full @ (if full then contract else []) @ [(''conclude'', [])]) s' \<or>
    rc \<in> {1, 2} \<and> prints conn L s [] s'"
proof (cases created)
  case False
  with assms show ?thesis by (simp add: run_sequence_def prints_refl)
next
  case True
  obtain a t where c: "ask_mms conn (Connect host port)
      (if full then services_install_report_handler (clear_error s) else clear_error s) = (a, t)" by force
  have t: "mr_out t = mr_out s" using ask_mms_simps(1) [OF c] by (simp add: services_install_report_handler_def split: if_splits)
  show ?thesis
  proof (cases "mms_err t = MMS_ERROR_NONE")
    case False
    with assms c True t show ?thesis by (simp add: run_sequence_def prints_refl)
  next
    case ok: True
    then obtain u where u: "run_checked (operations conn L full) t = Returns u"
      using assms c True by (cases "run_checked (operations conn L full) t") (simp_all add: run_sequence_def)
    have ops: "prints conn L s (operation_keys full) u"
      by (rule prints_from [OF run_checked_prints [OF operations_lines u]]) (simp add: t)
    show ?thesis
    proof (cases full)
      case False
      then have "rc = 0" "s' = conclude_step conn u" using assms c True ok u by (simp_all add: run_sequence_def)
      with prints_trans [OF ops conclude_prints] False show ?thesis by simp
    next
      case full: True
      then obtain v where v: "run_services conn (text_lib.truncate L) counts (in_service u) = Some v" "rc = 0"
          "s' = conclude_step conn (clear_error (service_lines v u))"
        using assms c True ok u by (auto simp: run_sequence_def)
      have "prints conn L u contract (clear_error (service_lines v u))"
        by (rule prints_same [OF service_prints [OF run_services_adds [OF v(1)]]]) simp
      from prints_trans [OF ops prints_trans [OF this conclude_prints]] v full show ?thesis by simp
    qed
  qed
qed

section \<open>The values a step wants\<close>

text \<open>
  What the client takes for granted of the server: a variable it decodes is answered with a value of
  its type, a list of variables with a list of values.
\<close>

definition typed_server :: "connection \<Rightarrow> bool" where
  "typed_server conn \<longleftrightarrow> (\<forall>h v.
     (\<forall>item. an_value (conn h (ReadVariable ''interop'' item)) = Some v \<longrightarrow> expected_value item v) \<and>
     (\<forall>r \<in> {ReadMultipleVariables ''interop'' [''boolean'', ''integer''],
             ReadNamedVariableListValues (Some ''interop'') ''testlist'' False}.
        an_value (conn h r) = Some v \<longrightarrow> MmsValue_elements v \<noteq> Undefined))"

definition defined_step :: "(mms_run \<Rightarrow> mms_run outcome) \<Rightarrow> bool" where
  "defined_step f \<longleftrightarrow> (\<forall>s. \<exists>s'. f s = Returns s')"

lemma run_checked_defined: "list_all defined_step fs \<Longrightarrow> \<exists>s'. run_checked fs s = Returns s'"
proof (induction fs arbitrary: s)
  case (Cons f fs)
  then obtain t where "f s = Returns t" by (auto simp: defined_step_def)
  with Cons show ?case by simp
qed simp

lemma values_step_defined:
  assumes "\<And>h v. an_value (conn h r) = Some v \<Longrightarrow> MmsValue_elements v \<noteq> Undefined"
  shows "defined_step (values_step conn L op target r)"
proof (unfold defined_step_def, rule allI)
  fix s
  obtain a t where c: "ask_mms conn r s = (a, t)" by force
  have "\<exists>vs. MmsValue_elements v = Returns vs" if "an_value a = Some v" for v
    using assms [of "cl_calls (mr_client s)" v] ask_mms_simps(2) [OF c] that by (cases "MmsValue_elements v") auto
  with c show "\<exists>s'. values_step conn L op target r s = Returns s'"
    by (fastforce simp: values_step_def jl_values_array_def split: option.split)
qed

lemma total_steps:
  "defined_step (identify_step conn)" "defined_step (domains_step conn)" "defined_step (variables_step conn)"
  "defined_step (write_step_of conn item target v)" "defined_step (attributes_step conn)"
  "defined_step (write_multiple_step conn)" "defined_step (define_nvl_step conn)" "defined_step (delete_nvl_step conn)"
  "defined_step (negative_read_step conn domain_name item)"
  by (simp_all add: defined_step_def identify_step_def domains_step_def variables_step_def write_step_of_def
      attributes_step_def write_multiple_step_def define_nvl_step_def delete_nvl_step_def negative_read_step_def Let_def
      split: prod.split option.split)

lemma typed_readers:
  assumes "typed_server conn"
  shows "defined_step (read_boolean conn L)"
    "defined_step (read_step_of conn ''integer'' (text_int L))" "defined_step (read_step_of conn ''float32'' (text_float L))"
    "defined_step (read_step_of conn ''unsigned'' (text_uint L))"
    "defined_step (read_step_of conn ''visible-string'' (text_string L))"
    "defined_step (read_step_of conn ''octet-string'' (text_bytes L))"
    "defined_step (read_step_of conn ''bit-string'' (text_bits L))"
    "defined_step (read_step_of conn ''utc-time'' (text_utctime L))"
    "defined_step (read_step_of conn ''array'' (text_array_ints L))"
    "defined_step (read_step_of conn ''structure'' (text_structure_bool_int L))"
  unfolding defined_step_def read_boolean_def
  by (rule allI, rule bool_reader.read_defined int_reader.read_defined float_reader.read_defined uint_reader.read_defined
      string_reader.read_defined bytes_reader.read_defined bits_reader.read_defined utctime_reader.read_defined
      array_reader.read_defined structure_reader.read_defined,
      use assms in \<open>simp add: typed_server_def\<close>)+

lemma typed_values:
  assumes "typed_server conn"
  shows "defined_step (values_step conn L op target (ReadMultipleVariables ''interop'' [''boolean'', ''integer'']))"
    "defined_step (values_step conn L op target (ReadNamedVariableListValues (Some ''interop'') ''testlist'' False))"
  by (rule values_step_defined, use assms in \<open>simp add: typed_server_def\<close>)+

lemma operations_defined: "typed_server conn \<Longrightarrow> \<exists>s'. run_checked (operations conn L full) s = Returns s'"
  by (rule run_checked_defined)
    (simp add: operations_def phase_1a_names_def phase_1a_def phase_1c_scalars_def phase_1c_model_def phase_1c_negative_def
      total_steps typed_readers typed_values)

lemma run_sequence_returns:
  assumes "typed_server conn" "stops_after N conn"
  shows "\<exists>rc s'. run_sequence conn L counts created host port full s = Some (Returns (rc, s'))"
proof -
  obtain a t where c: "ask_mms conn (Connect host port)
      (if full then services_install_report_handler (clear_error s) else clear_error s) = (a, t)" by force
  obtain u where u: "run_checked (operations conn L full) t = Returns u"
    using operations_defined [OF assms(1)] by blast
  have "\<exists>v. run_services conn (text_lib.truncate L) counts (in_service u) = Some v"
    unfolding run_services_def by (rule run_options_returns) (auto simp: svc_files_returns [OF assms(2)])
  then obtain v where "run_services conn (text_lib.truncate L) counts (in_service u) = Some v" by blast
  with c u show ?thesis by (simp add: run_sequence_def)
qed

section \<open>The program as a whole\<close>

lemma run_sequence_connected:
  assumes "run_sequence conn L counts created host port full s = Some (Returns (rc, s'))" "created"
    "\<And>h. an_err (conn h (Connect host port)) = None"
  shows "rc = 0"
proof -
  obtain a t where c: "ask_mms conn (Connect host port)
      (if full then services_install_report_handler (clear_error s) else clear_error s) = (a, t)" by force
  have "mms_err t = MMS_ERROR_NONE"
    using c assms(3) by (cases full)
      (auto simp: ask_mms_def call_def Let_def mms_err_def clear_error_def no_error_def services_install_report_handler_def)
  with assms c show ?thesis by (cases "run_checked (operations conn L full) t") (auto simp: run_sequence_def split: if_splits)
qed

lemma mms_client_main_cases:
  fixes version conn L counts created1 created2 lost1 lost2 argv
  defines "h \<equiv> mo_host (mms_client_args argv)" and "p \<equiv> mo_port (mms_client_args argv)"
  assumes m: "mms_client_main version conn L counts created1 created2 lost1 lost2 argv = Some (Returns (Finished rc s))"
  obtains t where "run_sequence conn L counts created1 h p True mms_run_start = Some (Returns (rc, t))" "rc \<noteq> 0" "s = t"
    | t where "run_sequence conn L counts created1 h p True mms_run_start = Some (Returns (0, t))"
      "run_sequence conn L counts created2 h p False t = Some (Returns (rc, s))" "rc \<noteq> 0"
    | t u where "run_sequence conn L counts created1 h p True mms_run_start = Some (Returns (0, t))"
      "run_sequence conn L counts created2 h p False t = Some (Returns (0, u))" "rc = 0"
      "s = abort_connections conn L h p lost1 lost2 u"
proof -
  let ?first = "run_sequence conn L counts created1 h p True mms_run_start"
  let ?second = "\<lambda>t. run_sequence conn L counts created2 h p False t"
  have flags: "jl_handle_meta_flags version argv ''libiec61850'' = None"
    using m by (simp add: mms_client_main_def split: option.splits)
  note main = m [unfolded mms_client_main_def flags Let_def, simplified, folded h_def p_def]
  obtain rc1 t where first: "?first = Some (Returns (rc1, t))"
    using main by (cases ?first) (auto split: outcome.splits prod.splits)
  show thesis
  proof (cases "rc1 = 0")
    case False
    with main first have "rc1 = rc" "t = s" by simp_all
    with first False show thesis by (intro that(1)) simp_all
  next
    case True
    with main first obtain rc2 u where second: "?second t = Some (Returns (rc2, u))"
      by (cases "?second t") (auto split: outcome.splits prod.splits)
    show thesis
    proof (cases "rc2 = 0")
      case False
      with main first True second have "rc2 = rc" "u = s" by simp_all
      with first True second False show thesis by (intro that(2)) simp_all
    next
      case zero: True
      with main first True second have "rc = 0" "s = abort_connections conn L h p lost1 lost2 u" by simp_all
      with first True second zero show thesis by (intro that(3)) simp_all
    qed
  qed
qed

lemma abort_connections_prints:
  "\<exists>ab. abort_keys ab \<and> prints conn L s (ab @ [(''server-abort'', [])]) (abort_connections conn L host port lost1 lost2 s)"
proof -
  let ?L = "text_lib.truncate L"
  from run_abort_adds obtain ab where ab: "abort_keys ab"
      "added conn ?L ab (in_service s) (run_abort conn ?L host port (in_service s))"
    by blast
  let ?t = "service_lines (run_abort conn ?L host port (in_service s)) s"
  have "prints conn L ?t [(''server-abort'', [])] (abort_connections conn L host port lost1 lost2 s)"
    unfolding abort_connections_def Let_def by (rule service_prints [OF run_server_abort_adds])
  with service_prints [OF ab(2)] ab(1) show ?thesis using prints_trans by blast
qed

lemma mms_client_prints:
  assumes "mms_client_main version conn L counts created1 created2 lost1 lost2 argv = Some (Returns (Finished rc s))"
  shows "\<exists>ks. prints conn L mms_run_start ks s \<and> (rc = 0 \<longrightarrow> (\<exists>ab. abort_keys ab \<and>
    ks = operation_keys True @ contract @ [(''conclude'', []), (''read'', ''interop/boolean''), (''conclude'', [])] @ ab @
      [(''server-abort'', [])]))"
  using assms
proof (cases rule: mms_client_main_cases)
  case (1 t)
  then show ?thesis using run_sequence_prints [OF 1(1)] by auto
next
  case (2 t)
  with run_sequence_prints [OF 2(1)] run_sequence_prints [OF 2(2)] show ?thesis by (auto dest: prints_trans)
next
  case (3 t u)
  from run_sequence_prints [OF 3(1)] have
    "prints conn L mms_run_start (operation_keys True @ contract @ [(''conclude'', [])]) t" by simp
  moreover from run_sequence_prints [OF 3(2)] have
    "prints conn L t [(''read'', ''interop/boolean''), (''conclude'', [])] u" by (simp add: operation_keys_def)
  moreover obtain ab where ab: "abort_keys ab" "prints conn L u (ab @ [(''server-abort'', [])]) s"
    using abort_connections_prints 3(4) by metis
  ultimately have "prints conn L mms_run_start ((operation_keys True @ contract @ [(''conclude'', [])]) @
      [(''read'', ''interop/boolean''), (''conclude'', [])] @ ab @ [(''server-abort'', [])]) s"
    using prints_trans by blast
  with ab(1) show ?thesis by auto
qed

text \<open>A step does not install the handler, a sequence that is the full one does.\<close>

definition keeps_handler :: "(mms_run \<Rightarrow> mms_run outcome) \<Rightarrow> bool" where
  "keeps_handler f \<longleftrightarrow> (\<forall>s s'. f s = Returns s' \<longrightarrow> mr_reporting s' = mr_reporting s)"

lemma handler_simps [simp]:
  "mr_reporting (own_line l s) = mr_reporting s" "mr_reporting (service_lines c s) = mr_reporting s"
  "mr_reporting (clear_error s) = mr_reporting s" "mr_reporting (fst (s, x)) = mr_reporting s"
  by (simp_all add: own_line_def service_lines_def clear_error_def)

lemma ask_handler: "ask_mms conn r s = (a, t) \<Longrightarrow> mr_reporting t = mr_reporting s"
  by (auto simp: ask_mms_def split: prod.splits)

lemmas line_functions =
  jl_ok_def jl_ok_target_def jl_fail_def jl_fail_target_def jl_identify_def jl_namelist_def jl_var_access_attr_def

lemma check_handler: "check_read_val v target s = (w, t) \<Longrightarrow> mr_reporting t = mr_reporting s"
  by (auto simp: check_read_val_def line_functions split: option.splits if_splits mms_value.splits)

lemma steps_keep_handler:
  "keeps_handler (read_step_of conn item decode)" "keeps_handler (values_step conn L op target r)"
  "keeps_handler (identify_step conn)" "keeps_handler (domains_step conn)" "keeps_handler (variables_step conn)"
  "keeps_handler (write_step_of conn item target v)" "keeps_handler (attributes_step conn)"
  "keeps_handler (write_multiple_step conn)" "keeps_handler (define_nvl_step conn)" "keeps_handler (delete_nvl_step conn)"
  by (auto simp: keeps_handler_def read_step_of_def values_step_def jl_values_array_def identify_step_def domains_step_def
      variables_step_def write_step_of_def emit_write_result_def attributes_step_def write_multiple_step_def define_nvl_step_def
      delete_nvl_step_def line_functions Let_def
      dest!: ask_handler split: prod.splits option.splits if_splits)

lemma negative_keeps_handler: "keeps_handler (negative_read_step conn domain_name item)"
  by (auto simp: keeps_handler_def negative_read_step_def Let_def line_functions
      dest!: ask_handler check_handler split: prod.splits if_splits)

lemma checked_keeps_handler: "list_all keeps_handler fs \<Longrightarrow> keeps_handler (run_checked fs)"
proof (induction fs)
  case (Cons f fs)
  then show ?case unfolding keeps_handler_def by (fastforce simp: keeps_handler_def)
qed (simp add: keeps_handler_def)

lemma operations_keep_handler: "keeps_handler (run_checked (operations conn L full))"
  by (rule checked_keeps_handler)
    (simp add: operations_def phase_1a_names_def phase_1a_def phase_1c_scalars_def phase_1c_model_def phase_1c_negative_def
      read_boolean_def steps_keep_handler negative_keeps_handler)

lemma sequence_handler:
  assumes "run_sequence conn L counts created host port full s = Some (Returns (0, s'))"
  shows "mr_reporting s' \<longleftrightarrow> full \<or> mr_reporting s"
proof -
  obtain a t where c: "ask_mms conn (Connect host port)
      (if full then services_install_report_handler (clear_error s) else clear_error s) = (a, t)" by force
  have t: "mr_reporting t \<longleftrightarrow> full \<or> mr_reporting s"
    using ask_handler [OF c] by (cases full) (simp_all add: services_install_report_handler_def)
  have conclude: "mr_reporting (conclude_step conn u) = mr_reporting u" for u
    by (auto simp: conclude_step_def line_functions dest!: ask_handler split: prod.split)
  have "mr_reporting u = mr_reporting t" if "run_checked (operations conn L full) t = Returns u" for u
    using operations_keep_handler that unfolding keeps_handler_def by blast
  then show ?thesis
    using assms c t by (cases full) (auto simp: run_sequence_def conclude split: if_splits outcome.splits)
qed

lemma main_handler:
  assumes "mms_client_main version conn L counts created1 created2 lost1 lost2 argv = Some (Returns (Finished 0 s))"
  shows "mr_reporting s"
  using assms
proof (cases rule: mms_client_main_cases)
  case (3 t u)
  then show ?thesis using sequence_handler [OF 3(1)] sequence_handler [OF 3(2)] by (simp add: abort_connections_def Let_def)
qed simp_all

section \<open>Standard output\<close>

text \<open>
  Both threads print by calls of stdio, each call whole. \<open>emit_line\<close> makes two under its mutex; a line
  of \<open>mms_client.c\<close> is printed without it, by as many calls as \<open>split\<close> says. \<open>apart\<close>: no report is
  printed during such a line, as if it held the mutex too.
\<close>

datatype line_calls = Locked "string list" | Unlocked "string list"

definition line_break :: string where
  "line_break = [CHR 0x0A]"

definition emit_calls :: "svc_line \<Rightarrow> string list" where
  "emit_calls l = [line_text l, line_break]"

fun stdio_calls :: "bool \<Rightarrow> (out_line \<Rightarrow> string list) \<Rightarrow> mms_out \<Rightarrow> line_calls" where
  "stdio_calls apart split (Own l) = (if apart then Locked (split l) else Unlocked (split l))"
| "stdio_calls apart split (Service l) = Locked (emit_calls l)"

text \<open>
  What two threads print: the lines of the main one, those of the reports, whether the reporting thread
  has the mutex, that is, is in the middle of a line; and the calls in the order they are made.
\<close>

inductive woven :: "bool \<Rightarrow> line_calls list \<Rightarrow> string list list \<Rightarrow> string list \<Rightarrow> bool" where
  nothing: "woven False [] [] []"
| locked: "woven False ms rs out \<Longrightarrow> woven False (Locked cs # ms) rs (cs @ out)"
| unlocked: "woven mid (Unlocked cs # ms) rs out \<Longrightarrow> woven mid (Unlocked (c # cs) # ms) rs (c # out)"
| unlocked_end: "woven mid ms rs out \<Longrightarrow> woven mid (Unlocked [] # ms) rs out"
| report: "woven True ms (cs # rs) out \<Longrightarrow> woven mid ms ((c # cs) # rs) (c # out)"
| report_end: "woven False ms rs out \<Longrightarrow> woven True ms ([] # rs) out"

text \<open>The arguments of \<open>report_handler\<close> for each report of the first connection, which has the handler, and its lines.\<close>

type_synonym report = "string option \<times> string \<times> mms_value option \<times> bool"

definition report_lines :: "text_lib \<Rightarrow> report list \<Rightarrow> svc_line list" where
  "report_lines L rs = cl_lines (fst (foldl (\<lambda>st (domain_name, name, v, is_list). report_handler L domain_name name v is_list st)
     (mr_client mms_run_start, 0) rs))"

definition client_stdout ::
  "bool \<Rightarrow> (out_line \<Rightarrow> string list) \<Rightarrow> client_lib \<Rightarrow> report list \<Rightarrow> mms_run \<Rightarrow> string \<Rightarrow> bool" where
  "client_stdout apart split L rs s stdout \<longleftrightarrow> (\<forall>l. concat (split l) = out_text l @ line_break) \<and>
     (rs \<noteq> [] \<longrightarrow> mr_reporting s) \<and>
     (\<exists>out. woven False (map (stdio_calls apart split) (mr_out s)) (map emit_calls (report_lines (text_lib.truncate L) rs)) out \<and>
        stdout = concat out)"

lemma report_lines_map:
  "report_lines L rs = map (\<lambda>(domain_name, name, v, is_list). \<lparr>ln_op = ''information-report'',
     ln_target = report_target domain_name name is_list, ln_ok = True, ln_more = [(''value'', sb_value L v)]\<rparr>) rs"
proof -
  have "cl_lines (fst (foldl (\<lambda>st (domain_name, name, v, is_list). report_handler L domain_name name v is_list st) st rs)) =
      cl_lines (fst st) @ map (\<lambda>(domain_name, name, v, is_list). \<lparr>ln_op = ''information-report'',
        ln_target = report_target domain_name name is_list, ln_ok = True, ln_more = [(''value'', sb_value L v)]\<rparr>) rs" for st
    by (induction rs arbitrary: st) (auto simp: report_handler_def emit_value_def emit_text_def emit_line_def)
  then show ?thesis by (simp add: report_lines_def mms_run_start_def)
qed

lemma woven_locked:
  "woven mid ms rs out \<Longrightarrow> ms = map Locked cs \<Longrightarrow>
   (if mid then \<exists>r rs' ls. rs = r # rs' \<and> ls \<in> shuffles cs rs' \<and> out = r @ concat ls
    else \<exists>ls \<in> shuffles cs rs. out = concat ls)"
proof (induction arbitrary: cs rule: woven.induct)
  case (locked ms rs out cs')
  then obtain cs1 where cs: "cs = cs' # cs1" "ms = map Locked cs1" by auto
  with locked.IH obtain ls where ls: "ls \<in> shuffles cs1 rs" "out = concat ls" by auto
  have "cs' # ls \<in> shuffles cs rs" using ls(1) unfolding cs(1) by (rule Cons_in_shuffles_leftI)
  moreover have "cs' @ out = concat (cs' # ls)" using ls(2) by simp
  ultimately show ?case by (metis (full_types))
next
  case (report ms cs' rs out mid c)
  then obtain ls where ls: "ls \<in> shuffles cs rs" "out = cs' @ concat ls" by auto
  have "\<exists>ls \<in> shuffles cs ((c # cs') # rs). c # out = concat ls"
    using ls(2) by (intro bexI [OF _ Cons_in_shuffles_rightI [OF ls(1)]]) simp
  with ls show ?case by (cases mid) auto
next
  case (report_end ms rs out)
  from report_end.IH [OF report_end.prems] obtain ls where "ls \<in> shuffles cs rs" "out = concat ls" by auto
  then show ?case by auto
qed (simp_all only: Cons_eq_map_conv line_calls.distinct simp_thms, simp)

lemma woven_alone: "woven mid ms rs out \<Longrightarrow> rs = [] \<Longrightarrow>
   concat out = concat (map (\<lambda>m. case m of Locked cs \<Rightarrow> concat cs | Unlocked cs \<Rightarrow> concat cs) ms)"
  by (induction rule: woven.induct) auto

lemma shuffles_map: "zs \<in> shuffles (map f xs) (map f ys) \<Longrightarrow> \<exists>ls \<in> shuffles xs ys. zs = map f ls"
proof (induction xs ys arbitrary: zs rule: shuffles.induct)
  case (3 x xs y ys)
  from "3.prems" consider us where "zs = f x # us" "us \<in> shuffles (map f xs) (map f (y # ys))"
    | us where "zs = f y # us" "us \<in> shuffles (map f (x # xs)) (map f ys)"
    by auto
  then show ?case
  proof cases
    case 1
    from "3.IH"(1) [OF 1(2)] obtain ls where ls: "ls \<in> shuffles xs (y # ys)" "us = map f ls" by blast
    from Cons_in_shuffles_leftI [OF ls(1), of x] show ?thesis by (rule bexI [rotated]) (simp add: 1(1) ls(2))
  next
    case 2
    from "3.IH"(2) [OF 2(2)] obtain ls where ls: "ls \<in> shuffles (x # xs) ys" "us = map f ls" by blast
    from Cons_in_shuffles_rightI [OF ls(1), of y] show ?thesis by (rule bexI [rotated]) (simp add: 2(1) ls(2))
  qed
qed auto

text \<open>When the reports keep apart from the lines of \<open>mms_client.c\<close>, or when there are none, every line is whole.\<close>

lemma whole_lines:
  assumes "client_stdout apart split L rs s stdout" "apart \<or> rs = []"
  shows "\<exists>ls \<in> shuffles (mr_out s) (map Service (report_lines (text_lib.truncate L) rs)).
    stdout = concat (map (\<lambda>l. mms_out_text l @ line_break) ls)"
proof -
  let ?rs = "report_lines (text_lib.truncate L) rs"
  from assms(1) obtain out where split: "\<And>l. concat (split l) = out_text l @ line_break"
    and out: "woven False (map (stdio_calls apart split) (mr_out s)) (map emit_calls ?rs) out" "stdout = concat out"
    unfolding client_stdout_def by blast
  let ?calls = "\<lambda>l. case l of Own l \<Rightarrow> split l | Service l \<Rightarrow> emit_calls l"
  have calls: "concat (?calls l) = mms_out_text l @ line_break" for l
    using split by (cases l) (simp_all add: emit_calls_def)
  show ?thesis
  proof (cases apart)
    case True
    have "stdio_calls apart split l = Locked (?calls l)" for l using True by (cases l) simp_all
    then have "map (stdio_calls apart split) (mr_out s) = map Locked (map ?calls (mr_out s))" by simp
    with woven_locked [OF out(1)] obtain cs where cs: "cs \<in> shuffles (map ?calls (mr_out s)) (map emit_calls ?rs)" "out = concat cs"
      by fastforce
    moreover have "map emit_calls ?rs = map ?calls (map Service ?rs)" by simp
    ultimately obtain ls where ls: "ls \<in> shuffles (mr_out s) (map Service ?rs)" "cs = map ?calls ls"
      using shuffles_map [of cs ?calls "mr_out s" "map Service ?rs"] by metis
    have "concat (concat (map ?calls ls)) = concat (map (\<lambda>l. mms_out_text l @ line_break) ls)"
      by (induction ls) (simp_all add: calls)
    with ls cs(2) out(2) show ?thesis by blast
  next
    case False
    with assms(2) have none: "?rs = []" by (simp add: report_lines_map)
    have one: "(case stdio_calls apart split l of Locked cs \<Rightarrow> concat cs | Unlocked cs \<Rightarrow> concat cs) = mms_out_text l @ line_break" for l
      using split by (cases l) (simp_all add: emit_calls_def)
    have "stdout = concat (map (\<lambda>l. mms_out_text l @ line_break) (mr_out s))"
      using woven_alone [OF out(1)] none out(2) by (simp add: o_def one)
    then show ?thesis using none by auto
  qed
qed

text \<open>Without the mutex a report can stand in the middle of a line of two calls.\<close>

lemma report_splits_line:
  assumes "\<And>l. concat (split l) = out_text l @ line_break" "split l = [front, back]" "mr_out s = [Own l]" "mr_reporting s"
  shows "client_stdout False split L [(d, n, v, is_list)] s
    (front @ line_text (hd (report_lines (text_lib.truncate L) [(d, n, v, is_list)])) @ line_break @ back)"
proof -
  have "woven False [Unlocked [front, back]] [[t, line_break]] [front, t, line_break, back]" for t
    by (intro woven.intros)
  from this [of "line_text (hd (report_lines (text_lib.truncate L) [(d, n, v, is_list)]))"] assms show ?thesis
    unfolding client_stdout_def by (fastforce simp: report_lines_map emit_calls_def)
qed

text \<open>C25: The contract of the MMS client. The main thread of a run that exits with 0 has printed,
  whatever the server answered, one line per operation: the 28 of the sequence, the 51 of the
  services, the conclude, the read and conclude of the second connection, the abort of the third
  with its read when it was connected, and the server's abort of the fourth; besides these only lines
  that close files. On stdout stand between them the lines of the information reports, one per
  report, which another thread prints: the rest is this contract in its order, if no report is
  printed in the middle of a line of \<open>mms_client.c\<close>, which takes no mutex, or no report comes.\<close>

theorem mms_client_contract:
  assumes "mms_client_main version conn L counts created1 created2 lost1 lost2 argv = Some (Returns (Finished 0 s))"
  shows "\<exists>before. length (operation_keys True) = 28 \<and>
    filter (\<lambda>k. fst k \<noteq> ''file-close'') (map out_key (mr_out s)) =
      operation_keys True @ contract @ [(''conclude'', []), (''read'', ''interop/boolean''), (''conclude'', [])] @
      before @ [(''abort'', []), (''server-abort'', [])] \<and>
    before \<in> {[], [(''read'', ''interop/boolean#before-abort'')]} \<and>
    (\<forall>apart split rs stdout. client_stdout apart split L rs s stdout \<and> (apart \<or> rs = []) \<longrightarrow>
       (\<exists>ls. stdout = concat (map (\<lambda>l. mms_out_text l @ line_break) ls) \<and>
          filter (\<lambda>l. fst (out_key l) \<noteq> ''information-report'') ls = mr_out s \<and>
          map out_key (filter (\<lambda>l. fst (out_key l) = ''information-report'') ls) =
            map (\<lambda>(d, n, v, is_list). (''information-report'', report_target d n is_list)) rs))"
proof -
  obtain ab where ab: "abort_keys ab" "out_keys (mr_out s) = operation_keys True @ contract @
      [(''conclude'', []), (''read'', ''interop/boolean''), (''conclude'', [])] @ ab @ [(''server-abort'', [])]"
    using mms_client_prints [OF assms] by (auto simp: prints_def mms_run_start_def)
  have "length (operation_keys True) = 28" by (simp add: operation_keys_def)
  moreover obtain before where b: "ab = before @ [(''abort'', [])]" "before \<in> {[], [(''read'', ''interop/boolean#before-abort'')]}"
    using ab(1) unfolding abort_keys_def by fastforce
  moreover have "\<exists>ls. stdout = concat (map (\<lambda>l. mms_out_text l @ line_break) ls) \<and>
      filter (\<lambda>l. fst (out_key l) \<noteq> ''information-report'') ls = mr_out s \<and>
      map out_key (filter (\<lambda>l. fst (out_key l) = ''information-report'') ls) =
        map (\<lambda>(d, n, v, is_list). (''information-report'', report_target d n is_list)) rs"
    if "client_stdout apart split L rs s stdout \<and> (apart \<or> rs = [])" for apart split rs stdout
  proof -
    let ?rs = "map Service (report_lines (text_lib.truncate L) rs)"
    have reports: "map out_key ?rs = map (\<lambda>(d, n, v, is_list). (''information-report'', report_target d n is_list)) rs"
      by (auto simp: report_lines_map)
    have "(''information-report'', t) \<notin> set (out_keys (mr_out s))" for t
      using b(2) unfolding ab(2) b(1) by (auto simp: operation_keys_def contract_def)
    then have own: "fst (out_key l) \<noteq> ''information-report''" if "l \<in> set (mr_out s)" for l
      using that unfolding out_keys_def by (cases "out_key l") force
    have "\<exists>ls \<in> shuffles (mr_out s) ?rs. stdout = concat (map (\<lambda>l. mms_out_text l @ line_break) ls)"
      using that whole_lines by blast
    then obtain ls where ls: "ls \<in> shuffles (mr_out s) ?rs" "stdout = concat (map (\<lambda>l. mms_out_text l @ line_break) ls)"
      by blast
    let ?P = "\<lambda>l. fst (out_key l) \<noteq> ''information-report''"
    have rep: "\<not> ?P l" if "l \<in> set ?rs" for l using that by (auto simp: report_lines_map)
    have "filter ?P ls \<in> shuffles (filter ?P (mr_out s)) (filter ?P ?rs)"
      "filter (\<lambda>l. \<not> ?P l) ls \<in> shuffles (filter (\<lambda>l. \<not> ?P l) (mr_out s)) (filter (\<lambda>l. \<not> ?P l) ?rs)"
      using ls(1) filter_shuffles [symmetric] by blast+
    moreover have "filter ?P (mr_out s) = mr_out s" "filter (\<lambda>l. \<not> ?P l) (mr_out s) = []"
      using own by (auto simp: filter_id_conv filter_empty_conv)
    moreover have "filter ?P ?rs = []" "filter (\<lambda>l. \<not> ?P l) ?rs = ?rs"
      using rep by (auto simp: filter_id_conv filter_empty_conv)
    ultimately have "filter ?P ls = mr_out s" "filter (\<lambda>l. \<not> ?P l) ls = ?rs" by simp_all
    then show ?thesis using ls(2) reports by (intro exI [of _ ls]) simp
  qed
  ultimately show ?thesis using ab(2) unfolding out_keys_def by auto
qed

text \<open>C27: What the MMS client prints is lines of JSON. Let the floats the server sends, in reports too,
  print as numbers, its strings hold no control character, and its names no quote or backslash
  either; and let no report be printed in the middle of a line of \<open>mms_client.c\<close>, which prints some
  lines by several calls and without the mutex, or none come. Then stdout, to whatever exit code,
  the lines of the information reports included, is a sequence of lines, each a JSON text by the
  grammar of RFC 8259 that holds no line break. A report in the middle would break such a line.\<close>

theorem mms_client_json:
  assumes "mms_client_main version conn L counts created1 created2 lost1 lost2 argv = Some (Returns (Finished rc s))"
    "printable_server L conn" "list_all (\<lambda>(d, n, v, is_list). floats_print (text_lib.truncate L) v) rs"
    "client_stdout apart split L rs s stdout" "apart \<or> rs = []"
  shows "\<exists>ls. stdout = concat (map (\<lambda>l. l @ line_break) ls) \<and>
    list_all (\<lambda>l. json_syntax l \<and> list_all (\<lambda>c. 0x20 \<le> code c) l) ls"
proof -
  let ?rs = "report_lines (text_lib.truncate L) rs"
  have own: "list_all (\<lambda>l. json_syntax (mms_out_text l)) (mr_out s)"
    using mms_client_prints [OF assms(1)] assms(2) by (auto simp: prints_def mms_run_start_def)
  have reports: "list_all (\<lambda>l. json_syntax (mms_out_text l)) (map Service ?rs)"
    using assms(3) by (auto simp: report_lines_map list_all_iff json_syntax_value json_line_def [symmetric] plain_def intro!: json_line)
  obtain ls where ls: "ls \<in> shuffles (mr_out s) (map Service ?rs)" "stdout = concat (map (\<lambda>l. mms_out_text l @ line_break) ls)"
    using whole_lines [OF assms(4,5)] by blast
  have "list_all (\<lambda>l. json_syntax (mms_out_text l)) ls"
    using own reports set_shuffles [OF ls(1)] by (auto simp: list_all_iff)
  then have "list_all (\<lambda>l. json_syntax l \<and> list_all (\<lambda>c. 0x20 \<le> code c) l) (map mms_out_text ls)"
    using json_syntax_one_line by (fastforce simp: list_all_iff)
  with ls(2) show ?thesis by (intro exI [of _ "map mms_out_text ls"]) (simp add: o_def)
qed

lemma mms_client_total:
  assumes "typed_server conn" "stops_after N conn"
  shows "\<exists>r. mms_client_main version conn L counts created1 created2 lost1 lost2 argv = Some (Returns r)"
proof (cases "jl_handle_meta_flags version argv ''libiec61850''")
  case None
  let ?h = "mo_host (mms_client_args argv)" and ?p = "mo_port (mms_client_args argv)"
  obtain rc t where first: "run_sequence conn L counts created1 ?h ?p True mms_run_start = Some (Returns (rc, t))"
    using run_sequence_returns [OF assms] by blast
  obtain rc' u where "run_sequence conn L counts created2 ?h ?p False t = Some (Returns (rc', u))"
    using run_sequence_returns [OF assms] by blast
  with None first show ?thesis by (simp add: mms_client_main_def Let_def)
qed (simp add: mms_client_main_def)

text \<open>C26: The MMS client ends. When the server answers the variables with values of the types of the
  fixture, and from some number of requests on no longer says that more follows, then the client
  runs to an exit code (or prints the answer to a meta flag) and decodes no value with an accessor
  of another type.\<close>

theorem mms_client_returns:
  assumes "typed_server conn" "stops_after N conn"
  shows "\<exists>r. mms_client_main version conn L counts created1 created2 lost1 lost2 argv = Some (Returns r)"
  by (rule mms_client_total [OF assms])

section \<open>A server that only lets clients connect\<close>

definition unhelpful_server :: connection where
  "unhelpful_server h r = (case r of Connect _ _ \<Rightarrow> (failing_server h r)\<lparr>an_err := None\<rparr> | _ \<Rightarrow> failing_server h r)"

lemma unhelpful_simps [simp]:
  "an_value (unhelpful_server h r) = None" "\<not> an_result (unhelpful_server h r)" "an_names (unhelpful_server h r) = None"
  "an_identity (unhelpful_server h r) = None" "an_journal (unhelpful_server h r) = None"
  "an_err (unhelpful_server h (Connect host port)) = None"
  by (simp_all add: unhelpful_server_def failing_server_def split: mms_request.split)

lemma unhelpful_server_typed: "typed_server unhelpful_server" "stops_after 0 unhelpful_server"
  by (simp_all add: typed_server_def stops_after_def)

lemma connected_run:
  assumes "typed_server conn" "stops_after N conn" "\<And>h. an_err (conn h (Connect ''127.0.0.1'' 1102)) = None"
  shows "\<exists>s. mms_client_main None conn L counts True True lost1 lost2 [''mms-client''] = Some (Returns (Finished 0 s))"
proof -
  let ?run = "\<lambda>full s. run_sequence conn L counts True ''127.0.0.1'' 1102 full s"
  have zero: "\<exists>t. ?run full s = Some (Returns (0, t))" for full s
  proof -
    obtain rc t where t: "?run full s = Some (Returns (rc, t))" using run_sequence_returns [OF assms(1,2)] by blast
    from run_sequence_connected [OF t _ assms(3)] t show ?thesis by simp
  qed
  obtain t where t: "?run True mms_run_start = Some (Returns (0, t))" using zero by blast
  obtain u where u: "?run False t = Some (Returns (0, u))" using zero by blast
  have "mms_client_args [''mms-client''] = \<lparr>mo_host = ''127.0.0.1'', mo_port = 1102\<rparr>" by (simp add: mms_client_args_def)
  then show ?thesis using t u by (simp add: mms_client_main_def Let_def jl_handle_meta_flags_def)
qed

lemma unhelpful_run:
  "\<exists>s. mms_client_main None unhelpful_server sample_client_lib (\<lambda>_. 0) True True True True [''mms-client''] = Some (Returns (Finished 0 s))"
  by (rule connected_run [OF unhelpful_server_typed]) simp

text \<open>All lines of the main thread, each by one call, then the reports.\<close>

lemma woven_one_after_the_other:
  assumes "mr_reporting s"
  shows "client_stdout True (\<lambda>l. [out_text l @ line_break]) L rs s
     (concat (map (\<lambda>l. mms_out_text l @ line_break) (mr_out s)) @
      concat (map (\<lambda>l. line_text l @ line_break) (report_lines (text_lib.truncate L) rs)))"
proof -
  let ?split = "\<lambda>l. [out_text l @ line_break]"
  let ?calls = "\<lambda>l. case l of Own l \<Rightarrow> ?split l | Service l \<Rightarrow> emit_calls l"
  have reports: "woven False [] (map emit_calls ls) (concat (map emit_calls ls))" for ls
    by (induction ls) (auto simp: emit_calls_def intro!: woven.intros)
  have own: "stdio_calls True ?split l = Locked (?calls l)" for l by (cases l) simp_all
  have "woven False (map (stdio_calls True ?split) os) (map emit_calls ls) (concat (map ?calls os) @ concat (map emit_calls ls))" for os ls
    by (induction os) (simp_all add: own reports woven.locked)
  moreover have "concat (concat (map ?calls os)) = concat (map (\<lambda>l. mms_out_text l @ line_break) os)" for os
    by (induction os) (auto simp: emit_calls_def split: mms_out.splits)
  moreover have "concat (concat (map emit_calls ls)) = concat (map (\<lambda>l. line_text l @ line_break) ls)" for ls
    by (induction ls) (simp_all add: emit_calls_def)
  ultimately show ?thesis using assms unfolding client_stdout_def by (metis concat_append concat.simps append_Nil2)
qed

theorem mms_client_contract_witness:
  "\<exists>s. mms_client_main None unhelpful_server sample_client_lib (\<lambda>_. 0) True True True True [''mms-client''] = Some (Returns (Finished 0 s)) \<and>
     take 28 (filter (\<lambda>k. fst k \<noteq> ''file-close'') (map out_key (mr_out s))) = operation_keys True"
proof -
  obtain s where s: "mms_client_main None unhelpful_server sample_client_lib (\<lambda>_. 0) True True True True [''mms-client''] =
      Some (Returns (Finished 0 s))" using unhelpful_run by blast
  from mms_client_contract [OF s] s show ?thesis by auto
qed

theorem mms_client_json_witness:
  "\<exists>s ls. mms_client_main None unhelpful_server sample_client_lib (\<lambda>_. 0) True True True True [''mms-client''] = Some (Returns (Finished 0 s)) \<and>
     concat (map (\<lambda>l. mms_out_text l @ line_break) (mr_out s)) @ concat (map (\<lambda>l. line_text l @ line_break)
       (report_lines (text_lib.truncate sample_client_lib) [(None, ''interop-report'', Some (MBoolean True), True)])) =
       concat (map (\<lambda>l. l @ line_break) ls) \<and>
     list_all (\<lambda>l. json_syntax l \<and> list_all (\<lambda>c. 0x20 \<le> code c) l) ls"
proof -
  obtain s where s: "mms_client_main None unhelpful_server sample_client_lib (\<lambda>_. 0) True True True True [''mms-client''] =
      Some (Returns (Finished 0 s))" using unhelpful_run by blast
  have p: "printable_server sample_client_lib unhelpful_server"
    by (simp add: printable_server_def printable_answer_def answers_print_def answer_prints_def)
  from mms_client_json [OF s p _ woven_one_after_the_other [OF main_handler [OF s]], of "[(None, ''interop-report'', Some (MBoolean True), True)]"] s
  show ?thesis by auto
qed

theorem mms_client_returns_witness:
  "\<exists>r. mms_client_main None unhelpful_server sample_client_lib (\<lambda>_. 0) True True True True [''mms-client''] = Some (Returns r)"
  by (rule mms_client_returns [OF unhelpful_server_typed])

section \<open>Other facts\<close>

text \<open>
  Only the reads that are to fail look at \<open>MMS_DATA_ACCESS_ERROR\<close>: the others decode such an answer as
  a value of the variable's type.
\<close>

lemma access_error_decoded:
  assumes "ask_mms conn (ReadVariable ''interop'' ''boolean'') s = (a, t)" "mms_err t = MMS_ERROR_NONE"
    "an_value a = Some (MDataAccessError e)"
  shows "read_boolean conn L s = Undefined"
  using assms by (simp add: read_boolean_def read_step_of_def text_bool_def)

text \<open>\<open>jl_read_string\<close> leaves the control characters as they are, which no JSON string may hold.\<close>

lemma newline_unescaped: "text_string L (MVisibleString [CHR 0x0A]) = Returns [CHR 0x22, CHR 0x0A, CHR 0x22]"
  by (simp add: text_string_def jl_read_string_text_def quoted_def)

end
