(* ===== verification/MmsLink.thy ===== *)
theory MmsLink
  imports MmsServer MmsClient
begin

text \<open>
  The MMS client of \<open>mms_client.c\<close> against the server of \<open>mms_server.c\<close>: the types the client decodes
  with are those the server's fixture gives its variables, and what no client can change is printed as the
  fixture has it.
\<close>

section \<open>The connection\<close>

text \<open>The decoder of each variable the client reads.\<close>

definition text_of :: "client_lib \<Rightarrow> string \<Rightarrow> mms_value \<Rightarrow> string outcome" where
  "text_of L item =
     (if item = ''boolean'' then text_bool L
      else if item = ''integer'' then text_int L
      else if item = ''unsigned'' then text_uint L
      else if item = ''float32'' then text_float L
      else if item = ''octet-string'' then text_bytes L
      else if item = ''bit-string'' then text_bits L
      else if item = ''utc-time'' then text_utctime L
      else if item = ''array'' then text_array_ints L
      else if item = ''structure'' then text_structure_bool_int L
      else text_string L)"

text \<open>The type a variable needs for its decoder.\<close>

definition wants :: "string \<Rightarrow> spec_type \<Rightarrow> bool" where
  "wants item t =
     (if item = ''boolean'' then t = TBoolean
      else if item = ''integer'' then (\<exists>n. t = TInteger n)
      else if item = ''unsigned'' then (\<exists>n. t = TUnsigned n)
      else if item = ''float32'' then (\<exists>e n. t = TFloat e n)
      else if item = ''octet-string'' then (\<exists>n. t = TOctetString n)
      else if item = ''bit-string'' then (\<exists>n. t = TBitString n)
      else if item = ''utc-time'' then t = TUtcTime
      else if item = ''array'' then (\<exists>name n k. t = TArray (Some (Spec name (TInteger n))) k)
      else if item = ''structure'' then (\<exists>a b n. t = TStructure [Spec a TBoolean, Spec b (TInteger n)])
      else True)"

definition decoded_items :: "string list" where
  "decoded_items = [''boolean'', ''integer'', ''unsigned'', ''float32'', ''octet-string'', ''bit-string'', ''utc-time'', ''array'', ''structure'']"

text \<open>A fixture for the client: its domain interop has the variables, of these types.\<close>

definition interop_variable :: "fixture_def \<Rightarrow> var_def \<Rightarrow> bool" where
  "interop_variable f v \<longleftrightarrow> (''interop'', v) \<in> set (all_vars f)"

definition client_fixture :: "fixture_def \<Rightarrow> bool" where
  "client_fixture f \<longleftrightarrow>
     list_all (\<lambda>item. \<exists>v. interop_variable f v \<and> vd_name v = item \<and> wants item (spec_type (vd_spec v))) decoded_items"

text \<open>
  An association with the server: a read of a variable the server has that is answered with a value is
  answered with the one in the cache, after some writes of this and other clients; a read of a list
  of variables with a list.
\<close>

definition reads_from :: "server_lib \<Rightarrow> mms_server \<Rightarrow> connection \<Rightarrow> bool" where
  "reads_from S s0 conn \<longleftrightarrow> (\<forall>h. \<exists>s. served S s0 s \<and> (\<forall>v.
     (\<forall>item. ms_cache s (''interop'', item) \<noteq> None \<longrightarrow> an_value (conn h (ReadVariable ''interop'' item)) = Some v \<longrightarrow>
        ms_cache s (''interop'', item) = Some v) \<and>
     (\<forall>r \<in> {ReadMultipleVariables ''interop'' [''boolean'', ''integer''],
             ReadNamedVariableListValues (Some ''interop'') ''testlist'' False}.
        an_value (conn h r) = Some v \<longrightarrow> MmsValue_elements v \<noteq> Undefined)))"

lemma scalar_int: "scalar_ok (TInteger n) v \<Longrightarrow> int_element (Some v)"
  by (cases v) (simp_all add: scalar_ok_def)

lemma scalar_bool: "scalar_ok TBoolean v \<Longrightarrow> \<exists>b. v = MBoolean b"
  by (cases v) (simp_all add: scalar_ok_def)

lemma wanted_structure:
  assumes "conforms (TStructure [Spec a TBoolean, Spec b (TInteger n)]) v"
  shows "expected_value ''structure'' v"
proof -
  obtain vs where v: "v = MStructure vs"
    "list_all2 (\<lambda>c v. spec_name c \<noteq> None \<and> v \<noteq> None \<and> scalar_ok (spec_type c) (the v)) [Spec a TBoolean, Spec b (TInteger n)] vs"
    using assms by (cases v) (auto simp: conforms_def)
  then obtain x y where xy: "vs = [Some x, Some y]" "scalar_ok TBoolean x" "scalar_ok (TInteger n) y"
    unfolding list_all2_Cons1 by auto
  obtain c where "x = MBoolean c" using scalar_bool [OF xy(2)] by blast
  moreover have "int_element (Some y)" using xy(3) by (rule scalar_int)
  ultimately show ?thesis by (cases c) (simp_all add: expected_value.simps v(1) xy(1), metis)
qed

lemma wanted_array: "conforms (TArray (Some (Spec name (TInteger n))) k) v \<Longrightarrow> expected_value ''array'' v"
  using scalar_int [of n] by (cases v) (fastforce simp: conforms_def expected_value.simps list_all_iff)+

lemma wanted_scalar:
  "wants item t \<Longrightarrow> conforms t v \<Longrightarrow> item \<noteq> ''array'' \<Longrightarrow> item \<noteq> ''structure'' \<Longrightarrow> expected_value item v"
  by (cases v) (auto simp: wants_def conforms_def scalar_ok_def expected_value.simps split: if_splits)

lemma wanted_value:
  assumes "wants item t" "conforms t v"
  shows "expected_value item v"
proof -
  consider "item = ''array''" | "item = ''structure''" | "item \<noteq> ''array''" "item \<noteq> ''structure''" by blast
  then show ?thesis
  proof cases
    case 1
    with assms show ?thesis by (auto simp: wants_def wanted_array)
  next
    case 2
    with assms show ?thesis by (auto simp: wants_def wanted_structure)
  next
    case 3
    with assms show ?thesis by (simp add: wanted_scalar)
  qed
qed


lemma server_start_inv:
  assumes "server_main L sys argv = Returns (Serves f s0 calls line)" "names_ok f"
  shows "server_inv f s0"
proof -
  obtain root where start: "fixture_load L root = Returns (Some f)"
    "s0 = \<lparr>ms_entries = fst (register_vars f), ms_domains = map md_name (build_device f),
       ms_reports = fx_reports f, ms_cache = snd (register_vars f), ms_sent = []\<rparr>"
    using assms(1) by (rule server_main_serves)
  show ?thesis by (rule server_inv_start [OF start(1) assms(2) start(2)]) (use loaded_conforms [OF start(1)] in blast)
qed

lemma interop_cached:
  assumes "server_inv f s" "interop_variable f v"
  obtains w where "ms_cache s (''interop'', vd_name v) = Some w" "conforms (spec_type (vd_spec v)) w"
    "fixed_var v \<Longrightarrow> w = vd_value v"
proof -
  let ?x = "(''interop'', v)"
  have x: "?x \<in> set (all_vars f)" "var_key ?x = (''interop'', vd_name v)"
    using assms(2) by (simp_all add: interop_variable_def var_key_def)
  from assms(1) have "dom (ms_cache s) = var_key ` set (all_vars f)" by (simp add: server_inv_def)
  with x(1) have "var_key ?x \<in> dom (ms_cache s)" by blast
  then obtain w where "ms_cache s (''interop'', vd_name v) = Some w" using x(2) by auto
  with assms(1) x that show thesis by (fastforce simp: server_inv_def)
qed

lemma reads_cached:
  assumes "reads_from S s0 conn" "server_inv f s0" "names_ok f" "cache_find_ok S" "update_ok S" "interop_variable f v"
    and "an_value (conn h (ReadVariable ''interop'' (vd_name v))) = Some w"
  shows "conforms (spec_type (vd_spec v)) w" "fixed_var v \<Longrightarrow> w = vd_value v"
proof -
  obtain s where s: "served S s0 s"
    "ms_cache s (''interop'', vd_name v) \<noteq> None \<Longrightarrow> ms_cache s (''interop'', vd_name v) = Some w"
    using assms(1,7) unfolding reads_from_def by meson
  have inv: "server_inv f s" by (rule served_inv [OF s(1) assms(2-5)])
  obtain u where u: "ms_cache s (''interop'', vd_name v) = Some u" "conforms (spec_type (vd_spec v)) u"
    "fixed_var v \<Longrightarrow> u = vd_value v" using inv assms(6) by (rule interop_cached) blast
  with s(2) show "conforms (spec_type (vd_spec v)) w" "fixed_var v \<Longrightarrow> w = vd_value v" by simp_all
qed

lemma served_typed:
  assumes "reads_from S s0 conn" "server_inv f s0" "names_ok f" "cache_find_ok S" "update_ok S" "client_fixture f"
  shows "typed_server conn"
  unfolding typed_server_def
proof (intro allI conjI impI)
  fix h v item
  assume a: "an_value (conn h (ReadVariable ''interop'' item)) = Some v"
  show "expected_value item v"
  proof (cases "item \<in> set decoded_items")
    case True
    then obtain x where x: "interop_variable f x" "vd_name x = item" "wants item (spec_type (vd_spec x))"
      using assms(6) by (auto simp: client_fixture_def list_all_iff)
    from reads_cached(1) [OF assms(1-5) x(1), of h v] a x(2,3) show ?thesis by (simp add: wanted_value)
  next
    case False
    then show ?thesis by (simp add: decoded_items_def expected_value.simps)
  qed
next
  fix h v
  show "\<forall>r \<in> {ReadMultipleVariables ''interop'' [''boolean'', ''integer''],
             ReadNamedVariableListValues (Some ''interop'') ''testlist'' False}.
        an_value (conn h r) = Some v \<longrightarrow> MmsValue_elements v \<noteq> Undefined"
    using assms(1) unfolding reads_from_def by blast
qed

section \<open>What the client prints\<close>

text \<open>A line that reports a value of a read: the value comes from the connection, decoded for its variable.\<close>

fun honest :: "connection \<Rightarrow> client_lib \<Rightarrow> mms_out \<Rightarrow> bool" where
  "honest conn L (Service l) = True"
| "honest conn L (Own l) \<longleftrightarrow> (ol_op l = ''read'' \<and> ol_ok l \<and> ol_more l \<noteq> [] \<longrightarrow>
     (\<exists>h item v t. ol_target l = Some (''interop/'' @ item) \<and> an_value (conn h (ReadVariable ''interop'' item)) = Some v \<and>
        text_of L item v = Returns t \<and> ol_more l = [(''value'', t)]))"

definition honest_step :: "connection \<Rightarrow> client_lib \<Rightarrow> (mms_run \<Rightarrow> mms_run outcome) \<Rightarrow> bool" where
  "honest_step conn L f \<longleftrightarrow>
     (\<forall>s s'. f s = Returns s' \<longrightarrow> list_all (honest conn L) (mr_out s) \<longrightarrow> list_all (honest conn L) (mr_out s'))"

lemma honest_simps [simp]:
  "list_all (honest conn L) (mr_out (own_line l s)) \<longleftrightarrow> list_all (honest conn L) (mr_out s) \<and> honest conn L (Own l)"
  "list_all (honest conn L) (mr_out (service_lines c s)) \<longleftrightarrow> list_all (honest conn L) (mr_out s)"
  by (auto simp: own_line_def service_lines_def list_all_iff)

lemma honest_read:
  assumes "text_of L item = decode"
  shows "honest_step conn L (read_step_of conn item decode)"
  unfolding honest_step_def
proof (intro allI impI)
  fix s s'
  assume s': "read_step_of conn item decode s = Returns s'" and s: "list_all (honest conn L) (mr_out s)"
  obtain a t where c: "ask_mms conn (ReadVariable ''interop'' item) s = (a, t)" by force
  have t: "list_all (honest conn L) (mr_out t)" using s ask_mms_simps(1) [OF c] by simp
  show "list_all (honest conn L) (mr_out s')"
  proof (cases "mms_err t = MMS_ERROR_NONE \<and> (\<exists>v. an_value a = Some v)")
    case True
    then obtain v u where v: "an_value a = Some v" "decode v = Returns u" "s' = own_line (read_line (''interop/'' @ item) u) t"
      using s' c by (auto simp: read_step_of_def Let_def)
    have "an_value (conn (cl_calls (mr_client s)) (ReadVariable ''interop'' item)) = Some v"
      using ask_mms_simps(2) [OF c] v(1) by simp
    with v(2) assms have "honest conn L (Own (read_line (''interop/'' @ item) u))"
      by (auto simp: read_line_def)
    with t v(3) show ?thesis by simp
  next
    case False
    then have "s' = jl_fail_target ''read'' (''interop/'' @ item) (mms_error_str (mms_err t)) t"
      using s' c by (auto simp: read_step_of_def Let_def split: if_splits option.splits)
    with t show ?thesis by (simp add: jl_fail_target_def)
  qed
qed

lemmas line_defs =
  jl_ok_def jl_ok_target_def jl_fail_def jl_fail_target_def jl_identify_def jl_namelist_def jl_var_access_attr_def

lemma honest_check:
  "check_read_val v target s = (w, t) \<Longrightarrow> list_all (honest conn L) (mr_out s) \<Longrightarrow> list_all (honest conn L) (mr_out t)"
  by (auto simp: check_read_val_def line_defs split: option.splits if_splits mms_value.splits)

lemma honest_others:
  "honest_step conn L (identify_step conn)" "honest_step conn L (domains_step conn)" "honest_step conn L (variables_step conn)"
  "honest_step conn L (write_step_of conn item target v)" "honest_step conn L (attributes_step conn)"
  "honest_step conn L (write_multiple_step conn)" "honest_step conn L (define_nvl_step conn)"
  "honest_step conn L (delete_nvl_step conn)"
  by (auto simp: honest_step_def identify_step_def domains_step_def variables_step_def write_step_of_def emit_write_result_def
      attributes_step_def write_multiple_step_def define_nvl_step_def delete_nvl_step_def line_defs
      dest!: ask_mms_simps(1) split: prod.splits option.splits if_splits)

lemma honest_values: "op \<noteq> ''read'' \<Longrightarrow> honest_step conn L (values_step conn L op target r)"
  by (auto simp: honest_step_def values_step_def jl_values_array_def line_defs
      dest!: ask_mms_simps(1) split: prod.splits option.splits if_splits)

lemma honest_negative: "honest_step conn L (negative_read_step conn domain_name item)"
  by (auto simp: honest_step_def negative_read_step_def Let_def line_defs
      dest!: ask_mms_simps(1) honest_check split: prod.splits if_splits)

lemma honest_checked: "list_all (honest_step conn L) fs \<Longrightarrow> honest_step conn L (run_checked fs)"
proof (induction fs)
  case (Cons f fs)
  then show ?case unfolding honest_step_def by (fastforce simp: honest_step_def)
qed (simp add: honest_step_def)

lemma honest_operations: "list_all (honest_step conn L) (operations conn L full)"
  by (simp add: operations_def phase_1a_names_def phase_1a_def phase_1c_scalars_def phase_1c_model_def phase_1c_negative_def
      read_boolean_def honest_others honest_values honest_negative honest_read text_of_def)

lemma honest_sequence:
  assumes "run_sequence conn L counts created host port full s = Some (Returns (rc, s'))" "list_all (honest conn L) (mr_out s)"
  shows "list_all (honest conn L) (mr_out s')"
proof -
  have conclude: "list_all (honest conn L) (mr_out (conclude_step conn t))" if "list_all (honest conn L) (mr_out t)" for t
    using that by (auto simp: conclude_step_def line_defs dest!: ask_mms_simps(1) split: prod.split)
  obtain a t where c: "ask_mms conn (Connect host port)
      (if full then services_install_report_handler (clear_error s) else clear_error s) = (a, t)" by force
  have t: "list_all (honest conn L) (mr_out t)"
    using assms(2) ask_mms_simps(1) [OF c] by (simp add: services_install_report_handler_def split: if_splits)
  have ops: "list_all (honest conn L) (mr_out u)" if "run_checked (operations conn L full) t = Returns u" for u
    using honest_checked [OF honest_operations] that t unfolding honest_step_def by blast
  show ?thesis
    using assms c t ops conclude
    by (auto simp: run_sequence_def split: if_splits outcome.splits)
qed

lemma honest_main:
  assumes "mms_client_main version conn L counts created1 created2 lost1 lost2 argv = Some (Returns (Finished rc s))"
  shows "list_all (honest conn L) (mr_out s)"
  using assms
proof (cases rule: mms_client_main_cases)
  case (1 t)
  then show ?thesis using honest_sequence [OF 1(1)] by (simp add: mms_run_start_def)
next
  case (2 t)
  have "list_all (honest conn L) (mr_out t)" by (rule honest_sequence [OF 2(1)]) (simp add: mms_run_start_def)
  with honest_sequence [OF 2(2)] show ?thesis by simp
next
  case (3 t u)
  have "list_all (honest conn L) (mr_out t)" by (rule honest_sequence [OF 3(1)]) (simp add: mms_run_start_def)
  then have "list_all (honest conn L) (mr_out u)" by (rule honest_sequence [OF 3(2)])
  with 3(4) show ?thesis by (simp add: abort_connections_def Let_def)
qed


lemmas decoders_defined =
  bool_reader.decode_defined int_reader.decode_defined uint_reader.decode_defined float_reader.decode_defined
  bytes_reader.decode_defined bits_reader.decode_defined utctime_reader.decode_defined array_reader.decode_defined
  structure_reader.decode_defined

lemma text_of_simps:
  "text_of L ''boolean'' = text_bool L" "text_of L ''integer'' = text_int L" "text_of L ''unsigned'' = text_uint L"
  "text_of L ''float32'' = text_float L" "text_of L ''octet-string'' = text_bytes L" "text_of L ''bit-string'' = text_bits L"
  "text_of L ''utc-time'' = text_utctime L" "text_of L ''array'' = text_array_ints L"
  "text_of L ''structure'' = text_structure_bool_int L"
  by (simp_all add: text_of_def)

lemma text_of_defined:
  assumes "expected_value item v"
  shows "\<exists>t. text_of L item v = Returns t"
proof (cases "item \<in> set decoded_items")
  case True
  then show ?thesis
    using assms unfolding decoded_items_def set_simps insert_iff empty_iff
    by (elim disjE FalseE; hypsubst; unfold text_of_simps; elim decoders_defined)
next
  case False
  then show ?thesis by (simp add: decoded_items_def text_of_def text_string_def)
qed

text \<open>If the line reports a value that was read for a target, it is this one.\<close>

fun reports_as :: "string \<Rightarrow> string \<Rightarrow> mms_out \<Rightarrow> bool" where
  "reports_as target t (Own l) =
     (if ol_op l = ''read'' \<and> ol_ok l \<and> ol_target l = Some target \<and> ol_more l \<noteq> [] then ol_more l = [(''value'', t)] else True)"
| "reports_as target t (Service l) = True"

lemma honest_reports:
  assumes "honest conn L x" "\<And>h w. an_value (conn h (ReadVariable ''interop'' item)) = Some w \<Longrightarrow> w = v" "text_of L item v = Returns t"
  shows "reports_as (''interop/'' @ item) t x"
  using assms by (cases x) fastforce+

lemma variable_wanted:
  assumes "client_fixture f" "names_ok f" "interop_variable f v" "conforms (spec_type (vd_spec v)) w"
  shows "expected_value (vd_name v) w"
proof (cases "vd_name v \<in> set decoded_items")
  case True
  then obtain x where x: "interop_variable f x" "vd_name x = vd_name v" "wants (vd_name v) (spec_type (vd_spec x))"
    using assms(1) by (auto simp: client_fixture_def list_all_iff)
  have "inj_on var_key (set (all_vars f))" using assms(2) by (simp add: names_ok_def distinct_map)
  then have "(''interop'', x) = (''interop'', v)"
    by (rule inj_onD) (use x assms(3) in \<open>simp_all add: var_key_def interop_variable_def\<close>)
  with x(3) assms(4) show ?thesis by (simp add: wanted_value)
next
  case False
  then show ?thesis by (simp add: decoded_items_def expected_value.simps)
qed

text \<open>C9: Client and server agree. Let the MMS server run with a fixture that gives the variables the
  client reads their types, its names distinct, without \<open>$\<close> and shorter than 130 characters, and let it
  answer the client's reads of one variable from its cache, after whatever writes of this and other
  clients, those of index ranges past the handler included. Then the client decodes no value with an
  accessor of another type and returns, if the server does not announce more for ever. Whenever its
  own read of one variable (not the service suite, a read of several variables or of a list) reports
  a value of a variable that is neither writable nor an array, it is the value of the fixture. The
  library's lookup finds an item under its name or the variable's, its update keeps the type.\<close>

theorem mms_link:
  assumes "server_main L sys argv = Returns (Serves f s0 calls line)" "names_ok f" "client_fixture f"
    and "cache_find_ok S" "update_ok S" "reads_from S s0 conn" "stops_after N conn"
  shows "\<exists>r. mms_client_main version conn Lc counts created1 created2 lost1 lost2 cargv = Some (Returns r) \<and>
    (\<forall>rc s v. r = Finished rc s \<and> interop_variable f v \<and> fixed_var v \<longrightarrow>
      (\<exists>t. text_of Lc (vd_name v) (vd_value v) = Returns t \<and> list_all (reports_as (''interop/'' @ vd_name v) t) (mr_out s)))"
proof -
  have inv: "server_inv f s0" using assms(1,2) by (rule server_start_inv)
  note served = assms(6) inv assms(2,4,5)
  obtain r where r: "mms_client_main version conn Lc counts created1 created2 lost1 lost2 cargv = Some (Returns r)"
    using mms_client_total [OF served_typed [OF served assms(3)] assms(7)] by blast
  have "\<exists>t. text_of Lc (vd_name v) (vd_value v) = Returns t \<and> list_all (reports_as (''interop/'' @ vd_name v) t) (mr_out s)"
    if fin: "r = Finished rc s" "interop_variable f v" "fixed_var v" for rc s v
  proof -
    have "conforms (spec_type (vd_spec v)) (vd_value v)"
      using interop_cached [OF inv fin(2)] fin(3) by metis
    then obtain t where t: "text_of Lc (vd_name v) (vd_value v) = Returns t"
      using text_of_defined [OF variable_wanted [OF assms(3,2) fin(2)]] by blast
    have "reports_as (''interop/'' @ vd_name v) t x" if "honest conn Lc x" for x
      by (rule honest_reports [OF that _ t]) (use reads_cached(2) [OF served fin(2)] fin(3) in blast)
    then have "list_all (reports_as (''interop/'' @ vd_name v) t) (mr_out s)"
      using honest_main [OF r [unfolded fin(1)]] by (auto simp: list_all_iff)
    with t show ?thesis by blast
  qed
  with r show ?thesis by blast
qed

section \<open>A pair\<close>

text \<open>The variables of \<open>fixtures/mms/interop.json\<close> that the client reads, with whole numbers above 0.\<close>

definition link_fixture :: json where
  "link_fixture = JObject [(''domains'', JObject [(''interop'', JObject [(''variables'', JObject [
     (''boolean'', JObject [(''type'', JString ''boolean''), (''value'', JBool True), (''writable'', JBool True)]),
     (''integer'', JObject [(''type'', JString ''integer''), (''size'', JInt 32), (''value'', JInt 123), (''writable'', JBool True)]),
     (''unsigned'', JObject [(''type'', JString ''unsigned''), (''size'', JInt 32), (''value'', JInt 456), (''writable'', JBool True)]),
     (''float32'', JObject [(''type'', JString ''float32''), (''value'', JInt 21), (''writable'', JBool True)]),
     (''visible-string'', JObject [(''type'', JString ''visible-string''), (''size'', JInt 64), (''value'', JString ''interop''),
        (''writable'', JBool True)]),
     (''octet-string'', JObject [(''type'', JString ''octet-string''), (''value'', JString ''deadbeef'')]),
     (''bit-string'', JObject [(''type'', JString ''bit-string''), (''value'', JString ''10110'')]),
     (''utc-time'', JObject [(''type'', JString ''utc-time''), (''value'', JString ''2024-01-01T00:00:00.000Z'')]),
     (''array'', JObject [(''type'', JString ''array''), (''elementType'', JString ''integer''), (''count'', JInt 5),
        (''value'', JArray [JInt 1, JInt 2, JInt 3, JInt 4, JInt 5])]),
     (''structure'', JObject [(''type'', JString ''structure''), (''value'', JArray [
        JObject [(''type'', JString ''boolean''), (''value'', JBool True)],
        JObject [(''type'', JString ''integer''), (''value'', JInt 42)]])])])])])]"

definition link_vars :: "var_def list" where
  "link_vars = [
     \<lparr>vd_name = ''boolean'', vd_spec = Spec (Some ''boolean'') TBoolean, vd_value = MBoolean True, vd_writable = True\<rparr>,
     \<lparr>vd_name = ''integer'', vd_spec = Spec (Some ''integer'') (TInteger 32), vd_value = MInteger 123, vd_writable = True\<rparr>,
     \<lparr>vd_name = ''unsigned'', vd_spec = Spec (Some ''unsigned'') (TUnsigned 32), vd_value = MUnsigned 456, vd_writable = True\<rparr>,
     \<lparr>vd_name = ''float32'', vd_spec = Spec (Some ''float32'') (TFloat 8 32),
       vd_value = MFloat32 (f32_of_f64 sample_lib (json_get_double sample_lib (JInt 21))), vd_writable = True\<rparr>,
     \<lparr>vd_name = ''visible-string'', vd_spec = Spec (Some ''visible-string'') (TVisibleString 64), vd_value = MVisibleString ''interop'',
       vd_writable = True\<rparr>,
     \<lparr>vd_name = ''octet-string'', vd_spec = Spec (Some ''octet-string'') (TOctetString (- 1)), vd_value = MOctetString [0xDE, 0xAD, 0xBE, 0xEF],
       vd_writable = False\<rparr>,
     \<lparr>vd_name = ''bit-string'', vd_spec = Spec (Some ''bit-string'') (TBitString (- 1)),
       vd_value = MBitString [True, False, True, True, False], vd_writable = False\<rparr>,
     \<lparr>vd_name = ''utc-time'', vd_spec = Spec (Some ''utc-time'') TUtcTime,
       vd_value = MUtcTime (utc_of_ms sample_lib (parse_utc_ms ''2024-01-01T00:00:00.000Z'')), vd_writable = False\<rparr>,
     \<lparr>vd_name = ''array'', vd_spec = Spec (Some ''array'') (TArray (Some (Spec None (TInteger 32))) 5),
       vd_value = MArray [Some (MInteger 1), Some (MInteger 2), Some (MInteger 3), Some (MInteger 4), Some (MInteger 5)], vd_writable = False\<rparr>,
     \<lparr>vd_name = ''structure'', vd_spec = Spec (Some ''structure'') (TStructure [Spec (Some (''comp'' @ dec 0)) TBoolean,
         Spec (Some (''comp'' @ dec 1)) (TInteger 32)]),
       vd_value = MStructure [Some (MBoolean True), Some (MInteger 42)], vd_writable = False\<rparr>]"

definition link_loaded :: fixture_def where
  "link_loaded = \<lparr>fixture_revision = ''mms-v1'', fx_vendor = ''OTFabric'', fx_model = ''iec61850-interop'', fx_revision = ''1.0'',
      status_logical = 0, status_physical = 0, fx_domains = [\<lparr>dm_name = ''interop'', dm_vars = link_vars, dm_journals = []\<rparr>],
      fx_files = [], fx_reports = []\<rparr>"

lemma hex_deadbeef: "hex_decode ''deadbeef'' = Some [0xDE, 0xAD, 0xBE, 0xEF]"
  by (simp add: hex_decode_octets hexval_def)

lemma link_fixture_loaded: "fixture_load sample_lib (Some link_fixture) = Returns (Some link_loaded)"
  by (simp add: fixture_load_def link_fixture_def link_loaded_def link_vars_def json_get_ex_def string_member_def load_members_def
    load_reports_def load_domain_def load_variable_def json_get_string_def nul_def variable_parts_def hex_deadbeef
    build_array_spec_def make_spec_def build_array_value_def make_value_def sized_def build_structure_spec_def
    build_structure_value_def json_get_int64_def json_get_int_def json_int32_def json_get_boolean_def int_member_def or_empty_def Let_def)

definition link_system :: server_system where
  "link_system = sample_system\<lparr>sy_fixture := (\<lambda>_. Some link_fixture)\<rparr>"

text \<open>An association that only reads: every other request fails.\<close>

definition link_connection :: "mms_server \<Rightarrow> connection" where
  "link_connection s h r =
     (case r of
        Connect _ _ \<Rightarrow> (failing_server h r)\<lparr>an_err := None\<rparr>
      | ReadVariable dn item \<Rightarrow>
          (case ms_cache s (dn, item) of
             None \<Rightarrow> failing_server h r
           | Some v \<Rightarrow> (failing_server h r)\<lparr>an_err := Some MMS_ERROR_NONE, an_value := Some v\<rparr>)
      | _ \<Rightarrow> failing_server h r)"

lemma link_server_runs:
  "\<exists>s0 calls line. server_main sample_lib link_system [''mms-server''] = Returns (Serves link_loaded s0 calls line)"
proof -
  have "fx_domains link_loaded \<noteq> []" by (simp add: link_loaded_def)
  then show ?thesis
    by (auto simp: server_main_def jl_handle_meta_flags_def parse_args_def server_defaults_def link_system_def sample_system_def
      server_start_def filestore_def link_fixture_loaded populate_filestore.simps Let_def case_prod_beta)
      (simp add: link_loaded_def)
qed

lemma link_fixture_ok: "names_ok link_loaded" "client_fixture link_loaded"
proof -
  have vars: "all_vars link_loaded = map (Pair ''interop'') link_vars" by (simp add: all_vars_def link_loaded_def)
  show "names_ok link_loaded" unfolding names_ok_def vars by (simp add: link_vars_def var_key_def)
  have w: "list_all (\<lambda>v. wants (vd_name v) (spec_type (vd_spec v))) link_vars" by (simp add: link_vars_def wants_def)
  have names: "map vd_name link_vars = take 4 decoded_items @ [''visible-string''] @ drop 4 decoded_items"
    by (simp add: link_vars_def decoded_items_def)
  have "\<exists>v. interop_variable link_loaded v \<and> vd_name v = item \<and> wants item (spec_type (vd_spec v))" if "item \<in> set decoded_items" for item
  proof -
    have "set decoded_items = set (take 4 decoded_items) \<union> set (drop 4 decoded_items)" by (metis append_take_drop_id set_append)
    then have "item \<in> set (map vd_name link_vars)" using that unfolding names by auto
    then obtain v where "v \<in> set link_vars" "vd_name v = item" by auto
    with w show ?thesis unfolding interop_variable_def vars by (auto simp: list_all_iff)
  qed
  then show "client_fixture link_loaded" by (simp add: client_fixture_def list_all_iff)
qed

lemma link_connection_ok:
  "reads_from S s0 (link_connection s0)" "stops_after 0 (link_connection s0)"
  "an_err (link_connection s0 h (Connect host port)) = None"
proof -
  have "served S s0 s0" by (rule served.started)
  then show "reads_from S s0 (link_connection s0)"
    unfolding reads_from_def
    by (intro allI exI [of _ s0]) (auto simp: link_connection_def failing_server_def split: option.splits)
  show "stops_after 0 (link_connection s0)"
    by (simp add: stops_after_def link_connection_def failing_server_def split: mms_request.split option.split)
  show "an_err (link_connection s0 h (Connect host port)) = None" by (simp add: link_connection_def)
qed

lemma deadbeef_text: "text_of L ''octet-string'' (MOctetString [0xDE, 0xAD, 0xBE, 0xEF]) = Returns (quoted ''deadbeef'')"
  by (simp add: text_of_simps text_bytes_def hex_pad_2 hex_digit_chars)

theorem mms_link_witness:
  "\<exists>s0 calls line s. server_main sample_lib link_system [''mms-server''] = Returns (Serves link_loaded s0 calls line) \<and>
     mms_client_main None (link_connection s0) sample_client_lib (\<lambda>_. 0) True True True True [''mms-client''] =
       Some (Returns (Finished 0 s)) \<and>
     list_all (reports_as ''interop/octet-string'' (quoted ''deadbeef'')) (mr_out s)"
proof -
  obtain s0 calls line where m: "server_main sample_lib link_system [''mms-server''] = Returns (Serves link_loaded s0 calls line)"
    using link_server_runs by blast
  note link = mms_link [OF m link_fixture_ok sample_server_lib_ok link_connection_ok(1,2)]
  have "typed_server (link_connection s0)"
    by (rule served_typed [OF link_connection_ok(1) server_start_inv [OF m link_fixture_ok(1)] link_fixture_ok(1)
      sample_server_lib_ok link_fixture_ok(2)])
  then obtain s where s: "mms_client_main None (link_connection s0) sample_client_lib (\<lambda>_. 0) True True True True [''mms-client''] =
      Some (Returns (Finished 0 s))"
    using connected_run [OF _ link_connection_ok(2,3)] by blast
  let ?v = "\<lparr>vd_name = ''octet-string'', vd_spec = Spec (Some ''octet-string'') (TOctetString (- 1)),
      vd_value = MOctetString [0xDE, 0xAD, 0xBE, 0xEF], vd_writable = False\<rparr>"
  have "interop_variable link_loaded ?v" "fixed_var ?v"
    by (simp_all add: interop_variable_def all_vars_def link_loaded_def link_vars_def fixed_var_def)
  with link [of None sample_client_lib "\<lambda>_. 0" True True True True "[''mms-client'']"] s
  have "list_all (reports_as ''interop/octet-string'' (quoted ''deadbeef'')) (mr_out s)"
    by (fastforce simp: deadbeef_text)
  with m s show ?thesis by blast
qed

end
