(* ===== verification/SvCommon.thy ===== *)
theory SvCommon
  imports GooseCommon
begin

text \<open>
  \<open>sv_common.c\<close>: the member types of Sampled Values and their sizes, the \<open>smpMod\<close> names, the
  13-bit quality, nanosecond time texts and the ready event of the SV commands.
\<close>

datatype sv_type = SV_INT32 | SV_INT32U | SV_FLOAT32 | SV_FLOAT64 | SV_BOOLEAN | SV_QUALITY | SV_TIMESTAMP

definition k_types :: "(string \<times> sv_type \<times> nat) list" where
  "k_types =
     [(''integer'', SV_INT32, 4), (''unsigned'', SV_INT32U, 4), (''float32'', SV_FLOAT32, 4),
      (''float64'', SV_FLOAT64, 8), (''boolean'', SV_BOOLEAN, 1), (''bit-string'', SV_QUALITY, 4),
      (''utc-time'', SV_TIMESTAMP, 8)]"

definition sv_type_from_name :: "string \<Rightarrow> sv_type option" where
  "sv_type_from_name name = map_option fst (map_of k_types name)"

definition sv_type_size :: "sv_type \<Rightarrow> nat" where
  "sv_type_size t = (case find (\<lambda>(n, t', s). t' = t) k_types of Some (n, t', s) \<Rightarrow> s | None \<Rightarrow> 0)"

definition k_smp_mods :: "string list" where
  "k_smp_mods = [''samples-per-period'', ''samples-per-second'', ''seconds-per-sample'']"

definition sv_smp_mod_from_name :: "string \<Rightarrow> u8 option" where
  "sv_smp_mod_from_name name =
     map_option of_nat (find (\<lambda>i. k_smp_mods ! i = name) [0..<3])"

definition sv_smp_mod_name :: "u8 \<Rightarrow> string option" where
  "sv_smp_mod_name v = (if v < 3 then Some (k_smp_mods ! unat v) else None)"

definition sv_quality_from_value :: "bool list \<Rightarrow> u16" where
  "sv_quality_from_value bits =
     foldl (\<lambda>q i. if bits ! i then q OR push_bit i 1 else q) 0 [0..<min (length bits) 13]"

definition sv_quality_to_value :: "u32 \<Rightarrow> bool list" where
  "sv_quality_to_value word = map (\<lambda>i. drop_bit i word AND 1 \<noteq> 0) [0..<13]"

definition sv_format_ns :: "u64 \<Rightarrow> string" where
  "sv_format_ns ns =
     (let base = strftime_iso (gmtime (unat (ns div 1000000000))); frac = ns mod 1000000000
      in if frac = 0 then base @ ''Z''
         else base @ ''.'' @ trim_zeros 8 (dec_pad 9 (unat frac)) @ ''Z'')"

definition sv_ready :: "string \<Rightarrow> string \<Rightarrow> string \<Rightarrow> u8 list \<Rightarrow> string option \<Rightarrow> json" where
  "sv_ready version role iface src sv_id =
     JObject ([(''event'', JString ''ready''), (''address'', JString iface),
       (''fixture'', JString ''sv-v1''), (''adapter'', JString ''libiec61850''),
       (''version'', JString version), (''role'', JString role), (''iface'', JString iface),
       (''src'', JString (goose_format_mac src))] @
       (case sv_id of Some r \<Rightarrow> if r \<noteq> [] then [(''svID'', JString r)] else [] | None \<Rightarrow> []))"

section \<open>The tables\<close>

lemma sv_type_size_simps [simp]:
  "sv_type_size SV_INT32 = 4" "sv_type_size SV_INT32U = 4" "sv_type_size SV_FLOAT32 = 4"
  "sv_type_size SV_FLOAT64 = 8" "sv_type_size SV_BOOLEAN = 1" "sv_type_size SV_QUALITY = 4"
  "sv_type_size SV_TIMESTAMP = 8"
  by (simp_all add: sv_type_size_def k_types_def)

lemma upt_3: "[0..<3] = [0, 1, 2 :: nat]"
  by (simp add: upt_rec)

lemma smp_mod_cases: "(v :: u8) < 3 \<Longrightarrow> v = 0 \<or> v = 1 \<or> v = 2"
  by (auto simp: word_less_nat_alt word_unat_eq_iff)

lemma sv_smp_mod_roundtrip:
  assumes "v < 3"
  shows "Option.bind (sv_smp_mod_name v) sv_smp_mod_from_name = Some v"
  using smp_mod_cases [OF assms]
  by (elim disjE) (simp_all add: sv_smp_mod_name_def sv_smp_mod_from_name_def upt_3 k_smp_mods_def)

interpretation smp_mod: codec sv_smp_mod_name "\<lambda>n. Option.bind n sv_smp_mod_from_name" "\<lambda>v. v < 3"
  by unfold_locales (rule sv_smp_mod_roundtrip)

section \<open>Quality\<close>

lemma bit_quality_loop:
  "k \<le> 16 \<Longrightarrow> bit (foldl (\<lambda>q i. if bits ! i then q OR push_bit i 1 else q) (0 :: u16) [0..<k]) j \<longleftrightarrow>
   j < k \<and> bits ! j"
proof (induction k)
  case (Suc k)
  then show ?case by (auto simp: bit_or_iff bit_exp_iff less_Suc_eq)
qed simp

lemma bit_sv_quality: "bit (sv_quality_from_value bits) j \<longleftrightarrow> j < length bits \<and> j < 13 \<and> bits ! j"
  by (auto simp: sv_quality_from_value_def bit_quality_loop)

lemma nth_sv_quality_to_value: "j < 13 \<Longrightarrow> sv_quality_to_value w ! j = bit w j"
  by (simp add: sv_quality_to_value_def and_one_eq odd_iff_mod_2_eq_one [symmetric] bit_iff_odd_drop_bit)

text \<open>A bit string of 13 quality bits survives the conversion to the wire word and back, a
  shorter one comes back filled up with zeros, and of a word exactly the low 13 bits survive.\<close>

theorem sv_quality_roundtrip:
  "sv_quality_to_value (ucast (sv_quality_from_value bits)) =
     take 13 bits @ replicate (13 - length bits) False \<and>
   sv_quality_from_value (sv_quality_to_value w) = ucast (take_bit 13 w)"
proof
  show "sv_quality_to_value (ucast (sv_quality_from_value bits)) =
      take 13 bits @ replicate (13 - length bits) False"
  proof (rule nth_equalityI)
    fix j assume "j < length (sv_quality_to_value (ucast (sv_quality_from_value bits)))"
    then have j: "j < 13" by (simp add: sv_quality_to_value_def)
    then show "sv_quality_to_value (ucast (sv_quality_from_value bits)) ! j =
        (take 13 bits @ replicate (13 - length bits) False) ! j"
      by (auto simp: nth_sv_quality_to_value bit_ucast_iff bit_sv_quality nth_append)
  qed (simp add: sv_quality_to_value_def)
  show "sv_quality_from_value (sv_quality_to_value w) = ucast (take_bit 13 w)"
  proof (rule bit_eqI)
    fix j
    have "length (sv_quality_to_value w) = 13" by (simp add: sv_quality_to_value_def)
    then show "bit (sv_quality_from_value (sv_quality_to_value w)) j = bit (ucast (take_bit 13 w) :: u16) j"
      by (auto simp: bit_sv_quality nth_sv_quality_to_value bit_ucast_iff bit_take_bit_iff)
  qed
qed

interpretation quality: codec sv_quality_from_value "\<lambda>w :: u16. Some (sv_quality_to_value (ucast w))"
  "\<lambda>bits. length bits = 13"
  by unfold_locales (simp add: sv_quality_roundtrip)

section \<open>Times\<close>

text \<open>The two nanosecond printers agree: the SV one on the UtcTime's value in nanoseconds.\<close>

lemma sv_format_ns_utc:
  "sv_format_ns (ucast (utc_secs raw) * 1000000000 + utc_ns raw) = goose_format_utc_ns raw"
proof -
  let ?n = "ucast (utc_secs raw) * 1000000000 + utc_ns raw"
  have s: "unat (utc_secs raw) < 4294967296" by (rule unat_u32_less)
  then have u: "unat (ucast (utc_secs raw) :: u64) = unat (utc_secs raw)"
    by (simp add: unsigned_ucast_eq take_bit_nat_eq_self)
  have n: "unat ?n = unat (utc_secs raw) * 1000000000 + unat (utc_ns raw)"
    using s utc_ns_less [of raw] by (simp add: unat_word_ariths(1,2) u)
  then have "unat (?n div 1000000000) = unat (utc_secs raw)" "unat (?n mod 1000000000) = unat (utc_ns raw)"
    using utc_ns_less [of raw] by (simp_all only: unat_div unat_mod) simp_all
  moreover from this(2) have "?n mod 1000000000 = utc_ns raw" by (simp add: word_unat_eq_iff)
  ultimately show ?thesis by (simp add: sv_format_ns_def goose_format_utc_ns_def Let_def)
qed

end
