(* ===== verification/SvPublisher.thy ===== *)
theory SvPublisher
  imports SvCommon Commands
begin

text \<open>
  \<open>sv_publisher.c\<close>: the member layout of the stream, one frame of samples, a stdin command, the
  command line and the paced main loop. As in \<open>GoosePublisher\<close>, the calls to libiec61850, the
  clocks and stdout are appended to \<open>sp_calls\<close> (newest first), and what a clock or \<open>ppoll\<close>
  answers is a function of the calls before it. An accessor of an \<open>MmsValue\<close> of another type is
  undefined behaviour.
\<close>

section \<open>State\<close>

text \<open>A setter of \<open>SVPublisher_ASDU\<close> with the ASDU, the offset and the value.\<close>

datatype sv_value =
    SetINT32 u32
  | SetFLOAT u32
  | SetFLOAT64 u64
  | SetINT8 u8
  | SetQuality u16
  | SetTimestamp u64

datatype sv_call =
    CreatePublisher comm_params string
  | AddASDU nat string "string option" u32
  | AddMember nat sv_type
  | EnableRefrTm nat
  | SetSmpRate nat u16
  | SetSmpMod nat u8
  | SetupComplete
  | SetSmpSynch nat u16
  | SetSimulationBit
  | SetValue nat int sv_value
  | SetSmpCnt nat u16
  | SetRefrTmNs nat u64
  | PublishFrame
  | DestroyPublisher
  | RealTime
  | MonoTime
  | Poll u64 bool
  | Emit json
  | Log string

datatype wake = Idle | Signalled | Input string | Interrupted | EndOfInput

record sv_env =
  sv_real_ns :: "sv_call list \<Rightarrow> u64"
  sv_mono_ns :: "sv_call list \<Rightarrow> u64"
  sv_wake :: "sv_call list \<Rightarrow> wake"

text \<open>
  \<open>sp_index i a\<close> is the offset \<open>members[i].index[a]\<close>, what the \<open>SVPublisher_ASDU_add...\<close>
  function returned for member \<open>i\<close> of ASDU \<open>a\<close>.
\<close>

record sv_publisher =
  sp_no_asdu :: nat
  sp_members :: "sv_type list"
  sp_index :: "nat \<Rightarrow> nat \<Rightarrow> int"
  sp_generic :: bool
  sp_wrap :: u32
  sp_smp_cnt :: u32
  sp_frames :: u64
  sp_samples :: u64
  sp_report_every :: u64
  sp_after_set :: bool
  sp_calls :: "sv_call list"

definition call :: "sv_call \<Rightarrow> sv_publisher \<Rightarrow> sv_publisher" where
  "call c p = p\<lparr>sp_calls := c # sp_calls p\<rparr>"

definition MAX_MEMBERS :: nat where
  "MAX_MEMBERS = 64"

definition MAX_ASDU :: nat where
  "MAX_ASDU = 16"

section \<open>Values\<close>

fun member_type :: "mms_value \<Rightarrow> sv_type option" where
  "member_type (MInteger _) = Some SV_INT32"
| "member_type (MUnsigned _) = Some SV_INT32U"
| "member_type (MFloat64 _) = Some SV_FLOAT64"
| "member_type (MFloat32 _) = Some SV_FLOAT32"
| "member_type (MBoolean _) = Some SV_BOOLEAN"
| "member_type (MBitString _) = Some SV_QUALITY"
| "member_type (MUtcTime _) = Some SV_TIMESTAMP"
| "member_type _ = None"

definition wrong_type :: string where
  "wrong_type = ''type cannot be carried in SV (integer, unsigned, float32, float64, boolean, bit-string, utc-time)''"

text \<open>The loop over the values: collecting the layout, or comparing with it.\<close>

fun define_layout :: "mms_value list \<Rightarrow> string + sv_type list" where
  "define_layout [] = Inr []"
| "define_layout (v # vs) =
     (case member_type v of
        None \<Rightarrow> Inl wrong_type
      | Some t \<Rightarrow> (case define_layout vs of Inl e \<Rightarrow> Inl e | Inr ts \<Rightarrow> Inr (t # ts)))"

fun compare_layout :: "sv_type list \<Rightarrow> mms_value list \<Rightarrow> string option" where
  "compare_layout (t # ts) (v # vs) =
     (case member_type v of
        None \<Rightarrow> Some wrong_type
      | Some t' \<Rightarrow>
          if t \<noteq> t' then Some ''value types differ from --values'' else compare_layout ts vs)"
| "compare_layout _ _ = None"

text \<open>\<open>check_values\<close> with \<open>layout\<close> true: the new layout; with \<open>layout\<close> false: an error or none.\<close>

definition check_layout :: "mms_value list \<Rightarrow> string + sv_type list" where
  "check_layout vs =
     (if length vs > MAX_MEMBERS then Inl ''too many values'' else define_layout vs)"

definition check_values :: "sv_publisher \<Rightarrow> mms_value list \<Rightarrow> string option" where
  "check_values p vs =
     (if length vs > MAX_MEMBERS then Some ''too many values''
      else if length vs \<noteq> length (sp_members p) then Some ''value count differs from --values''
      else compare_layout (sp_members p) vs)"

text \<open>
  What is written for one member. What the accessors of libiec61850 make of a 64-bit integer and of
  an eight-octet time is theirs: \<open>MmsValue_toInt32\<close> and \<open>MmsValue_getUtcTimeInMs\<close> are parameters.
\<close>

record mms_access =
  mv_to_int32 :: "u64 \<Rightarrow> u32"
  mv_utc_ms :: "u8 list \<Rightarrow> u64"

definition member_value :: "mms_access \<Rightarrow> sv_type \<Rightarrow> mms_value \<Rightarrow> sv_value outcome" where
  "member_value acc t v =
     (case (t, v) of
        (SV_INT32, MInteger i) \<Rightarrow> Returns (SetINT32 (mv_to_int32 acc i))
      | (SV_INT32U, MUnsigned u) \<Rightarrow> Returns (SetINT32 u)
      | (SV_FLOAT32, MFloat32 f) \<Rightarrow> Returns (SetFLOAT f)
      | (SV_FLOAT64, MFloat64 f) \<Rightarrow> Returns (SetFLOAT64 f)
      | (SV_BOOLEAN, MBoolean b) \<Rightarrow> Returns (SetINT8 (if b then 1 else 0))
      | (SV_QUALITY, MBitString bits) \<Rightarrow> Returns (SetQuality (sv_quality_from_value bits))
      | (SV_TIMESTAMP, MUtcTime raw) \<Rightarrow> Returns (SetTimestamp (mv_utc_ms acc raw))
      | _ \<Rightarrow> Undefined)"

fun write_asdus :: "sv_value \<Rightarrow> nat \<Rightarrow> nat list \<Rightarrow> sv_publisher \<Rightarrow> sv_publisher" where
  "write_asdus x i [] p = p"
| "write_asdus x i (a # as) p = write_asdus x i as (call (SetValue a (sp_index p i a) x) p)"

fun write_members ::
  "mms_access \<Rightarrow> nat \<Rightarrow> mms_value list \<Rightarrow> sv_publisher \<Rightarrow> sv_publisher outcome" where
  "write_members acc i [] p = Returns p"
| "write_members acc i (v # vs) p =
     (if i < length (sp_members p) then
        bind_outcome (member_value acc (sp_members p ! i) v) (\<lambda>x.
          write_members acc (Suc i) vs (write_asdus x i [0..<sp_no_asdu p] p))
      else Undefined)"

definition write_values ::
  "mms_access \<Rightarrow> sv_publisher \<Rightarrow> mms_value list \<Rightarrow> sv_publisher outcome" where
  "write_values acc p vs = write_members acc 0 vs p"

section \<open>Frames\<close>

definition published_event :: "string \<Rightarrow> u64 \<Rightarrow> u64 \<Rightarrow> u32 \<Rightarrow> json" where
  "published_event reason frames samples smp_cnt =
     JObject [(''event'', JString ''published''), (''reason'', JString reason),
       (''frames'', JInt (sint frames)), (''samples'', JInt (sint samples)),
       (''smpCnt'', JInt (uint smp_cnt))]"


text \<open>The loop over the ASDUs; \<open>lst\<close> is the \<open>smpCnt\<close> of the latest one.\<close>

fun number_asdus :: "u64 \<Rightarrow> nat list \<Rightarrow> u32 \<Rightarrow> sv_publisher \<Rightarrow> u32 \<times> sv_publisher" where
  "number_asdus now [] lst p = (lst, p)"
| "number_asdus now (a # as) lst p =
     (let p = call (SetSmpCnt a (ucast (sp_smp_cnt p))) p;
          p = (if sp_generic p then call (SetRefrTmNs a now) p else p)
      in number_asdus now as (sp_smp_cnt p) (p\<lparr>sp_smp_cnt := (sp_smp_cnt p + 1) mod sp_wrap p\<rparr>))"

definition send_frame :: "sv_env \<Rightarrow> sv_publisher \<Rightarrow> sv_publisher outcome" where
  "send_frame E p =
     (if sp_wrap p = 0 \<or> sp_report_every p = 0 then Undefined
      else
        (let (now, p) = (if sp_generic p then (sv_real_ns E (sp_calls p), call RealTime p) else (0, p));
             (lst, p) = number_asdus now [0..<sp_no_asdu p] 0 p;
             p = call PublishFrame p;
             before = sp_samples p;
             p = p\<lparr>sp_frames := sp_frames p + 1, sp_samples := sp_samples p + of_nat (sp_no_asdu p)\<rparr>;
             report = (\<lambda>reason. call (Emit (published_event reason (sp_frames p) (sp_samples p) lst)) p);
             p = (if sp_frames p = 1 then report ''start''
                  else if sp_after_set p then report ''set''
                  else if sp_samples p div sp_report_every p \<noteq> before div sp_report_every p
                  then report ''periodic'' else p)
         in Returns (p\<lparr>sp_after_set := False\<rparr>)))"

section \<open>Commands\<close>

definition handle_line ::
  "value_lib \<Rightarrow> mms_access \<Rightarrow> sv_publisher \<Rightarrow> string \<Rightarrow> (sv_publisher \<times> bool) outcome" where
  "handle_line L acc p line =
     (case json_tokener_parse L line of
        None \<Rightarrow> Returns (call (Emit (goose_error ''stdin: not JSON'')) p, True)
      | Some cmd \<Rightarrow>
          (case command_name L cmd of
             None \<Rightarrow> Undefined
           | Some c \<Rightarrow>
               if c = ''set'' then
                 (case goose_values_from_json L (json_get_ex cmd ''values'') of
                    Inl NullDeref \<Rightarrow> Undefined
                  | Inl (Rejected err) \<Rightarrow>
                      Returns (call (Emit (goose_error (snprintf_s 200 (''set: '' @ err)))) p, True)
                  | Inr vs \<Rightarrow>
                      (case check_values p vs of
                         Some err \<Rightarrow>
                           Returns (call (Emit (goose_error (snprintf_s 200 (''set: '' @ err)))) p, True)
                       | None \<Rightarrow>
                           bind_outcome (write_values acc p vs) (\<lambda>p.
                             Returns (p\<lparr>sp_after_set := True\<rparr>, True))))
               else if c = ''stop'' then Returns (p, False)
               else Returns (call (Emit (goose_error
                      (unknown_command c))) p, True)))"

section \<open>The command line\<close>

record sv_opts =
  so_iface :: string
  so_sv_id :: "string option"
  so_dataset :: "string option"
  so_values :: "string option"
  so_app_id :: string
  so_dst :: string
  so_smp_mod :: string
  so_profile :: string
  so_vlan_id :: int
  so_vlan_prio :: int
  so_conf_rev :: int
  so_smp_rate :: int
  so_no_asdu :: int
  so_smp_synch :: int
  so_frequency :: int
  so_report_every :: int
  so_simulation :: bool

definition sv_defaults :: sv_opts where
  "sv_defaults = \<lparr>so_iface = ''eth0'', so_sv_id = None, so_dataset = None, so_values = None,
     so_app_id = ''0x4000'', so_dst = ''01:0c:cd:04:00:00'', so_smp_mod = ''samples-per-period'',
     so_profile = ''9-2LE'', so_vlan_id = 0, so_vlan_prio = 4, so_conf_rev = 1, so_smp_rate = 80,
     so_no_asdu = 1, so_smp_synch = 0, so_frequency = 50, so_report_every = 1000,
     so_simulation = False\<rparr>"

definition sv_option :: "string \<Rightarrow> (string \<Rightarrow> sv_opts \<Rightarrow> sv_opts) option" where
  "sv_option a =
     (if a = ''--iface'' then Some (\<lambda>v opts. opts\<lparr>so_iface := v\<rparr>)
      else if a = ''--app-id'' then Some (\<lambda>v opts. opts\<lparr>so_app_id := v\<rparr>)
      else if a = ''--dst'' then Some (\<lambda>v opts. opts\<lparr>so_dst := v\<rparr>)
      else if a = ''--vlan-id'' then Some (\<lambda>v opts. opts\<lparr>so_vlan_id := fst (strtol 0 v)\<rparr>)
      else if a = ''--vlan-prio'' then Some (\<lambda>v opts. opts\<lparr>so_vlan_prio := fst (strtol 0 v)\<rparr>)
      else if a = ''--sv-id'' then Some (\<lambda>v opts. opts\<lparr>so_sv_id := Some v\<rparr>)
      else if a = ''--dataset'' then Some (\<lambda>v opts. opts\<lparr>so_dataset := Some v\<rparr>)
      else if a = ''--conf-rev'' then Some (\<lambda>v opts. opts\<lparr>so_conf_rev := fst (strtol 0 v)\<rparr>)
      else if a = ''--smp-rate'' then Some (\<lambda>v opts. opts\<lparr>so_smp_rate := fst (strtol 0 v)\<rparr>)
      else if a = ''--smp-mod'' then Some (\<lambda>v opts. opts\<lparr>so_smp_mod := v\<rparr>)
      else if a = ''--no-asdu'' then Some (\<lambda>v opts. opts\<lparr>so_no_asdu := fst (strtol 0 v)\<rparr>)
      else if a = ''--smp-synch'' then Some (\<lambda>v opts. opts\<lparr>so_smp_synch := fst (strtol 0 v)\<rparr>)
      else if a = ''--profile'' then Some (\<lambda>v opts. opts\<lparr>so_profile := v\<rparr>)
      else if a = ''--frequency'' then Some (\<lambda>v opts. opts\<lparr>so_frequency := fst (strtol 0 v)\<rparr>)
      else if a = ''--report-every'' then Some (\<lambda>v opts. opts\<lparr>so_report_every := fst (strtol 0 v)\<rparr>)
      else if a = ''--values'' then Some (\<lambda>v opts. opts\<lparr>so_values := Some v\<rparr>)
      else None)"

fun parse_args :: "sv_opts \<Rightarrow> string list \<Rightarrow> string + sv_opts" where
  "parse_args opts [] = Inr opts"
| "parse_args opts (a # args) =
     (case sv_option a of
        Some set_value \<Rightarrow>
          (case args of
             [] \<Rightarrow> Inl (''sv-publisher: '' @ a @ '' needs a value'')
           | v # rest \<Rightarrow> parse_args (set_value v opts) rest)
      | None \<Rightarrow>
          if a = ''--simulation'' then parse_args (opts\<lparr>so_simulation := True\<rparr>) args
          else Inl (''sv-publisher: unknown argument '' @ a))"

text \<open>
  The samples per second and the period, computed in \<open>double\<close>. For the first two modes the
  products and \<open>no_asdu * 1e9\<close> are exact below \<open>2 ^ 53\<close> and a rounded quotient of such integers
  truncates to the integer quotient, so \<open>nat\<close> arithmetic gives the same values: a rate of
  \<open>2 ^ 53\<close> and more is over the cap of the wrap and gives the period 0 either way. For
  seconds-per-sample the rate \<open>1.0 / smp_rate\<close> is rounded: \<open>slow_period\<close> is what
  \<open>(uint64_t) (no_asdu * 1e9 / rate)\<close> evaluates to.
\<close>

definition smp_wrap :: "u8 \<Rightarrow> int \<Rightarrow> int \<Rightarrow> u32" where
  "smp_wrap smp_mod smp_rate frequency =
     (if smp_mod = 2 then 65536
      else let rate = (if smp_mod = 0 then smp_rate * frequency else smp_rate)
           in word_of_int (if rate > 65536 then 65536 else rate))"

definition smp_period :: "(int \<Rightarrow> int \<Rightarrow> u64) \<Rightarrow> u8 \<Rightarrow> int \<Rightarrow> int \<Rightarrow> int \<Rightarrow> u64" where
  "smp_period slow_period smp_mod smp_rate frequency no_asdu =
     (if smp_mod = 2 then slow_period no_asdu smp_rate
      else word_of_int (no_asdu * 1000000000 div
             (if smp_mod = 0 then smp_rate * frequency else smp_rate)))"

text \<open>The layout the 9-2LE profile asks for: eight pairs of an integer and a quality.\<close>

definition layout_92LE :: "sv_type list \<Rightarrow> bool" where
  "layout_92LE ts \<longleftrightarrow> length ts = 16 \<and>
     list_all (\<lambda>i. ts ! i = (if i mod 2 \<noteq> 0 then SV_QUALITY else SV_INT32)) [0..<16]"

text \<open>One ASDU of the set-up, with its members in order.\<close>

definition add_asdu ::
  "sv_opts \<Rightarrow> string \<Rightarrow> u8 \<Rightarrow> bool \<Rightarrow> sv_type list \<Rightarrow> nat \<Rightarrow> sv_call list" where
  "add_asdu opts sv_id smp_mod generic layout a =
     AddASDU a sv_id (if generic then so_dataset opts else None) (word_of_int (so_conf_rev opts)) #
     map (AddMember a) layout @
     (if generic
      then [EnableRefrTm a, SetSmpRate a (word_of_int (so_smp_rate opts)), SetSmpMod a smp_mod] else [])"

text \<open>
  \<open>main\<close> up to the ready event, with the period; \<open>created\<close>, \<open>src\<close> and \<open>index\<close> are the answers of
  the library. The values are written once before the first frame.
\<close>

definition sv_setup ::
  "value_lib \<Rightarrow> mms_access \<Rightarrow> (int \<Rightarrow> int \<Rightarrow> u64) \<Rightarrow> string \<Rightarrow> bool \<Rightarrow> u8 list \<Rightarrow>
   (nat \<Rightarrow> nat \<Rightarrow> int) \<Rightarrow> sv_opts \<Rightarrow> (string + sv_publisher \<times> u64) outcome" where
  "sv_setup L acc slow_period version created src index opts =
     (case (so_sv_id opts, so_values opts) of
        (None, _) \<Rightarrow> Returns (Inl ''sv-publisher: --sv-id is required'')
      | (_, None) \<Rightarrow> Returns (Inl ''sv-publisher: --values is required'')
      | (Some sv_id, Some values_json) \<Rightarrow>
          (case sv_smp_mod_from_name (so_smp_mod opts) of
             None \<Rightarrow> Returns (Inl (''sv-publisher: --smp-mod '' @ so_smp_mod opts @
               '' is not samples-per-period, samples-per-second or seconds-per-sample''))
           | Some smp_mod \<Rightarrow>
               if so_profile opts \<noteq> ''generic'' \<and> so_profile opts \<noteq> ''9-2LE''
               then Returns (Inl (''sv-publisher: --profile '' @ so_profile opts @ '' is not 9-2LE or generic''))
               else if so_vlan_id opts < 0 \<or> so_vlan_id opts > 4095 \<or> so_vlan_prio opts < 0 \<or>
                  so_vlan_prio opts > 7 \<or> so_conf_rev opts < 0 \<or> so_smp_rate opts < 1 \<or>
                  so_smp_rate opts > 65535 \<or> so_no_asdu opts < 1 \<or> so_no_asdu opts > int MAX_ASDU \<or>
                  so_smp_synch opts < 0 \<or> so_smp_synch opts > 255 \<or> so_frequency opts < 1 \<or>
                  so_report_every opts < 1
               then Returns (Inl (''sv-publisher: --vlan-id 0..4095, --vlan-prio 0..7, --smp-rate 1..65535, '' @
                 ''--no-asdu 1..16, --smp-synch 0..255, --frequency and --report-every >= 1''))
               else
                 (let generic = (so_profile opts = ''generic'')
                  in case goose_values_from_json L (json_tokener_parse L values_json) of
                       Inl NullDeref \<Rightarrow> Undefined
                     | Inl (Rejected err) \<Rightarrow> Returns (Inl (''sv-publisher: --values: '' @ err))
                     | Inr vs \<Rightarrow>
                         (case check_layout vs of
                            Inl err \<Rightarrow> Returns (Inl (''sv-publisher: --values: '' @ err))
                          | Inr layout \<Rightarrow>
                              if \<not> generic \<and> \<not> layout_92LE layout
                              then Returns (Inl (''sv-publisher: --values: 9-2LE needs 16 values, '' @
                                     ''integer and bit-string alternating''))
                              else
                                (case (goose_parse_appid (so_app_id opts), goose_parse_mac (so_dst opts)) of
                                   (None, _) \<Rightarrow> Returns (Inl (''sv-publisher: --app-id '' @ so_app_id opts @
                                     '' is not a 16-bit number''))
                                 | (_, None) \<Rightarrow> Returns (Inl (''sv-publisher: --dst '' @ so_dst opts @
                                     '' is not a MAC address''))
                                 | (Some app_id, Some dst) \<Rightarrow>
                                     if \<not> created
                                     then Returns (Inl (''sv-publisher: SVPublisher on '' @ so_iface opts @
                                            '' failed (needs CAP_NET_RAW)''))
                                     else
                                       (let params = \<lparr>vlanId = word_of_int (so_vlan_id opts),
                                              vlanPriority = word_of_int (so_vlan_prio opts),
                                              appId = app_id, dstAddress = dst\<rparr>;
                                            asdus = [0..<nat (so_no_asdu opts)];
                                            calls = CreatePublisher params (so_iface opts) #
                                              concat (map (add_asdu opts sv_id smp_mod generic layout) asdus) @
                                              [SetupComplete] @
                                              map (\<lambda>a. SetSmpSynch a (word_of_int (so_smp_synch opts))) asdus
                                        in bind_outcome (write_values acc
                                             \<lparr>sp_no_asdu = nat (so_no_asdu opts), sp_members = layout,
                                              sp_index = index, sp_generic = generic,
                                              sp_wrap = smp_wrap smp_mod (so_smp_rate opts) (so_frequency opts),
                                              sp_smp_cnt = 0, sp_frames = 0, sp_samples = 0,
                                              sp_report_every = word_of_int (so_report_every opts),
                                              sp_after_set = False, sp_calls = rev calls\<rparr> vs) (\<lambda>p.
                                             Returns (Inr (call (Emit (sv_ready version ''publisher''
                                                 (so_iface opts) src (Some sv_id)))
                                                 (if so_simulation opts then call SetSimulationBit p else p),
                                               smp_period slow_period smp_mod (so_smp_rate opts)
                                                 (so_frequency opts) (so_no_asdu opts))))))))))"

section \<open>The main loop\<close>

record sv_main =
  sm_pub :: sv_publisher
  sm_next :: u64
  sm_line :: string
  sm_stdin_open :: bool
  sm_running :: bool

definition line_too_long :: "sv_publisher \<Rightarrow> sv_publisher" where
  "line_too_long p = call (Emit (goose_error ''stdin: line too long'')) p"

text \<open>The pacing: the next deadline after a frame sent at \<open>now\<close>.\<close>

definition advance :: "u64 \<Rightarrow> u64 \<Rightarrow> u64 \<Rightarrow> u64" where
  "advance period_ns next now =
     (let next = next + period_ns in if now > next + 1000000000 then now + period_ns else next)"

text \<open>The wait for the next deadline, which reads the clock twice.\<close>

definition wait_ns :: "u64 \<Rightarrow> u64 \<Rightarrow> u64 \<Rightarrow> u64" where
  "wait_ns next clock1 clock2 = (if next > clock1 then next - clock2 else 0)"

definition main_step ::
  "value_lib \<Rightarrow> mms_access \<Rightarrow> sv_env \<Rightarrow> u64 \<Rightarrow> sv_main \<Rightarrow> sv_main outcome" where
  "main_step L acc E period_ns m =
     (let p = sm_pub m; now = sv_mono_ns E (sp_calls p); p = call MonoTime p
      in bind_outcome
        (if sm_next m \<le> now
         then bind_outcome (send_frame E p) (\<lambda>p.
                let nxt = advance period_ns (sm_next m) now
                in Returns (if now > sm_next m + period_ns + 1000000000
                            then call (Log ''sv-publisher: more than 1 s behind schedule, resynchronising'') p
                            else p, nxt))
         else Returns (p, sm_next m))
        (\<lambda>(p, nxt).
          let clock1 = sv_mono_ns E (sp_calls p); p = call MonoTime p;
              (clock2, p) = (if nxt > clock1 then (sv_mono_ns E (sp_calls p), call MonoTime p) else (0, p));
              w = sv_wake E (sp_calls p);
              p = call (Poll (wait_ns nxt clock1 clock2) (sm_stdin_open m)) p;
              m = m\<lparr>sm_pub := p, sm_next := nxt\<rparr>
          in if w = Signalled then Returns (m\<lparr>sm_running := False\<rparr>)
             else if \<not> sm_stdin_open m then Returns m
             else (case w of
                 Input got \<Rightarrow>
                   bind_outcome (receive (handle_line L acc) line_too_long (sm_line m) p True
                                   (take (line_max - length (sm_line m)) got))
                     (\<lambda>(p, running, line).
                        Returns (m\<lparr>sm_pub := p, sm_running := running, sm_line := line\<rparr>))
               | EndOfInput \<Rightarrow>
                   Returns (m\<lparr>sm_pub := call (Log ''sv-publisher: stdin closed; publishing until SIGTERM'') p,
                              sm_stdin_open := False\<rparr>)
               | _ \<Rightarrow> Returns m)))"

inductive reaches ::
  "value_lib \<Rightarrow> mms_access \<Rightarrow> sv_env \<Rightarrow> u64 \<Rightarrow> sv_main \<Rightarrow> sv_main \<Rightarrow> bool"
  for L acc E period_ns m where
  start: "reaches L acc E period_ns m m"
| turn: "reaches L acc E period_ns m m' \<Longrightarrow> sm_running m' \<Longrightarrow>
    main_step L acc E period_ns m' = Returns m'' \<Longrightarrow> reaches L acc E period_ns m m''"

definition main_start :: "sv_env \<Rightarrow> sv_publisher \<Rightarrow> sv_main" where
  "main_start E p =
     \<lparr>sm_pub = call MonoTime p, sm_next = sv_mono_ns E (sp_calls p), sm_line = [],
      sm_stdin_open = True, sm_running = True\<rparr>"


section \<open>Sample numbers\<close>

text \<open>What the calls say: the \<open>smpCnt\<close> values set so far, oldest first, and the frames sent.\<close>

fun smp_counts :: "sv_call list \<Rightarrow> u16 list" where
  "smp_counts [] = []"
| "smp_counts (SetSmpCnt a c # cs) = smp_counts cs @ [c]"
| "smp_counts (c # cs) = smp_counts cs"

fun frames_sent :: "sv_call list \<Rightarrow> nat" where
  "frames_sent [] = 0"
| "frames_sent (PublishFrame # cs) = Suc (frames_sent cs)"
| "frames_sent (c # cs) = frames_sent cs"

text \<open>Sample \<open>k\<close> of the stream carries \<open>k\<close> modulo the wrap.\<close>

definition numbered :: "nat \<Rightarrow> u16 list \<Rightarrow> bool" where
  "numbered w cnts \<longleftrightarrow> cnts = map (\<lambda>k. of_nat (k mod w)) [0..<length cnts]"

definition sv_inv :: "sv_publisher \<Rightarrow> bool" where
  "sv_inv p \<longleftrightarrow> (let n = length (smp_counts (sp_calls p)) in
     sp_wrap p \<noteq> 0 \<and> unat (sp_wrap p) \<le> 65536 \<and> sp_report_every p \<noteq> 0 \<and>
     numbered (unat (sp_wrap p)) (smp_counts (sp_calls p)) \<and>
     unat (sp_smp_cnt p) = n mod unat (sp_wrap p) \<and>
     n = sp_no_asdu p * frames_sent (sp_calls p) \<and>
     sp_frames p = of_nat (frames_sent (sp_calls p)) \<and> sp_samples p = of_nat n)"

lemma sv_pub_call_simps [simp]:
  "sp_no_asdu (call c p) = sp_no_asdu p" "sp_members (call c p) = sp_members p"
  "sp_index (call c p) = sp_index p" "sp_generic (call c p) = sp_generic p"
  "sp_wrap (call c p) = sp_wrap p" "sp_smp_cnt (call c p) = sp_smp_cnt p"
  "sp_frames (call c p) = sp_frames p" "sp_samples (call c p) = sp_samples p"
  "sp_report_every (call c p) = sp_report_every p" "sp_after_set (call c p) = sp_after_set p"
  "sp_calls (call c p) = c # sp_calls p"
  by (simp_all add: call_def)

lemma numbered_snoc:
  "numbered w cnts \<Longrightarrow> c = of_nat (length cnts mod w) \<Longrightarrow> numbered w (cnts @ [c])"
  by (simp add: numbered_def)

lemma unat_inc_mod:
  assumes "unat (c :: u32) < unat w" "unat w \<le> 65536"
  shows "unat ((c + 1) mod w) = (unat c + 1) mod unat w"
  using assms by (simp add: unat_mod unat_word_ariths(1))

lemma number_asdus_spec:
  assumes "number_asdus now as lst p = (lst', p')"
    and "0 < w" "w \<le> 65536" "unat (sp_wrap p) = w"
    and "numbered w (smp_counts (sp_calls p))" "unat (sp_smp_cnt p) = length (smp_counts (sp_calls p)) mod w"
  shows "numbered w (smp_counts (sp_calls p')) \<and>
    length (smp_counts (sp_calls p')) = length (smp_counts (sp_calls p)) + length as \<and>
    unat (sp_smp_cnt p') = length (smp_counts (sp_calls p')) mod w \<and>
    frames_sent (sp_calls p') = frames_sent (sp_calls p) \<and>
    (as \<noteq> [] \<longrightarrow> unat lst' = (length (smp_counts (sp_calls p')) - 1) mod w)"
  using assms
proof (induction as arbitrary: lst p)
  case (Cons a as)
  define q where "q = (if sp_generic p then call (SetRefrTmNs a now) (call (SetSmpCnt a (ucast (sp_smp_cnt p))) p)
    else call (SetSmpCnt a (ucast (sp_smp_cnt p))) p)"
  define n where "n = length (smp_counts (sp_calls p))"
  have q [simp]: "sp_wrap q = sp_wrap p" "sp_smp_cnt q = sp_smp_cnt p"
    "frames_sent (sp_calls q) = frames_sent (sp_calls p)"
    "smp_counts (sp_calls q) = smp_counts (sp_calls p) @ [ucast (sp_smp_cnt p)]"
    by (simp_all add: q_def)
  have lt: "n mod w < w" using Cons.prems(2) by simp
  have "(ucast (sp_smp_cnt p) :: u16) = of_nat (unat (sp_smp_cnt p))" by simp
  also have "\<dots> = of_nat (n mod w)" using Cons.prems(6) by (simp add: n_def)
  finally have c: "(ucast (sp_smp_cnt p) :: u16) = of_nat (length (smp_counts (sp_calls p)) mod w)"
    by (simp add: n_def)
  have num: "numbered w (smp_counts (sp_calls q))"
    using Cons.prems(5) c by (simp add: numbered_snoc)
  have cnt: "unat ((sp_smp_cnt q + 1) mod sp_wrap q) = length (smp_counts (sp_calls q)) mod w"
    using Cons.prems(2-4,6) lt by (simp add: unat_inc_mod mod_Suc_eq n_def)
  have rec: "number_asdus now as (sp_smp_cnt q) (q\<lparr>sp_smp_cnt := (sp_smp_cnt q + 1) mod sp_wrap q\<rparr>) = (lst', p')"
    using Cons.prems(1) by (simp add: Let_def q_def)
  have IH: "numbered w (smp_counts (sp_calls p')) \<and>
    length (smp_counts (sp_calls p')) = length (smp_counts (sp_calls q)) + length as \<and>
    unat (sp_smp_cnt p') = length (smp_counts (sp_calls p')) mod w \<and>
    frames_sent (sp_calls p') = frames_sent (sp_calls q) \<and>
    (as \<noteq> [] \<longrightarrow> unat lst' = (length (smp_counts (sp_calls p')) - 1) mod w)"
    using Cons.IH [OF rec Cons.prems(2,3)] num cnt Cons.prems(4) by simp
  show ?case
  proof (cases "as = []")
    case True
    then have "lst' = sp_smp_cnt p" using rec by simp
    with IH True Cons.prems(6) show ?thesis by simp
  next
    case False
    with IH show ?thesis by simp
  qed
qed simp

lemma number_asdus_fields:
  "number_asdus now as lst p = (lst', p') \<Longrightarrow>
   sp_no_asdu p' = sp_no_asdu p \<and> sp_members p' = sp_members p \<and> sp_index p' = sp_index p \<and>
   sp_generic p' = sp_generic p \<and> sp_wrap p' = sp_wrap p \<and> sp_frames p' = sp_frames p \<and>
   sp_samples p' = sp_samples p \<and> sp_report_every p' = sp_report_every p \<and>
   sp_after_set p' = sp_after_set p"
proof (induction as arbitrary: lst p)
  case (Cons a as)
  from Cons.prems obtain lst1 q where "number_asdus now as lst1 q = (lst', p')"
    "sp_no_asdu q = sp_no_asdu p \<and> sp_members q = sp_members p \<and> sp_index q = sp_index p \<and>
   sp_generic q = sp_generic p \<and> sp_wrap q = sp_wrap p \<and> sp_frames q = sp_frames p \<and>
   sp_samples q = sp_samples p \<and> sp_report_every q = sp_report_every p \<and>
   sp_after_set q = sp_after_set p"
    by (cases "sp_generic p") (auto simp: Let_def)
  with Cons.IH show ?case by metis
qed simp

definition stamped :: "sv_env \<Rightarrow> sv_publisher \<Rightarrow> u64 \<times> sv_publisher" where
  "stamped E p = (if sp_generic p then (sv_real_ns E (sp_calls p), call RealTime p) else (0, p))"

text \<open>The reason a frame is reported for, if any.\<close>

definition report_reason :: "sv_publisher \<Rightarrow> string option" where
  "report_reason p =
     (let frames = sp_frames p + 1; samples = sp_samples p + of_nat (sp_no_asdu p)
      in if frames = 1 then Some ''start''
         else if sp_after_set p then Some ''set''
         else if samples div sp_report_every p \<noteq> sp_samples p div sp_report_every p
         then Some ''periodic'' else None)"

lemma sv_pub_send_frame_Returns:
  assumes "send_frame E p = Returns p'"
  obtains now q lst r where "stamped E p = (now, q)" "number_asdus now [0..<sp_no_asdu q] 0 q = (lst, r)"
    "sp_wrap p \<noteq> 0" "sp_report_every p \<noteq> 0"
    "p' = r\<lparr>sp_calls := (case report_reason p of
         None \<Rightarrow> PublishFrame # sp_calls r
       | Some reason \<Rightarrow> Emit (published_event reason (sp_frames p + 1)
           (sp_samples p + of_nat (sp_no_asdu p)) lst) # PublishFrame # sp_calls r),
       sp_frames := sp_frames p + 1, sp_samples := sp_samples p + of_nat (sp_no_asdu p),
       sp_after_set := False\<rparr>"
proof -
  obtain now q where q: "stamped E p = (now, q)" by force
  obtain lst r where r: "number_asdus now [0..<sp_no_asdu q] 0 q = (lst, r)" by force
  have nz: "sp_wrap p \<noteq> 0" "sp_report_every p \<noteq> 0" using assms by (auto simp: send_frame_def split: if_splits)
  have qf: "sp_no_asdu q = sp_no_asdu p" "sp_frames q = sp_frames p" "sp_samples q = sp_samples p"
    "sp_report_every q = sp_report_every p" "sp_after_set q = sp_after_set p"
    using q by (auto simp: stamped_def split: if_splits)
  note rf = number_asdus_fields [OF r]
  have r': "number_asdus now [0..<sp_no_asdu p] 0 q = (lst, r)" using r by (simp only: qf(1))
  have "sp_frames p' = sp_frames p + 1 \<and> sp_samples p' = sp_samples p + of_nat (sp_no_asdu p) \<and>
      \<not> sp_after_set p' \<and> sp_no_asdu p' = sp_no_asdu r \<and> sp_members p' = sp_members r \<and>
      sp_index p' = sp_index r \<and> sp_generic p' = sp_generic r \<and> sp_wrap p' = sp_wrap r \<and>
      sp_smp_cnt p' = sp_smp_cnt r \<and> sp_report_every p' = sp_report_every r \<and>
      sp_calls p' = (case report_reason p of
         None \<Rightarrow> PublishFrame # sp_calls r
       | Some reason \<Rightarrow> Emit (published_event reason (sp_frames p + 1)
           (sp_samples p + of_nat (sp_no_asdu p)) lst) # PublishFrame # sp_calls r)"
    using assms nz by (auto simp: send_frame_def stamped_def [symmetric] q r' Let_def rf qf
        report_reason_def split: if_splits)
  then show ?thesis by (intro that [OF q r nz] sv_publisher.equality) simp_all
qed

lemma sv_pub_send_frame_total: "sv_inv p \<Longrightarrow> \<exists>p'. send_frame E p = Returns p'"
  by (auto simp: send_frame_def sv_inv_def Let_def split: prod.split)

lemma sv_pub_send_frame_inv:
  assumes "sv_inv p" "send_frame E p = Returns p'"
  shows "sv_inv p'"
  using assms(2)
proof (rule sv_pub_send_frame_Returns)
  fix now q lst r
  assume q: "stamped E p = (now, q)" and r: "number_asdus now [0..<sp_no_asdu q] 0 q = (lst, r)"
    and p': "p' = r\<lparr>sp_calls := (case report_reason p of
         None \<Rightarrow> PublishFrame # sp_calls r
       | Some reason \<Rightarrow> Emit (published_event reason (sp_frames p + 1)
           (sp_samples p + of_nat (sp_no_asdu p)) lst) # PublishFrame # sp_calls r),
       sp_frames := sp_frames p + 1, sp_samples := sp_samples p + of_nat (sp_no_asdu p),
       sp_after_set := False\<rparr>"
  let ?w = "unat (sp_wrap p)"
  have inv: "sp_wrap p \<noteq> 0" "?w \<le> 65536" "sp_report_every p \<noteq> 0"
    "numbered ?w (smp_counts (sp_calls p))" "unat (sp_smp_cnt p) = length (smp_counts (sp_calls p)) mod ?w"
    "length (smp_counts (sp_calls p)) = sp_no_asdu p * frames_sent (sp_calls p)"
    "sp_frames p = of_nat (frames_sent (sp_calls p))"
    "sp_samples p = of_nat (length (smp_counts (sp_calls p)))"
    using assms(1) by (simp_all add: sv_inv_def Let_def)
  have qf: "sp_no_asdu q = sp_no_asdu p" "sp_wrap q = sp_wrap p" "sp_report_every q = sp_report_every p"
    "smp_counts (sp_calls q) = smp_counts (sp_calls p)" "sp_smp_cnt q = sp_smp_cnt p"
    "frames_sent (sp_calls q) = frames_sent (sp_calls p)"
    using q by (auto simp: stamped_def split: if_splits)
  have w: "0 < ?w" using inv(1) by (simp add: word_unat_eq_iff)
  note spec = number_asdus_spec [OF r w inv(2), unfolded qf, OF refl inv(4,5), simplified]
  note rf = number_asdus_fields [OF r, unfolded qf]
  show "sv_inv p'"
    unfolding p' using inv spec rf
    by (auto simp: sv_inv_def Let_def algebra_simps split: option.split)
qed

section \<open>Commands keep the numbering\<close>

lemma write_asdus_eq:
  "write_asdus x i as p = p\<lparr>sp_calls := rev (map (\<lambda>a. SetValue a (sp_index p i a) x) as) @ sp_calls p\<rparr>"
  by (induction x i as p rule: write_asdus.induct) (simp_all add: call_def)

lemma set_values_calls [simp]:
  "smp_counts (rev (map (\<lambda>a. SetValue a (f a) x) as) @ cs) = smp_counts cs"
  "frames_sent (rev (map (\<lambda>a. SetValue a (f a) x) as) @ cs) = frames_sent cs"
  by (induction as arbitrary: cs) simp_all

lemma sv_inv_calls:
  "smp_counts cs = smp_counts (sp_calls p) \<Longrightarrow> frames_sent cs = frames_sent (sp_calls p) \<Longrightarrow>
   sv_inv (p\<lparr>sp_calls := cs\<rparr>) = sv_inv p"
  by (simp add: sv_inv_def)

text \<open>The setters for the members from the \<open>i\<close>-th on, one for each member and ASDU.\<close>

definition setters :: "mms_access \<Rightarrow> sv_publisher \<Rightarrow> nat \<Rightarrow> mms_value list \<Rightarrow> sv_call set" where
  "setters acc p i vs = {SetValue a (sp_index p (i + k) a) x |k a x. k < length vs \<and> a < sp_no_asdu p \<and>
     member_value acc (sp_members p ! (i + k)) (vs ! k) = Returns x}"

lemma setters_Nil [simp]: "setters acc p i [] = {}"
  by (simp add: setters_def)

lemma setters_Cons:
  assumes "member_value acc (sp_members p ! i) v = Returns x"
  shows "setters acc p i (v # vs) = (\<lambda>a. SetValue a (sp_index p i a) x) ` {0..<sp_no_asdu p} \<union> setters acc p (Suc i) vs"
proof (intro equalityI subsetI)
  fix c assume "c \<in> setters acc p i (v # vs)"
  then obtain k a y where c: "c = SetValue a (sp_index p (i + k) a) y" "k < length (v # vs)" "a < sp_no_asdu p"
    "member_value acc (sp_members p ! (i + k)) ((v # vs) ! k) = Returns y" unfolding setters_def by blast
  show "c \<in> (\<lambda>a. SetValue a (sp_index p i a) x) ` {0..<sp_no_asdu p} \<union> setters acc p (Suc i) vs"
  proof (cases k)
    case 0
    with c assms show ?thesis by auto
  next
    case (Suc j)
    with c have "c \<in> setters acc p (Suc i) vs"
      unfolding setters_def by (intro CollectI exI [of _ j] exI [of _ a] exI [of _ y]) simp
    then show ?thesis by blast
  qed
next
  fix c assume "c \<in> (\<lambda>a. SetValue a (sp_index p i a) x) ` {0..<sp_no_asdu p} \<union> setters acc p (Suc i) vs"
  then consider a where "a < sp_no_asdu p" "c = SetValue a (sp_index p i a) x" | "c \<in> setters acc p (Suc i) vs" by auto
  then show "c \<in> setters acc p i (v # vs)"
  proof cases
    case (1 a)
    with assms show ?thesis unfolding setters_def by (intro CollectI exI [of _ 0] exI [of _ a] exI [of _ x]) simp
  next
    case 2
    then obtain k a y where "c = SetValue a (sp_index p (i + Suc k) a) y" "k < length vs" "a < sp_no_asdu p"
      "member_value acc (sp_members p ! (i + Suc k)) (vs ! k) = Returns y" by (auto simp: setters_def)
    then show ?thesis unfolding setters_def by (intro CollectI exI [of _ "Suc k"] exI [of _ a] exI [of _ y]) simp
  qed
qed

text \<open>What a set of values does to the calls.\<close>

lemma write_members_Returns:
  "write_members acc i vs p = Returns p' \<Longrightarrow>
   sv_inv p' = sv_inv p \<and>
   (\<exists>cs. p' = p\<lparr>sp_calls := cs @ sp_calls p\<rparr> \<and>
     set cs = {SetValue a (sp_index p (i + k) a) x |k a x. k < length vs \<and> a < sp_no_asdu p \<and>
       member_value acc (sp_members p ! (i + k)) (vs ! k) = Returns x})"
  unfolding setters_def [symmetric]
proof (induction vs arbitrary: i p)
  case Nil
  then show ?case by (auto intro!: exI [of _ "[]"])
next
  case (Cons v vs)
  then obtain x where x: "member_value acc (sp_members p ! i) v = Returns x"
    "write_members acc (Suc i) vs (write_asdus x i [0..<sp_no_asdu p] p) = Returns p'"
    by (auto split: if_splits)
  define q where "q = write_asdus x i [0..<sp_no_asdu p] p"
  have q: "setters acc q = setters acc p"
    "sp_calls q = rev (map (\<lambda>a. SetValue a (sp_index p i a) x) [0..<sp_no_asdu p]) @ sp_calls p"
    "q\<lparr>sp_calls := cs\<rparr> = p\<lparr>sp_calls := cs\<rparr>" "sv_inv q = sv_inv p" for cs
    by (simp_all add: q_def write_asdus_eq sv_inv_calls setters_def fun_eq_iff)
  from Cons.IH [OF x(2) [folded q_def]] obtain cs where cs: "sv_inv p' = sv_inv q"
    "p' = q\<lparr>sp_calls := cs @ sp_calls q\<rparr>" "set cs = setters acc p (Suc i) vs" by (auto simp: q(1))
  let ?cs = "cs @ rev (map (\<lambda>a. SetValue a (sp_index p i a) x) [0..<sp_no_asdu p])"
  have "set ?cs = setters acc p i (v # vs)" using cs(3) by (auto simp: setters_Cons [where x = x, OF x(1)])
  moreover have "p' = p\<lparr>sp_calls := ?cs @ sp_calls p\<rparr>" by (simp add: cs(2) q)
  ultimately show ?case using cs(1) q(4) by blast
qed

lemma compare_layout_None:
  "compare_layout ts vs = None \<Longrightarrow> length ts = length vs \<Longrightarrow> k < length vs \<Longrightarrow>
   member_type (vs ! k) = Some (ts ! k)"
proof (induction ts vs arbitrary: k rule: compare_layout.induct)
  case (1 t ts v vs)
  then show ?case by (cases k) (auto split: option.splits if_splits)
qed simp_all

lemma member_value_defined:
  "member_type v = Some t \<Longrightarrow> member_value acc t v \<noteq> Undefined"
  by (cases v) (auto simp: member_value_def)

lemma write_members_total:
  "i + length vs \<le> length (sp_members p) \<Longrightarrow>
   (\<And>k. k < length vs \<Longrightarrow> member_type (vs ! k) = Some (sp_members p ! (i + k))) \<Longrightarrow>
   write_members acc i vs p \<noteq> Undefined"
proof (induction vs arbitrary: i p)
  case (Cons v vs)
  have "member_type v = Some (sp_members p ! i)" using Cons.prems(2) [of 0] by simp
  then obtain x where x: "member_value acc (sp_members p ! i) v = Returns x"
    using member_value_defined [of v] by (cases "member_value acc (sp_members p ! i) v") auto
  define q where "q = write_asdus x i [0..<sp_no_asdu p] p"
  have m: "sp_members q = sp_members p" by (simp add: q_def write_asdus_eq)
  have "write_members acc (Suc i) vs q \<noteq> Undefined"
    using Cons.prems(1) Cons.prems(2) [of "Suc _"] by (intro Cons.IH) (auto simp: m)
  with x Cons.prems(1) show ?case by (simp add: q_def [symmetric])
qed simp

lemma write_values_total: "check_values p vs = None \<Longrightarrow> write_values acc p vs \<noteq> Undefined"
  unfolding write_values_def
  by (intro write_members_total)
    (auto simp: check_values_def split: if_splits dest: compare_layout_None [of "sp_members p" vs])

lemma sv_pub_emit_inv: "sv_inv p \<Longrightarrow> sv_inv (call (Emit j) p)"
  by (simp add: sv_inv_def)

lemma sv_pub_handle_line_inv:
  assumes "sv_inv p" "handle_line L acc p l = Returns (p', keep)"
  shows "sv_inv p'"
proof -
  have "sv_inv q \<Longrightarrow> sv_inv (q\<lparr>sp_after_set := True\<rparr>)" for q by (simp add: sv_inv_def)
  with assms show ?thesis
    by (auto simp: handle_line_def sv_pub_emit_inv write_values_def
        split: option.splits if_splits sum.splits value_error.splits dest!: write_members_Returns)
qed

lemma sv_pub_handle_line_total:
  assumes "line_ok L l"
  shows "handle_line L acc p l \<noteq> Undefined"
proof (cases "json_tokener_parse L l")
  case None
  then show ?thesis by (simp add: handle_line_def)
next
  case (Some cmd)
  with assms(1) obtain c where c: "command_name L cmd = Some c" and n: "\<not> has_null_type cmd"
    unfolding line_ok_def by auto
  show ?thesis
  proof (cases "goose_values_from_json L (json_get_ex cmd ''values'')")
    case (Inl e)
    with values_no_crash [OF n, of L "''values''"] show ?thesis
      by (cases e) (simp_all add: handle_line_def Some c)
  next
    case (Inr vs)
    show ?thesis
    proof (cases "check_values p vs")
      case None
      then obtain q where "write_values acc p vs = Returns q"
        using write_values_total by (cases "write_values acc p vs") auto
      with Inr None show ?thesis by (simp add: handle_line_def Some c)
    next
      case (Some err)
      with Inr \<open>json_tokener_parse L l = Some cmd\<close> c show ?thesis by (simp add: handle_line_def)
    qed
  qed
qed

interpretation sv_lines: total_client "handle_line L acc" line_too_long sv_inv "line_ok L"
  by unfold_locales
    (auto simp: line_too_long_def sv_pub_emit_inv sv_pub_handle_line_total dest: sv_pub_handle_line_inv)

section \<open>The main loop\<close>

lemma sv_receive_inv:
  "receive (handle_line L acc) line_too_long line p run got = Returns (p', run', line') \<Longrightarrow>
   sv_inv p \<Longrightarrow> sv_inv p'"
  by (rule sv_lines.receive_inv(1))

text \<open>Commands neither send frames nor touch the log.\<close>

definition resync_log :: string where
  "resync_log = ''sv-publisher: more than 1 s behind schedule, resynchronising''"

lemma handle_line_quiet:
  assumes "handle_line L acc p l = Returns (p', keep)"
  shows "frames_sent (sp_calls p') = frames_sent (sp_calls p) \<and>
    (Log resync_log \<in> set (sp_calls p') \<longleftrightarrow> Log resync_log \<in> set (sp_calls p))"
proof -
  have "frames_sent (sp_calls q') = frames_sent (sp_calls q) \<and>
      (Log resync_log \<in> set (sp_calls q') \<longleftrightarrow> Log resync_log \<in> set (sp_calls q))"
    if "write_members acc i vs q = Returns q'" for i vs q q'
    using that
  proof (induction vs arbitrary: i q)
    case (Cons v vs)
    then obtain x where "write_members acc (Suc i) vs (write_asdus x i [0..<sp_no_asdu q] q) = Returns q'"
      by (auto split: if_splits)
    with Cons.IH [OF this] show ?case by (auto simp: write_asdus_eq)
  qed simp
  with assms show ?thesis
    by (auto simp: handle_line_def write_values_def
        split: option.splits if_splits sum.splits value_error.splits)
qed

interpretation sv_quiet: line_client "handle_line L acc" line_too_long
  "\<lambda>q. frames_sent (sp_calls q) = n \<and> (Log resync_log \<in> set (sp_calls q)) = b"
  by unfold_locales (auto simp: line_too_long_def dest: handle_line_quiet)

lemma sv_receive_quiet:
  "receive (handle_line L acc) line_too_long line p run got = Returns (p', run', line') \<Longrightarrow>
   frames_sent (sp_calls p') = frames_sent (sp_calls p) \<and>
   (Log resync_log \<in> set (sp_calls p')) = (Log resync_log \<in> set (sp_calls p))"
  using sv_quiet.receive_inv(1) [of p "frames_sent (sp_calls p)" "Log resync_log \<in> set (sp_calls p)"] by blast

text \<open>A turn is the frame, if one is due, and then the wait and what it brings.\<close>

definition due_frame :: "sv_env \<Rightarrow> u64 \<Rightarrow> sv_main \<Rightarrow> (sv_publisher \<times> u64) outcome" where
  "due_frame E period_ns m =
     (let now = sv_mono_ns E (sp_calls (sm_pub m)); p = call MonoTime (sm_pub m)
      in if sm_next m \<le> now
         then bind_outcome (send_frame E p) (\<lambda>p.
                let nxt = advance period_ns (sm_next m) now
                in Returns (if now > sm_next m + period_ns + 1000000000 then call (Log resync_log) p else p, nxt))
         else Returns (p, sm_next m))"

definition polled :: "sv_env \<Rightarrow> bool \<Rightarrow> sv_publisher \<Rightarrow> u64 \<Rightarrow> wake \<times> sv_publisher" where
  "polled E stdin_open p nxt =
     (let clock1 = sv_mono_ns E (sp_calls p); p = call MonoTime p;
          (clock2, p) = (if nxt > clock1 then (sv_mono_ns E (sp_calls p), call MonoTime p) else (0, p))
      in (sv_wake E (sp_calls p), call (Poll (wait_ns nxt clock1 clock2) stdin_open) p))"

lemma main_step_eq:
  "main_step L acc E period_ns m =
   bind_outcome (due_frame E period_ns m) (\<lambda>(p, nxt).
     let (w, p) = polled E (sm_stdin_open m) p nxt; m = m\<lparr>sm_pub := p, sm_next := nxt\<rparr>
     in if w = Signalled then Returns (m\<lparr>sm_running := False\<rparr>)
        else if \<not> sm_stdin_open m then Returns m
        else (case w of
            Input got \<Rightarrow>
              bind_outcome (receive (handle_line L acc) line_too_long (sm_line m) p True
                              (take (line_max - length (sm_line m)) got))
                (\<lambda>(p, running, line). Returns (m\<lparr>sm_pub := p, sm_running := running, sm_line := line\<rparr>))
          | EndOfInput \<Rightarrow>
              Returns (m\<lparr>sm_pub := call (Log ''sv-publisher: stdin closed; publishing until SIGTERM'') p,
                         sm_stdin_open := False\<rparr>)
          | _ \<Rightarrow> Returns m))"
  unfolding main_step_def due_frame_def polled_def resync_log_def Let_def
  by (auto intro!: arg_cong2 [of _ _ _ _ bind_outcome] simp: split_beta split: prod.split)

lemma polled_pub:
  assumes "polled E b p nxt = (w, q)"
  shows "sv_inv q = sv_inv p" "frames_sent (sp_calls q) = frames_sent (sp_calls p)"
    "(Log resync_log \<in> set (sp_calls q)) = (Log resync_log \<in> set (sp_calls p))"
  using assms by (auto simp: polled_def Let_def sv_inv_def split: if_splits)

lemma due_frame_inv:
  assumes "sv_inv (sm_pub m)"
  shows "\<exists>p nxt. due_frame E period_ns m = Returns (p, nxt) \<and> sv_inv p"
proof -
  have c: "sv_inv (call MonoTime (sm_pub m))" using assms by (simp add: sv_inv_def)
  then obtain p where p: "send_frame E (call MonoTime (sm_pub m)) = Returns p" using sv_pub_send_frame_total by blast
  have "sv_inv p" using c p by (rule sv_pub_send_frame_inv)
  moreover have "sv_inv (call (Log r) p) = sv_inv p" for r by (simp add: sv_inv_def)
  ultimately show ?thesis using c by (auto simp: due_frame_def Let_def p)
qed

text \<open>The lines that a turn completes, when it reads: it reads after the frame and the wait.\<close>

definition lines_read :: "sv_env \<Rightarrow> u64 \<Rightarrow> sv_main \<Rightarrow> string list" where
  "lines_read E period_ns m =
     (case due_frame E period_ns m of
        Undefined \<Rightarrow> []
      | Returns (p, nxt) \<Rightarrow>
          (case fst (polled E (sm_stdin_open m) p nxt) of
             Input got \<Rightarrow> complete_lines (c_str (sm_line m @ take (line_max - length (sm_line m)) got))
           | _ \<Rightarrow> []))"

lemma sv_pub_main_step_inv:
  assumes "sv_inv (sm_pub m)"
  shows "main_step L acc E period_ns m = Returns m' \<Longrightarrow> sv_inv (sm_pub m')"
    and "list_all (line_ok L) (lines_read E period_ns m) \<Longrightarrow> main_step L acc E period_ns m \<noteq> Undefined"
proof -
  obtain p nxt where f: "due_frame E period_ns m = Returns (p, nxt)" "sv_inv p"
    using due_frame_inv [OF assms(1)] by blast
  obtain w q where q: "polled E (sm_stdin_open m) p nxt = (w, q)" by force
  have inv: "sv_inv q" "sv_inv (call (Log r) q)" for r using polled_pub [OF q] f(2) by (simp_all add: sv_inv_def)
  let ?r = "\<lambda>got. receive (handle_line L acc) line_too_long (sm_line m) q True
                (take (line_max - length (sm_line m)) got)"
  show "sv_inv (sm_pub m')" if "main_step L acc E period_ns m = Returns m'"
    using that f q inv by (auto simp: main_step_eq Let_def split: if_splits wake.splits dest: sv_receive_inv)
  assume ok: "list_all (line_ok L) (lines_read E period_ns m)"
  show "main_step L acc E period_ns m \<noteq> Undefined"
  proof (cases "\<exists>got. w = Input got \<and> sm_stdin_open m")
    case True
    then obtain got where got: "w = Input got" "sm_stdin_open m" by blast
    with ok f q have "?r got \<noteq> Undefined" by (intro sv_lines.receive_total [OF inv(1)]) (simp add: lines_read_def)
    then obtain p' run line where r: "?r got = Returns (p', run, line)" by (cases "?r got") auto
    with f q got show ?thesis by (simp add: main_step_eq)
  next
    case False
    with f q show ?thesis by (cases w) (auto simp: main_step_eq Let_def)
  qed
qed

lemma sv_pub_reaches_inv:
  "reaches L acc E period_ns m m' \<Longrightarrow> sv_inv (sm_pub m) \<Longrightarrow> sv_inv (sm_pub m')"
  by (induction rule: reaches.induct) (auto intro: sv_pub_main_step_inv(1))

section \<open>Pacing\<close>

text \<open>Without a resynchronisation the deadline is the start plus one period for each frame.\<close>

definition paced :: "u64 \<Rightarrow> u64 \<Rightarrow> sv_main \<Rightarrow> bool" where
  "paced t0 period_ns m \<longleftrightarrow> Log resync_log \<in> set (sp_calls (sm_pub m)) \<or>
     sm_next m = t0 + of_nat (frames_sent (sp_calls (sm_pub m))) * period_ns"

lemma number_asdus_quiet:
  "number_asdus now as lst p = (lst', p') \<Longrightarrow>
   frames_sent (sp_calls p') = frames_sent (sp_calls p) \<and>
   (Log r \<in> set (sp_calls p')) = (Log r \<in> set (sp_calls p))"
proof (induction as arbitrary: lst p)
  case (Cons a as)
  from Cons.prems obtain lst1 q where "number_asdus now as lst1 q = (lst', p')"
    "frames_sent (sp_calls q) = frames_sent (sp_calls p)"
    "(Log r \<in> set (sp_calls q)) = (Log r \<in> set (sp_calls p))"
    by (cases "sp_generic p") (auto simp: Let_def)
  with Cons.IH show ?case by metis
qed simp

lemma send_frame_quiet:
  assumes "send_frame E p = Returns p'"
  shows "frames_sent (sp_calls p') = Suc (frames_sent (sp_calls p)) \<and>
    (Log r \<in> set (sp_calls p')) = (Log r \<in> set (sp_calls p))"
proof (rule sv_pub_send_frame_Returns [OF assms])
  fix now q lst s
  assume "stamped E p = (now, q)" "number_asdus now [0..<sp_no_asdu q] 0 q = (lst, s)"
    and p': "p' = s\<lparr>sp_calls := (case report_reason p of
         None \<Rightarrow> PublishFrame # sp_calls s
       | Some reason \<Rightarrow> Emit (published_event reason (sp_frames p + 1)
           (sp_samples p + of_nat (sp_no_asdu p)) lst) # PublishFrame # sp_calls s),
       sp_frames := sp_frames p + 1, sp_samples := sp_samples p + of_nat (sp_no_asdu p),
       sp_after_set := False\<rparr>"
  then have "frames_sent (sp_calls s) = frames_sent (sp_calls p)"
    "(Log r \<in> set (sp_calls s)) = (Log r \<in> set (sp_calls p))"
    by (auto dest!: number_asdus_quiet [where r = r] simp: stamped_def split: if_splits)
  then show ?thesis unfolding p' by (auto split: option.split)
qed

lemma due_frame_paced:
  assumes "paced t0 period_ns m" "due_frame E period_ns m = Returns (p, nxt)"
  shows "paced t0 period_ns (m\<lparr>sm_pub := p, sm_next := nxt\<rparr>)"
proof -
  define now where "now = sv_mono_ns E (sp_calls (sm_pub m))"
  show ?thesis
  proof (cases "sm_next m \<le> now")
    case False
    with assms show ?thesis by (auto simp: due_frame_def Let_def now_def paced_def)
  next
    case True
    then obtain q where q: "send_frame E (call MonoTime (sm_pub m)) = Returns q"
      and p: "p = (if now > sm_next m + period_ns + 1000000000 then call (Log resync_log) q else q)"
      and nxt: "nxt = advance period_ns (sm_next m) now"
      using assms(2) by (auto simp: due_frame_def Let_def now_def)
    note quiet = send_frame_quiet [OF q, of resync_log]
    show ?thesis
    proof (cases "now > sm_next m + period_ns + 1000000000")
      case True
      with p show ?thesis by (simp add: paced_def)
    next
      case False
      with assms(1) quiet p nxt show ?thesis
        by (auto simp: paced_def advance_def Let_def algebra_simps)
    qed
  qed
qed

lemma main_step_paced:
  assumes "paced t0 period_ns m" "main_step L acc E period_ns m = Returns m'"
  shows "paced t0 period_ns m'"
proof -
  obtain p nxt where f: "due_frame E period_ns m = Returns (p, nxt)"
    using assms(2) by (auto simp: main_step_eq)
  note pf = due_frame_paced [OF assms(1) f]
  obtain w q where q: "polled E (sm_stdin_open m) p nxt = (w, q)" by force
  have same: "paced t0 period_ns (m''\<lparr>sm_pub := r\<rparr>)"
    if "frames_sent (sp_calls r) = frames_sent (sp_calls p)"
      "(Log resync_log \<in> set (sp_calls r)) = (Log resync_log \<in> set (sp_calls p))" "sm_next m'' = nxt" for m'' r
    using pf that by (simp add: paced_def)
  have qq: "frames_sent (sp_calls q) = frames_sent (sp_calls p)"
    "(Log resync_log \<in> set (sp_calls q)) = (Log resync_log \<in> set (sp_calls p))"
    using polled_pub [OF q] by simp_all
  have "sm_next m' = nxt \<and> frames_sent (sp_calls (sm_pub m')) = frames_sent (sp_calls p) \<and>
      (Log resync_log \<in> set (sp_calls (sm_pub m'))) = (Log resync_log \<in> set (sp_calls p))"
    using assms(2) f q qq
    by (auto simp: main_step_eq Let_def resync_log_def [symmetric] split: if_splits wake.splits
        dest!: sv_receive_quiet) (simp_all add: resync_log_def)
  then show ?thesis using pf by (simp add: paced_def)
qed

section \<open>Properties of the SV publisher\<close>

text \<open>The numbers of the command line are what \<open>strtol\<close> returns.\<close>

definition opts_in_range :: "sv_opts \<Rightarrow> bool" where
  "opts_in_range opts \<longleftrightarrow> so_report_every opts < 2 ^ 63"

lemma strtol_less: "fst (strtol b s) < 2 ^ 63"
  by (auto simp: strtol_def num_subject_def Let_def split: prod.split)

lemma parse_args_in_range:
  "parse_args opts args = Inr opts' \<Longrightarrow> opts_in_range opts \<Longrightarrow> opts_in_range opts'"
proof (induction opts args rule: parse_args.induct)
  case (2 opts a args)
  show ?case
  proof (cases "sv_option a")
    case None
    with 2 show ?thesis by (auto simp: opts_in_range_def split: if_splits)
  next
    case (Some set_value)
    then obtain v rest where args: "args = v # rest" using "2.prems"(1) by (cases args) auto
    have "opts_in_range (set_value v opts)"
      using Some "2.prems"(2) strtol_less [of 0 v]
      by (auto simp: sv_option_def opts_in_range_def split: if_splits)
    with "2.IH"(2) [OF Some args] "2.prems"(1) Some args show ?thesis by simp
  qed
qed simp

lemma smp_wrap_range:
  assumes "1 \<le> smp_rate" "smp_rate \<le> 65535" "1 \<le> frequency"
  shows "smp_wrap smp_mod smp_rate frequency \<noteq> 0 \<and> unat (smp_wrap smp_mod smp_rate frequency) \<le> 65536"
proof -
  have "1 \<le> smp_rate * frequency" using assms by (simp add: int_one_le_iff_zero_less mult_pos_pos)
  moreover have "(word_of_int r :: u32) \<noteq> 0 \<and> unat (word_of_int r :: u32) \<le> 65536" if "1 \<le> r" "r \<le> 65536" for r
  proof -
    have "unat (word_of_int r :: u32) = nat r"
      using that by (simp add: unsigned_of_int take_bit_int_eq_self)
    with that show ?thesis by (auto simp: word_unat_eq_iff)
  qed
  ultimately show ?thesis using assms by (simp add: smp_wrap_def Let_def)
qed

lemma sv_setup_cases:
  assumes "sv_setup L acc slow_period version created src index opts = Returns (Inr (p, period_ns))"
  obtains sv_id smp_mod vs layout params q where
    "so_sv_id opts = Some sv_id" "sv_smp_mod_from_name (so_smp_mod opts) = Some smp_mod"
    "1 \<le> so_smp_rate opts" "so_smp_rate opts \<le> 65535" "1 \<le> so_no_asdu opts" "so_no_asdu opts \<le> 16"
    "1 \<le> so_frequency opts" "1 \<le> so_report_every opts"
    "check_layout vs = Inr layout" "so_profile opts = ''generic'' \<or> layout_92LE layout"
    "write_values acc \<lparr>sp_no_asdu = nat (so_no_asdu opts), sp_members = layout,
        sp_index = index, sp_generic = (so_profile opts = ''generic''),
        sp_wrap = smp_wrap smp_mod (so_smp_rate opts) (so_frequency opts),
        sp_smp_cnt = 0, sp_frames = 0, sp_samples = 0,
        sp_report_every = word_of_int (so_report_every opts), sp_after_set = False,
        sp_calls = rev (CreatePublisher params (so_iface opts) #
          concat (map (add_asdu opts sv_id smp_mod (so_profile opts = ''generic'') layout) [0..<nat (so_no_asdu opts)]) @
          [SetupComplete] @
          map (\<lambda>a. SetSmpSynch a (word_of_int (so_smp_synch opts))) [0..<nat (so_no_asdu opts)])\<rparr> vs = Returns q"
    "p = call (Emit (sv_ready version ''publisher'' (so_iface opts) src (Some sv_id)))
           (if so_simulation opts then call SetSimulationBit q else q)"
    "period_ns = smp_period slow_period smp_mod (so_smp_rate opts) (so_frequency opts) (so_no_asdu opts)"
proof -
  obtain sv_id js where o: "so_sv_id opts = Some sv_id" "so_values opts = Some js"
    using assms by (auto simp: sv_setup_def split: option.splits)
  obtain m where m: "sv_smp_mod_from_name (so_smp_mod opts) = Some m"
    using assms o by (auto simp: sv_setup_def split: option.splits)
  note u = assms [unfolded sv_setup_def o m option.case prod.case]
  have prof: "\<not> (so_profile opts \<noteq> ''generic'' \<and> so_profile opts \<noteq> ''9-2LE'')"
    using u by (rule contrapos_pn) simp
  note u = u [unfolded if_not_P [OF prof]]
  have r: "\<not> (so_vlan_id opts < 0 \<or> so_vlan_id opts > 4095 \<or> so_vlan_prio opts < 0 \<or>
      so_vlan_prio opts > 7 \<or> so_conf_rev opts < 0 \<or> so_smp_rate opts < 1 \<or>
      so_smp_rate opts > 65535 \<or> so_no_asdu opts < 1 \<or> so_no_asdu opts > int MAX_ASDU \<or>
      so_smp_synch opts < 0 \<or> so_smp_synch opts > 255 \<or> so_frequency opts < 1 \<or>
      so_report_every opts < 1)"
    using u by (rule contrapos_pn) simp
  note u = u [unfolded if_not_P [OF r] Let_def]
  obtain vs where v: "goose_values_from_json L (json_tokener_parse L js) = Inr vs"
    using u by (cases "goose_values_from_json L (json_tokener_parse L js)") (auto split: value_error.splits)
  note u = u [unfolded v sum.case]
  obtain layout where l: "check_layout vs = Inr layout" using u by (cases "check_layout vs") auto
  note u = u [unfolded l sum.case]
  have p: "\<not> (so_profile opts \<noteq> ''generic'' \<and> \<not> layout_92LE layout)"
    using u by (rule contrapos_pn) simp
  note u = u [unfolded if_not_P [OF p]]
  obtain a d where ad: "goose_parse_appid (so_app_id opts) = Some a" "goose_parse_mac (so_dst opts) = Some d"
    using u by (cases "goose_parse_appid (so_app_id opts)"; cases "goose_parse_mac (so_dst opts)") auto
  note u = u [unfolded ad option.case prod.case]
  have c: "(\<not> created) = False" using u by (cases created) simp_all
  note u = u [unfolded c if_False]
  from u obtain q where q: "write_values acc \<lparr>sp_no_asdu = nat (so_no_asdu opts), sp_members = layout,
        sp_index = index, sp_generic = (so_profile opts = ''generic''),
        sp_wrap = smp_wrap m (so_smp_rate opts) (so_frequency opts),
        sp_smp_cnt = 0, sp_frames = 0, sp_samples = 0,
        sp_report_every = word_of_int (so_report_every opts), sp_after_set = False,
        sp_calls = rev (CreatePublisher \<lparr>vlanId = word_of_int (so_vlan_id opts),
              vlanPriority = word_of_int (so_vlan_prio opts), appId = a, dstAddress = d\<rparr> (so_iface opts) #
          concat (map (add_asdu opts sv_id m (so_profile opts = ''generic'') layout) [0..<nat (so_no_asdu opts)]) @
          [SetupComplete] @
          map (\<lambda>a. SetSmpSynch a (word_of_int (so_smp_synch opts))) [0..<nat (so_no_asdu opts)])\<rparr> vs = Returns q"
    and p': "p = call (Emit (sv_ready version ''publisher'' (so_iface opts) src (Some sv_id)))
           (if so_simulation opts then call SetSimulationBit q else q)"
    and per: "period_ns = smp_period slow_period m (so_smp_rate opts) (so_frequency opts) (so_no_asdu opts)"
    by auto
  have rr: "1 \<le> so_smp_rate opts" "so_smp_rate opts \<le> 65535" "1 \<le> so_no_asdu opts" "so_no_asdu opts \<le> 16"
    "1 \<le> so_frequency opts" "1 \<le> so_report_every opts"
    using r by (simp_all add: MAX_ASDU_def not_less)
  have pp: "so_profile opts = ''generic'' \<or> layout_92LE layout" using p by blast
  show ?thesis by (rule that [OF o(1) m rr l pp q p' per])
qed

lemma quiet_setup_calls [simp]:
  "smp_counts (rev (add_asdu opts sv_id m g layout a) @ cs) = smp_counts cs"
  "frames_sent (rev (add_asdu opts sv_id m g layout a) @ cs) = frames_sent cs"
  "smp_counts (rev (map (AddMember a) layout) @ cs) = smp_counts cs"
  "frames_sent (rev (map (AddMember a) layout) @ cs) = frames_sent cs"
proof -
  have a: "smp_counts (rev (map (AddMember a) layout) @ cs) = smp_counts cs \<and>
    frames_sent (rev (map (AddMember a) layout) @ cs) = frames_sent cs" for cs
    by (induction layout arbitrary: cs) simp_all
  then show "smp_counts (rev (map (AddMember a) layout) @ cs) = smp_counts cs"
    "frames_sent (rev (map (AddMember a) layout) @ cs) = frames_sent cs" by simp_all
  from a show "smp_counts (rev (add_asdu opts sv_id m g layout a) @ cs) = smp_counts cs"
    "frames_sent (rev (add_asdu opts sv_id m g layout a) @ cs) = frames_sent cs"
    by (simp_all add: add_asdu_def)
qed

lemma quiet_setup_all [simp]:
  "smp_counts (rev (map (\<lambda>a. SetSmpSynch a s) as) @ cs) = smp_counts cs"
  "frames_sent (rev (map (\<lambda>a. SetSmpSynch a s) as) @ cs) = frames_sent cs"
  "smp_counts (rev (concat (map (add_asdu opts sv_id m g layout) as)) @ cs) = smp_counts cs"
  "frames_sent (rev (concat (map (add_asdu opts sv_id m g layout) as)) @ cs) = frames_sent cs"
  by (induction as arbitrary: cs) simp_all

lemma sv_setup_inv:
  assumes "sv_setup L acc slow_period version created src index opts = Returns (Inr (p, period_ns))"
    and "opts_in_range opts"
  shows "sv_inv p \<and> frames_sent (sp_calls p) = 0 \<and> Log resync_log \<notin> set (sp_calls p) \<and>
    sp_no_asdu p = nat (so_no_asdu opts)"
proof (rule sv_setup_cases [OF assms(1)])
  fix sv_id smp_mod vs layout params q
  let ?cs = "rev (CreatePublisher params (so_iface opts) #
          concat (map (add_asdu opts sv_id smp_mod (so_profile opts = ''generic'') layout) [0..<nat (so_no_asdu opts)]) @
          [SetupComplete] @
          map (\<lambda>a. SetSmpSynch a (word_of_int (so_smp_synch opts))) [0..<nat (so_no_asdu opts)])"
  let ?p0 = "\<lparr>sp_no_asdu = nat (so_no_asdu opts), sp_members = layout,
        sp_index = index, sp_generic = (so_profile opts = ''generic''),
        sp_wrap = smp_wrap smp_mod (so_smp_rate opts) (so_frequency opts),
        sp_smp_cnt = 0, sp_frames = 0, sp_samples = 0,
        sp_report_every = word_of_int (so_report_every opts), sp_after_set = False, sp_calls = ?cs\<rparr>"
  assume r: "1 \<le> so_smp_rate opts" "so_smp_rate opts \<le> 65535" "1 \<le> so_frequency opts" "1 \<le> so_report_every opts"
    and w: "write_values acc ?p0 vs = Returns q"
    and p: "p = call (Emit (sv_ready version ''publisher'' (so_iface opts) src (Some sv_id)))
           (if so_simulation opts then call SetSimulationBit q else q)"
  define cs where "cs = ?cs"
  define p0 where "p0 = ?p0\<lparr>sp_calls := cs\<rparr>"
  have "unat (word_of_int (so_report_every opts) :: u64) = nat (so_report_every opts)"
    using r assms(2) by (simp add: opts_in_range_def unsigned_of_int take_bit_int_eq_self)
  then have re: "(word_of_int (so_report_every opts) :: u64) \<noteq> 0" using r by (auto simp: word_unat_eq_iff)
  have c: "smp_counts cs = []" "frames_sent cs = 0" "Log resync_log \<notin> set cs"
    unfolding cs_def by (simp_all add: add_asdu_def) auto
  have p0: "sv_inv p0" "sp_calls p0 = cs" "sp_no_asdu p0 = nat (so_no_asdu opts)"
    using c re smp_wrap_range [OF r(1-3), of smp_mod] by (simp_all add: sv_inv_def numbered_def p0_def)
  have "write_members acc 0 vs p0 = Returns q" using w by (simp add: p0_def cs_def write_values_def)
  note wm = write_members_Returns [OF this, unfolded p0(2)]
  from wm obtain ds where ds: "q = p0\<lparr>sp_calls := ds @ cs\<rparr>"
    and set: "set ds = {SetValue a (sp_index p0 (0 + k) a) x |k a x. k < length vs \<and> a < sp_no_asdu p0 \<and>
       member_value acc (sp_members p0 ! (0 + k)) (vs ! k) = Returns x}" by (elim conjE exE)
  have sv: "\<exists>a i x. c = SetValue a i x" if "c \<in> set ds" for c using that unfolding set by fast
  have "frames_sent (ds @ cs) = 0" "Log resync_log \<notin> set (ds @ cs)"
  proof -
    have "frames_sent (es @ cs) = 0 \<and> Log resync_log \<notin> set (es @ cs)"
      if "\<And>c. c \<in> set es \<Longrightarrow> \<exists>a i x. c = SetValue a i x" for es
      using that c(2,3) by (induction es) force+
    with sv show "frames_sent (ds @ cs) = 0" "Log resync_log \<notin> set (ds @ cs)" by blast+
  qed
  moreover have "sv_inv q" using wm p0(1) by simp
  moreover have "sv_inv (call (Emit j) s) = sv_inv s" "sv_inv (call SetSimulationBit s) = sv_inv s" for j s
    by (simp_all add: sv_inv_def)
  ultimately show ?thesis using p0 ds by (simp add: p)
qed

lemma main_start_inv [simp]: "sv_inv (sm_pub (main_start E p)) = sv_inv p"
  by (simp add: main_start_def sv_inv_def Let_def)


text \<open>C12: A turn of the SV publisher's main loop has no undefined behaviour, in any state it
  reaches and for any octets on stdin, as long as every line that the turn's read completes is one
  that \<open>strcmp\<close> can take: no JSON at all, or JSON whose \<open>cmd\<close> member is not null and which has no
  member \<open>"type":null\<close>. There is neither a division by a zero wrap or report interval, nor a value
  read at another type than its own, whatever the values of the commands. (A line such as
  \<open>{"cmd":null}\<close> does crash the program; \<open>--report-every\<close> is below \<open>2 ^ 63\<close>, as
  everything \<open>strtol\<close> returns is.)\<close>

theorem sv_publisher_defined:
  assumes "sv_setup L acc slow_period version created src index opts = Returns (Inr (p, period_ns))"
    and "opts_in_range opts" "reaches L acc E period_ns (main_start E p) m"
    and "list_all (line_ok L) (lines_read E period_ns m)"
  shows "main_step L acc E period_ns m \<noteq> Undefined"
proof -
  have "sv_inv (sm_pub (main_start E p))"
    using sv_setup_inv [OF assms(1,2)] by simp
  then have "sv_inv (sm_pub m)" by (rule sv_pub_reaches_inv [OF assms(3)])
  then show ?thesis using assms(4) by (rule sv_pub_main_step_inv(2))
qed

text \<open>C17: The SV publisher's frames do not drift: as long as it has not logged a
  resynchronisation, the deadline of the next frame is the start of the loop plus one period for
  every frame sent, however late the single wake-ups were.\<close>

theorem sv_no_drift:
  assumes "sv_setup L acc slow_period version created src index opts = Returns (Inr (p, period_ns))"
    and "opts_in_range opts" "reaches L acc E period_ns (main_start E p) m"
    and "Log resync_log \<notin> set (sp_calls (sm_pub m))"
  shows "sm_next m = sv_mono_ns E (sp_calls p) + of_nat (frames_sent (sp_calls (sm_pub m))) * period_ns"
proof -
  have "paced (sv_mono_ns E (sp_calls p)) period_ns m"
    using assms(3)
  proof (induction rule: reaches.induct)
    case start
    then show ?case using sv_setup_inv [OF assms(1,2)] by (simp add: paced_def main_start_def)
  next
    case (turn m' m'')
    show ?case using turn.IH turn.hyps(3) by (rule main_step_paced)
  qed
  with assms(4) show ?thesis by (simp add: paced_def)
qed

text \<open>The SV publisher reads the clock twice for one wait. When both readings are on the
  same side of the deadline the wait is what is left until it. When the deadline passes between
  them, the difference wraps: the wait is \<open>2 ^ 64\<close> less the lateness, hundreds of years.\<close>

theorem sv_wait:
  "wait_ns nxt clock1 clock2 =
     (if unat nxt \<le> unat clock1 then 0
      else if unat clock2 \<le> unat nxt then of_nat (unat nxt - unat clock2)
      else of_nat (2 ^ 64 - (unat clock2 - unat nxt)))"
proof -
  have lt: "unat clock2 < 2 ^ LENGTH(64)" by (rule unsigned_less)
  have z: "(of_nat (2 ^ 64) :: u64) = 0" by simp
  show ?thesis
  proof (cases "unat clock2 \<le> unat nxt")
    case True
    then show ?thesis by (simp add: wait_ns_def word_less_nat_alt of_nat_diff)
  next
    case False
    then have "(of_nat (2 ^ 64 - (unat clock2 - unat nxt)) :: u64) = nxt - clock2"
    proof -
      have "2 ^ 64 - (unat clock2 - unat nxt) + unat clock2 = 2 ^ 64 + unat nxt"
        using False lt by simp
      then have "(of_nat (2 ^ 64 - (unat clock2 - unat nxt)) :: u64) + clock2 = nxt"
        by (metis (mono_tags) z add_0 of_nat_add of_nat_unat ucast_id)
      then show ?thesis by (simp add: algebra_simps)
    qed
    with False show ?thesis by (simp add: wait_ns_def word_less_nat_alt)
  qed
qed
text \<open>A set command whose values fit the layout writes, for every member and every ASDU, the
  value at its offset, as the type of the member; it writes nothing else, changes nothing else,
  and has the next frame reported.\<close>

theorem sv_set_writes:
  assumes "json_tokener_parse L line = Some cmd" "command_name L cmd = Some ''set''"
    and "goose_values_from_json L (json_get_ex cmd ''values'') = Inr vs" "check_values p vs = None"
    and "handle_line L acc p line = Returns (p', keep)"
  shows "keep \<and> (\<exists>cs. p' = p\<lparr>sp_calls := cs @ sp_calls p, sp_after_set := True\<rparr> \<and>
    set cs = {SetValue a (sp_index p i a) x |i a x. i < length (sp_members p) \<and> a < sp_no_asdu p \<and>
      member_value acc (sp_members p ! i) (vs ! i) = Returns x})"
proof -
  obtain q where q: "write_members acc 0 vs p = Returns q" "p' = q\<lparr>sp_after_set := True\<rparr>" "keep"
    using assms by (auto simp: handle_line_def write_values_def)
  have len: "length vs = length (sp_members p)" using assms(4) by (auto simp: check_values_def split: if_splits)
  from write_members_Returns [OF q(1)] q(2,3) show ?thesis by (auto simp: len)
qed

section \<open>A concrete stream\<close>

definition sample_sv_lib :: value_lib where
  "sample_sv_lib = sample_lib\<lparr>json_parse := (\<lambda>s. if s = ''set'' then
     Some (JObject [(''cmd'', JString ''set''), (''values'', JArray [typed ''boolean'' (JBool True)])])
     else Some (JArray [typed ''boolean'' (JBool False)]))\<rparr>"

definition sample_sv_opts :: sv_opts where
  "sample_sv_opts = sv_defaults\<lparr>so_sv_id := Some ''MU01'', so_values := Some ''[]'',
     so_profile := ''generic'', so_no_asdu := 2, so_app_id := ''0x1001'', so_dst := ''01:0c:cd:01:00:00''\<rparr>"

definition sample_sv_env :: sv_env where
  "sample_sv_env = \<lparr>sv_real_ns = (\<lambda>cs. 0), sv_mono_ns = (\<lambda>cs. of_nat (length cs) * 500000), sv_wake = (\<lambda>cs. Idle)\<rparr>"

lemma sample_sv_values:
  "goose_values_from_json sample_sv_lib (Some (JArray [typed ''boolean'' (JBool b)])) = Inr [MBoolean b]"
  by (simp add: goose_values_from_json_def goose_value_from_json.simps json_get_string_def nul_def)

definition sample_access :: mms_access where
  "sample_access = \<lparr>mv_to_int32 = ucast, mv_utc_ms = (\<lambda>raw. 0)\<rparr>"

lemma sample_sv_setup:
  "\<exists>p. sv_setup sample_sv_lib sample_access (\<lambda>n r. 0) ''dev'' True [2, 0, 0, 0, 0, 1] (\<lambda>i a. int i) sample_sv_opts =
     Returns (Inr (p, 500000)) \<and> sp_members p = [SV_BOOLEAN] \<and> sp_no_asdu p = 2 \<and> sp_wrap p = 4000"
proof -
  have "''0x'' @ hex_pad 4 (unat (0x1001 :: u16)) = ''0x1001''"
    by (simp add: hex_pad_def pad0_def to_digits.simps [of 16 4097] to_digits.simps [of 16 256]
      to_digits.simps [of 16 16] to_digits.simps [where n = "Suc 0"] hex_digit_chars)
  then have a: "goose_parse_appid ''0x1001'' = Some 0x1001" using goose_parse_appid_hex [of "0x1001"] by simp
  have "goose_format_mac [1, 12, 205, 1, 0, 0] = ''01:0c:cd:01:00:00''"
    by (simp add: goose_format_mac_def hex_pad_2 hex_digit_chars)
  then have m: "goose_parse_mac ''01:0c:cd:01:00:00'' = Some [1, 12, 205, 1, 0, 0]"
    using goose_parse_format_mac [of "[1, 12, 205, 1, 0, 0]"] by simp
  have s: "sv_smp_mod_from_name ''samples-per-period'' = Some 0"
    by (simp add: sv_smp_mod_from_name_def upt_3 k_smp_mods_def)
  have j: "json_tokener_parse sample_sv_lib ''[]'' = Some (JArray [typed ''boolean'' (JBool False)])"
    by (simp add: json_tokener_parse_def sample_sv_lib_def)
  show ?thesis
    by (simp add: sv_setup_def sample_sv_opts_def sv_defaults_def a m s j sample_sv_values check_layout_def
      MAX_MEMBERS_def MAX_ASDU_def write_values_def member_value_def write_asdus_eq smp_period_def smp_wrap_def Let_def)
qed

lemma sample_sv_line_ok: "line_ok sample_sv_lib line"
  by (auto simp: line_ok_def sample_sv_lib_def json_tokener_parse_def command_name_def json_get_ex_def
    has_null_type_def typed_def json_get_string_def split: if_splits)

lemma sample_sv_range: "opts_in_range sample_sv_opts"
  by (simp add: opts_in_range_def sample_sv_opts_def sv_defaults_def)


theorem sv_publisher_defined_witness:
  "\<exists>p. main_step sample_sv_lib sample_access sample_sv_env 500000 (main_start sample_sv_env p) \<noteq> Undefined"
proof -
  obtain p where p: "sv_setup sample_sv_lib sample_access (\<lambda>n r. 0) ''dev'' True [2, 0, 0, 0, 0, 1] (\<lambda>i a. int i)
      sample_sv_opts = Returns (Inr (p, 500000))" using sample_sv_setup by blast
  have "list_all (line_ok sample_sv_lib) (lines_read sample_sv_env 500000 (main_start sample_sv_env p))"
    by (simp add: list_all_iff sample_sv_line_ok)
  with sv_publisher_defined [OF p sample_sv_range reaches.start] show ?thesis by blast
qed

theorem sv_no_drift_witness:
  "\<exists>p. sm_next (main_start sample_sv_env p) = sv_mono_ns sample_sv_env (sp_calls p) +
     of_nat (frames_sent (sp_calls (sm_pub (main_start sample_sv_env p)))) * 500000"
proof -
  obtain p where p: "sv_setup sample_sv_lib sample_access (\<lambda>n r. 0) ''dev'' True [2, 0, 0, 0, 0, 1] (\<lambda>i a. int i)
      sample_sv_opts = Returns (Inr (p, 500000))" using sample_sv_setup by blast
  have "Log resync_log \<notin> set (sp_calls (sm_pub (main_start sample_sv_env p)))"
    using sv_setup_inv [OF p sample_sv_range] by (simp add: main_start_def)
  from sv_no_drift [OF p sample_sv_range reaches.start this] show ?thesis by blast
qed

theorem sv_set_writes_witness:
  "\<exists>p p' keep. handle_line sample_sv_lib sample_access p ''set'' = Returns (p', keep) \<and>
     SetValue 1 0 (SetINT8 1) \<in> set (sp_calls p') \<and> sp_after_set p'"
proof -
  obtain p :: sv_publisher where p: "sp_members p = [SV_BOOLEAN]" "sp_no_asdu p = 2" using sample_sv_setup by blast
  define q where "q = p\<lparr>sp_index := (\<lambda>i a. int i)\<rparr>"
  have q: "sp_members q = [SV_BOOLEAN]" "sp_no_asdu q = 2" "sp_index q = (\<lambda>i a. int i)" using p by (simp_all add: q_def)
  let ?cmd = "JObject [(''cmd'', JString ''set''), (''values'', JArray [typed ''boolean'' (JBool True)])]"
  have j: "json_tokener_parse sample_sv_lib ''set'' = Some ?cmd"
    by (simp add: json_tokener_parse_def sample_sv_lib_def)
  have c: "command_name sample_sv_lib ?cmd = Some ''set''"
    by (simp add: command_name_def json_get_ex_def json_get_string_def nul_def)
  have v: "goose_values_from_json sample_sv_lib (json_get_ex ?cmd ''values'') = Inr [MBoolean True]"
    using sample_sv_values [of True] by (simp add: json_get_ex_def)
  have k: "check_values q [MBoolean True] = None" using q by (simp add: check_values_def MAX_MEMBERS_def)
  obtain p' keep where h: "handle_line sample_sv_lib sample_access q ''set'' = Returns (p', keep)"
    using sv_pub_handle_line_total [OF sample_sv_line_ok, of sample_access q "''set''"]
    by (cases "handle_line sample_sv_lib sample_access q ''set''") auto
  from sv_set_writes [OF j c v k h] obtain cs where cs: "p' = q\<lparr>sp_calls := cs @ sp_calls q, sp_after_set := True\<rparr>"
    "set cs = {SetValue a (sp_index q i a) x |i a x. i < length (sp_members q) \<and> a < sp_no_asdu q \<and>
      member_value sample_access (sp_members q ! i) ([MBoolean True] ! i) = Returns x}" by blast
  have "SetValue 1 0 (SetINT8 1) \<in> set cs"
    unfolding cs(2) using q by (intro CollectI exI [of _ 0] exI [of _ 1] exI [of _ "SetINT8 1"]) (simp add: member_value_def)
  then have "SetValue 1 0 (SetINT8 1) \<in> set (sp_calls p') \<and> sp_after_set p'" using cs(1) by simp
  with h show ?thesis by blast
qed

end
