(* ===== verification/SvSubscriber.thy ===== *)
theory SvSubscriber
  imports SvCommon StreamTable
begin

text \<open>
  \<open>sv_subscriber.c\<close>: the fixture's streams, the stream table, the loss accounting, the decoding of
  seqData, the listener, the BER reader for noASDU and the loop over received frames. Events
  printed so far are \<open>ss_out\<close>, newest first. What libiec61850's receiver hands to the listener for a
  frame, given the APPIDs registered, is the parameter \<open>decode\<close>; its readers of seqData are the
  fields of \<open>sv_reader\<close>.
\<close>

section \<open>The fixture\<close>

record fixture_stream =
  fx_sv_id :: string
  fx_types :: "sv_type list"
  fx_wrap :: u32

definition MAX_FIXTURES :: nat where
  "MAX_FIXTURES = 16"

definition MAX_MEMBERS :: nat where
  "MAX_MEMBERS = 64"

text \<open>
  The loop over the members: \<open>types\<close> so far, where None stands for the entry of an unknown type
  that the code leaves as it was.
\<close>

fun member_loop ::
  "value_lib \<Rightarrow> json list \<Rightarrow> sv_type option list \<Rightarrow> bool \<Rightarrow> (sv_type option list \<times> bool) outcome" where
  "member_loop L [] types ok = Returns (types, ok)"
| "member_loop L (m # ms) types ok =
     (if length types < MAX_MEMBERS then
        (case json_get_ex m ''type'' of
           None \<Rightarrow> member_loop L ms types False
         | Some jt \<Rightarrow>
             (case json_get_string L jt of
                None \<Rightarrow> Undefined
              | Some name \<Rightarrow>
                  let t = sv_type_from_name name
                  in member_loop L ms (types @ [t]) (ok \<and> t \<noteq> None)))
      else Returns (types, ok))"

text \<open>One stream of the fixture file: none when it is left out.\<close>

definition fixture_entry :: "value_lib \<Rightarrow> json \<Rightarrow> fixture_stream option outcome" where
  "fixture_entry L s =
     (case (json_get_ex s ''svID'', json_get_ex s ''members'') of
        (Some jid, Some jmembers) \<Rightarrow>
          (case (json_get_string L jid, jmembers) of
             (Some sv_id, JArray ms) \<Rightarrow>
               bind_outcome (member_loop L ms [] True) (\<lambda>(types, ok).
                 Returns (if ok
                   then Some \<lparr>fx_sv_id = snprintf_s 130 sv_id, fx_types = map the types,
                          fx_wrap = (case json_get_ex s ''smpCntWrap'' of
                             None \<Rightarrow> 0 | Some jwrap \<Rightarrow> word_of_int (json_get_int L jwrap))\<rparr>
                   else None))
           | _ \<Rightarrow> Undefined)
      | _ \<Rightarrow> Returns None)"

fun fixture_loop :: "value_lib \<Rightarrow> (string \<times> json) list \<Rightarrow> fixture_stream list \<Rightarrow> fixture_stream list outcome" where
  "fixture_loop L [] fs = Returns fs"
| "fixture_loop L ((name, s) # ms) fs =
     (if length fs = MAX_FIXTURES then Returns fs
      else bind_outcome (fixture_entry L s) (\<lambda>e.
        fixture_loop L ms (case e of None \<Rightarrow> fs | Some f \<Rightarrow> fs @ [f])))"

text \<open>\<open>root\<close> is what \<open>json_object_from_file\<close> returns. A \<open>streams\<close> that is no object crashes.\<close>

definition load_fixture :: "value_lib \<Rightarrow> json option \<Rightarrow> fixture_stream list outcome" where
  "load_fixture L root =
     (case root of
        None \<Rightarrow> Returns []
      | Some r \<Rightarrow>
          (case json_get_ex r ''streams'' of
             None \<Rightarrow> Returns []
           | Some (JObject ms) \<Rightarrow> fixture_loop L ms []
           | Some _ \<Rightarrow> Undefined))"

definition fixture_for :: "fixture_stream list \<Rightarrow> string \<Rightarrow> fixture_stream option" where
  "fixture_for fs sv_id = find (\<lambda>f. fx_sv_id f = sv_id) fs"

section \<open>The stream table and the loss accounting\<close>

record sv_stream =
  sr_app_id :: u16
  sr_sv_id :: string
  sr_has_last :: bool
  sr_last :: u32
  sr_max_seen :: u32
  sr_wrap :: u32
  sr_fixture :: "fixture_stream option"

definition MAX_STREAMS :: nat where
  "MAX_STREAMS = 64"

definition stream_key :: "sv_stream \<Rightarrow> u16 \<times> string" where
  "stream_key s = (sr_app_id s, sr_sv_id s)"

fun find_stream :: "u16 \<times> string \<Rightarrow> sv_stream list \<Rightarrow> nat option" where
  "find_stream k [] = None"
| "find_stream k (s # ss) = (if stream_key s = k then Some 0 else map_option Suc (find_stream k ss))"

definition stream_for ::
  "fixture_stream list \<Rightarrow> u16 \<times> string \<Rightarrow> sv_stream list \<Rightarrow> nat option \<times> sv_stream list" where
  "stream_for fs k ss =
     (case find_stream k ss of
        Some i \<Rightarrow> (Some i, ss)
      | None \<Rightarrow>
          if length ss = MAX_STREAMS then (None, ss)
          else (let (app_id, sv_id) = k; fixture = fixture_for fs sv_id
                in (Some (length ss),
                    ss @ [\<lparr>sr_app_id = app_id, sr_sv_id = snprintf_s 130 sv_id, sr_has_last = False,
                           sr_last = 0, sr_max_seen = 0,
                           sr_wrap = (case fixture of None \<Rightarrow> 0 | Some f \<Rightarrow> fx_wrap f),
                           sr_fixture = fixture\<rparr>])))"

record sv_totals =
  received :: u64
  lost :: u64
  duplicates :: u64
  out_of_order :: u64

definition count :: "sv_stream \<Rightarrow> u32 \<Rightarrow> sv_totals \<Rightarrow> sv_stream \<times> sv_totals" where
  "count s smp_cnt g =
     (let g = g\<lparr>received := received g + 1\<rparr>
      in if \<not> sr_has_last s
         then (s\<lparr>sr_has_last := True, sr_last := smp_cnt, sr_max_seen := smp_cnt\<rparr>, g)
         else
           (let s = (if smp_cnt > sr_max_seen s then s\<lparr>sr_max_seen := smp_cnt\<rparr> else s);
                d = uint smp_cnt - uint (sr_last s)
            in if d = 1 then (s\<lparr>sr_last := smp_cnt\<rparr>, g)
               else if d = 0 then (s, g\<lparr>duplicates := duplicates g + 1\<rparr>)
               else if d > 1
               then (s\<lparr>sr_last := smp_cnt\<rparr>, g\<lparr>lost := lost g + word_of_int (d - 1)\<rparr>)
               else
                 (let wrap = (if sr_wrap s \<noteq> 0 then sr_wrap s else sr_max_seen s + 1)
                  in if sr_last s - smp_cnt > wrap div 2
                     then (s\<lparr>sr_last := smp_cnt\<rparr>,
                           g\<lparr>lost := lost g + (ucast (wrap - 1 - sr_last s) + ucast smp_cnt)\<rparr>)
                     else (s, g\<lparr>out_of_order := out_of_order g + 1\<rparr>))))"

section \<open>seqData\<close>

record sv_reader =
  rd_int32 :: "u8 list \<Rightarrow> nat \<Rightarrow> u32"
  rd_float32 :: "u8 list \<Rightarrow> nat \<Rightarrow> u32"
  rd_float64 :: "u8 list \<Rightarrow> nat \<Rightarrow> u64"
  rd_quality :: "u8 list \<Rightarrow> nat \<Rightarrow> u32"
  rd_time_ms :: "u8 list \<Rightarrow> nat \<Rightarrow> u64"

text \<open>The member at an offset; a read beyond the data is undefined.\<close>

definition read_member :: "value_lib \<Rightarrow> sv_reader \<Rightarrow> u8 list \<Rightarrow> nat \<Rightarrow> sv_type \<Rightarrow> mms_value outcome" where
  "read_member L R data off t =
     (if length data < off + sv_type_size t then Undefined
      else Returns (case t of
          SV_INT32 \<Rightarrow> MInteger (scast (rd_int32 R data off))
        | SV_INT32U \<Rightarrow> MUnsigned (rd_int32 R data off)
        | SV_FLOAT32 \<Rightarrow> MFloat32 (rd_float32 R data off)
        | SV_FLOAT64 \<Rightarrow> MFloat64 (rd_float64 R data off)
        | SV_BOOLEAN \<Rightarrow> MBoolean (data ! off \<noteq> 0)
        | SV_QUALITY \<Rightarrow> MBitString (sv_quality_to_value (rd_quality R data off))
        | SV_TIMESTAMP \<Rightarrow> MUtcTime (utc_of_ms L (rd_time_ms R data off))))"

fun decode_loop :: "value_lib \<Rightarrow> sv_reader \<Rightarrow> u8 list \<Rightarrow> nat \<Rightarrow> sv_type list \<Rightarrow> json list outcome" where
  "decode_loop L R data off [] = Returns []"
| "decode_loop L R data off (t # ts) =
     bind_outcome (read_member L R data off t) (\<lambda>v.
     bind_outcome (decode_loop L R data (off + sv_type_size t) ts) (\<lambda>js.
       Returns (goose_value_to_json L (Some v) # js)))"

definition decode_values :: "value_lib \<Rightarrow> sv_reader \<Rightarrow> u8 list \<Rightarrow> fixture_stream \<Rightarrow> json option outcome" where
  "decode_values L R data f =
     (if sum_list (map sv_type_size (fx_types f)) > length data then Returns None
      else bind_outcome (decode_loop L R data 0 (fx_types f)) (\<lambda>js. Returns (Some (JArray js))))"

section \<open>The listener\<close>

record sv_asdu =
  as_sv_id :: "string option"
  as_smp_cnt :: u16
  as_dat_set :: "string option"
  as_conf_rev :: u32
  as_refr_tm :: "u64 option"
  as_smp_synch :: u8
  as_smp_rate :: "u16 option"
  as_smp_mod :: "u8 option"
  as_data :: "u8 list"

record sv_config =
  cf_fixtures :: "fixture_stream list"
  cf_sv_id :: "string option"
  cf_every :: int
  cf_app_id :: "u16 option"
  cf_dst :: "u8 list option"

record sv_subscriber =
  ss_streams :: "sv_stream list"
  ss_totals :: sv_totals
  ss_known :: "u16 list"
  ss_dst :: "u8 list"
  ss_src :: "u8 list"
  ss_app_id :: u16
  ss_simulation :: bool
  ss_no_asdu :: int
  ss_asdu_index :: int
  ss_out :: "json list"

definition opt_json :: "('a \<Rightarrow> json) \<Rightarrow> 'a option \<Rightarrow> json" where
  "opt_json f x = (case x of None \<Rightarrow> JNull | Some y \<Rightarrow> f y)"

definition sv_event :: "sv_subscriber \<Rightarrow> sv_asdu \<Rightarrow> string \<Rightarrow> int \<Rightarrow> json option \<Rightarrow> json" where
  "sv_event g asdu sv_id index decoded =
     JObject ([(''event'', JString ''sv''),
       (''appID'', JString (''0x'' @ hex_pad 4 (unat (ss_app_id g)))),
       (''dst'', JString (goose_format_mac (ss_dst g))), (''src'', JString (goose_format_mac (ss_src g))),
       (''svID'', JString sv_id), (''datSet'', opt_json JString (as_dat_set asdu)),
       (''smpCnt'', JInt (uint (as_smp_cnt asdu))), (''confRev'', JInt (uint (as_conf_rev asdu))),
       (''refrTm'', opt_json (\<lambda>ns. JString (sv_format_ns ns)) (as_refr_tm asdu)),
       (''smpSynch'', JInt (uint (as_smp_synch asdu))),
       (''smpRate'', opt_json (\<lambda>r. JInt (uint r)) (as_smp_rate asdu)),
       (''smpMod'', opt_json JString (Option.bind (as_smp_mod asdu) sv_smp_mod_name)),
       (''simulation'', JBool (ss_simulation g)), (''asduIndex'', JInt index),
       (''noASDU'', JInt (ss_no_asdu g)),
       (''values'', opt_json (\<lambda>j. j) decoded)] @
       (if decoded = None then [(''seqData'', JString (hex_text (as_data asdu)))] else []))"

definition listener ::
  "value_lib \<Rightarrow> sv_reader \<Rightarrow> sv_config \<Rightarrow> sv_asdu \<Rightarrow> sv_subscriber \<Rightarrow> sv_subscriber outcome" where
  "listener L R cf asdu g =
     (let index = ss_asdu_index g;
          g = g\<lparr>ss_asdu_index := index + 1\<rparr>;
          sv_id = (case as_sv_id asdu of None \<Rightarrow> '''' | Some i \<Rightarrow> i)
      in if (case cf_sv_id cf of None \<Rightarrow> False | Some f \<Rightarrow> sv_id \<noteq> f) then Returns g
         else
           (let smp_cnt = ucast (as_smp_cnt asdu);
                (found, ss) = stream_for (cf_fixtures cf) (ss_app_id g, sv_id) (ss_streams g);
                g = (case found of
                       None \<Rightarrow> g\<lparr>ss_streams := ss\<rparr>
                     | Some i \<Rightarrow>
                         let (s, t) = count (ss ! i) smp_cnt (ss_totals g)
                         in g\<lparr>ss_streams := ss[i := s], ss_totals := t\<rparr>);
                every :: u32 = word_of_int (cf_every cf)
            in if every = 0 then Undefined
               else if smp_cnt mod every \<noteq> 0 then Returns g
               else bind_outcome
                 (case Option.bind found (\<lambda>i. sr_fixture (ss ! i)) of
                    None \<Rightarrow> Returns None
                  | Some f \<Rightarrow> decode_values L R (as_data asdu) f) (\<lambda>decoded.
                 Returns (g\<lparr>ss_out := sv_event g asdu sv_id index decoded # ss_out g\<rparr>))))"

definition stats_event :: "sv_totals \<Rightarrow> json" where
  "stats_event t =
     JObject [(''event'', JString ''stats''), (''received'', JInt (sint (received t))),
       (''lost'', JInt (sint (lost t))), (''duplicates'', JInt (sint (duplicates t))),
       (''outOfOrder'', JInt (sint (out_of_order t)))]"

section \<open>BER\<close>

definition octet :: "u8 list \<Rightarrow> nat \<Rightarrow> int outcome" where
  "octet buf i = (if i < length buf then Returns (uint (buf ! i)) else Undefined)"

text \<open>
  \<open>while (n--) v = (v << 8) | buf[(*pos)++]\<close> with \<open>v\<close> an \<open>int\<close>: shifting a set bit into or past
  the sign is undefined.
\<close>

fun read_number :: "u8 list \<Rightarrow> nat \<Rightarrow> nat \<Rightarrow> int \<Rightarrow> (int \<times> nat) outcome" where
  "read_number buf 0 pos v = Returns (v, pos)"
| "read_number buf (Suc n) pos v =
     (if v * 256 > 2 ^ 31 - 1 then Undefined
      else bind_outcome (octet buf pos) (\<lambda>x. read_number buf n (Suc pos) (v * 256 + x)))"

text \<open>The length and the position after it; None where the code returns -1.\<close>

definition ber_length :: "u8 list \<Rightarrow> nat \<Rightarrow> (int \<times> nat) option outcome" where
  "ber_length buf pos =
     (if pos \<ge> length buf then Returns None
      else bind_outcome (octet buf pos) (\<lambda>b.
        if b < 0x80 then Returns (Some (b, Suc pos))
        else let n = nat (b mod 128)
             in if n > 2 \<or> Suc pos + n > length buf then Returns None
                else bind_outcome (read_number buf n (Suc pos) 0) (\<lambda>r. Returns (Some r))))"

definition read_no_asdu :: "u8 list \<Rightarrow> int outcome" where
  "read_no_asdu apdu =
     (if length apdu < 4 then Returns 0
      else bind_outcome (octet apdu 0) (\<lambda>tag.
        if tag \<noteq> 0x60 then Returns 0
        else bind_outcome (ber_length apdu 1) (\<lambda>r. case r of
            None \<Rightarrow> Returns 0
          | Some (l, pos) \<Rightarrow>
              if pos \<ge> length apdu then Returns 0
              else bind_outcome (octet apdu pos) (\<lambda>tag.
                if tag \<noteq> 0x80 then Returns 0
                else bind_outcome (ber_length apdu (Suc pos)) (\<lambda>r. case r of
                    None \<Rightarrow> Returns 0
                  | Some (n, pos) \<Rightarrow>
                      if n < 1 \<or> n > 4 \<or> pos + nat n > length apdu then Returns 0
                      else bind_outcome (read_number apdu (nat n) pos 0) (\<lambda>(v, pos). Returns v))))))"

section \<open>Frames\<close>

fun deliver ::
  "value_lib \<Rightarrow> sv_reader \<Rightarrow> sv_config \<Rightarrow> sv_asdu list \<Rightarrow> sv_subscriber \<Rightarrow> sv_subscriber outcome" where
  "deliver L R cf [] g = Returns g"
| "deliver L R cf (a # as) g = bind_outcome (listener L R cf a g) (deliver L R cf as)"

definition register :: "u16 \<Rightarrow> u16 list \<Rightarrow> u16 list" where
  "register app_id known =
     (if app_id \<notin> set known \<and> length known < MAX_STREAMS then known @ [app_id] else known)"

definition receive_frame ::
  "value_lib \<Rightarrow> sv_reader \<Rightarrow> (u16 list \<Rightarrow> u8 list \<Rightarrow> sv_asdu list) \<Rightarrow> sv_config \<Rightarrow> u8 list \<Rightarrow>
   sv_subscriber \<Rightarrow> sv_subscriber outcome" where
  "receive_frame L R decode cf frame g =
     (let n = length frame
      in if n < 14 then Returns g
         else let off = (if frame ! 12 = 0x81 \<and> frame ! 13 = 0x00 then 16 else 12 :: nat)
              in if n < off + 10 \<or> frame ! off \<noteq> 0x88 \<or> frame ! (off + 1) \<noteq> 0xba then Returns g
                 else let hdr = off + 2;
                          frame_app_id :: u16 = push_bit 8 (ucast (frame ! hdr)) OR ucast (frame ! (hdr + 1))
                      in if (case cf_app_id cf of None \<Rightarrow> False | Some a \<Rightarrow> frame_app_id \<noteq> a) then Returns g
                         else if (case cf_dst cf of None \<Rightarrow> False | Some d \<Rightarrow> take 6 frame \<noteq> d) then Returns g
                         else bind_outcome (read_no_asdu (drop (hdr + 8) frame)) (\<lambda>no_asdu.
                           let known = register frame_app_id (ss_known g);
                               g = g\<lparr>ss_known := known, ss_dst := take 6 frame,
                                     ss_src := take 6 (drop 6 frame), ss_app_id := frame_app_id,
                                     ss_simulation := frame ! (hdr + 4) AND 0x80 \<noteq> 0,
                                     ss_no_asdu := no_asdu, ss_asdu_index := 0\<rparr>
                           in deliver L R cf (decode known frame) g))"

section \<open>The stream table\<close>

definition key_ok :: "u16 \<times> string \<Rightarrow> bool" where
  "key_ok k \<longleftrightarrow> length (snd k) < 130"

lemma sv_sub_find_stream_Some:
  "i < length ss \<Longrightarrow> stream_key (ss ! i) = k \<Longrightarrow> (\<And>j. j < i \<Longrightarrow> stream_key (ss ! j) \<noteq> k) \<Longrightarrow>
   find_stream k ss = Some i"
proof (induction ss arbitrary: i)
  case (Cons s ss)
  show ?case
  proof (cases i)
    case 0
    with Cons.prems show ?thesis by simp
  next
    case (Suc n)
    have "stream_key s \<noteq> k" using Cons.prems(3) [of 0] Suc by simp
    moreover have "stream_key (ss ! j) \<noteq> k" if "j < n" for j
      using Cons.prems(3) [of "Suc j"] that Suc by simp
    ultimately show ?thesis using Cons.IH [of n] Cons.prems(1,2) Suc by simp
  qed
qed simp

lemma sv_sub_find_stream_None: "k \<notin> stream_key ` set ss \<Longrightarrow> find_stream k ss = None"
  by (induction ss) auto

interpretation sv_streams: slot_table "stream_for fs" stream_key MAX_STREAMS key_ok
proof
  fix i and ss :: "sv_stream list" and k
  assume "i < length ss" "stream_key (ss ! i) = k" "\<And>j. j < i \<Longrightarrow> stream_key (ss ! j) \<noteq> k"
  then show "stream_for fs k ss = (Some i, ss)" by (simp add: stream_for_def sv_sub_find_stream_Some)
next
  fix k and ss :: "sv_stream list"
  assume "k \<notin> stream_key ` set ss" "length ss < MAX_STREAMS"
  then show "\<exists>e. stream_for fs k ss = (Some (length ss), ss @ [e]) \<and> (key_ok k \<longrightarrow> stream_key e = k)"
    by (cases k) (simp add: stream_for_def sv_sub_find_stream_None key_ok_def stream_key_def Let_def)
qed (simp add: stream_for_def sv_sub_find_stream_None)

section \<open>Counting\<close>

text \<open>
  The samples of a sender by their absolute numbers: what the receiver sees is a rising
  sequence, each number arriving as its remainder by the wrap.
\<close>

fun count_all :: "sv_stream \<Rightarrow> sv_totals \<Rightarrow> u32 list \<Rightarrow> sv_stream \<times> sv_totals" where
  "count_all s g [] = (s, g)"
| "count_all s g (c # cs) = (let (s, g) = count s c g in count_all s g cs)"

fun gaps_below :: "nat \<Rightarrow> nat \<Rightarrow> nat list \<Rightarrow> bool" where
  "gaps_below b a [] = True"
| "gaps_below b a (n # ns) = (a < n \<and> n - a < b \<and> gaps_below b n ns)"

fun missed :: "nat \<Rightarrow> nat list \<Rightarrow> nat" where
  "missed a [] = 0"
| "missed a (n # ns) = (n - a - 1) + missed n ns"

lemma mod_add_cases: "(a + g) mod w = (if a mod w + g < w then a mod w + g else a mod w + g - w)"
  if "g < w" for a g w :: nat
proof -
  have "(a + g) mod w = (a mod w + g) mod w" by (simp add: mod_add_left_eq)
  moreover have "a mod w + g < 2 * w" using that mod_less_divisor [of w a] by linarith
  ultimately show ?thesis by (simp add: le_mod_geq)
qed

lemma ucast_of_unat: "(ucast (x :: u32) :: u64) = of_nat (unat x)"
  by simp

lemma count_fields:
  "sr_last (if b then s\<lparr>sr_max_seen := m\<rparr> else s) = sr_last s"
  "sr_wrap (if b then s\<lparr>sr_max_seen := m\<rparr> else s) = sr_wrap s"
  "\<exists>k. (if b then s\<lparr>sr_max_seen := m\<rparr> else s)\<lparr>sr_last := x\<rparr> = s\<lparr>sr_last := x, sr_max_seen := k\<rparr>"
proof -
  show "\<exists>k. (if b then s\<lparr>sr_max_seen := m\<rparr> else s)\<lparr>sr_last := x\<rparr> = s\<lparr>sr_last := x, sr_max_seen := k\<rparr>"
    by (cases b) (auto intro: exI [of _ m] exI [of _ "sr_max_seen s"])
qed simp_all

lemma small_u32: "n < 65536 \<Longrightarrow> uint (of_nat n :: u32) = int n \<and> unat (of_nat n :: u32) = n"
  by (simp add: unsigned_of_nat take_bit_nat_eq_self)

text \<open>A number that is \<open>d\<close> further, without and with a wrap between.\<close>

lemma count_forward:
  assumes l: "sr_has_last s" "unat (sr_last s) = r" and d: "0 < d" "c < 65536" "c = r + d"
  shows "\<exists>m. count s (of_nat c) g =
    (s\<lparr>sr_last := of_nat c, sr_max_seen := m\<rparr>, g\<lparr>received := received g + 1, lost := lost g + of_nat (d - 1)\<rparr>)"
proof -
  have lost0: "g\<lparr>received := x, lost := lost g\<rparr> = g\<lparr>received := x\<rparr>" for x by simp
  have ul: "uint (sr_last s) = int r" using l(2) by (simp add: uint_nat)
  have diff: "uint (of_nat c :: u32) - uint (sr_last s) = int d"
    unfolding ul small_u32 [OF d(2), THEN conjunct1] by (simp add: d(3))
  show ?thesis
  proof (cases "d = 1")
    case True
    then show ?thesis unfolding count_def Let_def using l(1) count_fields [where s = s] diff lost0 by simp
  next
    case False
    then have "int d \<noteq> 1" "1 < int d" "int d \<noteq> 0" using d(1) by linarith+
    moreover have "(word_of_int (int d - 1) :: u64) = of_nat (d - 1)" using d(1) by (simp add: of_nat_diff)
    ultimately show ?thesis unfolding count_def Let_def using l(1) count_fields [where s = s] diff by simp
  qed
qed

lemma count_wrapped:
  assumes w: "unat (sr_wrap s) = w" "w \<le> 65536" and l: "sr_has_last s" "unat (sr_last s) = r" "r < w"
    and d: "d < w - w div 2" "w \<le> r + d" and c: "c = r + d - w"
  shows "\<exists>m. count s (of_nat c) g =
    (s\<lparr>sr_last := of_nat c, sr_max_seen := m\<rparr>, g\<lparr>received := received g + 1, lost := lost g + of_nat (d - 1)\<rparr>)"
proof -
  have cr: "c < r" "c < 65536" using c d l(3) w(2) by linarith+
  note uc = small_u32 [OF cr(2)]
  have w0: "sr_wrap s \<noteq> 0" using w l by auto
  have ul: "uint (sr_last s) = int r" using l(2) by (simp add: uint_nat)
  have diff: "uint (of_nat c :: u32) - uint (sr_last s) < 0"
    unfolding ul uc [THEN conjunct1] using cr(1) by simp
  have "unat (sr_last s - of_nat c) = unat (sr_last s) - unat (of_nat c :: u32)"
    using cr(1) uc l(2) by (intro unat_sub) (simp add: word_le_nat_alt)
  then have "unat (sr_last s - of_nat c) = w - d" using uc l(2) c d(2) cr(1) by simp
  then have far: "sr_last s - of_nat c > sr_wrap s div 2" using d w(1) by (simp add: word_less_nat_alt unat_div)
  have o: "unat (sr_wrap s - 1) = w - 1" using w0 w(1) l(3) by (subst unat_sub) (simp_all add: word_le_nat_alt)
  have "sr_last s \<le> sr_wrap s - 1" using o l(2,3) by (simp add: word_le_nat_alt)
  then have "unat (sr_wrap s - 1 - sr_last s) = w - 1 - r" using o l(2) by (subst unat_sub) simp_all
  then have "(ucast (sr_wrap s - 1 - sr_last s) + ucast (of_nat c :: u32) :: u64) = of_nat ((w - 1 - r) + c)"
    using uc by (simp add: ucast_of_unat)
  also have "(w - 1 - r) + c = d - 1" using c d(2) l(3) by linarith
  finally have "(ucast (sr_wrap s - 1 - sr_last s) + ucast (of_nat c :: u32) :: u64) = of_nat (d - 1)" .
  then show ?thesis unfolding count_def Let_def using l(1) count_fields [where s = s] diff w0 far by simp
qed

lemma count_step:
  assumes w: "unat (sr_wrap s) = w" "w \<le> 65536" and l: "sr_has_last s" "unat (sr_last s) = a mod w"
    and gap: "a < n" "n - a < w - w div 2"
  shows "\<exists>m. count s (of_nat (n mod w)) g =
    (s\<lparr>sr_last := of_nat (n mod w), sr_max_seen := m\<rparr>,
     g\<lparr>received := received g + 1, lost := lost g + of_nat (n - a - 1)\<rparr>)"
proof -
  have d: "n - a < w" "0 < n - a" using gap by linarith+
  have r: "a mod w < w" using d by simp
  have n: "n mod w = (if a mod w + (n - a) < w then a mod w + (n - a) else a mod w + (n - a) - w)"
    using mod_add_cases [OF d(1), of a] gap(1) by simp
  show ?thesis
  proof (cases "a mod w + (n - a) < w")
    case True
    then have "a mod w + (n - a) < 65536" using w(2) by linarith
    with count_forward [OF l d(2) _ refl] n True show ?thesis by simp
  next
    case False
    with count_wrapped [OF w l r gap(2) _ refl] n show ?thesis by simp
  qed
qed

theorem count_all_exact:
  assumes "unat (sr_wrap s) = w" "w \<le> 65536" "sr_has_last s" "unat (sr_last s) = a mod w"
    "gaps_below (w - w div 2) a ns"
  shows "\<exists>s'. count_all s g (map (\<lambda>n. of_nat (n mod w)) ns) =
    (s', g\<lparr>received := received g + of_nat (length ns), lost := lost g + of_nat (missed a ns)\<rparr>)"
  using assms
proof (induction ns arbitrary: s a g)
  case (Cons n ns)
  then obtain m where m: "count s (of_nat (n mod w)) g =
      (s\<lparr>sr_last := of_nat (n mod w), sr_max_seen := m\<rparr>,
       g\<lparr>received := received g + 1, lost := lost g + of_nat (n - a - 1)\<rparr>)"
    using count_step [of s w a n g] by auto
  have "n mod w < w" using Cons.prems(5) by (intro mod_less_divisor) auto
  then have "unat (of_nat (n mod w) :: u32) = n mod w"
    using Cons.prems(2) by (simp add: unsigned_of_nat take_bit_nat_eq_self)
  then obtain s' where "count_all (s\<lparr>sr_last := of_nat (n mod w), sr_max_seen := m\<rparr>)
      (g\<lparr>received := received g + 1, lost := lost g + of_nat (n - a - 1)\<rparr>)
      (map (\<lambda>n. of_nat (n mod w)) ns) =
      (s', g\<lparr>received := received g + 1 + of_nat (length ns),
             lost := lost g + of_nat (n - a - 1) + of_nat (missed n ns)\<rparr>)"
    using Cons.IH [of "s\<lparr>sr_last := of_nat (n mod w), sr_max_seen := m\<rparr>" n
      "g\<lparr>received := received g + 1, lost := lost g + of_nat (n - a - 1)\<rparr>"] Cons.prems by auto
  then show ?case by (simp add: m add.assoc add.commute [of 1])
qed simp

section \<open>The command line and the main loop\<close>

record sv_sub_opts =
  sso_iface :: string
  sso_fixture :: string
  sso_config :: sv_config

fun parse_args :: "sv_sub_opts \<Rightarrow> string list \<Rightarrow> string + sv_sub_opts" where
  "parse_args opts [] = Inr opts"
| "parse_args opts (a # args) =
     (if a \<in> {''--iface'', ''--app-id'', ''--sv-id'', ''--dst'', ''--sample-every'', ''--fixture''} then
        (case args of
           [] \<Rightarrow> Inl (''sv-subscriber: '' @ a @ '' needs a value'')
         | v # rest \<Rightarrow>
             if a = ''--iface'' then parse_args (opts\<lparr>sso_iface := v\<rparr>) rest
             else if a = ''--app-id'' then
               (case goose_parse_appid v of
                  None \<Rightarrow> Inl (''sv-subscriber: --app-id '' @ v @ '' is not a 16-bit number'')
                | Some n \<Rightarrow> parse_args (opts\<lparr>sso_config := (sso_config opts)\<lparr>cf_app_id := Some n\<rparr>\<rparr>) rest)
             else if a = ''--sv-id'' then
               parse_args (opts\<lparr>sso_config := (sso_config opts)\<lparr>cf_sv_id := Some v\<rparr>\<rparr>) rest
             else if a = ''--dst'' then
               (case goose_parse_mac v of
                  None \<Rightarrow> Inl (''sv-subscriber: --dst '' @ v @ '' is not a MAC address'')
                | Some m \<Rightarrow> parse_args (opts\<lparr>sso_config := (sso_config opts)\<lparr>cf_dst := Some m\<rparr>\<rparr>) rest)
             else if a = ''--sample-every'' then
               (let every = fst (strtol 0 v)
                in if every < 1 then Inl ''sv-subscriber: --sample-every must be >= 1''
                   else parse_args (opts\<lparr>sso_config := (sso_config opts)\<lparr>cf_every := every\<rparr>\<rparr>) rest)
             else parse_args (opts\<lparr>sso_fixture := v\<rparr>) rest)
      else Inl (''sv-subscriber: unknown argument '' @ a))"

text \<open>The option variables before the command line is read; \<open>path\<close> is \<open>SV_FIXTURE_PATH\<close>.\<close>

definition sv_sub_defaults :: "string \<Rightarrow> sv_sub_opts" where
  "sv_sub_defaults path =
     \<lparr>sso_iface = ''eth0'', sso_fixture = path,
      sso_config = \<lparr>cf_fixtures = [], cf_sv_id = None, cf_every = 1, cf_app_id = None, cf_dst = None\<rparr>\<rparr>"

definition subscriber_start :: "string \<Rightarrow> string \<Rightarrow> u8 list \<Rightarrow> string option \<Rightarrow> sv_subscriber" where
  "subscriber_start version iface own sv_filter =
     \<lparr>ss_streams = [], ss_totals = \<lparr>received = 0, lost = 0, duplicates = 0, out_of_order = 0\<rparr>,
      ss_known = [], ss_dst = replicate 6 0, ss_src = replicate 6 0, ss_app_id = 0,
      ss_simulation = False, ss_no_asdu = 0, ss_asdu_index = 0,
      ss_out = [sv_ready version ''subscriber'' iface own sv_filter]\<rparr>"

text \<open>The part of a turn that is due at a clock: the state is \<open>next_stats\<close> and the subscriber.\<close>

definition tick :: "u64 \<Rightarrow> u64 \<times> sv_subscriber \<Rightarrow> u64 \<times> sv_subscriber" where
  "tick now st =
     (if now \<ge> fst st
      then (fst st + 1000, (snd st)\<lparr>ss_out := stats_event (ss_totals (snd st)) # ss_out (snd st)\<rparr>)
      else st)"

inductive loop_step ::
  "value_lib \<Rightarrow> sv_reader \<Rightarrow> (u16 list \<Rightarrow> u8 list \<Rightarrow> sv_asdu list) \<Rightarrow> sv_config \<Rightarrow>
   u64 \<times> sv_subscriber \<Rightarrow> u64 \<times> sv_subscriber \<Rightarrow> bool"
  for L R decode cf where
  tick: "loop_step L R decode cf st (tick now st)"
| frame: "receive_frame L R decode cf bytes (snd st) = Returns g \<Longrightarrow> loop_step L R decode cf st (fst st, g)"

inductive_cases sv_sub_loop_stepE: "loop_step L R decode cf st st'"

inductive run_to ::
  "value_lib \<Rightarrow> sv_reader \<Rightarrow> (u16 list \<Rightarrow> u8 list \<Rightarrow> sv_asdu list) \<Rightarrow> sv_config \<Rightarrow>
   u64 \<times> sv_subscriber \<Rightarrow> u64 \<times> sv_subscriber \<Rightarrow> bool"
  for L R decode cf st where
  start: "run_to L R decode cf st st"
| step: "run_to L R decode cf st st' \<Longrightarrow> loop_step L R decode cf st' st'' \<Longrightarrow> run_to L R decode cf st st''"

section \<open>seqData is read in bounds\<close>

fun offsets :: "nat \<Rightarrow> sv_type list \<Rightarrow> nat list" where
  "offsets off [] = []"
| "offsets off (t # ts) = off # offsets (off + sv_type_size t) ts"

lemma decode_loop_eq:
  "off + sum_list (map sv_type_size ts) \<le> length data \<Longrightarrow>
   \<exists>vs. list_all2 (\<lambda>(off, t) v. read_member L R data off t = Returns v) (zip (offsets off ts) ts) vs \<and>
     decode_loop L R data off ts = Returns (map (\<lambda>v. goose_value_to_json L (Some v)) vs)"
proof (induction ts arbitrary: off)
  case (Cons t ts)
  obtain v where v: "read_member L R data off t = Returns v"
    using Cons.prems by (auto simp: read_member_def)
  obtain vs where "list_all2 (\<lambda>(off, t) v. read_member L R data off t = Returns v)
      (zip (offsets (off + sv_type_size t) ts) ts) vs"
    "decode_loop L R data (off + sv_type_size t) ts = Returns (map (\<lambda>v. goose_value_to_json L (Some v)) vs)"
    using Cons.IH [of "off + sv_type_size t"] Cons.prems by auto
  with v show ?case by (intro exI [of _ "v # vs"]) auto
qed simp

lemma decode_values_total: "\<exists>r. decode_values L R data f = Returns r"
  using decode_loop_eq [of 0 "fx_types f" data L R] by (auto simp: decode_values_def)

lemma length_offsets [simp]: "length (offsets off ts) = length ts"
  by (induction ts arbitrary: off) simp_all

lemma nth_offsets: "i < length ts \<Longrightarrow> offsets off ts ! i = off + sum_list (map sv_type_size (take i ts))"
proof (induction ts arbitrary: off i)
  case (Cons t ts)
  then show ?case by (cases i) simp_all
qed simp

text \<open>C18: seqData is decoded member by member at the offsets the sizes of the members before it
  give, as many values as the fixture has members, and no octet outside the data is read: data
  too short for the members is refused as a whole before anything is read.\<close>

theorem sv_values_decoded:
  "(length data < sum_list (map sv_type_size (fx_types f)) \<and> decode_values L R data f = Returns None) \<or>
   (\<exists>vs. length vs = length (fx_types f) \<and>
      decode_values L R data f = Returns (Some (JArray (map (\<lambda>v. goose_value_to_json L (Some v)) vs))) \<and>
      list_all (\<lambda>i. read_member L R data (sum_list (map sv_type_size (take i (fx_types f)))) (fx_types f ! i) =
        Returns (vs ! i)) [0..<length vs])"
proof (cases "length data < sum_list (map sv_type_size (fx_types f))")
  case False
  then obtain vs where vs: "list_all2 (\<lambda>(off, t) v. read_member L R data off t = Returns v)
      (zip (offsets 0 (fx_types f)) (fx_types f)) vs"
    "decode_loop L R data 0 (fx_types f) = Returns (map (\<lambda>v. goose_value_to_json L (Some v)) vs)"
    using decode_loop_eq [of 0 "fx_types f" data L R] by auto
  from vs(1) have "length vs = length (fx_types f)" by (auto dest: list_all2_lengthD)
  moreover have "list_all (\<lambda>i. read_member L R data (sum_list (map sv_type_size (take i (fx_types f))))
      (fx_types f ! i) = Returns (vs ! i)) [0..<length vs]"
    using vs(1) by (auto simp: list_all_iff list_all2_conv_all_nth nth_offsets)
  moreover have "decode_values L R data f = Returns (Some (JArray (map (\<lambda>v. goose_value_to_json L (Some v)) vs)))"
    using False vs(2) by (simp add: decode_values_def)
  ultimately show ?thesis by blast
qed (simp add: decode_values_def)

section \<open>Interleaved streams\<close>

text \<open>The listener called for ASDUs of several streams, each with the APPID of its frame.\<close>

fun hear :: "value_lib \<Rightarrow> sv_reader \<Rightarrow> sv_config \<Rightarrow> (u16 \<times> sv_asdu) list \<Rightarrow> sv_subscriber \<Rightarrow> sv_subscriber outcome" where
  "hear L R cf [] g = Returns g"
| "hear L R cf ((app, a) # xs) g = bind_outcome (listener L R cf a (g\<lparr>ss_app_id := app\<rparr>)) (hear L R cf xs)"

text \<open>
  \<open>seen\<close> holds the absolute number of the last sample of a stream that arrived. A stream is in
  step when its numbers rise by less than half its wrap, and each is sent as its remainder.
\<close>

fun in_step :: "(u16 \<times> string \<Rightarrow> nat) \<Rightarrow> (u16 \<times> string \<Rightarrow> nat option) \<Rightarrow> ((u16 \<times> string) \<times> nat) list \<Rightarrow> bool" where
  "in_step w seen [] = True"
| "in_step w seen ((k, n) # xs) =
     ((case seen k of None \<Rightarrow> True | Some a \<Rightarrow> a < n \<and> n - a < w k - w k div 2) \<and> in_step w (seen(k \<mapsto> n)) xs)"

fun skipped :: "(u16 \<times> string \<Rightarrow> nat option) \<Rightarrow> ((u16 \<times> string) \<times> nat) list \<Rightarrow> nat" where
  "skipped seen [] = 0"
| "skipped seen ((k, n) # xs) = (case seen k of None \<Rightarrow> 0 | Some a \<Rightarrow> n - a - 1) + skipped (seen(k \<mapsto> n)) xs"

definition heard_as :: "(u16 \<times> string \<Rightarrow> nat) \<Rightarrow> ((u16 \<times> string) \<times> nat) \<Rightarrow> u16 \<times> sv_asdu \<Rightarrow> bool" where
  "heard_as w x y \<longleftrightarrow> fst (fst x) = fst y \<and> as_sv_id (snd y) = Some (snd (fst x)) \<and>
     as_smp_cnt (snd y) = of_nat (snd x mod w (fst x))"

definition wrap_of :: "fixture_stream list \<Rightarrow> u16 \<times> string \<Rightarrow> nat" where
  "wrap_of fs k = (case fixture_for fs (snd k) of None \<Rightarrow> 0 | Some f \<Rightarrow> unat (fx_wrap f))"

definition tracked ::
  "(u16 \<times> string \<Rightarrow> nat) \<Rightarrow> (u16 \<times> string \<Rightarrow> nat option) \<Rightarrow> sv_stream list \<Rightarrow> bool" where
  "tracked w seen ss \<longleftrightarrow> length ss \<le> MAX_STREAMS \<and> distinct (map stream_key ss) \<and>
     dom seen = stream_key ` set ss \<and>
     (\<forall>s \<in> set ss. sr_has_last s \<and> unat (sr_wrap s) = w (stream_key s) \<and>
        (\<exists>a. seen (stream_key s) = Some a \<and> unat (sr_last s) = a mod w (stream_key s)))"

lemma tracked_update:
  assumes t: "tracked w seen ss" and i: "i < length ss" and key: "stream_key s = stream_key (ss ! i)"
    and s: "sr_has_last s" "unat (sr_wrap s) = w (stream_key s)" "unat (sr_last s) = n mod w (stream_key s)"
  shows "tracked w (seen(stream_key s \<mapsto> n)) (ss[i := s])"
proof -
  have map: "map stream_key (ss[i := s]) = map stream_key ss"
    using i key by (metis list_update_id map_update nth_map)
  have "\<exists>a. (seen(stream_key s \<mapsto> n)) (stream_key t) = Some a \<and> unat (sr_last t) = a mod w (stream_key t)"
    if "t \<in> set (ss[i := s])" for t
  proof (cases "t = s")
    case False
    with that have "t \<in> set ss" by (meson insertE set_update_subset_insert subsetD)
    moreover have "stream_key t \<noteq> stream_key s"
    proof
      assume eq: "stream_key t = stream_key s"
      from that obtain j where j: "j < length ss" "ss[i := s] ! j = t" by (auto simp: in_set_conv_nth)
      with False i have "j \<noteq> i" by auto
      then have "ss ! j = t" using j by simp
      with j eq key i \<open>j \<noteq> i\<close> t show False
        by (metis length_map nth_eq_iff_index_eq nth_map tracked_def)
    qed
    ultimately show ?thesis using t by (auto simp: tracked_def)
  qed (use s in simp)
  moreover have "sr_has_last t \<and> unat (sr_wrap t) = w (stream_key t)" if "t \<in> set (ss[i := s])" for t
    using that t s by (auto simp: tracked_def dest!: subsetD [OF set_update_subset_insert])
  moreover have "dom (seen(stream_key s \<mapsto> n)) = stream_key ` set (ss[i := s])"
  proof -
    have "stream_key ` set (ss[i := s]) = stream_key ` set ss" using map by (metis list.set_map)
    moreover have "stream_key s \<in> stream_key ` set ss" using i key by simp
    ultimately show ?thesis using t by (auto simp: tracked_def)
  qed
  ultimately show ?thesis using t map by (simp add: tracked_def)
qed

lemma tracked_new:
  assumes "tracked w seen ss" "length ss < MAX_STREAMS" "stream_key s \<notin> stream_key ` set ss"
    "sr_has_last s" "unat (sr_wrap s) = w (stream_key s)" "unat (sr_last s) = n mod w (stream_key s)"
  shows "tracked w (seen(stream_key s \<mapsto> n)) (ss @ [s])"
  using assms by (auto simp: tracked_def) (metis imageI)

lemma unat_small_u32: "n < 65536 \<Longrightarrow> unat (of_nat n :: u32) = n"
  by (simp add: unsigned_of_nat take_bit_nat_eq_self)

lemma ucast_small_u16: "n < 65536 \<Longrightarrow> (ucast (of_nat n :: u16) :: u32) = of_nat n"
  by (simp add: unsigned_of_nat take_bit_nat_eq_self)

definition account ::
  "fixture_stream list \<Rightarrow> u16 \<times> string \<Rightarrow> u32 \<Rightarrow> sv_stream list \<Rightarrow> sv_totals \<Rightarrow> sv_stream list \<times> sv_totals" where
  "account fs k c ss t =
     (case stream_for fs k ss of
        (None, ss) \<Rightarrow> (ss, t)
      | (Some i, ss) \<Rightarrow> (ss[i := fst (count (ss ! i) c t)], snd (count (ss ! i) c t)))"

definition every_ok :: "sv_config \<Rightarrow> bool" where
  "every_ok cf \<longleftrightarrow> (word_of_int (cf_every cf) :: u32) \<noteq> 0"

lemma listener_filtered:
  "cf_sv_id cf = Some f \<Longrightarrow> (case as_sv_id a of None \<Rightarrow> '''' | Some i \<Rightarrow> i) \<noteq> f \<Longrightarrow>
   listener L R cf a g = Returns (g\<lparr>ss_asdu_index := ss_asdu_index g + 1\<rparr>)"
  by (simp add: listener_def)

lemma listener_account:
  assumes "every_ok cf" "case cf_sv_id cf of None \<Rightarrow> True | Some f \<Rightarrow> f = sv_id"
    "(case as_sv_id a of None \<Rightarrow> '''' | Some i \<Rightarrow> i) = sv_id"
  shows "\<exists>g'. listener L R cf a g = Returns g' \<and>
    (ss_streams g', ss_totals g') =
      account (cf_fixtures cf) (ss_app_id g, sv_id) (ucast (as_smp_cnt a)) (ss_streams g) (ss_totals g) \<and>
    ss_app_id g' = ss_app_id g \<and> ss_known g' = ss_known g \<and>
    (if ucast (as_smp_cnt a) mod (word_of_int (cf_every cf) :: u32) = 0
     then \<exists>j. ss_out g' = sv_event (g\<lparr>ss_asdu_index := ss_asdu_index g + 1\<rparr>) a sv_id (ss_asdu_index g) j # ss_out g
     else ss_out g' = ss_out g)"
proof -
  obtain found ss where f: "stream_for (cf_fixtures cf) (ss_app_id g, sv_id) (ss_streams g) = (found, ss)" by force
  have "\<exists>decoded. (case Option.bind found (\<lambda>i. sr_fixture (ss ! i)) of
      None \<Rightarrow> Returns None | Some f \<Rightarrow> decode_values L R (as_data a) f) = Returns decoded"
    by (cases "Option.bind found (\<lambda>i. sr_fixture (ss ! i))") (simp_all add: decode_values_total)
  then obtain decoded where d: "(case Option.bind found (\<lambda>i. sr_fixture (ss ! i)) of
      None \<Rightarrow> Returns None | Some f \<Rightarrow> decode_values L R (as_data a) f) = Returns decoded" by blast
  have e: "sv_event (g\<lparr>ss_asdu_index := x, ss_streams := y, ss_totals := z\<rparr>) a sv_id i j =
      sv_event (g\<lparr>ss_asdu_index := x\<rparr>) a sv_id i j"
    "sv_event (g\<lparr>ss_asdu_index := x, ss_streams := y\<rparr>) a sv_id i j =
      sv_event (g\<lparr>ss_asdu_index := x\<rparr>) a sv_id i j" for x y z i j
    by (simp_all add: sv_event_def)
  have fl: "\<not> (case cf_sv_id cf of None \<Rightarrow> False | Some f \<Rightarrow> sv_id \<noteq> f)"
    using assms(2) by (auto split: option.splits)
  show ?thesis
    using assms(1) f d fl unfolding listener_def account_def every_ok_def Let_def assms(3)
    by (cases found)
      (auto simp: e split: prod.splits)
qed

text \<open>One ASDU of a stream in step.\<close>

lemma account_step:
  fixes fs defines "w \<equiv> wrap_of fs"
  assumes t: "tracked w seen ss" and k: "key_ok k" "0 < w k" "w k \<le> 65536"
    and step: "case seen k of None \<Rightarrow> True | Some a \<Rightarrow> a < n \<and> n - a < w k - w k div 2"
    and room: "card (insert k (dom seen)) \<le> MAX_STREAMS"
  shows "\<exists>ss'. account fs k (of_nat (n mod w k)) ss g =
      (ss', g\<lparr>received := received g + 1,
        lost := lost g + of_nat (case seen k of None \<Rightarrow> 0 | Some a \<Rightarrow> n - a - 1)\<rparr>) \<and>
    tracked w (seen(k \<mapsto> n)) ss'"
proof -
  have bound: "length ss \<le> MAX_STREAMS" and dom: "dom seen = stream_key ` set ss" using t by (auto simp: tracked_def)
  have small: "unat (of_nat (n mod w k) :: u32) = n mod w k"
    using k by (intro unat_small_u32) (meson mod_less_divisor less_le_trans)
  show ?thesis
  proof (cases "k \<in> stream_key ` set ss")
    case True
    then obtain i where i: "stream_for fs k ss = (Some i, ss)" "i < length ss" "stream_key (ss ! i) = k"
      using sv_streams.slot_cases [OF bound, of fs k thesis] by (cases rule: sv_streams.slot_cases [OF bound, of fs k]) auto
    let ?s = "ss ! i"
    have "?s \<in> set ss" using i(2) by simp
    then obtain a where a: "sr_has_last ?s" "unat (sr_wrap ?s) = w k" "seen k = Some a" "unat (sr_last ?s) = a mod w k"
      using t i(3) by (auto simp: tracked_def)
    have gap: "a < n" "n - a < w k - w k div 2" using step a(3) by simp_all
    obtain m where m: "count ?s (of_nat (n mod w k)) g =
        (?s\<lparr>sr_last := of_nat (n mod w k), sr_max_seen := m\<rparr>,
         g\<lparr>received := received g + 1, lost := lost g + of_nat (n - a - 1)\<rparr>)"
      using count_step [OF a(2) k(3) a(1,4) gap] by blast
    let ?s' = "?s\<lparr>sr_last := of_nat (n mod w k), sr_max_seen := m\<rparr>"
    have key: "stream_key ?s' = k" using i(3) by (simp add: stream_key_def)
    have "tracked w (seen(stream_key ?s' \<mapsto> n)) (ss[i := ?s'])"
      using a small i(3) key by (intro tracked_update [OF t i(2)]) simp_all
    then show ?thesis using i m a(3) key by (simp add: account_def)
  next
    case False
    then have none: "seen k = None" using dom by blast
    have "card (stream_key ` set ss) = length ss"
      using t by (metis distinct_card length_map list.set_map tracked_def)
    then have len: "length ss < MAX_STREAMS" using room False dom by (simp add: dom)
    let ?s = "\<lparr>sr_app_id = fst k, sr_sv_id = snd k, sr_has_last = True, sr_last = of_nat (n mod w k),
      sr_max_seen = of_nat (n mod w k), sr_wrap = (case fixture_for fs (snd k) of None \<Rightarrow> 0 | Some f \<Rightarrow> fx_wrap f),
      sr_fixture = fixture_for fs (snd k)\<rparr>"
    have key: "stream_key ?s = k" by (simp add: stream_key_def)
    have "unat (sr_wrap ?s) = w k" by (auto simp: w_def wrap_of_def split: option.splits)
    then have "tracked w (seen(stream_key ?s \<mapsto> n)) (ss @ [?s])"
      using len False small key by (intro tracked_new [OF t]) simp_all
    moreover have "account fs k (of_nat (n mod w k)) ss g = (ss @ [?s], g\<lparr>received := received g + 1\<rparr>)"
      using False len k(1)
      by (cases k) (simp add: account_def stream_for_def sv_sub_find_stream_None count_def key_ok_def Let_def)
    ultimately show ?thesis using none key by simp
  qed
qed

text \<open>The filter \<open>--sv-id\<close>, when there is one, is that of the stream.\<close>

definition lets_pass :: "sv_config \<Rightarrow> string \<Rightarrow> bool" where
  "lets_pass cf sv_id \<longleftrightarrow> (case cf_sv_id cf of None \<Rightarrow> True | Some f \<Rightarrow> f = sv_id)"

lemma hear_exact:
  fixes cf defines "w \<equiv> wrap_of (cf_fixtures cf)"
  assumes "every_ok cf"
    and "list_all2 (heard_as w) xs ys" "in_step w seen xs" "tracked w seen (ss_streams g)"
    and "list_all (\<lambda>x. key_ok (fst x) \<and> 0 < w (fst x) \<and> w (fst x) \<le> 65536) xs"
    and "card (fst ` set xs \<union> dom seen) \<le> MAX_STREAMS"
    and "list_all (\<lambda>x. lets_pass cf (snd (fst x))) xs"
  shows "\<exists>g'. hear L R cf ys g = Returns g' \<and>
    ss_totals g' = (ss_totals g)\<lparr>received := received (ss_totals g) + of_nat (length xs),
      lost := lost (ss_totals g) + of_nat (skipped seen xs)\<rparr>"
  using assms(3-)
proof (induction xs arbitrary: ys seen g)
  case Nil
  then show ?case by simp
next
  case (Cons x xs)
  obtain k n where x: "x = (k, n)" by (rule prod.exhaust)
  from Cons.prems(1) obtain y ys' where y: "ys = y # ys'" "heard_as w (k, n) y" "list_all2 (heard_as w) xs ys'"
    by (auto simp: list_all2_Cons1 x)
  then obtain a where ys: "ys = (fst k, a) # ys'" "as_sv_id a = Some (snd k)"
    "as_smp_cnt a = of_nat (n mod w k)" "list_all2 (heard_as w) xs ys'"
    by (cases y) (auto simp: heard_as_def [of w "(k, n)"])
  have wk: "key_ok k" "0 < w k" "w k \<le> 65536" using Cons.prems(4) by (simp_all add: x)
  have "n mod w k < 65536" using wk by (meson mod_less_divisor less_le_trans)
  then have cnt: "ucast (as_smp_cnt a) = (of_nat (n mod w k) :: u32)" using ys(3) ucast_small_u16 by simp
  let ?g = "g\<lparr>ss_app_id := fst k\<rparr>"
  have fin: "finite (dom seen)" using Cons.prems(3) by (simp add: tracked_def)
  have "card (insert k (dom seen)) \<le> MAX_STREAMS"
  proof (rule le_trans [OF card_mono Cons.prems(5)])
    show "finite (fst ` set (x # xs) \<union> dom seen)" using fin by simp
    show "insert k (dom seen) \<subseteq> fst ` set (x # xs) \<union> dom seen" by (auto simp: x)
  qed
  then obtain ss' where ss': "account (cf_fixtures cf) k (of_nat (n mod w k)) (ss_streams g) (ss_totals g) =
      (ss', (ss_totals g)\<lparr>received := received (ss_totals g) + 1,
        lost := lost (ss_totals g) + of_nat (case seen k of None \<Rightarrow> 0 | Some a \<Rightarrow> n - a - 1)\<rparr>)"
    "tracked w (seen(k \<mapsto> n)) ss'"
    using account_step [of "cf_fixtures cf" seen "ss_streams g" k n "ss_totals g"] Cons.prems(2,3) wk
    by (auto simp: w_def x)
  have "case cf_sv_id cf of None \<Rightarrow> True | Some f \<Rightarrow> f = snd k"
    using Cons.prems(6) by (simp add: lets_pass_def x split: option.splits)
  from listener_account [OF assms(2) this, of a L R ?g] ys(2) obtain g1 where g1: "listener L R cf a ?g = Returns g1"
    "ss_streams g1 = ss'" "ss_totals g1 = (ss_totals g)\<lparr>received := received (ss_totals g) + 1,
        lost := lost (ss_totals g) + of_nat (case seen k of None \<Rightarrow> 0 | Some a \<Rightarrow> n - a - 1)\<rparr>"
    using ss'(1) cnt by auto
  have "fst ` set xs \<union> dom (seen(k \<mapsto> n)) = fst ` set (x # xs) \<union> dom seen" by (auto simp: x)
  then have room: "card (fst ` set xs \<union> dom (seen(k \<mapsto> n))) \<le> MAX_STREAMS" using Cons.prems(5) by presburger
  obtain g' where "hear L R cf ys' g1 = Returns g'"
    "ss_totals g' = (ss_totals g1)\<lparr>received := received (ss_totals g1) + of_nat (length xs),
      lost := lost (ss_totals g1) + of_nat (skipped (seen(k \<mapsto> n)) xs)\<rparr>"
    using Cons.IH [OF ys(4) _ _ _ room, of g1] Cons.prems(2,4,6) ss'(2) g1(2) by (auto simp: x simp del: fun_upd_apply)
  then show ?case using g1 by (simp add: ys(1) x add.assoc)
qed

text \<open>C1: The loss counts of interleaved streams are exact. Let up to 64 streams, each with a
  fixture and a wrap of at most 65536, send samples whose absolute numbers rise, each stream's by
  less than half its wrap between two that arrive, smpCnt being the remainder by the wrap. In
  whatever order the ASDUs of the streams are interleaved, from the start the listener returns,
  has received all of them, has lost exactly the samples that were skipped, and has counted no
  duplicate and none out of order.\<close>

theorem sv_loss_exact:
  assumes "every_ok cf" "cf_sv_id cf = None"
    and "list_all2 (heard_as (wrap_of (cf_fixtures cf))) xs ys" "in_step (wrap_of (cf_fixtures cf)) Map.empty xs"
    and "list_all (\<lambda>x. key_ok (fst x) \<and> 0 < wrap_of (cf_fixtures cf) (fst x) \<and>
           wrap_of (cf_fixtures cf) (fst x) \<le> 65536) xs"
    and "card (fst ` set xs) \<le> MAX_STREAMS"
  shows "\<exists>g. hear L R cf ys (subscriber_start version iface own None) = Returns g \<and>
    ss_totals g = \<lparr>received = of_nat (length xs), lost = of_nat (skipped Map.empty xs),
      duplicates = 0, out_of_order = 0\<rparr>"
proof -
  let ?g = "subscriber_start version iface own None"
  have "tracked (wrap_of (cf_fixtures cf)) Map.empty (ss_streams ?g)"
    by (simp add: tracked_def subscriber_start_def)
  then show ?thesis
    using hear_exact [of cf xs ys Map.empty ?g L R] assms by (simp add: subscriber_start_def lets_pass_def list_all_iff)
qed

definition sample_reader :: sv_reader where
  "sample_reader = \<lparr>rd_int32 = (\<lambda>d o'. of_nat (be_nat (take 4 (drop o' d)))), rd_float32 = (\<lambda>d o'. of_nat (be_nat (take 4 (drop o' d)))),
     rd_float64 = (\<lambda>d o'. of_nat (be_nat (take 8 (drop o' d)))), rd_quality = (\<lambda>d o'. of_nat (be_nat (take 4 (drop o' d)))),
     rd_time_ms = (\<lambda>d o'. of_nat (be_nat (take 4 (drop o' d))) * 1000)\<rparr>"

definition sample_config :: sv_config where
  "sample_config = \<lparr>cf_fixtures = [\<lparr>fx_sv_id = ''A'', fx_types = [SV_INT32, SV_QUALITY], fx_wrap = 10\<rparr>,
      \<lparr>fx_sv_id = ''B'', fx_types = [SV_BOOLEAN], fx_wrap = 4000\<rparr>],
     cf_sv_id = None, cf_every = 1, cf_app_id = None, cf_dst = None\<rparr>"

definition sample_asdu :: "string \<Rightarrow> nat \<Rightarrow> sv_asdu" where
  "sample_asdu i n = \<lparr>as_sv_id = Some i, as_smp_cnt = of_nat n, as_dat_set = None, as_conf_rev = 1,
     as_refr_tm = None, as_smp_synch = 2, as_smp_rate = None, as_smp_mod = None, as_data = [1]\<rparr>"

theorem sv_loss_exact_witness:
  "\<exists>g. hear sample_lib sample_reader sample_config
      [(0x4000, sample_asdu ''A'' 8), (0x4001, sample_asdu ''B'' 3999), (0x4000, sample_asdu ''A'' 9),
       (0x4001, sample_asdu ''B'' 2), (0x4000, sample_asdu ''A'' 1), (0x4000, sample_asdu ''A'' 3)]
      (subscriber_start ''dev'' ''eth0'' [] None) = Returns g \<and>
    ss_totals g = \<lparr>received = 6, lost = 4, duplicates = 0, out_of_order = 0\<rparr>"
proof -
  let ?A = "(0x4000 :: u16, ''A'')" and ?B = "(0x4001 :: u16, ''B'')"
  let ?xs = "[(?A, 8), (?B, 3999), (?A, 9), (?B, 4002), (?A, 11), (?A, 13)] :: ((u16 \<times> string) \<times> nat) list"
  have w: "wrap_of (cf_fixtures sample_config) ?A = 10" "wrap_of (cf_fixtures sample_config) ?B = 4000"
    by (simp_all add: wrap_of_def fixture_for_def sample_config_def)
  have 1: "list_all2 (heard_as (wrap_of (cf_fixtures sample_config))) ?xs
      [(0x4000, sample_asdu ''A'' 8), (0x4001, sample_asdu ''B'' 3999), (0x4000, sample_asdu ''A'' 9),
       (0x4001, sample_asdu ''B'' 2), (0x4000, sample_asdu ''A'' 1), (0x4000, sample_asdu ''A'' 3)]"
    by (simp add: heard_as_def w sample_asdu_def)
  have 2: "in_step (wrap_of (cf_fixtures sample_config)) Map.empty ?xs" by (simp add: w)
  have 3: "list_all (\<lambda>x. key_ok (fst x) \<and> 0 < wrap_of (cf_fixtures sample_config) (fst x) \<and>
      wrap_of (cf_fixtures sample_config) (fst x) \<le> 65536) ?xs" by (simp add: w key_ok_def)
  have "fst ` set ?xs = {?A, ?B}" by auto
  then have 4: "card (fst ` set ?xs) \<le> MAX_STREAMS" by (simp add: MAX_STREAMS_def)
  have 5: "every_ok sample_config" "cf_sv_id sample_config = None" by (simp_all add: every_ok_def sample_config_def)
  from sv_loss_exact [OF 5 1 2 3 4, of sample_lib sample_reader "''dev''" "''eth0''" "[]"] show ?thesis by simp
qed

section \<open>noASDU\<close>

text \<open>The length encodings the reader takes: one octet, or one or two octets after their count.\<close>

definition ber_encodes :: "nat \<Rightarrow> u8 list \<Rightarrow> bool" where
  "ber_encodes n bs \<longleftrightarrow>
     n < 128 \<and> bs = [of_nat n] \<or> n < 256 \<and> bs = [0x81, of_nat n] \<or>
     n < 65536 \<and> bs = [0x82, of_nat (n div 256), of_nat (n mod 256)]"

lemma octet_append: "octet (pre @ bs @ post) (length pre + i) = Returns (uint (bs ! i))" if "i < length bs"
  using that by (simp add: octet_def nth_append)

lemma uint_octet: "n < 256 \<Longrightarrow> uint (of_nat n :: u8) = int n"
  by (simp add: unsigned_of_nat take_bit_nat_eq_self uint_nat)

lemma ber_length_encodes:
  assumes "ber_encodes n bs"
  shows "ber_length (pre @ bs @ post) (length pre) = Returns (Some (int n, length pre + length bs))"
proof -
  have o0: "octet (pre @ b # ys) (length pre) = Returns (uint b)" for b ys
    using octet_append [of 0 "[b]" pre ys] by simp
  have o1: "octet (pre @ a # b # ys) (Suc (length pre)) = Returns (uint b)" for a b ys
    using octet_append [of 1 "[a, b]" pre ys] by simp
  have o2: "octet (pre @ a # b # c # ys) (Suc (Suc (length pre))) = Returns (uint c)" for a b c ys
    using octet_append [of 2 "[a, b, c]" pre ys] by simp
  from assms show ?thesis unfolding ber_encodes_def
  proof (elim disjE conjE)
    assume "n < 128" "bs = [of_nat n]"
    then show ?thesis by (simp add: ber_length_def o0 uint_octet)
  next
    assume "n < 256" "bs = [0x81, of_nat n]"
    then show ?thesis by (simp add: ber_length_def o0 o1 uint_octet)
  next
    assume n: "n < 65536" "bs = [0x82, of_nat (n div 256), of_nat (n mod 256)]"
    then have "n div 256 < 256" "n mod 256 < 256" by (auto simp: less_mult_imp_div_less)
    then have u: "uint (of_nat (n div 256) :: u8) = int (n div 256)" "uint (of_nat (n mod 256) :: u8) = int (n mod 256)"
      by (simp_all only: uint_octet)
    have "int (n div 256) * 256 \<le> 2 ^ 31 - 1" using \<open>n div 256 < 256\<close> by simp
    moreover have "int (n div 256) * 256 + int (n mod 256) = int n" by (simp add: zdiv_int zmod_int)
    moreover have "read_number buf 2 i v = read_number buf (Suc (Suc 0)) i v" for buf i v
      by (simp add: numeral_2_eq_2)
    ultimately show ?thesis using n(2)
      by (simp add: ber_length_def o0 o1 o2 u del: of_nat_mod of_nat_div)
  qed
qed

lemma uint_octet_less: "uint (x :: u8) < 256"
  using uint_bounded [of x] by simp

lemma read_number_octets:
  assumes "length bs \<in> {1..4}"
  shows "read_number (pre @ bs @ post) (length bs) (length pre) 0 =
    (if length bs = 4 \<and> 128 \<le> uint (hd bs) then Undefined
     else Returns (int (be_nat bs), length pre + length bs))"
proof -
  have o0: "octet (pre @ b # ys) (length pre) = Returns (uint b)" for b ys
    using octet_append [of 0 "[b]" pre ys] by simp
  have o1: "octet (pre @ a # b # ys) (Suc (length pre)) = Returns (uint b)" for a b ys
    using octet_append [of 1 "[a, b]" pre ys] by simp
  have o2: "octet (pre @ a # b # c # ys) (Suc (Suc (length pre))) = Returns (uint c)" for a b c ys
    using octet_append [of 2 "[a, b, c]" pre ys] by simp
  have o3: "octet (pre @ a # b # c # d # ys) (Suc (Suc (Suc (length pre)))) = Returns (uint d)" for a b c d ys
    using octet_append [of 3 "[a, b, c, d]" pre ys] by (simp add: numeral_3_eq_3)
  consider a where "bs = [a]" | a b where "bs = [a, b]" | a b c where "bs = [a, b, c]"
    | a b c d where "bs = [a, b, c, d]"
    using assms by (cases bs; cases "tl bs"; cases "tl (tl bs)"; cases "tl (tl (tl bs))") auto
  then show ?thesis
  proof cases
    case 1
    then show ?thesis by (simp add: o0 be_nat_def)
  next
    case 2
    then show ?thesis using uint_octet_less [of a] by (simp add: o0 o1 be_nat_def)
  next
    case 3
    then show ?thesis using uint_octet_less [of a] uint_octet_less [of b] by (simp add: o0 o1 o2 be_nat_def)
  next
    case 4
    have "2147483647 < 16777216 * uint a + 65536 * uint b + uint c * 256 \<longleftrightarrow> 128 \<le> uint a"
      using uint_octet_less [of b] uint_octet_less [of c] uint_ge_0 [of b] uint_ge_0 [of c] by linarith
    with 4 show ?thesis using uint_octet_less [of a] uint_octet_less [of b]
      by (simp add: o0 o1 o2 o3 be_nat_def)
  qed
qed

text \<open>The noASDU of a well-formed savPdu is read as sent, whichever BER length forms are used,
  when it has one to three octets or four with the top bit clear; four octets with the top bit set
  make the code shift a set bit into the sign of an int.\<close>

lemma sv_no_asdu:
  assumes "ber_encodes n l1" "ber_encodes (length bs) l2" "length bs \<in> {1..4}"
  shows "read_no_asdu ([0x60] @ l1 @ [0x80] @ l2 @ bs @ rest) =
    (if length bs = 4 \<and> 128 \<le> uint (hd bs) then Undefined else Returns (int (be_nat bs)))"
proof -
  define apdu where "apdu = [0x60] @ l1 @ [0x80] @ l2 @ bs @ rest"
  have l: "l1 \<noteq> []" "l2 \<noteq> []" using assms(1,2) by (auto simp: ber_encodes_def)
  then have len: "4 \<le> length apdu" using assms(3) by (cases l1; cases l2) (auto simp: apdu_def)
  have t0: "octet apdu 0 = Returns 0x60" by (simp add: octet_def apdu_def)
  have b1: "ber_length apdu 1 = Returns (Some (int n, 1 + length l1))"
    using ber_length_encodes [OF assms(1), of "[0x60]" "[0x80] @ l2 @ bs @ rest"] by (simp add: apdu_def)
  have t1: "octet apdu (1 + length l1) = Returns 0x80" by (simp add: octet_def apdu_def)
  have b2: "ber_length apdu (Suc (1 + length l1)) =
      Returns (Some (int (length bs), Suc (1 + length l1) + length l2))"
    using ber_length_encodes [OF assms(2), of "[0x60] @ l1 @ [0x80]" "bs @ rest"] by (simp add: apdu_def)
  have v: "read_number apdu (length bs) (Suc (1 + length l1) + length l2) 0 =
      (if length bs = 4 \<and> 128 \<le> uint (hd bs) then Undefined
       else Returns (int (be_nat bs), Suc (1 + length l1) + length l2 + length bs))"
    using read_number_octets [OF assms(3), of "[0x60] @ l1 @ [0x80] @ l2" rest] by (simp add: apdu_def)
  have "Suc (1 + length l1) + length l2 + length bs \<le> length apdu" "1 + length l1 < length apdu"
    by (simp_all add: apdu_def)
  then have "read_no_asdu apdu = (if length bs = 4 \<and> 128 \<le> uint (hd bs) then Undefined else Returns (int (be_nat bs)))"
    unfolding read_no_asdu_def using len assms(3)
    by (simp only: t0 b1 b2 t1 v bind_outcome.simps option.case prod.case nat_int) auto
  then show ?thesis by (simp only: apdu_def)
qed

lemma read_number_any:
  assumes "n \<in> {1..4}" "pos + n \<le> length buf"
  shows "read_number buf n pos 0 =
    (if n = 4 \<and> 128 \<le> uint (buf ! pos) then Undefined
     else Returns (int (be_nat (take n (drop pos buf))), pos + n))"
proof -
  let ?bs = "take n (drop pos buf)"
  have "take pos buf @ ?bs @ drop (pos + n) buf = buf"
    by (metis append_take_drop_id drop_drop add.commute)
  moreover have "length ?bs = n" "length (take pos buf) = pos" "hd ?bs = buf ! pos"
    using assms by (simp_all add: hd_drop_conv_nth)
  ultimately show ?thesis
    using read_number_octets [of ?bs "take pos buf" "drop (pos + n) buf"] assms(1) by simp
qed

lemma ber_length_any:
  "\<exists>r. ber_length buf pos = Returns r \<and> (case r of None \<Rightarrow> True | Some (l, p) \<Rightarrow> 0 \<le> l \<and> pos < p \<and> p \<le> length buf)"
proof (cases "pos < length buf")
  case True
  let ?n = "nat (uint (buf ! pos) mod 128)"
  show ?thesis
  proof (cases "?n > 2 \<or> Suc pos + ?n > length buf \<or> uint (buf ! pos) < 128 \<or> ?n = 0")
    case True
    then show ?thesis using \<open>pos < length buf\<close> by (auto simp: ber_length_def octet_def Let_def)
  next
    case False
    then have n: "?n \<in> {1..4}" "?n \<noteq> 4" "Suc pos + ?n \<le> length buf" by auto
    from read_number_any [OF n(1,3)] n(2) show ?thesis
      using \<open>pos < length buf\<close> False by (simp add: ber_length_def octet_def Let_def)
  qed
qed (simp add: ber_length_def)

lemma be_nat_less: "be_nat bs < 256 ^ length bs"
proof (induction bs rule: rev_induct)
  case (snoc b bs)
  have "unat b < 256" using unsigned_less [of b] by simp
  with snoc show ?case by (simp add: be_nat_snoc)
qed (simp add: be_nat_def)

lemma be_nat_four: "be_nat bs < 2 ^ 31" if "length bs \<le> 4" "length bs = 4 \<longrightarrow> uint (hd bs) < 128"
proof (cases "length bs = 4")
  case False
  then have "length bs \<le> 3" using that(1) by simp
  then have "(256::nat) ^ length bs \<le> 256 ^ 3" by (intro power_increasing) simp_all
  then show ?thesis using be_nat_less [of bs] by simp
next
  case True
  then obtain a b c d where bs: "bs = [a, b, c, d]"
    by (cases bs; cases "tl bs"; cases "tl (tl bs)"; cases "tl (tl (tl bs))") auto
  then have "int (unat a) < 128" using that(2) by simp
  then have "unat a < 128" by linarith
  moreover have "unat b < 256" "unat c < 256" "unat d < 256"
    using unsigned_less [of b] unsigned_less [of c] unsigned_less [of d] by simp_all
  ultimately show ?thesis by (simp add: bs be_nat_def)
qed

text \<open>Either the answer is 0 or the number of ASDUs is read where the apdu has it.\<close>

lemma read_no_asdu_cases:
  obtains (zero) "read_no_asdu apdu = Returns 0"
    | (number) l p n q where "ber_length apdu 1 = Returns (Some (l, p))"
        "ber_length apdu (Suc p) = Returns (Some (n, q))" "1 \<le> n" "n \<le> 4" "q + nat n \<le> length apdu"
        "read_no_asdu apdu = bind_outcome (read_number apdu (nat n) q 0) (\<lambda>(v, pos). Returns v)"
proof -
  obtain r where r: "ber_length apdu 1 = Returns r" using ber_length_any by blast
  define p where "p = snd (the r)"
  obtain r' where r': "ber_length apdu (Suc p) = Returns r'" using ber_length_any by blast
  define n where "n = fst (the r')"
  define q where "q = snd (the r')"
  let ?c = "length apdu \<ge> 4 \<and> uint (apdu ! 0) = 0x60 \<and> r \<noteq> None \<and> p < length apdu \<and>
    uint (apdu ! p) = 0x80 \<and> r' \<noteq> None \<and> 1 \<le> n \<and> n \<le> 4 \<and> q + nat n \<le> length apdu"
  show thesis
  proof (cases ?c)
    case True
    then have e: "r = Some (fst (the r), p)" "r' = Some (n, q)" by (simp_all add: p_def n_def q_def)
    have "read_no_asdu apdu = bind_outcome (read_number apdu (nat n) q 0) (\<lambda>(v, pos). Returns v)"
      unfolding read_no_asdu_def r
      by (subst e(1)) (use True e(2) r' in \<open>auto simp: octet_def\<close>)
    with number e r r' True show thesis by metis
  next
    case False
    have "read_no_asdu apdu = Returns 0"
    proof (cases "r = None \<or> length apdu \<le> p \<or> uint (apdu ! p) \<noteq> 0x80")
      case True
      then show ?thesis
        by (cases r) (auto simp: read_no_asdu_def r octet_def p_def simp del: One_nat_def)
    next
      case n: False
      then have "r = Some (fst (the r), p)" by (simp add: p_def)
      with n False r r' show ?thesis unfolding read_no_asdu_def
        by (cases r') (auto simp: octet_def n_def q_def simp del: One_nat_def split: prod.splits)
    qed
    then show thesis by (rule zero)
  qed
qed

text \<open>Whatever octets a frame carries, reading its noASDU touches no octet outside the APDU and
  gives an int of at least 0, unless the value is four octets long with the top bit set.\<close>

theorem sv_no_asdu_bounds:
  "(\<exists>v. read_no_asdu apdu = Returns v \<and> 0 \<le> v \<and> v < 2 ^ 31) \<or>
   (read_no_asdu apdu = Undefined \<and> (\<exists>pos. pos + 4 \<le> length apdu \<and> 128 \<le> uint (apdu ! pos)))"
proof (cases rule: read_no_asdu_cases [of apdu])
  case zero
  then show ?thesis by simp
next
  case (number l p n q)
  let ?bs = "take (nat n) (drop q apdu)"
  have n: "nat n \<in> {1..4}" using number by auto
  show ?thesis
  proof (cases "nat n = 4 \<and> 128 \<le> uint (apdu ! q)")
    case True
    then show ?thesis using number n read_number_any [OF n number(5)] by (auto intro: exI [of _ q])
  next
    case False
    have "length ?bs = nat n" "hd ?bs = apdu ! q" using number n by (auto simp: hd_drop_conv_nth)
    then have "be_nat ?bs < 2 ^ 31" using n False by (intro be_nat_four) auto
    then show ?thesis using number False read_number_any [OF n number(5)] by simp
  qed
qed

section \<open>Runs\<close>

definition is_event :: "string \<Rightarrow> json \<Rightarrow> bool" where
  "is_event name e \<longleftrightarrow> json_get_ex e ''event'' = Some (JString name)"

definition events :: "string \<Rightarrow> json list \<Rightarrow> nat" where
  "events name out = length (filter (is_event name) out)"

lemma is_event_simps [simp]:
  "is_event n (sv_event g a i x j) \<longleftrightarrow> n = ''sv''"
  "is_event n (stats_event t) \<longleftrightarrow> n = ''stats''"
  "is_event n (sv_ready v r i m s) \<longleftrightarrow> n = ''ready''"
  by (auto simp: is_event_def sv_event_def stats_event_def sv_ready_def json_get_ex_def)

lemma events_simps [simp]:
  "events n [] = 0" "events n (e # es) = (if is_event n e then Suc (events n es) else events n es)"
  by (simp_all add: events_def)

definition run_inv :: "sv_config \<Rightarrow> u64 \<Rightarrow> u64 \<times> sv_subscriber \<Rightarrow> bool" where
  "run_inv cf first st \<longleftrightarrow>
     length (ss_streams (snd st)) \<le> MAX_STREAMS \<and> length (ss_known (snd st)) \<le> MAX_STREAMS \<and>
     distinct (ss_known (snd st)) \<and> fst st = first + 1000 * of_nat (events ''stats'' (ss_out (snd st))) \<and>
     (\<exists>n. received (ss_totals (snd st)) = of_nat n \<and>
        (cf_every cf = 1 \<longrightarrow> n \<le> events ''sv'' (ss_out (snd st))))"

lemma received_count [simp]: "received (snd (count s c t)) = received t + 1"
  by (simp add: count_def Let_def)

lemma account_bounds:
  assumes "length ss \<le> MAX_STREAMS" "account fs k c ss t = (ss', t')"
  shows "length ss' \<le> MAX_STREAMS" "received t' = received t \<or> received t' = received t + 1"
proof -
  obtain f ss1 where s: "stream_for fs k ss = (f, ss1)" by force
  have "length ss1 \<le> MAX_STREAMS" using sv_streams.slot_bound [OF assms(1), of fs k] s by simp
  then show "length ss' \<le> MAX_STREAMS" "received t' = received t \<or> received t' = received t + 1"
    using assms(2) s by (cases f; auto simp: account_def)+
qed

lemma sv_sub_listener_inv:
  assumes "run_inv cf first (next, g)" "listener L R cf a g = Returns g'"
  shows "run_inv cf first (next, g')"
proof -
  define sv_id where "sv_id = (case as_sv_id a of None \<Rightarrow> '''' | Some i \<Rightarrow> i)"
  show ?thesis
  proof (cases "case cf_sv_id cf of None \<Rightarrow> True | Some f \<Rightarrow> f = sv_id")
    case False
    then obtain f where "cf_sv_id cf = Some f" "sv_id \<noteq> f" by (auto split: option.splits)
    then have "g' = g\<lparr>ss_asdu_index := ss_asdu_index g + 1\<rparr>"
      using listener_filtered [of cf f a L R g] assms(2) by (simp add: sv_id_def)
    then show ?thesis using assms(1) by (simp add: run_inv_def)
  next
    case True
    have "every_ok cf"
    proof (rule ccontr)
      assume "\<not> every_ok cf"
      then have "listener L R cf a g = Undefined"
        using True by (auto simp: listener_def Let_def every_ok_def sv_id_def split: option.splits prod.splits)
      with assms(2) show False by simp
    qed
    from listener_account [OF this True sv_id_def [symmetric], of L R g] assms(2)
    have acc: "(ss_streams g', ss_totals g') = account (cf_fixtures cf) (ss_app_id g, sv_id)
        (ucast (as_smp_cnt a)) (ss_streams g) (ss_totals g)" and known: "ss_known g' = ss_known g"
      and out: "events ''stats'' (ss_out g') = events ''stats'' (ss_out g)"
        "events ''sv'' (ss_out g) \<le> events ''sv'' (ss_out g')"
        "cf_every cf = 1 \<longrightarrow> events ''sv'' (ss_out g') = Suc (events ''sv'' (ss_out g))"
      by (auto split: if_splits)
    from account_bounds [OF _ acc [symmetric]] assms(1)
    have b: "length (ss_streams g') \<le> MAX_STREAMS"
      "received (ss_totals g') = received (ss_totals g) \<or> received (ss_totals g') = received (ss_totals g) + 1"
      by (simp_all add: run_inv_def)
    from assms(1) obtain n where n: "received (ss_totals g) = of_nat n"
      "cf_every cf = 1 \<longrightarrow> n \<le> events ''sv'' (ss_out g)" by (auto simp: run_inv_def)
    have "\<exists>n. received (ss_totals g') = of_nat n \<and> (cf_every cf = 1 \<longrightarrow> n \<le> events ''sv'' (ss_out g'))"
      using b(2)
    proof
      assume "received (ss_totals g') = received (ss_totals g)"
      then show ?thesis using n out by (intro exI [of _ n]) auto
    next
      assume "received (ss_totals g') = received (ss_totals g) + 1"
      then show ?thesis using n out by (intro exI [of _ "Suc n"]) auto
    qed
    then show ?thesis using assms(1) b(1) known out(1) by (simp add: run_inv_def)
  qed
qed

lemma deliver_inv: "run_inv cf first (next, g) \<Longrightarrow> deliver L R cf as g = Returns g' \<Longrightarrow> run_inv cf first (next, g')"
  by (induction as arbitrary: g) (auto intro: sv_sub_listener_inv)

lemma register_inv:
  "length known \<le> MAX_STREAMS \<Longrightarrow> distinct known \<Longrightarrow>
   length (register a known) \<le> MAX_STREAMS \<and> distinct (register a known)"
  by (simp add: register_def)

lemma frame_set_inv:
  "run_inv cf first (next, g) \<Longrightarrow> run_inv cf first (next, g\<lparr>ss_known := register a (ss_known g), ss_dst := d,
     ss_src := s, ss_app_id := p, ss_simulation := b, ss_no_asdu := n, ss_asdu_index := i\<rparr>)"
  by (simp add: run_inv_def register_inv)

lemma sv_sub_receive_frame_inv:
  assumes "run_inv cf first (next, g)" "receive_frame L R decode cf frame g = Returns g'"
  shows "run_inv cf first (next, g')"
  using assms unfolding receive_frame_def Let_def
  by (auto split: if_splits intro: deliver_inv [OF frame_set_inv [OF assms(1)]])

lemma tick_inv: "run_inv cf first st \<Longrightarrow> run_inv cf first (tick now st)"
  by (auto simp: run_inv_def tick_def algebra_simps)

lemma loop_step_inv: "loop_step L R decode cf st st' \<Longrightarrow> run_inv cf first st \<Longrightarrow> run_inv cf first st'"
  by (erule sv_sub_loop_stepE; cases st) (auto intro: tick_inv sv_sub_receive_frame_inv)

lemma run_to_inv: "run_to L R decode cf st st' \<Longrightarrow> run_inv cf first st \<Longrightarrow> run_inv cf first st'"
  by (induction rule: run_to.induct) (auto intro: loop_step_inv)

text \<open>In every run, from the start: the stream table and the registered APPIDs stay within 64
  entries and no APPID is registered twice; the n-th stats event is due exactly n seconds after the
  first one was; and with every ASDU reported no more ASDUs are counted than sv events are
  written.\<close>

theorem sv_run_bounds:
  assumes "run_to L R decode cf (first, subscriber_start version iface own sv_filter) (next, g)"
  shows "length (ss_streams g) \<le> 64 \<and> length (ss_known g) \<le> 64 \<and> distinct (ss_known g) \<and>
    next = first + 1000 * of_nat (events ''stats'' (ss_out g)) \<and>
    (\<exists>n. received (ss_totals g) = of_nat n \<and> (cf_every cf = 1 \<longrightarrow> n \<le> events ''sv'' (ss_out g)))"
proof -
  have "run_inv cf first (first, subscriber_start version iface own sv_filter)"
    by (auto simp: run_inv_def subscriber_start_def intro: exI [of _ 0])
  from run_to_inv [OF assms this] show ?thesis by (simp add: run_inv_def MAX_STREAMS_def)
qed

definition sample_sv_frame :: "u8 list" where
  "sample_sv_frame = [1, 0x0c, 0xcd, 4, 0, 1, 2, 0, 0, 0, 0, 9, 0x88, 0xba, 0x40, 0, 0, 14, 0, 0, 0, 0] @
     [0x60] @ [4] @ [0x80] @ [1] @ [2] @ [0xa2]"

lemma sample_frame_received:
  "\<exists>g. receive_frame sample_lib sample_reader (\<lambda>known bytes. if 0x4000 \<in> set known then [sample_asdu ''B'' 7] else [])
     sample_config sample_sv_frame (snd (tick 2000 (1500, subscriber_start ''dev'' ''eth0'' [] None))) = Returns g \<and>
     length (ss_streams g) = 1 \<and> ss_no_asdu g = 2"
proof -
  have n: "read_no_asdu (0x60 # 4 # 0x80 # 1 # 2 # [0xa2]) = Returns 2"
    using sv_no_asdu [of 4 "[4]" "[2]" "[1]" "[0xa2]"] by (simp add: ber_encodes_def be_nat_def)
  have "(0x40 :: 8 word) AND 0x80 = 0" by simp
  show ?thesis
    by (simp add: receive_frame_def sample_sv_frame_def sample_config_def sample_asdu_def listener_def n
        tick_def subscriber_start_def register_def MAX_STREAMS_def stream_for_def fixture_for_def decode_values_def
        read_member_def sv_type_size_def k_types_def count_def Let_def)
qed

theorem sv_run_bounds_witness:
  "\<exists>g :: sv_subscriber. length (ss_streams g) = 1 \<and> length (ss_streams g) \<le> 64 \<and> distinct (ss_known g) \<and>
    (2500 :: u64) = 1500 + 1000 * of_nat (events ''stats'' (ss_out g))"
proof -
  let ?d = "\<lambda>known bytes. if 0x4000 \<in> set known then [sample_asdu ''B'' 7] else []"
  let ?st = "tick 2000 (1500, subscriber_start ''dev'' ''eth0'' [] None)"
  obtain g where g: "receive_frame sample_lib sample_reader ?d sample_config sample_sv_frame (snd ?st) = Returns g"
    "length (ss_streams g) = 1" using sample_frame_received by blast
  have "run_to sample_lib sample_reader ?d sample_config (1500, subscriber_start ''dev'' ''eth0'' [] None) (fst ?st, g)"
    by (rule run_to.step [OF run_to.step [OF run_to.start loop_step.tick] loop_step.frame [OF g(1)]])
  moreover have "fst ?st = 2500" by (simp add: tick_def)
  ultimately have r: "run_to sample_lib sample_reader ?d sample_config
      (1500, subscriber_start ''dev'' ''eth0'' [] None) (2500, g)" by simp
  from sv_run_bounds [OF r] g(2) show ?thesis by (intro exI [of _ g]) simp
qed

end
