(* ===== verification/SvLink.thy ===== *)
theory SvLink
  imports SvPublisher SvSubscriber
begin

text \<open>
  An SV publisher and a subscriber on one network: what the publisher numbers is what the subscriber
  counts with. The network may lose ASDUs; those that arrive keep their order.
\<close>

section \<open>One stream\<close>

text \<open>ASDU \<open>k\<close> of a publisher as it arrives: with the \<open>smpCnt\<close> the publisher set for it.\<close>

definition carries :: "u16 \<Rightarrow> string \<Rightarrow> sv_call list \<Rightarrow> nat \<Rightarrow> u16 \<times> sv_asdu \<Rightarrow> bool" where
  "carries app_id sv_id calls k y \<longleftrightarrow> k < length (smp_counts calls) \<and>
     fst y = app_id \<and> as_sv_id (snd y) = Some sv_id \<and> as_smp_cnt (snd y) = smp_counts calls ! k"

text \<open>The numbers that arrive rise by less than half the wrap.\<close>

definition gap_below :: "nat \<Rightarrow> nat \<Rightarrow> nat \<Rightarrow> bool" where
  "gap_below w a b \<longleftrightarrow> a < b \<and> b - a < w - w div 2"

lemma in_step_stream:
  "successively (gap_below (w key)) (a # ks) \<Longrightarrow> in_step w (seen(key \<mapsto> a)) (map (Pair key) ks)"
  by (induction ks arbitrary: a seen) (auto simp: gap_below_def successively_Cons)

lemma stream_rises: "successively (gap_below w) (a # ks) \<Longrightarrow> a + length ks \<le> last (a # ks)"
proof (induction ks arbitrary: a)
  case (Cons b ks)
  then have "a < b" "b + length ks \<le> last (b # ks)" by (auto simp: gap_below_def)
  then show ?case by simp
qed simp

lemma skipped_stream:
  "successively (gap_below w) (a # ks) \<Longrightarrow>
   skipped (seen(key \<mapsto> a)) (map (Pair key) ks) = last (a # ks) - a - length ks"
proof (induction ks arbitrary: a seen)
  case (Cons b ks)
  then have ab: "a < b" and s: "successively (gap_below w) (b # ks)" by (auto simp: gap_below_def)
  have "skipped (seen(key \<mapsto> a)) (map (Pair key) (b # ks)) =
      (b - a - 1) + skipped ((seen(key \<mapsto> a))(key \<mapsto> b)) (map (Pair key) ks)" by simp
  also have "\<dots> = (b - a - 1) + (last (b # ks) - b - length ks)" by (simp only: Cons.IH [OF s])
  also have "\<dots> = last (a # b # ks) - a - length (b # ks)" using ab stream_rises [OF s] by simp
  finally show ?case .
qed simp

lemma numbered_nth: "numbered w cs \<Longrightarrow> k < length cs \<Longrightarrow> cs ! k = of_nat (k mod w)"
  by (subst (asm) numbered_def, erule ssubst) simp

text \<open>Heard by the listener, one after the other, the ASDUs that arrive account for all that were sent.\<close>

lemma sv_link_loss_heard:
  assumes "sv_setup L acc slow_period version created src index opts = Returns (Inr (p, period_ns))"
    and "opts_in_range opts" "reaches L acc E period_ns (main_start E p) m"
    and "list_all2 (carries app_id sv_id (sp_calls (sm_pub m))) ks ys" "ks \<noteq> []"
    and "successively (gap_below (unat (sp_wrap (sm_pub m)))) ks"
    and "every_ok cf" "lets_pass cf sv_id" "key_ok (app_id, sv_id)"
    and "wrap_of (cf_fixtures cf) (app_id, sv_id) = unat (sp_wrap (sm_pub m))"
  shows "\<exists>g n. hear Ls R cf ys (subscriber_start ver iface own filt) = Returns g \<and>
    n + length ks = last ks - hd ks + 1 \<and>
    ss_totals g = \<lparr>received = of_nat (length ks), lost = of_nat n, duplicates = 0, out_of_order = 0\<rparr>"
proof -
  let ?key = "(app_id, sv_id)" and ?w = "wrap_of (cf_fixtures cf)" and ?g = "subscriber_start ver iface own filt"
  have "sv_inv (sm_pub (main_start E p))" using sv_setup_inv [OF assms(1,2)] by simp
  then have "sv_inv (sm_pub m)" by (rule sv_pub_reaches_inv [OF assms(3)])
  then have num: "numbered (?w ?key) (smp_counts (sp_calls (sm_pub m)))" and w: "0 < ?w ?key" "?w ?key \<le> 65536"
    by (simp_all add: sv_inv_def Let_def assms(10) word_unat_eq_iff)
  have "smp_counts (sp_calls (sm_pub m)) ! k = of_nat (k mod ?w ?key)"
    if "k < length (smp_counts (sp_calls (sm_pub m)))" for k
    by (rule numbered_nth [OF num that])
  then have heard: "list_all2 (heard_as ?w) (map (Pair ?key) ks) ys"
    using assms(4) by (auto simp: list_all2_conv_all_nth carries_def heard_as_def)
  obtain a js where ks: "ks = a # js" using assms(5) by (cases ks) auto
  have gaps: "successively (gap_below (?w ?key)) (a # js)" using assms(6) by (simp add: ks assms(10))
  have step: "in_step ?w Map.empty (map (Pair ?key) ks)"
    using in_step_stream [where w = ?w and key = ?key, OF gaps, of Map.empty] by (simp add: ks)
  have track: "tracked ?w Map.empty (ss_streams ?g)" by (simp add: tracked_def subscriber_start_def)
  have keys: "list_all (\<lambda>x. key_ok (fst x) \<and> 0 < ?w (fst x) \<and> ?w (fst x) \<le> 65536) (map (Pair ?key) ks)"
    using w assms(9) by (simp add: list_all_iff)
  have "fst ` set (map (Pair ?key) ks) \<union> dom (Map.empty :: u16 \<times> string \<rightharpoonup> nat) = {?key}" by (auto simp: ks)
  then have room: "card (fst ` set (map (Pair ?key) ks) \<union> dom (Map.empty :: u16 \<times> string \<rightharpoonup> nat)) \<le> MAX_STREAMS"
    by (simp only: card.insert) (simp add: MAX_STREAMS_def)
  have pass: "list_all (\<lambda>x. lets_pass cf (snd (fst x))) (map (Pair ?key) ks)"
    using assms(8) by (simp add: list_all_iff)
  from hear_exact [OF assms(7) heard step track keys room pass, of Ls R] obtain g where g: "hear Ls R cf ys ?g = Returns g"
    "ss_totals g = (ss_totals ?g)\<lparr>received := received (ss_totals ?g) + of_nat (length (map (Pair ?key) ks)),
      lost := lost (ss_totals ?g) + of_nat (skipped Map.empty (map (Pair ?key) ks))\<rparr>" by blast
  have "skipped Map.empty (map (Pair ?key) ks) = last ks - hd ks - length js"
    using skipped_stream [OF gaps, of Map.empty ?key] by (simp add: ks)
  moreover have "a + length js \<le> last ks" using stream_rises [OF gaps] by (simp add: ks)
  ultimately show ?thesis
    using g by (intro exI [of _ g] exI [of _ "skipped Map.empty (map (Pair ?key) ks)"]) (auto simp: ks subscriber_start_def)
qed

section \<open>A publisher that loses two samples\<close>

text \<open>A clock that follows the frames: every turn sends one.\<close>

definition frame_clock :: sv_env where
  "frame_clock = \<lparr>sv_real_ns = (\<lambda>cs. 0), sv_mono_ns = (\<lambda>cs. of_nat (frames_sent cs) * 500000), sv_wake = (\<lambda>cs. Idle)\<rparr>"

lemma frame_clock_turn:
  assumes "sv_inv (sm_pub m)" "frames_sent (sp_calls (sm_pub m)) = n" "n \<in> {0, 1}" "sm_next m = of_nat n * 500000" "sm_running m"
  shows "\<exists>m'. main_step L acc frame_clock 500000 m = Returns m' \<and> sv_inv (sm_pub m') \<and>
    frames_sent (sp_calls (sm_pub m')) = Suc n \<and> sm_next m' = of_nat (Suc n) * 500000 \<and> sm_running m' \<and>
    sp_wrap (sm_pub m') = sp_wrap (sm_pub m) \<and> sp_no_asdu (sm_pub m') = sp_no_asdu (sm_pub m)"
proof -
  let ?p = "call MonoTime (sm_pub m)"
  have inv: "sv_inv ?p" using assms(1) by (simp add: sv_inv_def)
  then obtain q where q: "send_frame frame_clock ?p = Returns q" using sv_pub_send_frame_total by blast
  have qi: "sv_inv q" using inv q by (rule sv_pub_send_frame_inv)
  have fr: "frames_sent (sp_calls q) = Suc n" using send_frame_quiet [OF q] assms(2) by simp
  have same: "sp_wrap q = sp_wrap (sm_pub m)" "sp_no_asdu q = sp_no_asdu (sm_pub m)"
    using q by (rule sv_pub_send_frame_Returns, auto simp: stamped_def split: if_splits dest!: number_asdus_fields)+
  have nxt: "advance 500000 (of_nat n * 500000) (of_nat n * 500000) = of_nat (Suc n) * 500000"
    "\<not> (of_nat n * 500000 :: u64) > of_nat n * 500000 + 500000 + 1000000000"
    using assms(3) by (auto simp: advance_def)
  have "due_frame frame_clock 500000 m = Returns (q, of_nat (Suc n) * 500000)"
    using q nxt assms(2,4) by (simp add: due_frame_def frame_clock_def Let_def)
  moreover obtain w r where r: "polled frame_clock (sm_stdin_open m) q (of_nat (Suc n) * 500000) = (w, r)" by force
  moreover have "w = Idle" "sp_wrap r = sp_wrap q" "sp_no_asdu r = sp_no_asdu q"
    using r by (auto simp: polled_def frame_clock_def Let_def split: if_splits)
  ultimately show ?thesis using polled_pub [OF r] qi fr same assms(5) by (simp add: main_step_eq Let_def)
qed

text \<open>Of four samples the first and the last arrive.\<close>

definition link_config :: sv_config where
  "link_config = \<lparr>cf_fixtures = [\<lparr>fx_sv_id = ''MU01'', fx_types = [SV_BOOLEAN], fx_wrap = 4000\<rparr>],
     cf_sv_id = None, cf_every = 1, cf_app_id = None, cf_dst = None\<rparr>"

lemma link_samples:
  obtains p m where "sv_setup sample_sv_lib sample_access (\<lambda>n r. 0) ''dev'' True [2, 0, 0, 0, 0, 1] (\<lambda>i a. int i)
      sample_sv_opts = Returns (Inr (p, 500000))"
    "reaches sample_sv_lib sample_access frame_clock 500000 (main_start frame_clock p) m" "sp_wrap (sm_pub m) = 4000"
    "list_all2 (carries 0x4000 ''MU01'' (sp_calls (sm_pub m))) [0, 3]
      [(0x4000, sample_asdu ''MU01'' 0), (0x4000, sample_asdu ''MU01'' 3)]"
proof -
  obtain p where p: "sv_setup sample_sv_lib sample_access (\<lambda>n r. 0) ''dev'' True [2, 0, 0, 0, 0, 1] (\<lambda>i a. int i)
      sample_sv_opts = Returns (Inr (p, 500000))" "sp_no_asdu p = 2" "sp_wrap p = 4000" using sample_sv_setup by blast
  let ?m0 = "main_start frame_clock p"
  note s = sv_setup_inv [OF p(1) sample_sv_range]
  have 0: "sv_inv (sm_pub ?m0)" "frames_sent (sp_calls (sm_pub ?m0)) = 0" "sm_next ?m0 = of_nat 0 * 500000" "sm_running ?m0"
    "sp_wrap (sm_pub ?m0) = 4000" "sp_no_asdu (sm_pub ?m0) = 2"
    using s p by (simp, simp_all add: main_start_def frame_clock_def)
  from frame_clock_turn [OF 0(1,2) _ 0(3,4), of sample_sv_lib sample_access] 0(5,6) obtain m1 where
    1: "main_step sample_sv_lib sample_access frame_clock 500000 ?m0 = Returns m1"
    "sv_inv (sm_pub m1)" "frames_sent (sp_calls (sm_pub m1)) = 1" "sm_next m1 = of_nat 1 * 500000" "sm_running m1"
    "sp_wrap (sm_pub m1) = 4000" "sp_no_asdu (sm_pub m1) = 2" by auto
  from frame_clock_turn [OF 1(2,3) _ 1(4,5), of sample_sv_lib sample_access] 1(6,7) obtain m where
    2: "main_step sample_sv_lib sample_access frame_clock 500000 m1 = Returns m"
    "sv_inv (sm_pub m)" "frames_sent (sp_calls (sm_pub m)) = 2" "sp_wrap (sm_pub m) = 4000" "sp_no_asdu (sm_pub m) = 2" by auto
  have reach: "reaches sample_sv_lib sample_access frame_clock 500000 ?m0 m"
    by (rule reaches.turn [OF reaches.turn [OF reaches.start 0(4) 1(1)] 1(5) 2(1)])
  have num: "numbered 4000 (smp_counts (sp_calls (sm_pub m)))" "length (smp_counts (sp_calls (sm_pub m))) = 4"
    using 2(2-5) by (simp_all add: sv_inv_def Let_def)
  have "list_all2 (carries 0x4000 ''MU01'' (sp_calls (sm_pub m))) [0, 3]
      [(0x4000, sample_asdu ''MU01'' 0), (0x4000, sample_asdu ''MU01'' 3)]"
    using numbered_nth [OF num(1), of 0] numbered_nth [OF num(1), of 3] num(2)
    by (simp add: carries_def sample_asdu_def)
  with p(1) reach 2(4) show thesis by (rule that)
qed

end
