(* ===== verification/SvRun.thy ===== *)
theory SvRun
  imports SvLink FrameLoop JsonLines
begin

text \<open>
  The main function of \<open>sv_subscriber.c\<close> over its raw socket, and a whole run of publisher and
  subscriber: the ASDUs of the frames the subscriber's loop takes are those the losses are counted in.
\<close>

section \<open>The program\<close>

text \<open>\<open>files\<close> is what \<open>json_object_from_file\<close> reads, \<open>path\<close> is \<open>SV_FIXTURE_PATH\<close>.\<close>

definition sv_sub_main ::
  "value_lib \<Rightarrow> (string \<Rightarrow> json option) \<Rightarrow> string \<Rightarrow> string option \<Rightarrow> net_env \<Rightarrow> string list \<Rightarrow>
   (sv_config \<times> (u64 \<times> sv_subscriber) frame_loop) sub_start outcome" where
  "sv_sub_main L files path version E argv =
     (case jl_handle_meta_flags version argv ''libiec61850'' of
        Some t \<Rightarrow> Returns (Answers t)
      | None \<Rightarrow>
          (case SvSubscriber.parse_args (sv_sub_defaults path) (drop 1 argv) of
             Inl e \<Rightarrow> Returns (Exits (jl_fatal 1 e))
           | Inr opts \<Rightarrow>
               bind_outcome (load_fixture L (files (sso_fixture opts))) (\<lambda>fs.
                 let iface = sso_iface opts; cf = (sso_config opts)\<lparr>cf_fixtures := fs\<rparr>
                 in Returns
                   (if \<not> ne_socket E iface
                    then Exits (jl_fatal 1 (''sv-subscriber: raw socket on '' @ iface @ '' failed (needs CAP_NET_RAW)''))
                    else (case drain E [ReceiveBuffer (32 * 2 ^ 20), ProtocolFilter 0x88ba, CreateSocket iface] of
                            None \<Rightarrow> NeverReady
                          | Some cs \<Rightarrow>
                              let cs = InterfaceMAC iface # NoDestAddrCheck # CreateReceiver # cs
                              in Runs (cf, loop_start
                                (ne_clock E cs + 1000,
                                 SvSubscriber.subscriber_start (adapter_version version) iface (ne_mac E iface) (cf_sv_id cf))
                                (MonotonicTime # cs)))))))"

definition sv_receive ::
  "value_lib \<Rightarrow> sv_reader \<Rightarrow> (u16 list \<Rightarrow> u8 list \<Rightarrow> sv_asdu list) \<Rightarrow> sv_config \<Rightarrow> u64 \<Rightarrow> u8 list \<Rightarrow>
   u64 \<times> sv_subscriber \<Rightarrow> (u64 \<times> sv_subscriber) outcome" where
  "sv_receive L R decode cf now frame st =
     bind_outcome (SvSubscriber.receive_frame L R decode cf frame (snd st)) (\<lambda>g. Returns (fst st, g))"

text \<open>The runs of the loop are runs of the step relation.\<close>

interpretation sv_frames: frame_client tick "sv_receive L R decode cf" "run_to L R decode cf st0"
  by unfold_locales (auto simp: sv_receive_def intro: run_to.step SvSubscriber.loop_step.tick SvSubscriber.loop_step.frame)

lemma sv_loop_run_to:
  "loop_reaches tick (sv_receive L R decode cf) E (loop_start st cs) s \<Longrightarrow> run_to L R decode cf st (fl_state s)"
  by (drule sv_frames.loop_inv) (simp_all add: loop_start_def run_to.start)

section \<open>The ASDUs that count\<close>

definition type_offset :: "u8 list \<Rightarrow> nat" where
  "type_offset frame = (if frame ! 12 = 0x81 \<and> frame ! 13 = 0x00 then 16 else 12)"

definition app_id_of :: "u8 list \<Rightarrow> u16" where
  "app_id_of frame = push_bit 8 (ucast (frame ! (type_offset frame + 2))) OR ucast (frame ! (type_offset frame + 3))"

text \<open>A frame that passes the filters.\<close>

definition accepts :: "sv_config \<Rightarrow> u8 list \<Rightarrow> bool" where
  "accepts cf frame \<longleftrightarrow> 14 \<le> length frame \<and> type_offset frame + 10 \<le> length frame \<and>
     frame ! type_offset frame = 0x88 \<and> frame ! (type_offset frame + 1) = 0xba \<and>
     (case cf_app_id cf of None \<Rightarrow> True | Some a \<Rightarrow> app_id_of frame = a) \<and>
     (case cf_dst cf of None \<Rightarrow> True | Some d \<Rightarrow> take 6 frame = d)"

fun asdus_in ::
  "(u16 list \<Rightarrow> u8 list \<Rightarrow> sv_asdu list) \<Rightarrow> sv_config \<Rightarrow> u16 list \<Rightarrow> frame_event list \<Rightarrow> (u16 \<times> sv_asdu) list" where
  "asdus_in decode cf known [] = []"
| "asdus_in decode cf known (CheckAt now # evs) = asdus_in decode cf known evs"
| "asdus_in decode cf known (FrameAt now frame # evs) =
     (if accepts cf frame
      then let known = register (app_id_of frame) known
           in map (Pair (app_id_of frame)) (decode known frame) @ asdus_in decode cf known evs
      else asdus_in decode cf known evs)"

text \<open>The streams and the totals: what a listener counts with.\<close>

definition counts_of :: "sv_subscriber \<Rightarrow> sv_stream list \<times> sv_totals" where
  "counts_of g = (ss_streams g, ss_totals g)"

lemma counts_of_header [simp]:
  "counts_of (g\<lparr>ss_app_id := a\<rparr>) = counts_of g"
  "counts_of (g\<lparr>ss_out := out\<rparr>) = counts_of g"
  "counts_of (g\<lparr>ss_asdu_index := i\<rparr>) = counts_of g"
  by (simp_all add: counts_of_def)

lemma listener_counts:
  assumes "every_ok cf" "counts_of g = counts_of g'" "ss_app_id g = ss_app_id g'"
  obtains h h' where "SvSubscriber.listener L R cf a g = Returns h" "SvSubscriber.listener L R cf a g' = Returns h'"
    "counts_of h = counts_of h'" "ss_app_id h = ss_app_id g" "ss_known h = ss_known g"
proof -
  define sv_id where "sv_id = (case as_sv_id a of None \<Rightarrow> '''' | Some i \<Rightarrow> i)"
  show thesis
  proof (cases "case cf_sv_id cf of None \<Rightarrow> True | Some f \<Rightarrow> f = sv_id")
    case False
    then obtain f where f: "cf_sv_id cf = Some f" "sv_id \<noteq> f" by (auto split: option.splits)
    note l = listener_filtered [OF f [unfolded sv_id_def], of L R]
    show thesis by (rule that [OF l [of g] l [of g']]) (simp_all add: assms(2))
  next
    case True
    note l = listener_account [OF assms(1) True sv_id_def [symmetric], of L R]
    from l [of g] l [of g'] assms(2,3) show thesis
      by (elim exE conjE) (rule that, assumption+, simp_all add: counts_of_def)
  qed
qed

lemma deliver_counts:
  assumes "every_ok cf"
  shows "SvSubscriber.deliver L R cf as g = Returns h \<Longrightarrow> counts_of g = counts_of g' \<Longrightarrow> ss_app_id g = app \<Longrightarrow>
    ss_known h = ss_known g \<and> (\<exists>h'. hear L R cf (map (Pair app) as) g' = Returns h' \<and> counts_of h = counts_of h')"
proof (induction as arbitrary: g g')
  case (Cons a as)
  have "counts_of g = counts_of (g'\<lparr>ss_app_id := app\<rparr>)" "ss_app_id g = ss_app_id (g'\<lparr>ss_app_id := app\<rparr>)"
    using Cons.prems by simp_all
  from listener_counts [OF assms this, of L R a] obtain k k' where k: "SvSubscriber.listener L R cf a g = Returns k"
    "SvSubscriber.listener L R cf a (g'\<lparr>ss_app_id := app\<rparr>) = Returns k'" "counts_of k = counts_of k'"
    "ss_app_id k = app" "ss_known k = ss_known g" using Cons.prems(3) by metis
  then show ?case using Cons.IH [OF _ k(3,4)] Cons.prems(1) by simp
qed auto

lemma receive_frame_accepts:
  "SvSubscriber.receive_frame L R decode cf frame g =
    (if accepts cf frame
     then bind_outcome (read_no_asdu (drop (type_offset frame + 10) frame)) (\<lambda>no_asdu.
       let known = register (app_id_of frame) (ss_known g)
       in SvSubscriber.deliver L R cf (decode known frame)
         (g\<lparr>ss_known := known, ss_dst := take 6 frame, ss_src := take 6 (drop 6 frame), ss_app_id := app_id_of frame,
            ss_simulation := frame ! (type_offset frame + 6) AND 0x80 \<noteq> 0, ss_no_asdu := no_asdu, ss_asdu_index := 0\<rparr>))
     else Returns g)"
  by (auto simp: SvSubscriber.receive_frame_def accepts_def app_id_of_def type_offset_def Let_def eval_nat_numeral
      split: option.split)

lemma hear_append: "hear L R cf (xs @ ys) g = bind_outcome (hear L R cf xs g) (hear L R cf ys)"
proof (induction xs arbitrary: g)
  case (Cons x xs)
  obtain app a where x: "x = (app, a)" by force
  show ?case by (cases "SvSubscriber.listener L R cf a (g\<lparr>ss_app_id := app\<rparr>)") (simp_all add: x Cons)
qed simp

lemma tick_counts: "counts_of (snd (tick now st)) = counts_of (snd st)" "ss_known (snd (tick now st)) = ss_known (snd st)"
  by (simp_all add: tick_def)

text \<open>The streams and totals of a run are those of the ASDUs of the accepted frames, in their order.\<close>

lemma run_events_hear:
  assumes "every_ok cf"
  shows "run_events tick (sv_receive L R decode cf) evs st = Returns st' \<Longrightarrow> counts_of (snd st) = counts_of g \<Longrightarrow>
    \<exists>h. hear L R cf (asdus_in decode cf (ss_known (snd st)) evs) g = Returns h \<and> counts_of (snd st') = counts_of h"
proof (induction evs arbitrary: st g)
  case (Cons ev evs)
  show ?case
  proof (cases ev)
    case (CheckAt now)
    then show ?thesis using Cons.IH [of "tick now st" g] Cons.prems by (simp add: tick_counts)
  next
    case (FrameAt now frame)
    from Cons.prems(1) obtain r where r: "SvSubscriber.receive_frame L R decode cf frame (snd st) = Returns r"
      "run_events tick (sv_receive L R decode cf) evs (fst st, r) = Returns st'" by (auto simp: FrameAt sv_receive_def [of L R decode cf now frame st])
    show ?thesis
    proof (cases "accepts cf frame")
      case False
      then have "r = snd st" using r(1) by (simp add: receive_frame_accepts)
      then show ?thesis using Cons.IH [OF r(2)] Cons.prems(2) False by (simp add: FrameAt)
    next
      case True
      let ?known = "register (app_id_of frame) (ss_known (snd st))"
      from r(1) True obtain no_asdu where "SvSubscriber.deliver L R cf (decode ?known frame)
          ((snd st)\<lparr>ss_known := ?known, ss_dst := take 6 frame, ss_src := take 6 (drop 6 frame), ss_app_id := app_id_of frame,
            ss_simulation := frame ! (type_offset frame + 6) AND 0x80 \<noteq> 0, ss_no_asdu := no_asdu, ss_asdu_index := 0\<rparr>) = Returns r"
        by (auto simp: receive_frame_accepts Let_def)
      from deliver_counts [OF assms this, of g "app_id_of frame"] Cons.prems(2) obtain h where
        "hear L R cf (map (Pair (app_id_of frame)) (decode ?known frame)) g = Returns h" "counts_of r = counts_of h"
        "ss_known r = ?known" by (auto simp: counts_of_def)
      then show ?thesis using Cons.IH [OF r(2), of h] True by (simp add: FrameAt hear_append Let_def)
    qed
  qed
qed auto

lemma sv_sub_main_Runs:
  assumes "sv_sub_main L files path version E argv = Returns (Runs (cf, s0))"
  obtains first iface cs where
    "s0 = loop_start (first, SvSubscriber.subscriber_start (adapter_version version) iface (ne_mac E iface) (cf_sv_id cf)) cs"
  using assms by (auto simp: sv_sub_main_def Let_def split: option.splits sum.splits if_splits)

section \<open>The two together\<close>

text \<open>C7: A subscriber counts exactly what a publisher's stream loses on the way, from main function to
  main function. Of the ASDUs a publisher has sent, let some arrive, in their order, fewer than half
  the wrap apart, and no others, in the frames that pass the filters of a subscriber whose fixture has the
  publisher's wrap and whose \<open>--sv-id\<close>, if it is given, is the publisher's. Whenever one looks at the
  subscriber's loop, it has counted every ASDU between the first and the last that arrived exactly
  once, as received or as lost: received are those that arrived, lost the others, none is a duplicate
  or out of order. Stats events and frames that are filtered out change nothing of it. (The svID has
  fewer than 130 characters, \<open>--every\<close> is not a multiple of \<open>2 ^ 32\<close>, \<open>--report-every\<close>
  is below \<open>2 ^ 63\<close>; what the library decodes of a frame is a parameter, and
  an ASDU it drops, as libiec61850's receiver does with those of the generic profile, does not arrive.)\<close>

theorem sv_link_loss:
  assumes "sv_setup L acc slow_period version created src index opts = Returns (Inr (p, period_ns))"
    and "opts_in_range opts" "SvPublisher.reaches L acc E period_ns (SvPublisher.main_start E p) m"
    and "sv_sub_main Ls files path sub_version N argv = Returns (Runs (cf, s0))"
    and "loop_reaches tick (sv_receive Ls R decode cf) N s0 s"
    and "list_all2 (carries app_id sv_id (sp_calls (sm_pub m))) ks (asdus_in decode cf [] (events_of N (fl_calls s)))"
    and "ks \<noteq> []" "successively (gap_below (unat (sp_wrap (sm_pub m)))) ks"
    and "every_ok cf" "lets_pass cf sv_id" "key_ok (app_id, sv_id)"
    and "wrap_of (cf_fixtures cf) (app_id, sv_id) = unat (sp_wrap (sm_pub m))"
  shows "\<exists>n. n + length ks = last ks - hd ks + 1 \<and>
    ss_totals (snd (fl_state s)) =
      \<lparr>received = of_nat (length ks), lost = of_nat n, duplicates = 0, out_of_order = 0\<rparr>"
proof -
  obtain first iface cs where s0: "s0 = loop_start
      (first, SvSubscriber.subscriber_start (adapter_version sub_version) iface (ne_mac N iface) (cf_sv_id cf)) cs"
    using sv_sub_main_Runs [OF assms(4)] by metis
  let ?start = "SvSubscriber.subscriber_start (adapter_version sub_version) iface (ne_mac N iface) (cf_sv_id cf)"
  from run_events_hear [OF assms(9) loop_events [OF assms(5) [unfolded s0]], of ?start]
  obtain h where h: "hear Ls R cf (asdus_in decode cf (ss_known ?start) (events_of N (fl_calls s))) ?start = Returns h"
    "counts_of (snd (fl_state s)) = counts_of h" by auto
  have "ss_known ?start = []" by (simp add: SvSubscriber.subscriber_start_def)
  with h sv_link_loss_heard [OF assms(1-3,6-12), of Ls R "adapter_version sub_version" iface "ne_mac N iface" "cf_sv_id cf"]
  show ?thesis by (auto simp: counts_of_def)
qed

section \<open>A subscriber that loses two samples\<close>

lemma deliver_total: "every_ok cf \<Longrightarrow> \<exists>h. SvSubscriber.deliver L R cf as g = Returns h"
proof (induction as arbitrary: g)
  case (Cons a as)
  obtain h where "SvSubscriber.listener L R cf a g = Returns h" using listener_counts [OF Cons.prems refl refl] by metis
  then show ?case using Cons.IH [OF Cons.prems, of h] by simp
qed simp

text \<open>Two frames arrive in one turn; the last octet stands for the \<open>smpCnt\<close>.\<close>

definition sv_net :: net_env where
  "sv_net = \<lparr>ne_socket = (\<lambda>i. True), ne_mac = (\<lambda>i. []),
     ne_frame = (\<lambda>cs. if length cs = 11 then sample_sv_frame @ [0] else if length cs = 12 then sample_sv_frame @ [3] else []),
     ne_ready = (\<lambda>cs. 1), ne_clock = (\<lambda>cs. 0), ne_signalled = (\<lambda>cs. False)\<rparr>"

definition sv_net_decode :: "u16 list \<Rightarrow> u8 list \<Rightarrow> sv_asdu list" where
  "sv_net_decode known frame = [sample_asdu ''MU01'' (unat (last frame))]"

definition sv_net_file :: "string \<Rightarrow> json option" where
  "sv_net_file path = Some (JObject [(''streams'', JObject [(''mu01'',
     JObject [(''svID'', JString ''MU01''), (''members'', JArray [JObject [(''type'', JString ''boolean'')]]),
       (''smpCntWrap'', JInt 4000)])])])"

definition sv_net_start :: "(u64 \<times> sv_subscriber) frame_loop" where
  "sv_net_start = loop_start (1000, SvSubscriber.subscriber_start ''dev'' ''eth0'' [] None)
     [MonotonicTime, InterfaceMAC ''eth0'', NoDestAddrCheck, CreateReceiver, ReceivePacket,
      ReceiveBuffer (32 * 2 ^ 20), ProtocolFilter 0x88ba, CreateSocket ''eth0'']"

lemma sv_net_main:
  "sv_sub_main sample_lib sv_net_file ''fixture.json'' None sv_net [''sv-subscriber''] = Returns (Runs (link_config, sv_net_start))"
proof -
  have "drain sv_net [ReceiveBuffer (32 * 2 ^ 20), ProtocolFilter 0x88ba, CreateSocket ''eth0''] =
      Some [ReceivePacket, ReceiveBuffer (32 * 2 ^ 20), ProtocolFilter 0x88ba, CreateSocket ''eth0'']"
    by (subst drain.simps) (simp add: sv_net_def)
  moreover have "ne_socket sv_net i" "ne_mac sv_net i = []" "ne_clock sv_net cs = 0" for i cs by (simp_all add: sv_net_def)
  moreover have "load_fixture sample_lib (sv_net_file path) = Returns (cf_fixtures link_config)" for path
    by (simp add: sv_net_file_def load_fixture_def fixture_entry_def json_get_ex_def link_config_def json_get_string_def
        json_get_int_def json_int32_def c_str_def nul_def
        MAX_FIXTURES_def MAX_MEMBERS_def sv_type_from_name_def k_types_def)
  ultimately show ?thesis
    by (simp add: sv_sub_main_def jl_handle_meta_flags_def sv_sub_defaults_def adapter_version_def sv_net_start_def Let_def
        link_config_def)
qed

lemma sv_net_receive:
  assumes "x \<in> {0, 3}"
  shows "\<exists>st'. sv_receive sample_lib sample_reader sv_net_decode link_config now (sample_sv_frame @ [x]) st = Returns st'"
proof -
  let ?f = "sample_sv_frame @ [x]"
  have "read_no_asdu (0x60 # 4 # 0x80 # 1 # 2 # [0xa2, x]) = Returns 2"
    using sv_no_asdu [of 4 "[4]" "[2]" "[1]" "[0xa2, x]"] by (simp add: ber_encodes_def be_nat_def)
  moreover have "type_offset ?f = 12" by (simp add: type_offset_def sample_sv_frame_def)
  ultimately have "read_no_asdu (drop (type_offset ?f + 10) ?f) = Returns 2" by (simp add: sample_sv_frame_def)
  moreover have "every_ok link_config" by (simp add: every_ok_def link_config_def)
  ultimately show ?thesis
    using deliver_total by (auto simp: sv_receive_def receive_frame_accepts Let_def)
qed

lemma sv_net_run:
  obtains s where "loop_reaches tick (sv_receive sample_lib sample_reader sv_net_decode link_config) sv_net sv_net_start s"
    "asdus_in sv_net_decode link_config [] (events_of sv_net (fl_calls s)) =
      [(0x4000, sample_asdu ''MU01'' 0), (0x4000, sample_asdu ''MU01'' 3)]"
proof -
  let ?turn = "loop_turn tick (sv_receive sample_lib sample_reader sv_net_decode link_config) sv_net"
  let ?cs = "AddSocket # MonotonicTime # InterfaceMAC ''eth0'' # NoDestAddrCheck # CreateReceiver # ReceivePacket #
      ReceiveBuffer (32 * 2 ^ 20) # ProtocolFilter 0x88ba # [CreateSocket ''eth0'']"
  obtain s1 where s1: "?turn sv_net_start = Returns s1" "fl_draining s1" "fl_running s1"
    "fl_calls s1 = WaitReady 10 # MonotonicTime # ?cs"
    by (simp add: loop_turn_def sv_net_start_def loop_start_def sv_net_def Let_def)
  obtain st2 where "sv_receive sample_lib sample_reader sv_net_decode link_config 0 (sample_sv_frame @ [0]) (fl_state s1) = Returns st2"
    using sv_net_receive by blast
  then obtain s2 where s2: "?turn s1 = Returns s2" "fl_draining s2" "fl_running s2" "fl_calls s2 = ReceivePacket # fl_calls s1"
    using s1 by (simp add: loop_turn_def sv_net_def Let_def)
  obtain st3 where "sv_receive sample_lib sample_reader sv_net_decode link_config 0 (sample_sv_frame @ [3]) (fl_state s2) = Returns st3"
    using sv_net_receive by blast
  then obtain s3 where s3: "?turn s2 = Returns s3" "fl_calls s3 = ReceivePacket # fl_calls s2"
    using s1 s2 by (simp add: loop_turn_def sv_net_def Let_def)
  have "fl_running sv_net_start" by (simp add: sv_net_start_def loop_start_def)
  then have reach: "loop_reaches tick (sv_receive sample_lib sample_reader sv_net_decode link_config) sv_net sv_net_start s3"
    using s1 s2 s3 by (intro loop_reaches.turn [OF loop_reaches.turn [OF loop_reaches.turn [OF loop_reaches.start]]])
  have "events_of sv_net (fl_calls s3) = [CheckAt 0, FrameAt 0 (sample_sv_frame @ [0]), FrameAt 0 (sample_sv_frame @ [3])]"
    by (simp add: s1 s2 s3 sv_net_def)
  moreover have "accepts link_config (sample_sv_frame @ [x])" "app_id_of (sample_sv_frame @ [x]) = 0x4000" for x
    by (simp_all add: accepts_def app_id_of_def type_offset_def sample_sv_frame_def link_config_def)
  ultimately have "asdus_in sv_net_decode link_config [] (events_of sv_net (fl_calls s3)) =
      [(0x4000, sample_asdu ''MU01'' 0), (0x4000, sample_asdu ''MU01'' 3)]"
    by (simp add: sv_net_decode_def Let_def)
  with reach show thesis by (rule that)
qed

theorem sv_link_loss_witness:
  "sv_sub_main sample_lib sv_net_file ''fixture.json'' None sv_net [''sv-subscriber''] = Returns (Runs (link_config, sv_net_start)) \<and>
   (\<exists>s. loop_reaches tick (sv_receive sample_lib sample_reader sv_net_decode link_config) sv_net sv_net_start s \<and>
     ss_totals (snd (fl_state s)) = \<lparr>received = 2, lost = 2, duplicates = 0, out_of_order = 0\<rparr>)"
proof -
  obtain p m where r: "sv_setup sample_sv_lib sample_access (\<lambda>n r. 0) ''dev'' True [2, 0, 0, 0, 0, 1] (\<lambda>i a. int i)
      sample_sv_opts = Returns (Inr (p, 500000))"
    "SvPublisher.reaches sample_sv_lib sample_access frame_clock 500000 (SvPublisher.main_start frame_clock p) m"
    "sp_wrap (sm_pub m) = 4000"
    "list_all2 (carries 0x4000 ''MU01'' (sp_calls (sm_pub m))) [0, 3]
      [(0x4000, sample_asdu ''MU01'' 0), (0x4000, sample_asdu ''MU01'' 3)]" by (rule link_samples)
  obtain s where s: "loop_reaches tick (sv_receive sample_lib sample_reader sv_net_decode link_config) sv_net sv_net_start s"
    "asdus_in sv_net_decode link_config [] (events_of sv_net (fl_calls s)) =
      [(0x4000, sample_asdu ''MU01'' 0), (0x4000, sample_asdu ''MU01'' 3)]" by (rule sv_net_run)
  have gaps: "successively (gap_below (unat (sp_wrap (sm_pub m)))) [0, 3]" by (simp add: gap_below_def r(3))
  have cf: "every_ok link_config" "lets_pass link_config ''MU01''" "key_ok (0x4000, ''MU01'')"
    "wrap_of (cf_fixtures link_config) (0x4000, ''MU01'') = unat (sp_wrap (sm_pub m))"
    by (simp_all add: every_ok_def link_config_def lets_pass_def key_ok_def wrap_of_def fixture_for_def r(3))
  from sv_link_loss [OF r(1) sample_sv_range r(2) sv_net_main s(1) r(4) [folded s(2)] _ gaps cf]
  have "ss_totals (snd (fl_state s)) = \<lparr>received = 2, lost = 2, duplicates = 0, out_of_order = 0\<rparr>" by auto
  with s(1) sv_net_main show ?thesis by blast
qed

end
