(* ===== verification/SvValues.thy ===== *)
theory SvValues
  imports SvPublisher SvSubscriber
begin

text \<open>
  The values of an SV stream from the publisher's stdin to the subscriber's stdout. What the library
  makes of the setters, the seqData of an ASDU, is a parameter that keeps what is set at an offset.
\<close>

section \<open>The data of an ASDU\<close>

fun value_size :: "sv_value \<Rightarrow> nat" where
  "value_size (SetINT32 w) = 4"
| "value_size (SetFLOAT f) = 4"
| "value_size (SetFLOAT64 f) = 8"
| "value_size (SetINT8 b) = 1"
| "value_size (SetQuality q) = 4"
| "value_size (SetTimestamp ms) = 8"

text \<open>The members added to an ASDU, in order, and the values set in it, the newest first.\<close>

definition layout_of :: "nat \<Rightarrow> sv_call list \<Rightarrow> sv_type list" where
  "layout_of a cs = concat (map (\<lambda>c. case c of AddMember b t \<Rightarrow> if b = a then [t] else [] | _ \<Rightarrow> []) (rev cs))"

definition writes_of :: "nat \<Rightarrow> sv_call list \<Rightarrow> (int \<times> sv_value) list" where
  "writes_of a cs = concat (map (\<lambda>c. case c of SetValue b off x \<Rightarrow> if b = a then [(off, x)] else [] | _ \<Rightarrow> []) cs)"

text \<open>The value last set in the \<open>n\<close> octets at an offset, if no other has been set across them since.\<close>

fun last_at :: "int \<Rightarrow> nat \<Rightarrow> (int \<times> sv_value) list \<Rightarrow> sv_value option" where
  "last_at off n [] = None"
| "last_at off n ((at, x) # ws) =
     (if at + int (value_size x) \<le> off \<or> off + int n \<le> at then last_at off n ws
      else if at = off \<and> value_size x = n then Some x else None)"

fun reads_as :: "sv_reader \<Rightarrow> u8 list \<Rightarrow> nat \<Rightarrow> sv_value \<Rightarrow> bool" where
  "reads_as R data off (SetINT32 w) = (rd_int32 R data off = w)"
| "reads_as R data off (SetFLOAT f) = (rd_float32 R data off = f)"
| "reads_as R data off (SetFLOAT64 f) = (rd_float64 R data off = f)"
| "reads_as R data off (SetINT8 b) = (data ! off = b)"
| "reads_as R data off (SetQuality q) = (rd_quality R data off = ucast q)"
| "reads_as R data off (SetTimestamp ms) = (rd_time_ms R data off = ms)"

text \<open>
  \<open>wire\<close> is what the library sends and hands over as seqData for a layout and the values set: as
  many octets as the members have, in which a reader finds the value last set at its offset.
\<close>

definition wire_ok :: "sv_reader \<Rightarrow> (sv_type list \<Rightarrow> (int \<times> sv_value) list \<Rightarrow> u8 list) \<Rightarrow> bool" where
  "wire_ok R wire \<longleftrightarrow> (\<forall>ts ws. length (wire ts ws) = sum_list (map sv_type_size ts) \<and>
     (\<forall>off x. last_at (int off) (value_size x) ws = Some x \<longrightarrow> off + value_size x \<le> sum_list (map sv_type_size ts) \<longrightarrow>
        reads_as R (wire ts ws) off x))"

definition member_offset :: "sv_type list \<Rightarrow> nat \<Rightarrow> nat" where
  "member_offset ts i = sum_list (map sv_type_size (take i ts))"

text \<open>
  What a value becomes on its way: what \<open>MmsValue_toInt32\<close> makes of an integer, 13 quality bits, and
  the time to the millisecond.
\<close>

fun carried :: "value_lib \<Rightarrow> mms_access \<Rightarrow> mms_value \<Rightarrow> mms_value" where
  "carried L acc (MInteger i) = MInteger (scast (mv_to_int32 acc i))"
| "carried L acc (MBitString bits) = MBitString (take 13 bits @ replicate (13 - length bits) False)"
| "carried L acc (MUtcTime raw) = MUtcTime (utc_of_ms L (mv_utc_ms acc raw))"
| "carried L acc v = v"

lemma writes_of_simps [simp]:
  "writes_of a [] = []" "writes_of a (c # cs) = (case c of SetValue b off x \<Rightarrow> if b = a then [(off, x)] else [] | _ \<Rightarrow> []) @ writes_of a cs"
  "writes_of a (cs @ ds) = writes_of a cs @ writes_of a ds"
  by (simp_all add: writes_of_def)

lemma layout_of_simps [simp]:
  "layout_of a [] = []" "layout_of a (c # cs) = layout_of a cs @ (case c of AddMember b t \<Rightarrow> if b = a then [t] else [] | _ \<Rightarrow> [])"
  "layout_of a (cs @ ds) = layout_of a ds @ layout_of a cs"
  by (simp_all add: layout_of_def)

lemma sv_type_size_pos: "0 < sv_type_size t"
  by (cases t) simp_all

lemma member_offset_mono: "j < i \<Longrightarrow> i \<le> length ts \<Longrightarrow> member_offset ts j + sv_type_size (ts ! j) \<le> member_offset ts i"
proof (induction i)
  case (Suc i)
  have "member_offset ts (Suc i) = member_offset ts i + sv_type_size (ts ! i)"
    using Suc.prems(2) by (simp add: member_offset_def take_Suc_conv_app_nth)
  then show ?case using Suc by (cases "j = i") auto
qed simp

lemma member_value_size: "member_value acc t v = Returns x \<Longrightarrow> value_size x = sv_type_size t"
  by (auto simp: member_value_def split: sv_type.splits mms_value.splits)

lemma writes_of_asdus:
  "a < n \<Longrightarrow> writes_of a (rev (map (\<lambda>b. SetValue b (f b) x) [0..<n]) @ cs) = (f a, x) # writes_of a cs"
proof (induction n)
  case (Suc n)
  have "writes_of a (rev (map (\<lambda>b. SetValue b (f b) x) [0..<k]) @ cs) = writes_of a cs" if "k \<le> a" for k
    using that by (induction k) auto
  with Suc show ?case by (cases "a = n") auto
qed simp

text \<open>Setting all members leaves each with its value.\<close>

lemma write_members_last:
  assumes "write_members acc i vs p = Returns p'" "i + length vs = length (sp_members p)" "a < sp_no_asdu p"
    and "\<And>j. j < length (sp_members p) \<Longrightarrow> sp_index p j a = int (member_offset (sp_members p) j)"
  shows "(\<forall>j < i. last_at (int (member_offset (sp_members p) j)) (sv_type_size (sp_members p ! j)) (writes_of a (sp_calls p')) =
        last_at (int (member_offset (sp_members p) j)) (sv_type_size (sp_members p ! j)) (writes_of a (sp_calls p))) \<and>
    (\<forall>k < length vs. \<exists>x. member_value acc (sp_members p ! (i + k)) (vs ! k) = Returns x \<and>
        last_at (int (member_offset (sp_members p) (i + k))) (value_size x) (writes_of a (sp_calls p')) = Some x)"
  using assms
proof (induction vs arbitrary: i p)
  case (Cons v vs)
  let ?ts = "sp_members p"
  obtain x where x: "member_value acc (?ts ! i) v = Returns x"
    "write_members acc (Suc i) vs (write_asdus x i [0..<sp_no_asdu p] p) = Returns p'"
    using Cons.prems(1) by (auto split: if_splits)
  define q where "q = write_asdus x i [0..<sp_no_asdu p] p"
  have q: "sp_members q = ?ts" "sp_index q = sp_index p" "sp_no_asdu q = sp_no_asdu p"
    "writes_of a (sp_calls q) = (int (member_offset ?ts i), x) # writes_of a (sp_calls p)"
    using writes_of_asdus [OF Cons.prems(3)] Cons.prems(2) Cons.prems(4) [of i] by (simp_all add: q_def write_asdus_eq del: writes_of_simps)
  have sz: "value_size x = sv_type_size (?ts ! i)" using x(1) by (rule member_value_size)
  from Cons.IH [OF x(2) [folded q_def]] Cons.prems(2-4)
  have IH: "\<And>j. j < Suc i \<Longrightarrow> last_at (int (member_offset ?ts j)) (sv_type_size (?ts ! j)) (writes_of a (sp_calls p')) =
        last_at (int (member_offset ?ts j)) (sv_type_size (?ts ! j)) (writes_of a (sp_calls q))"
    "\<And>k. k < length vs \<Longrightarrow> \<exists>y. member_value acc (?ts ! (Suc i + k)) (vs ! k) = Returns y \<and>
        last_at (int (member_offset ?ts (Suc i + k))) (value_size y) (writes_of a (sp_calls p')) = Some y"
    by (simp_all add: q(1-3))
  have here: "last_at (int (member_offset ?ts i)) (value_size x) (writes_of a (sp_calls p')) = Some x"
    using IH(1) [of i] sz sv_type_size_pos [of "?ts ! i"] by (simp add: q(4))
  have before: "last_at (int (member_offset ?ts j)) (sv_type_size (?ts ! j)) (writes_of a (sp_calls p')) =
        last_at (int (member_offset ?ts j)) (sv_type_size (?ts ! j)) (writes_of a (sp_calls p))" if "j < i" for j
    using IH(1) [of j] that member_offset_mono [OF that, of ?ts] Cons.prems(2) by (simp add: q(4))
  have all: "\<exists>y. member_value acc (?ts ! (i + k)) ((v # vs) ! k) = Returns y \<and>
        last_at (int (member_offset ?ts (i + k))) (value_size y) (writes_of a (sp_calls p')) = Some y" if "k < length (v # vs)" for k
  proof (cases k)
    case 0
    with x(1) here show ?thesis by simp
  next
    case (Suc l)
    with that IH(2) [of l] show ?thesis by simp
  qed
  show ?case using before all by blast
qed simp

text \<open>The subscriber reads them back.\<close>

lemma read_member_carried:
  assumes "member_value acc t v = Returns x" "reads_as R data off x" "off + sv_type_size t \<le> length data"
  shows "read_member L R data off t = Returns (carried L acc v)"
  using assms sv_quality_roundtrip [THEN conjunct1]
  by (auto simp: member_value_def read_member_def split: sv_type.splits mms_value.splits if_splits)

lemma decode_loop_members:
  "length vs = length ts \<Longrightarrow>
   (\<And>i. i < length ts \<Longrightarrow> read_member L R data (off + member_offset ts i) (ts ! i) = Returns (vs ! i)) \<Longrightarrow>
   decode_loop L R data off ts = Returns (map (\<lambda>v. goose_value_to_json L (Some v)) vs)"
proof (induction ts arbitrary: off vs)
  case (Cons t ts)
  obtain w ws where w: "vs = w # ws" "length ws = length ts" using Cons.prems(1) by (cases vs) auto
  have "read_member L R data (off + sv_type_size t + member_offset ts i) (ts ! i) = Returns (ws ! i)" if "i < length ts" for i
    using Cons.prems(2) [of "Suc i"] that by (simp add: w member_offset_def add.assoc)
  with Cons.IH [OF w(2)] Cons.prems(2) [of 0] show ?case by (simp add: w member_offset_def)
qed simp

section \<open>The layout stays as it was set up\<close>

definition laid :: "sv_publisher \<Rightarrow> sv_publisher \<Rightarrow> bool" where
  "laid p q \<longleftrightarrow> sp_members q = sp_members p \<and> sp_index q = sp_index p \<and> sp_no_asdu q = sp_no_asdu p \<and>
     (\<forall>a. layout_of a (sp_calls q) = layout_of a (sp_calls p))"

lemma laid_refl: "laid p p"
  by (simp add: laid_def)

lemma laid_call: "laid p q \<Longrightarrow> (\<And>b t. c \<noteq> AddMember b t) \<Longrightarrow> laid p (call c q)"
  by (cases c) (auto simp: laid_def)

lemma laid_calls:
  assumes "laid p q" "\<forall>c \<in> set cs. \<forall>b t. c \<noteq> AddMember b t" "q' = q\<lparr>sp_calls := cs @ sp_calls q\<rparr>"
  shows "laid p q'"
proof -
  have "layout_of a cs = []" for a using assms(2) by (induction cs) (auto split: sv_call.split)
  with assms(1,3) show ?thesis by (simp add: laid_def)
qed

lemma laid_numbers:
  "number_asdus now as lst q = (lst', q') \<Longrightarrow> laid p q \<Longrightarrow> laid p q'"
proof (induction as arbitrary: lst q)
  case (Cons a as)
  let ?r = "(if sp_generic q then call (SetRefrTmNs a now) (call (SetSmpCnt a (ucast (sp_smp_cnt q))) q)
      else call (SetSmpCnt a (ucast (sp_smp_cnt q))) q)"
  have "laid p (?r\<lparr>sp_smp_cnt := (sp_smp_cnt ?r + 1) mod sp_wrap ?r\<rparr>)" using Cons.prems(2) by (auto simp: laid_def)
  with Cons.IH Cons.prems(1) show ?case by (auto simp: Let_def split: if_splits)
qed simp

lemma laid_frame:
  assumes "laid p q" "send_frame E q = Returns q'"
  shows "laid p q'"
proof (rule sv_pub_send_frame_Returns [OF assms(2)])
  fix now s lst r
  assume s: "stamped E q = (now, s)" "number_asdus now [0..<sp_no_asdu s] 0 s = (lst, r)"
    and q': "q' = r\<lparr>sp_calls := (case report_reason q of
         None \<Rightarrow> PublishFrame # sp_calls r
       | Some reason \<Rightarrow> Emit (published_event reason (sp_frames q + 1)
           (sp_samples q + of_nat (sp_no_asdu q)) lst) # PublishFrame # sp_calls r),
       sp_frames := sp_frames q + 1, sp_samples := sp_samples q + of_nat (sp_no_asdu q), sp_after_set := False\<rparr>"
  have "laid p s" using assms(1) s(1) by (auto simp: stamped_def laid_def split: if_splits)
  then have "laid p r" by (rule laid_numbers [OF s(2)])
  then show ?thesis unfolding q' by (auto simp: laid_def split: option.split)
qed

lemma laid_line:
  assumes "laid p q" "handle_line L acc q line = Returns (q', keep)"
  shows "laid p q'"
proof -
  have "laid p r" if "write_members acc 0 vs q = Returns r" for vs r
  proof -
    from write_members_Returns [OF that] obtain cs where cs: "r = q\<lparr>sp_calls := cs @ sp_calls q\<rparr>"
      "\<forall>c \<in> set cs. \<forall>b t. c \<noteq> AddMember b t" by auto
    show ?thesis by (rule laid_calls [OF assms(1) cs(2,1)])
  qed
  moreover have "laid p (r\<lparr>sp_after_set := True\<rparr>) = laid p r" for r by (simp add: laid_def)
  ultimately show ?thesis
    using assms by (auto simp: handle_line_def write_values_def intro: laid_call
      split: option.splits if_splits sum.splits value_error.splits)
qed

interpretation sv_layout: line_client "handle_line L acc" line_too_long "laid p"
  by unfold_locales (auto simp: line_too_long_def intro: laid_call laid_line)

lemma laid_due:
  assumes "laid p (sm_pub m)" "due_frame E period_ns m = Returns (q, nxt)"
  shows "laid p q"
proof -
  have "laid p (call MonoTime (sm_pub m))" using assms(1) by (rule laid_call) simp
  with assms(2) show ?thesis
    by (cases "send_frame E (call MonoTime (sm_pub m))")
      (auto simp: due_frame_def Let_def split: if_splits intro: laid_call dest: laid_frame)
qed

lemma laid_polled: "laid p q \<Longrightarrow> polled E b q nxt = (w, r) \<Longrightarrow> laid p r"
  by (auto simp: polled_def Let_def laid_def split: if_splits)

lemma laid_step:
  assumes "laid p (sm_pub m)" "main_step L acc E period_ns m = Returns m'"
  shows "laid p (sm_pub m')"
proof -
  obtain q nxt where f: "due_frame E period_ns m = Returns (q, nxt)"
    using assms(2) by (cases "due_frame E period_ns m") (auto simp: main_step_eq)
  obtain w r where r: "polled E (sm_stdin_open m) q nxt = (w, r)" by force
  have l: "laid p r" by (rule laid_polled [OF laid_due [OF assms(1) f] r])
  have "laid p (call (Log t) r)" for t using l by (rule laid_call) simp
  with assms(2) f r l show ?thesis
    by (auto simp: main_step_eq Let_def split: if_splits wake.splits dest: sv_layout.receive_inv(1) [OF l])
qed

lemma laid_reaches: "reaches L acc E period_ns m m' \<Longrightarrow> laid p (sm_pub m) \<Longrightarrow> laid p (sm_pub m')"
  by (induction rule: reaches.induct) (auto intro: laid_step)

lemma concat_one: "a < n \<Longrightarrow> concat (map (\<lambda>b. if b = a then l else []) [0..<n]) = l"
proof (induction n)
  case (Suc n)
  have "concat (map (\<lambda>b. if b = a then l else []) [0..<k]) = []" if "k \<le> a" for k using that by simp
  with Suc show ?case by (cases "a = n") auto
qed simp

lemma layout_asdus:
  "layout_of a (rev (concat (map (add_asdu opts i m g ts) as))) = concat (map (\<lambda>b. if b = a then ts else []) as)"
proof -
  have "concat (map (\<lambda>c. case c of AddMember b' t \<Rightarrow> if b' = a then [t] else [] | _ \<Rightarrow> []) (add_asdu opts i m g ts b)) =
      (if b = a then ts else [])" for b
    by (induction ts) (auto simp: add_asdu_def)
  then show ?thesis by (induction as) (simp_all add: layout_of_def)
qed

lemma sv_setup_laid:
  assumes "sv_setup L acc slow_period version created src index opts = Returns (Inr (p, period_ns))" "a < sp_no_asdu p"
  shows "layout_of a (sp_calls p) = sp_members p" "sp_index p = index"
    "so_profile opts = ''generic'' \<or> layout_92LE (sp_members p)"
proof -
  let ?g = "layout_of a (sp_calls p) = sp_members p \<and> sp_index p = index \<and>
    (so_profile opts = ''generic'' \<or> layout_92LE (sp_members p))"
  have ?g
  proof (rule sv_setup_cases [OF assms(1)])
    fix sv_id smp_mod vs layout params q
    let ?p0 = "\<lparr>sp_no_asdu = nat (so_no_asdu opts), sp_members = layout,
        sp_index = index, sp_generic = (so_profile opts = ''generic''),
        sp_wrap = smp_wrap smp_mod (so_smp_rate opts) (so_frequency opts),
        sp_smp_cnt = 0, sp_frames = 0, sp_samples = 0,
        sp_report_every = word_of_int (so_report_every opts), sp_after_set = False,
        sp_calls = rev (CreatePublisher params (so_iface opts) #
          concat (map (add_asdu opts sv_id smp_mod (so_profile opts = ''generic'') layout) [0..<nat (so_no_asdu opts)]) @
          [SetupComplete] @
          map (\<lambda>a. SetSmpSynch a (word_of_int (so_smp_synch opts))) [0..<nat (so_no_asdu opts)])\<rparr>"
    assume q: "write_values acc ?p0 vs = Returns q"
      and p: "p = call (Emit (sv_ready version ''publisher'' (so_iface opts) src (Some sv_id)))
        (if so_simulation opts then call SetSimulationBit q else q)"
      and le: "so_profile opts = ''generic'' \<or> layout_92LE layout"
    from write_members_Returns [OF q [unfolded write_values_def]] obtain cs where
      cs: "q = ?p0\<lparr>sp_calls := cs @ sp_calls ?p0\<rparr>" "\<forall>c \<in> set cs. \<forall>b t. c \<noteq> AddMember b t" by auto
    have "laid ?p0 q" by (rule laid_calls [OF laid_refl cs(2,1)])
    then have l: "laid ?p0 p" unfolding p by (auto intro: laid_call)
    then have "a < nat (so_no_asdu opts)" using assms(2) by (simp add: laid_def)
    then have "layout_of a (sp_calls ?p0) = layout"
      using layout_asdus [of a opts sv_id smp_mod "so_profile opts = ''generic''" layout] concat_one [of a _ layout]
      by (simp add: layout_of_def [of a "rev _"] comp_def)
    with l le show ?g by (simp add: laid_def)
  qed
  then show "layout_of a (sp_calls p) = sp_members p" "sp_index p = index"
    "so_profile opts = ''generic'' \<or> layout_92LE (sp_members p)" by simp_all
qed

section \<open>From a set command to the subscriber's event\<close>

text \<open>A turn that reads one accepted set command.\<close>

lemma main_step_set:
  assumes "sm_stdin_open m" "sm_line m = []" "due_frame E period_ns m = Returns (q, nxt)"
    and "polled E True q nxt = (Input (line @ [newline]), r)"
    and "newline \<notin> set line" "is_c_string line" "line \<noteq> []" "length line < line_max"
    and "json_tokener_parse L line = Some cmd" "command_name L cmd = Some ''set''"
    and "goose_values_from_json L (json_get_ex cmd ''values'') = Inr vs" "check_values r vs = None"
    and "main_step L acc E period_ns m = Returns m'"
  shows "\<exists>s. write_members acc 0 vs r = Returns s \<and> sm_pub m' = s\<lparr>sp_after_set := True\<rparr>"
proof -
  have c: "c_str (line @ [newline]) = line @ [newline]"
    using assms(6) by (intro c_str_ident) (auto simp: is_c_string_def nul_def newline_def)
  have "take (line_max - length (sm_line m)) (line @ [newline]) = line @ [newline]" using assms(2,8) by simp
  then have rd: "receive (handle_line L acc) line_too_long (sm_line m) r True
      (take (line_max - length (sm_line m)) (line @ [newline])) =
    bind_outcome (handle_line L acc r line) (\<lambda>(p, keep). Returns (p, keep, []))"
    using assms(2,5,7) read_lines_line [OF assms(5), of "handle_line L acc" "[]" r True]
    by (cases "handle_line L acc r line") (auto simp: receive_def c line_max_def)
  show ?thesis
    using assms(13) rd by (cases "write_members acc 0 vs r")
      (auto simp: main_step_eq assms(1,3,4,9-12) handle_line_def write_values_def)
qed

lemma values_back:
  "value_lib_ok L \<Longrightarrow> list_all (\<lambda>v. value_ok L (Some v) \<and> h v = v) vs \<Longrightarrow>
   goose_values_from_json L (Some (JArray (map (\<lambda>v. goose_value_to_json L (Some (h v))) vs))) = Inr vs"
  by (induction vs) (simp_all add: goose_values_from_json_def goose_value_from_to_json split: sum.splits)

text \<open>The stream of an ASDU, once the listener has looked it up in its table, and the fixture in it.\<close>

definition stream_fixture :: "sv_config \<Rightarrow> sv_subscriber \<Rightarrow> string \<Rightarrow> fixture_stream option" where
  "stream_fixture cf g sv_id =
     (let (found, ss) = stream_for (cf_fixtures cf) (ss_app_id g, sv_id) (ss_streams g)
      in Option.bind found (\<lambda>i. sr_fixture (ss ! i)))"

lemma listener_prints:
  assumes "every_ok cf" "lets_pass cf sv_id" "as_sv_id y = Some sv_id" "stream_fixture cf g sv_id = Some f"
    and "ucast (as_smp_cnt y) mod (word_of_int (cf_every cf) :: u32) = 0"
    and "decode_values L R (as_data y) f = Returns (Some printed)"
  shows "\<exists>g' ev. listener L R cf y g = Returns g' \<and> ss_out g' = ev # ss_out g \<and>
    json_get_ex ev ''values'' = Some printed"
proof -
  obtain found ss where s: "stream_for (cf_fixtures cf) (ss_app_id g, sv_id) (ss_streams g) = (found, ss)" by force
  with assms(4) obtain i where i: "found = Some i" "sr_fixture (ss ! i) = Some f"
    by (auto simp: stream_fixture_def bind_eq_Some_conv)
  have v: "json_get_ex (sv_event h a sv x (Some printed)) ''values'' = Some printed" for h a sv x
    by (simp add: sv_event_def json_get_ex_def opt_json_def)
  have pass: "\<not> (case cf_sv_id cf of None \<Rightarrow> False | Some f \<Rightarrow> sv_id \<noteq> f)"
    using assms(2) by (auto simp: lets_pass_def split: option.splits)
  show ?thesis
    using assms(1,3,5,6) s i pass v
    by (auto simp: listener_def every_ok_def Let_def split: prod.split)
qed

text \<open>C8: What is set on a 9-2LE stream is what a subscriber prints. Let the SV publisher's main loop,
  in any state it reaches with nothing pending on stdin, read a line that is a set command it accepts:
  sixteen values, integers and bit strings in turn. As long as no later command sets values, an ASDU it
  sends then carries data from which the listener of a subscriber whose fixture has the publisher's
  members prints, as the \<open>values\<close> of the event, these values in order: an integer as
  \<open>MmsValue_toInt32\<close> gives it, a bit string as 13 quality bits. Values that are so already come back
  unchanged: the printed JSON is read by a set command as the same values. The subscriber is one that
  reports this ASDU: its \<open>--sv-id\<close> and \<open>--every\<close> let it pass and its table has room. What libiec61850
  makes of the setters is assumed: the octets of an ASDU hold at each member's offset the value last
  set there. (The generic profile is left out: the subscriber's library drops its ASDUs.)\<close>

theorem sv_link_values:
  assumes "sv_setup L acc slow_period version created src index opts = Returns (Inr (p, period_ns))"
    and "so_profile opts = ''9-2LE''"
    and "reaches L acc E period_ns (main_start E p) m" "sm_stdin_open m" "sm_line m = []"
    and "due_frame E period_ns m = Returns (q, nxt)" "polled E True q nxt = (Input (line @ [newline]), r)"
    and "newline \<notin> set line" "is_c_string line" "line \<noteq> []" "length line < line_max"
    and "json_tokener_parse L line = Some cmd" "command_name L cmd = Some ''set''"
    and "goose_values_from_json L (json_get_ex cmd ''values'') = Inr vs" "check_values r vs = None"
    and "main_step L acc E period_ns m = Returns m'" "reaches L acc E period_ns m' n"
    and "sp_calls (sm_pub n) = cs @ sp_calls (sm_pub m')" "writes_of a cs = []" "a < sp_no_asdu p"
    and "wire_ok R wire" "\<And>i b. i < length (sp_members p) \<Longrightarrow> index i b = int (member_offset (sp_members p) i)" "fx_types f = sp_members p"
    and "printed = JArray (map (\<lambda>v. goose_value_to_json Ls (Some (carried Ls acc v))) vs)"
    and "every_ok cf" "lets_pass cf sv_id" "as_sv_id y = Some sv_id" "stream_fixture cf g sv_id = Some f"
    and "ucast (as_smp_cnt y) mod (word_of_int (cf_every cf) :: u32) = 0"
    and "as_data y = wire (layout_of a (sp_calls (sm_pub n))) (writes_of a (sp_calls (sm_pub n)))"
  shows "length vs = 16 \<and>
    (\<exists>g' ev. listener Ls R cf y g = Returns g' \<and> ss_out g' = ev # ss_out g \<and>
      json_get_ex ev ''values'' = Some printed) \<and>
    (value_lib_ok Ls \<and> list_all (\<lambda>v. value_ok Ls (Some v) \<and> carried Ls acc v = v) vs \<longrightarrow>
      goose_values_from_json Ls (Some printed) = Inr vs)"
proof -
  let ?ts = "sp_members p" and ?ws = "writes_of a (sp_calls (sm_pub n))"
  note set_up = sv_setup_laid [OF assms(1,20)]
  have start: "laid p (sm_pub (main_start E p))" by (simp add: main_start_def laid_call laid_refl)
  have lm: "laid p (sm_pub m)" by (rule laid_reaches [OF assms(3) start])
  have lr: "laid p r" by (rule laid_polled [OF laid_due [OF lm assms(6)] assms(7)])
  have ln: "laid p (sm_pub n)" by (rule laid_reaches [OF assms(17) laid_step [OF lm assms(16)]])
  obtain s where s: "write_members acc 0 vs r = Returns s" "sm_pub m' = s\<lparr>sp_after_set := True\<rparr>"
    using main_step_set [OF assms(4-16)] by blast
  have len: "length vs = length ?ts" using assms(15) lr by (auto simp: check_values_def laid_def split: if_splits)
  have ws: "?ws = writes_of a (sp_calls s)" using assms(18,19) s(2) by simp
  have layout: "layout_of a (sp_calls (sm_pub n)) = ?ts" using ln set_up(1) by (simp add: laid_def)
  have written: "\<exists>x. member_value acc (?ts ! k) (vs ! k) = Returns x \<and>
      last_at (int (member_offset ?ts k)) (value_size x) ?ws = Some x" if "k < length vs" for k
    using write_members_last [OF s(1), of a] lr len assms(20,22) set_up(2) that ws by (simp add: laid_def)
  have total: "length (wire ?ts ?ws) = sum_list (map sv_type_size ?ts)" using assms(21) by (simp add: wire_ok_def)
  have member: "read_member Ls R (wire ?ts ?ws) (member_offset ?ts k) (?ts ! k) = Returns (carried Ls acc (vs ! k))"
    if k: "k < length ?ts" for k
  proof -
    obtain x where x: "member_value acc (?ts ! k) (vs ! k) = Returns x"
      "last_at (int (member_offset ?ts k)) (value_size x) ?ws = Some x" using written k len by auto
    have fits: "member_offset ?ts k + sv_type_size (?ts ! k) \<le> sum_list (map sv_type_size ?ts)"
      using member_offset_mono [of k "length ?ts" ?ts] k
      by (cases "Suc k = length ?ts") (auto simp: member_offset_def)
    have "reads_as R (wire ?ts ?ws) (member_offset ?ts k) x"
      using assms(21) x(2) fits member_value_size [OF x(1)] by (simp add: wire_ok_def)
    then show ?thesis by (rule read_member_carried [OF x(1)]) (simp add: total fits)
  qed
  have "decode_loop Ls R (wire ?ts ?ws) 0 ?ts =
      Returns (map (\<lambda>v. goose_value_to_json Ls (Some v)) (map (carried Ls acc) vs))"
    by (rule decode_loop_members) (use member len in simp_all)
  then have "decode_values Ls R (wire ?ts ?ws) f = Returns (Some printed)"
    by (simp add: decode_values_def assms(23,24) total comp_def)
  then have "decode_values Ls R (as_data y) f = Returns (Some printed)" by (simp add: layout assms(30))
  with listener_prints [OF assms(25-29)] have
    "\<exists>g' ev. listener Ls R cf y g = Returns g' \<and> ss_out g' = ev # ss_out g \<and> json_get_ex ev ''values'' = Some printed" .
  moreover have "length vs = 16" using set_up(3) len assms(2) by (simp add: layout_92LE_def)
  ultimately show ?thesis using values_back [of Ls "carried Ls acc" vs] by (simp add: assms(24))
qed


section \<open>A pair\<close>

text \<open>Octets in network order, each setter over what was there.\<close>

fun sample_octets :: "sv_value \<Rightarrow> u8 list" where
  "sample_octets (SetINT32 w) = be_octets 4 (unat w)"
| "sample_octets (SetFLOAT f) = be_octets 4 (unat f)"
| "sample_octets (SetFLOAT64 f) = be_octets 8 (unat f)"
| "sample_octets (SetINT8 b) = [b]"
| "sample_octets (SetQuality q) = be_octets 4 (unat q)"
| "sample_octets (SetTimestamp ms) = be_octets 8 (unat ms)"

fun sample_wire :: "sv_type list \<Rightarrow> (int \<times> sv_value) list \<Rightarrow> u8 list" where
  "sample_wire ts [] = replicate (sum_list (map sv_type_size ts)) 0"
| "sample_wire ts ((at, x) # ws) =
     (let d = sample_wire ts ws
      in if 0 \<le> at \<and> nat at + value_size x \<le> length d
         then take (nat at) d @ sample_octets x @ drop (nat at + value_size x) d else d)"

definition wire_reader :: sv_reader where
  "wire_reader = sample_reader\<lparr>rd_time_ms := (\<lambda>d off. of_nat (be_nat (take 8 (drop off d))))\<rparr>"

lemma length_sample_octets [simp]: "length (sample_octets x) = value_size x"
  by (cases x) simp_all

lemma length_sample_wire [simp]: "length (sample_wire ts ws) = sum_list (map sv_type_size ts)"
  by (induction ts ws rule: sample_wire.induct) (auto simp: Let_def)

lemma sample_wire_last:
  assumes "off + n \<le> sum_list (map sv_type_size ts)"
  shows "last_at (int off) n ws = Some x \<Longrightarrow> take n (drop off (sample_wire ts ws)) = sample_octets x"
proof (induction ws)
  case (Cons w ws)
  obtain at y where w: "w = (at, y)" by force
  let ?d = "sample_wire ts ws"
  show ?case
  proof (cases "at + int (value_size y) \<le> int off \<or> int off + int n \<le> at")
    case True
    then have IH: "take n (drop off ?d) = sample_octets x" using Cons by (simp add: w)
    show ?thesis
    proof (cases "0 \<le> at \<and> nat at + value_size y \<le> length ?d")
      case True
      then obtain k where k: "at = int k" by (metis nonneg_int_cases)
      with True \<open>at + int (value_size y) \<le> int off \<or> int off + int n \<le> at\<close> IH show ?thesis
        by (auto simp: w k Let_def drop_append take_append drop_take min_def)
    next
      case False
      with IH show ?thesis by (auto simp: w Let_def)
    qed
  next
    case False
    with Cons.prems have "at = int off" "value_size y = n" "y = x" by (auto simp: w split: if_splits)
    with assms show ?thesis by (simp add: w Let_def)
  qed
qed simp

lemma octets_back:
  "be_nat (be_octets 4 (unat (w :: u32))) = unat w" "be_nat (be_octets 8 (unat (d :: u64))) = unat d"
  "be_nat (be_octets 4 (unat (q :: u16))) = unat q"
proof -
  have "unat w < 2 ^ LENGTH(32)" "unat d < 2 ^ LENGTH(64)" "unat q < 2 ^ LENGTH(16)" by (rule unsigned_less)+
  then show "be_nat (be_octets 4 (unat w)) = unat w" "be_nat (be_octets 8 (unat d)) = unat d"
    "be_nat (be_octets 4 (unat q)) = unat q" by (simp_all add: be_nat_be_octets)
qed

lemma sample_wire_ok: "wire_ok wire_reader sample_wire"
  unfolding wire_ok_def
proof (intro allI conjI impI)
  fix ts ws off x
  assume "last_at (int off) (value_size x) ws = Some x" "off + value_size x \<le> sum_list (map sv_type_size ts)"
  then have oct: "take (value_size x) (drop off (sample_wire ts ws)) = sample_octets x"
    and len: "off + value_size x \<le> length (sample_wire ts ws)" using sample_wire_last by simp_all
  show "reads_as wire_reader (sample_wire ts ws) off x"
  proof (cases x)
    case (SetINT8 b)
    then have "hd (drop off (sample_wire ts ws)) = b" using oct len by (cases "drop off (sample_wire ts ws)") auto
    then show ?thesis using SetINT8 len by (simp add: hd_drop_conv_nth)
  next
    case (SetINT32 w)
    then show ?thesis using oct by (simp add: wire_reader_def sample_reader_def octets_back)
  next
    case (SetFLOAT w)
    then show ?thesis using oct by (simp add: wire_reader_def sample_reader_def octets_back)
  next
    case (SetFLOAT64 w)
    then show ?thesis using oct by (simp add: wire_reader_def sample_reader_def octets_back)
  next
    case (SetQuality w)
    then show ?thesis using oct by (simp add: wire_reader_def sample_reader_def octets_back)
  next
    case (SetTimestamp w)
    then show ?thesis using oct by (simp add: wire_reader_def octets_back)
  qed
qed simp

text \<open>A 9-2LE publisher whose values are set once.\<close>

definition le_members :: "sv_type list" where
  "le_members = concat (replicate 8 [SV_INT32, SV_QUALITY])"

definition le_json :: "int \<Rightarrow> json" where
  "le_json n = JArray (concat (replicate 8
     [typed ''integer'' (JInt n), typed ''bit-string'' (JString ''0000000000000'')]))"

definition le_values :: "u64 \<Rightarrow> mms_value list" where
  "le_values n = concat (replicate 8 [MInteger n, MBitString (replicate 13 False)])"

definition le_lib :: value_lib where
  "le_lib = sample_lib\<lparr>json_parse := (\<lambda>s. Some (if s = ''set''
     then JObject [(''cmd'', JString ''set''), (''values'', le_json 7)] else le_json 0))\<rparr>"

definition le_opts :: sv_opts where
  "le_opts = sv_defaults\<lparr>so_sv_id := Some ''MU01'', so_values := Some ''[]''\<rparr>"

definition le_index :: "nat \<Rightarrow> nat \<Rightarrow> int" where
  "le_index i b = int (member_offset le_members i)"

definition le_env :: sv_env where
  "le_env = sample_sv_env\<lparr>sv_wake := (\<lambda>cs. Input (''set'' @ [newline]))\<rparr>"

lemma le_read_pair:
  "goose_value_from_json le_lib (typed ''integer'' (JInt n)) = Inr (MInteger (word_of_int (json_int64 n)))"
  "goose_value_from_json le_lib (typed ''bit-string'' (JString ''0000000000000'')) = Inr (MBitString (replicate 13 False))"
  by (simp_all add: goose_value_from_json.simps json_get_string_def nul_def bits_of_text_def numeral_eq_Suc)

lemma le_read: "goose_values_from_json le_lib (Some (le_json n)) = Inr (le_values (word_of_int (json_int64 n)))"
  by (simp add: goose_values_from_json_def le_json_def le_values_def le_read_pair numeral_eq_Suc)

lemma le_parse: "json_tokener_parse le_lib ''[]'' = Some (le_json 0)"
  "json_tokener_parse le_lib ''set'' = Some (JObject [(''cmd'', JString ''set''), (''values'', le_json 7)])"
  by (simp_all add: json_tokener_parse_def le_lib_def le_json_def)

lemma le_layout: "check_layout (le_values n) = Inr le_members" "layout_92LE le_members"
  "compare_layout le_members (le_values n) = None" "length le_members = 16" "length (le_values n) = 16"
proof -
  show "layout_92LE le_members" by code_simp
qed (simp_all add: check_layout_def le_values_def le_members_def SvPublisher.MAX_MEMBERS_def numeral_eq_Suc)

lemma le_check: "sp_members p = le_members \<Longrightarrow> check_values p (le_values n) = None"
  by (simp add: check_values_def le_layout SvPublisher.MAX_MEMBERS_def)

lemma le_written:
  assumes "sp_members p = le_members"
  shows "\<exists>q. write_values acc p (le_values n) = Returns q \<and> sp_members q = le_members \<and> sp_no_asdu q = sp_no_asdu p"
proof -
  obtain q where q: "write_values acc p (le_values n) = Returns q"
    using write_values_total [OF le_check [OF assms], of acc n] by (cases "write_values acc p (le_values n)") auto
  from write_members_Returns [OF q [unfolded write_values_def]] assms q show ?thesis by auto
qed

lemma le_setup:
  "\<exists>p. sv_setup le_lib sample_access (\<lambda>n r. 0) ''dev'' True [2, 0, 0, 0, 0, 1] le_index le_opts =
     Returns (Inr (p, 250000)) \<and> sp_members p = le_members \<and> sp_no_asdu p = 1"
proof -
  have "''0x'' @ hex_pad 4 (unat (0x4000 :: u16)) = ''0x4000''"
    by (simp add: hex_pad_def pad0_def to_digits.simps [of 16 16384] to_digits.simps [of 16 1024]
      to_digits.simps [of 16 64] to_digits.simps [of 16 4] hex_digit_chars)
  then have a: "goose_parse_appid ''0x4000'' = Some 0x4000" using goose_parse_appid_hex [of "0x4000"] by simp
  have "goose_format_mac [1, 12, 205, 4, 0, 0] = ''01:0c:cd:04:00:00''"
    by (simp add: goose_format_mac_def hex_pad_2 hex_digit_chars)
  then have m: "goose_parse_mac ''01:0c:cd:04:00:00'' = Some [1, 12, 205, 4, 0, 0]"
    using goose_parse_format_mac [of "[1, 12, 205, 4, 0, 0]"] by simp
  have s: "sv_smp_mod_from_name ''samples-per-period'' = Some 0"
    by (simp add: sv_smp_mod_from_name_def upt_3 k_smp_mods_def)
  have v: "goose_values_from_json le_lib (Some (le_json 0)) = Inr (le_values 0)"
    by (simp add: le_read json_int64_def)
  have w: "\<exists>p. (\<exists>x. write_values sample_access p0 (le_values 0) = Returns x \<and> call c x = p) \<and>
      sp_members p = le_members \<and> sp_no_asdu p = Suc 0"
    if "sp_members p0 = le_members" "sp_no_asdu p0 = Suc 0" for p0 c
    using le_written [OF that(1), of sample_access 0] that(2) by auto
  show ?thesis
    unfolding sv_setup_def le_opts_def sv_defaults_def
    by (simp add: a m s le_parse v le_layout MAX_ASDU_def smp_period_def Let_def del: bind_outcome.simps)
      (rule w; simp)
qed

theorem sv_link_values_witness:
  "\<exists>p m' g' ev. main_step le_lib sample_access le_env 250000 (main_start le_env p) = Returns m' \<and>
     listener sample_lib wire_reader
       \<lparr>cf_fixtures = [\<lparr>fx_sv_id = ''MU01'', fx_types = le_members, fx_wrap = 4000\<rparr>],
        cf_sv_id = None, cf_every = 1, cf_app_id = None, cf_dst = None\<rparr>
       ((sample_asdu ''MU01'' 0)\<lparr>as_data :=
          sample_wire (layout_of 0 (sp_calls (sm_pub m'))) (writes_of 0 (sp_calls (sm_pub m')))\<rparr>)
       (subscriber_start ''dev'' ''eth0'' [] None) = Returns g' \<and>
     hd (ss_out g') = ev \<and>
     json_get_ex ev ''values'' = Some (JArray (map (\<lambda>v. goose_value_to_json sample_lib (Some v)) (le_values 7)))"
proof -
  obtain p where p: "sv_setup le_lib sample_access (\<lambda>n r. 0) ''dev'' True [2, 0, 0, 0, 0, 1] le_index
      le_opts = Returns (Inr (p, 250000))" "sp_members p = le_members" "sp_no_asdu p = 1" using le_setup by blast
  let ?m = "main_start le_env p"
  have range: "opts_in_range le_opts" by (simp add: opts_in_range_def le_opts_def sv_defaults_def)
  have inv: "sv_inv (sm_pub ?m)" using sv_setup_inv [OF p(1) range] by simp
  have ok: "line_ok le_lib line" for line
    by (auto simp: line_ok_def le_lib_def le_json_def json_tokener_parse_def command_name_def json_get_ex_def
      has_null_type_def typed_def json_get_string_def split: if_splits)
  obtain m' where m': "main_step le_lib sample_access le_env 250000 ?m = Returns m'"
    using sv_pub_main_step_inv(2) [OF inv, of le_lib le_env 250000 sample_access]
    by (cases "main_step le_lib sample_access le_env 250000 ?m") (auto simp: list_all_iff ok)
  obtain q nxt where q: "due_frame le_env 250000 ?m = Returns (q, nxt)" using due_frame_inv [OF inv] by blast
  obtain w r where wr: "polled le_env True q nxt = (w, r)" by force
  then have r: "polled le_env True q nxt = (Input (''set'' @ [newline]), r)"
    by (auto simp: polled_def le_env_def Let_def split: if_splits)
  have "laid p (sm_pub ?m)" by (simp add: main_start_def laid_call laid_refl)
  then have "laid p r" by (intro laid_polled [OF laid_due [OF _ q] r])
  then have k: "check_values r (le_values 7) = None" using p(2) by (simp add: laid_def le_check)
  let ?cmd = "JObject [(''cmd'', JString ''set''), (''values'', le_json 7)]"
  have c: "command_name le_lib ?cmd = Some ''set''"
    by (simp add: command_name_def json_get_ex_def json_get_string_def nul_def)
  have v: "goose_values_from_json le_lib (json_get_ex ?cmd ''values'') = Inr (le_values 7)"
    by (simp add: json_get_ex_def le_read json_int64_def)
  have st: "sm_stdin_open ?m" "sm_line ?m = []" by (simp_all add: main_start_def)
  have l: "newline \<notin> set ''set''" "is_c_string ''set''" "''set'' \<noteq> []" "length ''set'' < line_max"
    by (simp_all add: newline_def is_c_string_def nul_def line_max_def)
  have le: "so_profile le_opts = ''9-2LE''" by (simp add: le_opts_def sv_defaults_def)
  have asdu: "(0 :: nat) < sp_no_asdu p" by (simp add: p(3))
  have index: "le_index i b = int (member_offset (sp_members p) i)" for i b by (simp add: le_index_def p(2))
  let ?f = "\<lparr>fx_sv_id = ''MU01'', fx_types = le_members, fx_wrap = 4000\<rparr>"
  let ?cf = "\<lparr>cf_fixtures = [?f], cf_sv_id = None, cf_every = 1, cf_app_id = None, cf_dst = None\<rparr>"
  let ?g = "subscriber_start ''dev'' ''eth0'' [] None"
  let ?y = "(sample_asdu ''MU01'' 0)\<lparr>as_data :=
          sample_wire (layout_of 0 (sp_calls (sm_pub m'))) (writes_of 0 (sp_calls (sm_pub m')))\<rparr>"
  have sub: "every_ok ?cf" "lets_pass ?cf ''MU01''" "as_sv_id ?y = Some ''MU01''" "stream_fixture ?cf ?g ''MU01'' = Some ?f"
    "ucast (as_smp_cnt ?y) mod (word_of_int (cf_every ?cf) :: u32) = 0"
    by (simp_all add: every_ok_def lets_pass_def sample_asdu_def stream_fixture_def stream_for_def subscriber_start_def
        fixture_for_def MAX_STREAMS_def)
  have seven: "carried sample_lib sample_access (MInteger 7) = MInteger 7"
    "carried sample_lib sample_access (MBitString (replicate 13 False)) = MBitString (replicate 13 False)"
    by (simp_all add: sample_access_def)
  then have "map (carried sample_lib sample_access) (concat (replicate n [MInteger 7, MBitString (replicate 13 False)])) =
      concat (replicate n [MInteger 7, MBitString (replicate 13 False)])" for n by (induction n) simp_all
  then have carried: "map (carried sample_lib sample_access) (le_values 7) = le_values 7" by (simp add: le_values_def)
  have same: "map (\<lambda>v. goose_value_to_json sample_lib (Some (carried sample_lib sample_access v))) (le_values 7) =
      map (\<lambda>v. goose_value_to_json sample_lib (Some v)) (le_values 7)"
    using arg_cong [OF carried, of "map (\<lambda>v. goose_value_to_json sample_lib (Some v))"] by (simp add: comp_def)
  from sv_link_values [OF p(1) le reaches.start st q r l le_parse(2) c v k m' reaches.start _ _ asdu sample_wire_ok index
      _ refl sub, where cs = "[]" and Ls = sample_lib]
  obtain g' ev where "listener sample_lib wire_reader ?cf ?y ?g = Returns g'" "ss_out g' = ev # ss_out ?g"
    "json_get_ex ev ''values'' = Some (JArray (map (\<lambda>v. goose_value_to_json sample_lib (Some v)) (le_values 7)))"
    by (auto simp: p(2) same)
  with m' show ?thesis by (intro exI [of _ p] exI [of _ m'] exI [of _ g'] exI [of _ ev]) simp
qed

end
