(* ===== verification/Spec2Isabelle.thy ===== *)
theory Spec2Isabelle
  imports FixtureFree GooseSupervision IedClient IedController IedReporter IedServer MmsLink SvRun SvValues
begin

text \<open>
  The libIEC61850 adapters of the interoperability suite, \<open>src/adapters/libiec61850/src\<close>: C programs
  that play one role of IEC 61850 each (GOOSE, Sampled Values, MMS), take orders on the command line
  and on stdin, and report what they do and see as one JSON object per line on stdout. Test suites of
  other stacks run against them and assert these lines, so what the programs send, count and print
  has to be right.

  \<^bold>\<open>How the program is modelled.\<close> A struct is a record, the state of a program one record that every
  operation returns changed; a library call is recorded in order in that state and answered by a
  parameter that may look at the calls before it, so that every behaviour of the network, the clock
  and the library is covered. A C call that has no defined result (a null pointer, a read beyond a
  buffer, a signed overflow, a division by zero) is \<open>Undefined\<close> of the type \<open>outcome\<close>; that it is not
  reached is a theorem, not an assumption. Integers keep their width: \<open>u8\<close> to \<open>u64\<close> wrap as in C,
  \<open>int\<close> is used where the code's range is checked. Strings are C strings: what a function does with
  a NUL, and where \<open>snprintf\<close> cuts a text off, is written out.

  \<^bold>\<open>Parameters.\<close> json-c, libiec61850 and floating point are not part of the repository. They appear as
  \<open>value_lib\<close> (JSON parsing, float casts, the octets of times), \<open>text_lib\<close> (more of the same for
  printing), \<open>server_lib\<close> (the value cache, \<open>MmsValue_update\<close>, the encoder), the decoders of GOOSE and
  SV frames, \<open>connection\<close> (an MMS association), \<open>ied_connection\<close> (the same above ACSI), \<open>client_lib\<close> (the texts of
  numbers and times in \<open>mms_client.c\<close>), \<open>mms_access\<close> (the accessors of a value that the SV publisher uses) and \<open>ied_model\<close> (the data model
  the build generates for the IED server). The laws the code relies on are predicates
  (\<open>value_lib_ok\<close>, \<open>cache_find_ok\<close>, \<open>update_ok\<close>) and are premises where they are used; \<open>sample_lib\<close>,
  \<open>sample_server_lib\<close> and \<open>sample_text_lib\<close> show that they can be met.

  \<^bold>\<open>The theories\<close>, in the order in which they build on each other:

  \<^item> \<open>Prelude\<close>: the word types, \<open>outcome\<close>, the loop that stops at the first error (\<open>traverse\<close>), and the
    interface \<open>codec\<close> of a printer and the parser that reads it back.
  \<^item> \<open>CText\<close>, \<open>CTime\<close>: what the adapters use of the C library on text and time: \<open>snprintf\<close>, \<open>strtoul\<close>,
    \<open>strtol\<close>, \<open>atoi\<close>, \<open>%u\<close>, \<open>%d\<close>, \<open>%x\<close>, \<open>timegm\<close>, \<open>gmtime_r\<close>, \<open>strftime\<close> and \<open>strptime\<close> of the ISO
    format.
  \<^item> \<open>Values\<close>: JSON values and MMS values, and the library record \<open>value_lib\<close>.
  \<^item> \<open>GooseCommon\<close>: \<open>goose_common.c\<close>. Typed JSON to and from MMS values, times, APPIDs and MAC
    addresses; round trips of all of them, and what \<open>{"type":null}\<close> does.
  \<^item> \<open>LineReader\<close>, \<open>Commands\<close>: the stdin reader both publishers contain and what their handlers
    share. The handler is the interface \<open>line_client\<close>; from the reads follow the lines it gets
    (\<open>lines_after\<close>, \<open>complete_lines\<close>), whatever the cuts.
  \<^item> \<open>GoosePublisher\<close>: \<open>goose_publisher.c\<close>. Options, retransmission schedule, frames, state changes
    and the main loop. The events announce exactly the frames the library accepted, with the numbers
    they carry, the schedule doubles up to its maximum, the next frame is due within the announced
    time, the data set follows the commands on stdin however they are cut into reads, and no
    well-formed line reaches undefined behaviour.
  \<^item> \<open>StreamTable\<close>: the interface \<open>slot_table\<close> of the subscribers' tables of at most 64 streams.
  \<^item> \<open>GooseSubscriber\<close>: \<open>goose_subscriber.c\<close>. Per stream, timeout and recovery events alternate, over
    every interleaving of frames, checks and streams.
  \<^item> \<open>SvCommon\<close>, \<open>SvPublisher\<close>, \<open>SvSubscriber\<close>: \<open>sv_common.c\<close>, \<open>sv_publisher.c\<close>, \<open>sv_subscriber.c\<close>. Samples
    are numbered without a gap modulo the wrap; the pacing does not drift; the counts of received,
    lost, duplicate and late samples are exact for interleaved streams with losses below half the
    wrap; every read of the decoder and of the BER header stays inside its buffer.
  \<^item> \<open>Fixture\<close>: \<open>fixture.c\<close>. The loader of the MMS server's JSON fixture: what it loads is well-typed, and
    it reads values as \<open>GooseCommon\<close> does where both accept them.
  \<^item> \<open>FixtureFree\<close>: \<open>fixture_free\<close> of the same file, over the blocks a fixture owns: footprints with an
    arbitrary frame, as in separation logic. It reads nothing it has released, releases nothing twice
    and leaves nothing.
  \<^item> \<open>JsonLines\<close>: \<open>jsonlines.h\<close>, the ready event, the lines on stderr and the meta flags.
  \<^item> \<open>FrameLoop\<close>: the raw socket of both subscribers, with the loop that alternates between what is due
    and the frames that are there. What is due and what becomes of a frame are the interface
    \<open>frame_client\<close>; the state is that of the checks and frames taken, in their order (\<open>loop_events\<close>).
  \<^item> \<open>MmsServer\<close>: \<open>mms_server.c\<close>. The write handler over the value cache, the reports a write triggers,
    the journal readers, the file store, registration and start-up. A pointer into a cached value is
    an item and a path of indices. Under any sequence of writes, those of index ranges included, which
    the library applies without the handler, every variable keeps its type, and one that is neither
    writable nor an array its value.
  \<^item> \<open>JsonText\<close>: the string builder of \<open>mms_client_services.c\<close>, which refines appending to a text, and
    the JSON texts of strings, values and types, with the grammar of RFC 8259 as specification.
  \<^item> \<open>MmsServices\<close>: the rest of \<open>mms_client_services.c\<close>. Every service as a sequence of steps; the run
    prints the lines of the output contract in order, each of them JSON, and ends if the server
    does not announce more for ever (interface \<open>request_loop\<close>).
  \<^item> \<open>OutLine\<close>: the lines the other clients print, and when such a line is JSON.
  \<^item> \<open>IedCommon\<close>: the requests of an \<open>IedConnection\<close>, the run of a client and its command line.
  \<^item> \<open>IedController\<close>: \<open>ied_controller.c\<close>. The control sequences, against a machine of the control
    protocol of IEC 61850-7-2; what the lines report is what the server accepted.
  \<^item> \<open>IedReporter\<close>: \<open>ied_reporter.c\<close>. The report callback and the line of a report, and the session,
    in which a block that was enabled is always asked to be disabled.
  \<^item> \<open>IedClient\<close>: \<open>ied_client.c\<close>. The fixed sequence of directory, read, write and data set operations;
    each reports one line, and the exit code is 0 exactly if all succeeded.
  \<^item> \<open>IedServer\<close>: \<open>ied_server.c\<close>. Start-up with the initial values, the write access policy and the
    control handlers: under any order of operates and client writes each attribute of the model
    follows the requests that concern it.
  \<^item> \<open>MmsClient\<close>: \<open>mms_client.c\<close>. The four connections, every operation of the sequence, and
    \<open>run_services\<close> among them: which lines come, that they are JSON, and that the client returns; and
    standard output as the calls of the main thread woven with those of the report handler.
  \<^item> \<open>GooseLink\<close>, \<open>GooseRun\<close>, \<open>SvLink\<close>, \<open>SvRun\<close>, \<open>SvValues\<close>, \<open>MmsLink\<close>: pairs of programs. A GOOSE subscriber
    reports a timeout of a publisher whose host keeps up exactly when it has fallen silent; an SV
    subscriber counts exactly the samples of a publisher that the network lost, and prints the values
    that were set there; the MMS client reads the MMS server's variables with their types, and
    prints the fixture's value of each variable that is neither writable nor an array. \<open>GooseRun\<close> and \<open>SvRun\<close> hold the
    main functions of the subscribers, and bring what \<open>GooseLink\<close> and \<open>SvLink\<close> show of the listeners to
    the frames their loops take.
  \<^item> \<open>GooseSupervision\<close>: the specification of the GOOSE subscriber's supervision, one supervisor per
    stream, which the program refines from its main function on.

  \<^bold>\<open>Interfaces.\<close> \<open>codec\<close> is interpreted by the MAC, APPID, octet-string, bit-string, quality and sampling
  mode texts and by JSON strings; \<open>line_client\<close> and \<open>total_client\<close> by both publishers' handlers,
  \<open>observed_client\<close>, for what a handler makes of each line, by the GOOSE publisher's;
  \<open>slot_table\<close> and \<open>frame_client\<close> by both subscribers; \<open>request_loop\<close> by the directory listing and the file transfer;
  \<open>reader\<close> by the ten decoders of the MMS client.

  \<^bold>\<open>Bounds and termination.\<close> Loops of the code over lists and counters are total functions. The loops a
  peer can prolong (\<open>directory_loop\<close>, \<open>file_read_loop\<close>, \<open>drain\<close>) and the one of \<open>sb_printf\<close> are partial
  functions with None for a run that does not end; \<open>services_return\<close>, \<open>mms_client_returns\<close> and \<open>sb_refines\<close>
  prove that they return, \<open>drain_returns\<close> that a pause between frames is enough. The programs' main loops are step relations (\<open>reaches\<close>, \<open>loop_reaches\<close>, \<open>served\<close>) whose
  invariants hold after any number of steps. No fuel is used.

  \<^bold>\<open>Not modelled.\<close> Memory that cannot be allocated, the freeing of memory outside \<open>fixture_free\<close>, most
  log lines on stderr and signals are left out; a signal ends a main loop between two steps. Lines of output are atomic,
  but for those of \<open>mms_client.c\<close>: there the main thread's lines and those that \<open>report_handler\<close> prints
  from another thread are woven together as the one output mutex allows (\<open>client_stdout\<close>). The adapters in other languages and the scripts that run the suites
  are outside this development.
\<close>

end
